(* ===== verification/Prelude.thy ===== *)
theory Prelude
  imports Main "HOL-Library.Sublist" "HOL-Library.Char_ord" "HOL-Library.List_Lexorder"
    "HOL-Library.AList" "HOL-Library.Multiset" "HOL-Library.Word"
begin

text \<open>
  Shared vocabulary of the development. A Go string and a Go byte slice are both
  sequences of bytes, so both are \<open>string\<close> here: one \<open>char\<close> is one byte, conversions
  between the two types are the identity, and \<open>length\<close> is Go's \<open>len\<close>.
  The theory holds the functions of Go's \<open>strings\<close> package the sources call, the
  generic facts on lists, association lists (Go maps with an executable
  representation) and sums that the components share, and the collections their
  proofs draw on.
\<close>

type_synonym bytes = string
type_synonym ('k, 'v) gomap = "('k \<times> 'v) list"

named_theorems go_simps \<open>equations of the Go library functions\<close>
named_theorems wf_intros \<open>introduction rules for well-formedness invariants\<close>

section \<open>Lists and association lists\<close>

text \<open>\<open>zero_bytes\<close> is the effect of a loop that stores 0 in every element of a slice.\<close>

definition zeros :: "nat \<Rightarrow> bytes" where
  "zeros n = replicate n (CHR 0x00)"

lemma length_zeros [simp]: "length (zeros n) = n"
  by (simp add: zeros_def)

definition all_zero :: "bytes \<Rightarrow> bool" where
  "all_zero b \<longleftrightarrow> list_all (\<lambda>c. c = CHR 0x00) b"

lemma all_zero_zeros [simp]: "all_zero (zeros n)"
  by (simp add: all_zero_def zeros_def list_all_iff)

lemma all_zero_Nil [simp]: "all_zero []"
  by (simp add: all_zero_def)

abbreviation keys :: "('k, 'v) gomap \<Rightarrow> 'k list" where
  "keys m \<equiv> map fst m"

lemma map_of_update [simp]: "map_of (AList.update k v m) = (map_of m)(k \<mapsto> v)"
  by (rule update_conv')

lemma map_of_delete [simp]: "map_of (AList.delete k m) = (map_of m)(k := None)"
  by (rule delete_conv')

lemma distinct_keys_update: "distinct (keys m) \<Longrightarrow> distinct (keys (AList.update k v m))"
  by (rule distinct_update)

lemma distinct_keys_delete: "distinct (keys m) \<Longrightarrow> distinct (keys (AList.delete k m))"
  by (rule distinct_delete)

lemma set_update_subset: "set (AList.update k v m) \<subseteq> insert (k, v) (set m)"
  by (induction m) auto

lemma set_delete_subset: "set (AList.delete k m) \<subseteq> set m"
  by (simp add: AList.delete_eq)

lemma ball_update:
  assumes "\<And>kv. kv \<in> set m \<Longrightarrow> P kv" and "P (k, v)" and "kv \<in> set (AList.update k v m)"
  shows "P kv"
  using assms set_update_subset [of k v m] by blast

lemma map_of_SomeI: "distinct (keys m) \<Longrightarrow> (k, v) \<in> set m \<Longrightarrow> map_of m k = Some v"
  by simp

text \<open>A sum over the values of a map changes by the difference when one entry changes.\<close>

definition sum_vals :: "('v \<Rightarrow> int) \<Rightarrow> ('k, 'v) gomap \<Rightarrow> int" where
  "sum_vals f m = sum_list (map (f \<circ> snd) m)"

lemma sum_vals_simps [simp]:
  "sum_vals f [] = 0"
  "sum_vals f ((k, v) # m) = f v + sum_vals f m"
  by (simp_all add: sum_vals_def)

lemma sum_vals_update_new:
  "map_of m k = None \<Longrightarrow> sum_vals f (AList.update k v m) = sum_vals f m + f v"
  by (induction m) (auto split: if_splits)

lemma sum_vals_update_old:
  "distinct (keys m) \<Longrightarrow> map_of m k = Some u \<Longrightarrow>
     sum_vals f (AList.update k v m) = sum_vals f m - f u + f v"
  by (induction m) (auto split: if_splits)

lemma delete_absent: "k \<notin> set (keys m) \<Longrightarrow> AList.delete k m = m"
  by (force simp: AList.delete_eq filter_id_conv)

lemma sum_vals_delete:
  "distinct (keys m) \<Longrightarrow> map_of m k = Some u \<Longrightarrow>
     sum_vals f (AList.delete k m) = sum_vals f m - f u"
proof (induction m)
  case (Cons kv m)
  then show ?case
    by (cases kv) (auto simp: delete_absent split: if_splits)
qed simp

lemma sum_vals_nonneg: "(\<And>k v. (k, v) \<in> set m \<Longrightarrow> 0 \<le> f v) \<Longrightarrow> 0 \<le> sum_vals f m"
  by (auto simp: sum_vals_def intro!: sum_list_nonneg)

section \<open>The \<open>strings\<close> package\<close>

abbreviation has_prefix :: "string \<Rightarrow> string \<Rightarrow> bool" where
  "has_prefix s p \<equiv> prefix p s"

abbreviation has_suffix :: "string \<Rightarrow> string \<Rightarrow> bool" where
  "has_suffix s p \<equiv> suffix p s"

abbreviation contains :: "string \<Rightarrow> string \<Rightarrow> bool" where
  "contains s p \<equiv> sublist p s"

definition trim_prefix :: "string \<Rightarrow> string \<Rightarrow> string" where
  "trim_prefix s p = (if has_prefix s p then drop (length p) s else s)"

definition trim_suffix :: "string \<Rightarrow> string \<Rightarrow> string" where
  "trim_suffix s p = (if has_suffix s p then take (length s - length p) s else s)"

lemma trim_prefix_append [simp]: "trim_prefix (p @ s) p = s"
  by (simp add: trim_prefix_def)

lemma trim_suffix_append [simp]: "trim_suffix (s @ p) p = s"
  by (simp add: trim_suffix_def suffixI)

text \<open>\<open>strings.Split\<close> at a one-byte separator: always at least one part.\<close>

fun split_on :: "char \<Rightarrow> string \<Rightarrow> string list" where
  "split_on c [] = [[]]"
| "split_on c (x # xs) =
     (if x = c then [] # split_on c xs
      else (case split_on c xs of [] \<Rightarrow> [[x]] | p # ps \<Rightarrow> (x # p) # ps))"

text \<open>\<open>strings.Join\<close> with a one-byte separator.\<close>

fun join_on :: "char \<Rightarrow> string list \<Rightarrow> string" where
  "join_on c [] = []"
| "join_on c [p] = p"
| "join_on c (p # ps) = p @ c # join_on c ps"

lemma split_on_not_Nil [simp]: "split_on c s \<noteq> []"
  by (induction s) (auto split: list.splits)

lemma split_on_no_sep: "p \<in> set (split_on c s) \<Longrightarrow> c \<notin> set p"
  by (induction s arbitrary: p) (auto split: list.splits if_splits)

lemma split_on_plain: "c \<notin> set p \<Longrightarrow> split_on c p = [p]"
  by (induction p) auto

lemma split_on_append: "c \<notin> set p \<Longrightarrow> split_on c (p @ c # s) = p # split_on c s"
  by (induction p) auto

lemma split_join:
  "ps \<noteq> [] \<Longrightarrow> (\<And>p. p \<in> set ps \<Longrightarrow> c \<notin> set p) \<Longrightarrow> split_on c (join_on c ps) = ps"
  by (induction ps rule: join_on.induct) (auto simp: split_on_plain split_on_append)

lemma join_split: "join_on c (split_on c s) = s"
proof (induction s)
  case (Cons x s)
  then show ?case
    by (cases "split_on c s"; cases "tl (split_on c s)") (auto)
qed simp

lemma join_on_Cons: "join_on c (p # ps) = p @ (if ps = [] then [] else c # join_on c ps)"
  by (cases ps) auto

lemma join_on_snoc: "join_on c (ps @ [p]) = (if ps = [] then p else join_on c ps @ c # p)"
  by (induction ps) (auto simp: join_on_Cons)

end
