(* ===== verification/GoText.thy ===== *)
theory GoText
  imports Prelude
begin

text \<open>
  Go's text functions over byte strings: decoding UTF-8 into runes the way
  \<open>unicode/utf8\<close> does (an invalid byte is one rune of width one), \<open>strings.TrimSpace\<close>,
  \<open>strings.Fields\<close>, \<open>strings.ToUpper\<close>, the case folding \<open>encoding/json\<close> applies to keys,
  decimal integers (\<open>strconv\<close>) and hexadecimal text (\<open>encoding/hex\<close>).
  Bytes are read as \<open>int\<close> values, which the kernel evaluates fast.
\<close>

abbreviation ord :: "char \<Rightarrow> int" where
  "ord \<equiv> of_char"

lemma ord_bounds [simp]: "0 \<le> ord c" "ord c < 256"
  by (cases c; simp)+

lemma ord_char_of [simp]: "0 \<le> n \<Longrightarrow> n < 256 \<Longrightarrow> ord (char_of n) = n"
  by simp

section \<open>Runes\<close>

datatype rune = Rune (rbytes: bytes) | BadByte char

definition cont :: "char \<Rightarrow> bool" where
  "cont c \<longleftrightarrow> 128 \<le> ord c \<and> ord c < 192"

text \<open>Width of the valid rune a string starts with, 0 when it starts with none.\<close>

fun tail2 :: "bytes \<Rightarrow> bool" where
  "tail2 (b # _) = cont b"
| "tail2 _ = False"

fun tail3 :: "int \<Rightarrow> bytes \<Rightarrow> bool" where
  "tail3 n (b # c # _) \<longleftrightarrow> cont b \<and> cont c \<and> (n = 224 \<longrightarrow> 160 \<le> ord b) \<and> (n = 237 \<longrightarrow> ord b < 160)"
| "tail3 n _ = False"

fun tail4 :: "int \<Rightarrow> bytes \<Rightarrow> bool" where
  "tail4 n (b # c # d # _) \<longleftrightarrow>
     cont b \<and> cont c \<and> cont d \<and> (n = 240 \<longrightarrow> 144 \<le> ord b) \<and> (n = 244 \<longrightarrow> ord b < 144)"
| "tail4 n _ = False"

fun rune_len :: "bytes \<Rightarrow> nat" where
  "rune_len [] = 0"
| "rune_len (a # r) =
     (let n = ord a
      in if n < 128 then 1
         else if 194 \<le> n \<and> n \<le> 223 \<and> tail2 r then 2
         else if 224 \<le> n \<and> n \<le> 239 \<and> tail3 n r then 3
         else if 240 \<le> n \<and> n \<le> 244 \<and> tail4 n r then 4
         else 0)"

lemma tail_cases:
  "tail2 r \<longleftrightarrow> (\<exists>b r'. r = b # r' \<and> cont b)"
  "tail3 n r \<longleftrightarrow> (\<exists>b c r'. r = b # c # r' \<and> cont b \<and> cont c \<and>
      (n = 224 \<longrightarrow> 160 \<le> ord b) \<and> (n = 237 \<longrightarrow> ord b < 160))"
  "tail4 n r \<longleftrightarrow> (\<exists>b c d r'. r = b # c # d # r' \<and> cont b \<and> cont c \<and> cont d \<and>
      (n = 240 \<longrightarrow> 144 \<le> ord b) \<and> (n = 244 \<longrightarrow> ord b < 144))"
proof -
  show "tail2 r \<longleftrightarrow> (\<exists>b r'. r = b # r' \<and> cont b)"
    by (cases r rule: tail2.cases) auto
  show "tail3 n r \<longleftrightarrow> (\<exists>b c r'. r = b # c # r' \<and> cont b \<and> cont c \<and>
      (n = 224 \<longrightarrow> 160 \<le> ord b) \<and> (n = 237 \<longrightarrow> ord b < 160))"
    by (cases "(n, r)" rule: tail3.cases) auto
  show "tail4 n r \<longleftrightarrow> (\<exists>b c d r'. r = b # c # d # r' \<and> cont b \<and> cont c \<and> cont d \<and>
      (n = 240 \<longrightarrow> 144 \<le> ord b) \<and> (n = 244 \<longrightarrow> ord b < 144))"
    by (cases "(n, r)" rule: tail4.cases) auto
qed

lemma rune_len_elim:
  assumes "rune_len s \<noteq> 0"
  obtains (1) a r where "s = a # r" "ord a < 128" "rune_len s = 1"
  | (2) a b r where "s = a # b # r" "194 \<le> ord a" "ord a \<le> 223" "cont b" "rune_len s = 2"
  | (3) a b c r where "s = a # b # c # r" "224 \<le> ord a" "ord a \<le> 239" "cont b" "cont c"
      "tail3 (ord a) (b # c # r)" "rune_len s = 3"
  | (4) a b c d r where "s = a # b # c # d # r" "240 \<le> ord a" "ord a \<le> 244" "cont b" "cont c" "cont d"
      "tail4 (ord a) (b # c # d # r)" "rune_len s = 4"
proof (cases s)
  case (Cons a r)
  consider "ord a < 128" | "194 \<le> ord a" "ord a \<le> 223" "tail2 r"
    | "224 \<le> ord a" "ord a \<le> 239" "tail3 (ord a) r" | "240 \<le> ord a" "ord a \<le> 244" "tail4 (ord a) r"
    using assms unfolding Cons by (auto simp: Let_def split: if_splits)
  then show thesis
  proof cases
    case 1
    with that(1) [of a r] show thesis by (simp add: Cons)
  next
    case 2
    with that(2) [of a] show thesis by (auto simp: Cons tail_cases(1))
  next
    case 3
    then obtain b c r' where "r = b # c # r'" "cont b" "cont c" unfolding tail_cases(2) by blast
    with 3 that(3) [of a b c r'] show thesis by (simp add: Cons)
  next
    case 4
    then obtain b c d r' where "r = b # c # d # r'" "cont b" "cont c" "cont d" unfolding tail_cases(3) by blast
    with 4 that(4) [of a b c d r'] show thesis by (simp add: Cons)
  qed
qed (use assms in simp)

lemma rune_len_ascii: "ord c < 128 \<Longrightarrow> rune_len (c # r) = 1"
  by simp

lemma rune_len_le: "rune_len s \<le> length s"
  by (cases "rune_len s = 0"; (erule rune_len_elim)?) auto

lemma rune_len_take: "rune_len s \<noteq> 0 \<Longrightarrow> rune_len (take (rune_len s) s @ t) = rune_len s"
  by (erule rune_len_elim) (auto simp: eval_nat_numeral)

text \<open>Every byte of a rune of two or more bytes has its high bit set.\<close>

lemma rune_bytes_high:
  "rune_len (c # r) \<noteq> 0 \<Longrightarrow> \<not> ord c < 128 \<Longrightarrow> x \<in> set (take (rune_len (c # r)) (c # r)) \<Longrightarrow> 128 \<le> ord x"
  by (erule rune_len_elim) (auto simp: cont_def eval_nat_numeral)

declare rune_len.simps(2) [simp del]

function runes :: "bytes \<Rightarrow> rune list" where
  "runes [] = []"
| "runes (c # r) =
     (let n = rune_len (c # r)
      in if n = 0 then BadByte c # runes r
         else Rune (take n (c # r)) # runes (drop n (c # r)))"
  by pat_completeness auto
termination
  by (relation "measure length") auto

fun rune_raw :: "rune \<Rightarrow> bytes" where
  "rune_raw (Rune b) = b"
| "rune_raw (BadByte c) = [c]"

definition flat :: "rune list \<Rightarrow> bytes" where
  "flat rs = concat (map rune_raw rs)"

lemma flat_simps [simp]: "flat [] = []" "flat (r # rs) = rune_raw r @ flat rs"
  "flat (xs @ ys) = flat xs @ flat ys"
  by (simp_all add: flat_def)

lemma flat_runes [simp]: "flat (runes s) = s"
  by (induction s rule: runes.induct) (auto simp: Let_def append_take_drop_id simp del: drop_Cons' take_Cons')

text \<open>The replacement character U+FFFD, and a string with every invalid byte replaced by it.\<close>

definition repl_char :: bytes where
  "repl_char = [CHR 0xEF, CHR 0xBF, CHR 0xBD]"

fun rune_valid :: "rune \<Rightarrow> bytes" where
  "rune_valid (Rune b) = b"
| "rune_valid (BadByte c) = repl_char"

definition to_valid :: "bytes \<Rightarrow> bytes" where
  "to_valid s = concat (map rune_valid (runes s))"

definition utf8_valid :: "bytes \<Rightarrow> bool" where
  "utf8_valid s \<longleftrightarrow> list_all (\<lambda>r. case r of Rune _ \<Rightarrow> True | _ \<Rightarrow> False) (runes s)"

lemma to_valid_id: "utf8_valid s \<Longrightarrow> to_valid s = s"
proof -
  assume "utf8_valid s"
  then have "map rune_valid (runes s) = map rune_raw (runes s)"
    unfolding utf8_valid_def list_all_iff by (auto split: rune.splits) (metis rune.exhaust rune_raw.simps(1) rune_valid.simps(1))
  then show ?thesis unfolding to_valid_def by (metis flat_def flat_runes)
qed

lemma runes_ascii: "list_all (\<lambda>c. ord c < 128) s \<Longrightarrow> runes s = map (\<lambda>c. Rune [c]) s"
  by (induction s) (auto simp: rune_len_ascii)

lemma utf8_valid_ascii: "list_all (\<lambda>c. ord c < 128) s \<Longrightarrow> utf8_valid s"
  by (simp add: utf8_valid_def runes_ascii list_all_iff)

lemma to_valid_ascii: "list_all (\<lambda>c. ord c < 128) s \<Longrightarrow> to_valid s = s"
  by (simp add: to_valid_id utf8_valid_ascii)

section \<open>White space\<close>

definition ascii_space :: "char \<Rightarrow> bool" where
  "ascii_space c \<longleftrightarrow> (9 \<le> ord c \<and> ord c \<le> 13) \<or> ord c = 32"

text \<open>\<open>unicode.IsSpace\<close>.\<close>

definition is_space :: "rune \<Rightarrow> bool" where
  "is_space r =
     (case r of
        Rune [a] \<Rightarrow> ascii_space a
      | Rune [a, b] \<Rightarrow> ord a = 0xC2 \<and> (ord b = 0x85 \<or> ord b = 0xA0)
      | Rune [a, b, c] \<Rightarrow>
          (ord a = 0xE1 \<and> ord b = 0x9A \<and> ord c = 0x80) \<or>
          (ord a = 0xE2 \<and> ord b = 0x80 \<and> (ord c \<le> 0x8A \<or> ord c = 0xA8 \<or> ord c = 0xA9 \<or> ord c = 0xAF)) \<or>
          (ord a = 0xE2 \<and> ord b = 0x81 \<and> ord c = 0x9F) \<or>
          (ord a = 0xE3 \<and> ord b = 0x80 \<and> ord c = 0x80)
      | _ \<Rightarrow> False)"

definition trim_runes :: "rune list \<Rightarrow> rune list" where
  "trim_runes rs = rev (dropWhile is_space (rev (dropWhile is_space rs)))"

definition trim_space :: "string \<Rightarrow> string" where
  "trim_space s = flat (trim_runes (runes s))"

fun field_runes :: "rune list \<Rightarrow> rune list list" where
  "field_runes [] = []"
| "field_runes (r # rs) =
     (if is_space r then field_runes rs
      else case rs of
             [] \<Rightarrow> [[r]]
           | r' # _ \<Rightarrow> if is_space r' then [r] # field_runes rs
                      else (case field_runes rs of [] \<Rightarrow> [[r]] | f # fs \<Rightarrow> (r # f) # fs))"

text \<open>\<open>strings.Fields\<close>.\<close>

definition fields :: "string \<Rightarrow> string list" where
  "fields s = map flat (field_runes (runes s))"

section \<open>Case mapping\<close>

definition upper_char :: "char \<Rightarrow> char" where
  "upper_char c = (if 97 \<le> ord c \<and> ord c \<le> 122 then char_of (ord c - 32) else c)"

definition lower_char :: "char \<Rightarrow> char" where
  "lower_char c = (if 65 \<le> ord c \<and> ord c \<le> 90 then char_of (ord c + 32) else c)"

text \<open>
  \<open>strings.ToUpper\<close>. Outside ASCII only the two runes whose upper case is an ASCII letter
  (dotless i, long s) are mapped: every other one stays a non-ASCII rune, so that
  comparing the result with an ASCII name is exact.
\<close>

definition upper_rune :: "rune \<Rightarrow> bytes" where
  "upper_rune r =
     (case r of
        Rune [c] \<Rightarrow> [upper_char c]
      | Rune b \<Rightarrow> (if b = [CHR 0xC4, CHR 0xB1] then ''I''
                   else if b = [CHR 0xC5, CHR 0xBF] then ''S'' else b)
      | BadByte c \<Rightarrow> repl_char)"

definition to_upper :: "string \<Rightarrow> string" where
  "to_upper s = concat (map upper_rune (runes s))"

text \<open>The folding of \<open>encoding/json\<close>'s key match: long s and the Kelvin sign fold to ASCII.\<close>

definition fold_rune :: "rune \<Rightarrow> bytes" where
  "fold_rune r =
     (case r of
        Rune [c] \<Rightarrow> [upper_char c]
      | Rune b \<Rightarrow> (if b = [CHR 0xC5, CHR 0xBF] then ''S''
                   else if b = [CHR 0xE2, CHR 0x84, CHR 0xAA] then ''K'' else b)
      | BadByte c \<Rightarrow> repl_char)"

definition fold_name :: "string \<Rightarrow> string" where
  "fold_name s = concat (map fold_rune (runes s))"

section \<open>Decimal and hexadecimal text\<close>

definition digit_char :: "int \<Rightarrow> char" where
  "digit_char n = char_of (48 + n)"

definition is_digit :: "char \<Rightarrow> bool" where
  "is_digit c \<longleftrightarrow> 48 \<le> ord c \<and> ord c \<le> 57"

function dec_digits :: "int \<Rightarrow> string" where
  "dec_digits n = (if n < 10 then [digit_char n] else dec_digits (n div 10) @ [digit_char (n mod 10)])"
  by pat_completeness auto
termination
  by (relation "measure nat") auto

declare dec_digits.simps [simp del]

text \<open>\<open>strconv.Itoa\<close>.\<close>

definition itoa :: "int \<Rightarrow> string" where
  "itoa n = (if n < 0 then CHR ''-'' # dec_digits (- n) else dec_digits n)"

definition dec_val :: "string \<Rightarrow> int" where
  "dec_val s = foldl (\<lambda>a c. 10 * a + (ord c - 48)) 0 s"

lemma is_digit_char: "0 \<le> n \<Longrightarrow> n < 10 \<Longrightarrow> is_digit (digit_char n)"
  by (simp add: is_digit_def digit_char_def)

lemma dec_digits_digits: "0 \<le> n \<Longrightarrow> list_all is_digit (dec_digits n)"
proof (induction n rule: dec_digits.induct)
  case (1 n)
  then show ?case by (subst dec_digits.simps) (auto simp: is_digit_char)
qed

lemma dec_digits_not_Nil: "dec_digits n \<noteq> []"
  by (subst dec_digits.simps) simp

lemma dec_digits_hd: "0 \<le> n \<Longrightarrow> hd (dec_digits n) = CHR ''0'' \<Longrightarrow> n = 0"
proof (induction n rule: dec_digits.induct)
  case (1 n)
  show ?case
  proof (cases "n < 10")
    case True
    then have "char_of (48 + n) = CHR ''0''" using 1(3) by (simp add: dec_digits.simps digit_char_def)
    then have "ord (char_of (48 + n)) = 48" by simp
    then show ?thesis using True 1(2) by simp
  next
    case False
    then have "hd (dec_digits (n div 10)) = CHR ''0''"
      using 1(3) dec_digits_not_Nil [of "n div 10"] by (subst (asm) dec_digits.simps) simp
    then have "n div 10 = 0" using 1(1) [OF False] 1(2) by simp
    then show ?thesis using False by simp
  qed
qed

lemma dec_val_digits: "0 \<le> n \<Longrightarrow> dec_val (dec_digits n) = n"
proof (induction n rule: dec_digits.induct)
  case (1 n)
  show ?case
  proof (cases "n < 10")
    case True
    then show ?thesis using 1(2) by (simp add: dec_digits.simps dec_val_def digit_char_def)
  next
    case False
    then have "dec_val (dec_digits (n div 10)) = n div 10" using 1 by simp
    then show ?thesis using False 1(2)
      by (subst dec_digits.simps) (simp add: dec_val_def digit_char_def)
  qed
qed

definition hex_char :: "int \<Rightarrow> char" where
  "hex_char n = char_of (if n < 10 then 48 + n else 87 + n)"

definition hex_val :: "char \<Rightarrow> int option" where
  "hex_val c =
     (let n = ord c
      in if 48 \<le> n \<and> n \<le> 57 then Some (n - 48)
         else if 97 \<le> n \<and> n \<le> 102 then Some (n - 87)
         else if 65 \<le> n \<and> n \<le> 70 then Some (n - 55)
         else None)"

text \<open>\<open>hex.EncodeToString\<close>.\<close>

definition hex_encode :: "bytes \<Rightarrow> string" where
  "hex_encode b = concat (map (\<lambda>c. [hex_char (ord c div 16), hex_char (ord c mod 16)]) b)"

lemma hex_val_char [simp]: "0 \<le> n \<Longrightarrow> n < 16 \<Longrightarrow> hex_val (hex_char n) = Some n"
  by (auto simp: hex_val_def hex_char_def Let_def)

lemma div_16: "ord c div 16 < 16"
  using ord_bounds(2) [of c] by linarith

lemma hex_encode_valid: "utf8_valid (hex_encode b)"
proof (rule utf8_valid_ascii)
  have h: "ord (hex_char n) < 128" if "0 \<le> n" "n < 16" for n using that by (auto simp: hex_char_def digit_char_def)
  have "ord (hex_char (ord y div 16)) < 128" "ord (hex_char (ord y mod 16)) < 128" for y
    using h [of "ord y div 16"] h [of "ord y mod 16"] div_16 [of y] ord_bounds(1) [of y] by (simp_all add: pos_imp_zdiv_nonneg_iff)
  then show "list_all (\<lambda>c. ord c < 128) (hex_encode b)"
    by (auto simp: hex_encode_def list_all_iff)
qed

end
