(* ===== verification/GoJson.thy ===== *)
theory GoJson
  imports GoText
begin

text \<open>
  Go's \<open>encoding/json\<close> as the sources use it. \<open>json\<close> is a parsed document: an object
  keeps its members in order with duplicates, a number keeps its literal.
  \<open>marshal\<close> prints compactly with Go's escapes; \<open>parse_json\<close> is the syntax check and
  parser of \<open>json.Unmarshal\<close>; the struct decoders of the components read fields with
  \<open>get_str\<close> and its companions, which follow \<open>Unmarshal\<close>'s rules: keys match fields up to
  case folding, later duplicates win, \<open>null\<close> leaves a scalar alone, a value of another
  type is an error although decoding goes on. Go's limit of 10000 nested
  levels is not modelled.
\<close>

datatype json =
    JNull
  | JBool bool
  | JNum string
  | JStr bytes
  | JArr "json list"
  | JObj "(string \<times> json) list"

section \<open>Printing\<close>

definition hex4 :: "int \<Rightarrow> string" where
  "hex4 n = [CHR 0x5C, CHR ''u'', hex_char (n div 4096 mod 16), hex_char (n div 256 mod 16),
                       hex_char (n div 16 mod 16), hex_char (n mod 16)]"

definition esc_ascii :: "char \<Rightarrow> string" where
  "esc_ascii c =
     (let n = ord c
      in if n = 34 then [CHR 0x5C, CHR 0x22]
         else if n = 92 then [CHR 0x5C, CHR 0x5C]
         else if n = 8 then [CHR 0x5C, CHR ''b'']
         else if n = 12 then [CHR 0x5C, CHR ''f'']
         else if n = 10 then [CHR 0x5C, CHR ''n'']
         else if n = 13 then [CHR 0x5C, CHR ''r'']
         else if n = 9 then [CHR 0x5C, CHR ''t'']
         else if n < 32 \<or> n = 60 \<or> n = 62 \<or> n = 38 then hex4 n
         else [c])"

definition esc_rune :: "rune \<Rightarrow> string" where
  "esc_rune r =
     (case r of
        BadByte _ \<Rightarrow> hex4 0xFFFD
      | Rune [c] \<Rightarrow> esc_ascii c
      | Rune b \<Rightarrow> (if b = [CHR 0xE2, CHR 0x80, CHR 0xA8] then hex4 0x2028
                   else if b = [CHR 0xE2, CHR 0x80, CHR 0xA9] then hex4 0x2029 else b))"

definition json_quote :: "bytes \<Rightarrow> string" where
  "json_quote s = CHR 0x22 # concat (map esc_rune (runes s)) @ [CHR 0x22]"

fun sep_with :: "string \<Rightarrow> string list \<Rightarrow> string" where
  "sep_with s [] = []"
| "sep_with s [x] = x"
| "sep_with s (x # xs) = x @ s @ sep_with s xs"

fun marshal :: "json \<Rightarrow> string" where
  "marshal JNull = ''null''"
| "marshal (JBool b) = (if b then ''true'' else ''false'')"
| "marshal (JNum l) = l"
| "marshal (JStr s) = json_quote s"
| "marshal (JArr xs) = ''['' @ sep_with '','' (map marshal xs) @ '']''"
| "marshal (JObj kvs) = ''{'' @ sep_with '','' (map (\<lambda>(k, v). json_quote k @ '':'' @ marshal v) kvs) @ ''}''"

section \<open>Parsing\<close>

definition json_ws :: "char \<Rightarrow> bool" where
  "json_ws c \<longleftrightarrow> ord c = 32 \<or> ord c = 9 \<or> ord c = 10 \<or> ord c = 13"

abbreviation skip_ws :: "string \<Rightarrow> string" where
  "skip_ws \<equiv> dropWhile json_ws"

definition utf8_enc :: "int \<Rightarrow> bytes" where
  "utf8_enc n =
     (if n < 128 then [char_of n]
      else if n < 2048 then [char_of (192 + n div 64), char_of (128 + n mod 64)]
      else if n < 65536 then
        [char_of (224 + n div 4096), char_of (128 + n div 64 mod 64), char_of (128 + n mod 64)]
      else [char_of (240 + n div 262144), char_of (128 + n div 4096 mod 64),
            char_of (128 + n div 64 mod 64), char_of (128 + n mod 64)])"

text \<open>The four hexadecimal digits of a \<open>\u\<close> escape.\<close>

fun getu4 :: "string \<Rightarrow> (int \<times> string) option" where
  "getu4 (a # b # c # d # r) =
     (case (hex_val a, hex_val b, hex_val c, hex_val d) of
        (Some w, Some x, Some y, Some z) \<Rightarrow> Some (4096 * w + 256 * x + 16 * y + z, r)
      | _ \<Rightarrow> None)"
| "getu4 _ = None"

fun low_surrogate :: "string \<Rightarrow> (int \<times> string) option" where
  "low_surrogate (b # u # r) =
     (if b = CHR 0x5C \<and> u = CHR ''u'' then
        (case getu4 r of
           Some (n, r') \<Rightarrow> if 0xDC00 \<le> n \<and> n < 0xE000 then Some (n, r') else None
         | None \<Rightarrow> None)
      else None)"
| "low_surrogate _ = None"

text \<open>One escape sequence, after its backslash: the bytes it stands for and the rest.\<close>

fun unescape :: "string \<Rightarrow> (bytes \<times> string) option" where
  "unescape [] = None"
| "unescape (c # r) =
     (if c = CHR 0x22 \<or> c = CHR 0x5C \<or> c = CHR ''/'' then Some ([c], r)
      else if c = CHR ''b'' then Some ([CHR 0x08], r)
      else if c = CHR ''f'' then Some ([CHR 0x0C], r)
      else if c = CHR ''n'' then Some ([CHR 0x0A], r)
      else if c = CHR ''r'' then Some ([CHR 0x0D], r)
      else if c = CHR ''t'' then Some ([CHR 0x09], r)
      else if c = CHR ''u'' then
        (case getu4 r of
           None \<Rightarrow> None
         | Some (n, r') \<Rightarrow>
             if 0xD800 \<le> n \<and> n < 0xE000 then
               (case (if n < 0xDC00 then low_surrogate r' else None) of
                  Some (m, r'') \<Rightarrow> Some (utf8_enc (65536 + (n - 0xD800) * 1024 + (m - 0xDC00)), r'')
                | None \<Rightarrow> Some (repl_char, r'))
             else Some (utf8_enc n, r'))
      else None)"

lemma getu4_length: "getu4 s = Some (n, r) \<Longrightarrow> length r < length s"
  by (cases s rule: getu4.cases) (auto split: option.splits)

lemma low_surrogate_length: "low_surrogate s = Some (n, r) \<Longrightarrow> length r < length s"
  by (cases s rule: low_surrogate.cases) (auto split: option.splits if_splits dest: getu4_length)

lemma unescape_length: "unescape s = Some (b, r) \<Longrightarrow> length r < length s"
  by (cases s) (auto split: option.splits if_splits dest!: getu4_length low_surrogate_length)

definition pre :: "bytes \<Rightarrow> (bytes \<times> string) option \<Rightarrow> (bytes \<times> string) option" where
  "pre b x = map_option (\<lambda>(s, r). (b @ s, r)) x"

text \<open>The characters of a string literal, up to and without the closing quote.\<close>

function pchars :: "string \<Rightarrow> (bytes \<times> string) option" where
  "pchars [] = None"
| "pchars (c # r) =
     (if c = CHR 0x22 then Some ([], r)
      else if c = CHR 0x5C then
        (case unescape r of None \<Rightarrow> None | Some (b, r') \<Rightarrow> pre b (pchars r'))
      else if ord c < 32 then None
      else if rune_len (c # r) = 0 then pre repl_char (pchars r)
      else pre (take (rune_len (c # r)) (c # r)) (pchars (drop (rune_len (c # r)) (c # r))))"
  by pat_completeness auto
termination
  by (relation "measure length") (auto dest: unescape_length)

declare pchars.simps(2) [simp del]

text \<open>The grammar of numbers; the literal is kept.\<close>

definition pfrac :: "string \<Rightarrow> (string \<times> string) option" where
  "pfrac s =
     (case s of
        c # r \<Rightarrow>
          if c = CHR ''.'' then
            (let d = takeWhile is_digit r
             in if d = [] then None else Some (c # d, dropWhile is_digit r))
          else Some ([], s)
      | [] \<Rightarrow> Some ([], []))"

definition pexp :: "string \<Rightarrow> (string \<times> string) option" where
  "pexp s =
     (case s of
        c # r \<Rightarrow>
          if c = CHR ''e'' \<or> c = CHR ''E'' then
            (let sg = (case r of x # _ \<Rightarrow> if x = CHR ''+'' \<or> x = CHR ''-'' then [x] else [] | [] \<Rightarrow> []);
                 r' = drop (length sg) r;
                 d = takeWhile is_digit r'
             in if d = [] then None else Some (c # sg @ d, dropWhile is_digit r'))
          else Some ([], s)
      | [] \<Rightarrow> Some ([], []))"

definition pint :: "string \<Rightarrow> (string \<times> string) option" where
  "pint s =
     (let sg = (case s of x # _ \<Rightarrow> if x = CHR ''-'' then [x] else [] | [] \<Rightarrow> []);
          r = drop (length sg) s;
          d = takeWhile is_digit r
      in if d = [] \<or> (hd d = CHR ''0'' \<and> tl d \<noteq> []) then None
         else Some (sg @ d, dropWhile is_digit r))"

definition pnum :: "string \<Rightarrow> (string \<times> string) option" where
  "pnum s =
     (case pint s of
        None \<Rightarrow> None
      | Some (i, r) \<Rightarrow>
          (case pfrac r of
             None \<Rightarrow> None
           | Some (f, r') \<Rightarrow>
               (case pexp r' of None \<Rightarrow> None | Some (e, r'') \<Rightarrow> Some (i @ f @ e, r''))))"

fun pval :: "nat \<Rightarrow> string \<Rightarrow> (json \<times> string) option"
  and pelems :: "nat \<Rightarrow> string \<Rightarrow> (json list \<times> string) option"
  and pmembers :: "nat \<Rightarrow> string \<Rightarrow> ((string \<times> json) list \<times> string) option" where
  "pval 0 s = None"
| "pval (Suc k) s =
     (case skip_ws s of
        [] \<Rightarrow> None
      | c # r \<Rightarrow>
          if c = CHR 0x22 then map_option (apfst JStr) (pchars r)
          else if c = CHR ''['' then
            (if take 1 (skip_ws r) = '']'' then Some (JArr [], tl (skip_ws r))
             else map_option (apfst JArr) (pelems k r))
          else if c = CHR ''{'' then
            (if take 1 (skip_ws r) = ''}'' then Some (JObj [], tl (skip_ws r))
             else map_option (apfst JObj) (pmembers k r))
          else if has_prefix (c # r) ''null'' then Some (JNull, drop 4 (c # r))
          else if has_prefix (c # r) ''true'' then Some (JBool True, drop 4 (c # r))
          else if has_prefix (c # r) ''false'' then Some (JBool False, drop 5 (c # r))
          else map_option (apfst JNum) (pnum (c # r)))"
| "pelems 0 s = None"
| "pelems (Suc k) s =
     (case pval k s of
        None \<Rightarrow> None
      | Some (v, r) \<Rightarrow>
          (case skip_ws r of
             [] \<Rightarrow> None
           | c # r' \<Rightarrow>
               if c = CHR '','' then map_option (apfst (Cons v)) (pelems k r')
               else if c = CHR '']'' then Some ([v], r')
               else None))"
| "pmembers 0 s = None"
| "pmembers (Suc k) s =
     (case skip_ws s of
        [] \<Rightarrow> None
      | q # r \<Rightarrow>
          if q \<noteq> CHR 0x22 then None
          else (case pchars r of
                  None \<Rightarrow> None
                | Some (key, r1) \<Rightarrow>
                    (case skip_ws r1 of
                       [] \<Rightarrow> None
                     | c # r2 \<Rightarrow>
                         if c \<noteq> CHR '':'' then None
                         else (case pval k r2 of
                                 None \<Rightarrow> None
                               | Some (v, r3) \<Rightarrow>
                                   (case skip_ws r3 of
                                      [] \<Rightarrow> None
                                    | d # r4 \<Rightarrow>
                                        if d = CHR '','' then map_option (apfst (Cons (key, v))) (pmembers k r4)
                                        else if d = CHR ''}'' then Some ([(key, v)], r4)
                                        else None)))))"

text \<open>
  A step of the parser either consumes a byte or hands the same text to \<open>pval\<close>, so twice
  the length of the text is enough fuel.
\<close>

definition parse_json :: "string \<Rightarrow> json option" where
  "parse_json s =
     (case pval (2 * length s + 2) s of
        Some (v, r) \<Rightarrow> if skip_ws r = [] then Some v else None
      | None \<Rightarrow> None)"

section \<open>Round trip\<close>

text \<open>A string read back has its invalid bytes replaced; a document likewise.\<close>

fun coerce_json :: "json \<Rightarrow> json" where
  "coerce_json JNull = JNull"
| "coerce_json (JBool b) = JBool b"
| "coerce_json (JNum l) = JNum l"
| "coerce_json (JStr s) = JStr (to_valid s)"
| "coerce_json (JArr xs) = JArr (map coerce_json xs)"
| "coerce_json (JObj kvs) = JObj (map (\<lambda>(k, v). (to_valid k, coerce_json v)) kvs)"

definition num_ok :: "string \<Rightarrow> bool" where
  "num_ok l \<longleftrightarrow> pnum l = Some (l, [])"

fun nums_ok :: "json \<Rightarrow> bool" where
  "nums_ok (JNum l) = num_ok l"
| "nums_ok (JArr xs) = list_all nums_ok xs"
| "nums_ok (JObj kvs) = list_all (\<lambda>(k, v). nums_ok v) kvs"
| "nums_ok _ = True"

fun good_rune :: "rune \<Rightarrow> bool" where
  "good_rune (Rune b) \<longleftrightarrow> b \<noteq> [] \<and> rune_len b = length b"
| "good_rune (BadByte c) = True"

lemma runes_good: "list_all good_rune (runes s)"
proof (induction s rule: runes.induct)
  case (2 c r)
  then show ?case
    using rune_len_take [of "c # r" "[]"] rune_len_le [of "c # r"] by (auto simp: Let_def)
qed simp

lemma pre_simps [simp]: "pre b None = None" "pre b (Some (s, r)) = Some (b @ s, r)"
  "pre a (pre b x) = pre (a @ b) x" "pre [] x = x"
  by (cases x; auto simp: pre_def)+

lemma getu4_hex4:
  assumes "0 \<le> n" and "n < 65536"
  shows "getu4 (drop 2 (hex4 n) @ t) = Some (n, t)"
proof -
  have t: "n div 4096 mod 16 = n div 4096" using assms by simp
  have "n = 16 * (n div 16) + n mod 16" "n div 16 = 16 * (n div 256) + n div 16 mod 16"
    "n div 256 = 16 * (n div 4096) + n div 256 mod 16"
    using zdiv_zmult2_eq [of 16 n 16] zdiv_zmult2_eq [of 16 n 256] by simp_all
  then have e: "4096 * (n div 4096) + 256 * (n div 256 mod 16) + 16 * (n div 16 mod 16) + n mod 16 = n"
    by linarith
  have "hex_val (hex_char (n div 4096)) = Some (n div 4096)" using assms by simp
  then show ?thesis by (simp add: hex4_def t e del: hex_val_char) (simp add: e)
qed

lemma pchars_backslash: "pchars (CHR 0x5C # r) = (case unescape r of None \<Rightarrow> None | Some (b, r') \<Rightarrow> pre b (pchars r'))"
  by (simp add: pchars.simps(2))

lemma pchars_hex4:
  assumes "0 \<le> n" and "n < 0xD800 \<or> 0xE000 \<le> n" and "n < 65536"
  shows "pchars (hex4 n @ t) = pre (utf8_enc n) (pchars t)"
proof -
  have "hex4 n @ t = CHR 0x5C # CHR ''u'' # drop 2 (hex4 n) @ t" by (simp add: hex4_def)
  moreover have "unescape (CHR ''u'' # drop 2 (hex4 n) @ t) = Some (utf8_enc n, t)"
    using assms getu4_hex4 [of n t] by auto
  ultimately show ?thesis by (simp only: pchars_backslash option.case prod.case)
qed

lemma utf8_enc_ascii: "0 \<le> n \<Longrightarrow> n < 128 \<Longrightarrow> utf8_enc n = [char_of n]"
  by (simp add: utf8_enc_def)

lemma ord_eq_char: "ord c = ord d \<Longrightarrow> c = d"
  by (metis char_of_char)

lemma pchars_plain:
  "ord c < 128 \<Longrightarrow> 32 \<le> ord c \<Longrightarrow> c \<noteq> CHR 0x22 \<Longrightarrow> c \<noteq> CHR 0x5C \<Longrightarrow> pchars (c # t) = pre [c] (pchars t)"
  by (simp add: pchars.simps(2) rune_len_ascii)

lemma pchars_ascii:
  assumes "ord c < 128"
  shows "pchars (esc_ascii c @ t) = pre [c] (pchars t)"
proof (cases "c \<in> set [CHR 0x22, CHR 0x5C, CHR 0x08, CHR 0x0C, CHR 0x0A, CHR 0x0D, CHR 0x09]")
  case True
  then show ?thesis by (auto simp: esc_ascii_def pchars_backslash)
next
  case False
  then have n: "ord c \<noteq> 34" "ord c \<noteq> 92" "ord c \<noteq> 8" "ord c \<noteq> 12" "ord c \<noteq> 10" "ord c \<noteq> 13" "ord c \<noteq> 9"
    using ord_eq_char [of c "CHR 0x22"] ord_eq_char [of c "CHR 0x5C"] ord_eq_char [of c "CHR 0x08"]
      ord_eq_char [of c "CHR 0x0C"] ord_eq_char [of c "CHR 0x0A"] ord_eq_char [of c "CHR 0x0D"]
      ord_eq_char [of c "CHR 0x09"] by auto
  show ?thesis
  proof (cases "ord c < 32 \<or> ord c = 60 \<or> ord c = 62 \<or> ord c = 38")
    case True
    then have "esc_ascii c = hex4 (ord c)" using n unfolding esc_ascii_def Let_def by presburger
    then show ?thesis
      using pchars_hex4 [of "ord c" t] assms utf8_enc_ascii [of "ord c"] by simp
  next
    case F: False
    then have "esc_ascii c = [c]" using n unfolding esc_ascii_def Let_def by presburger
    then show ?thesis using pchars_plain [OF assms, of t] F False by simp
  qed
qed

lemma pchars_rune:
  assumes "good_rune r"
  shows "pchars (esc_rune r @ t) = pre (rune_valid r) (pchars t)"
proof (cases r)
  case (BadByte c)
  have "utf8_enc 65533 = repl_char" by code_simp
  then show ?thesis using BadByte pchars_hex4 [of 65533 t] by (simp add: esc_rune_def)
next
  case (Rune b)
  then obtain c b' where b: "b = c # b'" and len: "rune_len (c # b') = length (c # b')"
    using assms by (cases b) auto
  show ?thesis
  proof (cases "ord c < 128")
    case True
    then have "b' = []" using len by (simp add: rune_len_ascii)
    then show ?thesis using pchars_ascii [OF True] by (simp add: Rune b esc_rune_def)
  next
    case False
    then have nb: "b' \<noteq> []" using len by (cases b') (auto simp: rune_len.simps(2) Let_def)
    have "pchars (b @ t) = pre b (pchars t)"
      using rune_len_take [of "c # b'" t] len False
      by (auto simp: b pchars.simps(2))
    moreover have "utf8_enc 0x2028 = [CHR 0xE2, CHR 0x80, CHR 0xA8]" "utf8_enc 0x2029 = [CHR 0xE2, CHR 0x80, CHR 0xA9]"
      by code_simp+
    ultimately show ?thesis
      using nb pchars_hex4 [of "0x2028" t] pchars_hex4 [of "0x2029" t]
      by (auto simp: Rune b esc_rune_def split: list.splits)
  qed
qed

lemma pchars_quote: "pchars (concat (map esc_rune (runes s)) @ CHR 0x22 # t) = Some (to_valid s, t)"
proof -
  have "list_all good_rune rs \<Longrightarrow>
      pchars (concat (map esc_rune rs) @ CHR 0x22 # t) = Some (concat (map rune_valid rs), t)" for rs
    by (induction rs) (auto simp: pchars_rune pchars.simps(2))
  then show ?thesis using runes_good [of s] by (simp add: to_valid_def)
qed

lemma tl_quote: "pchars (tl (json_quote s @ t)) = Some (to_valid s, t)"
  by (simp add: json_quote_def pchars_quote)

text \<open>Numbers before a delimiter.\<close>

definition delim :: "string \<Rightarrow> bool" where
  "delim t \<longleftrightarrow> t = [] \<or> hd t \<in> {CHR '','', CHR '']'', CHR ''}'', CHR 0x0A, CHR 0x0D, CHR 0x09, CHR '' ''}"

lemma delim_digit:
  assumes "delim t"
  shows "takeWhile is_digit (s @ t) = takeWhile is_digit s" and "dropWhile is_digit (s @ t) = dropWhile is_digit s @ t"
proof -
  have "takeWhile is_digit t = []" "dropWhile is_digit t = t"
    using assms by (cases t; auto simp: delim_def is_digit_def)+
  then show "takeWhile is_digit (s @ t) = takeWhile is_digit s"
    and "dropWhile is_digit (s @ t) = dropWhile is_digit s @ t"
    by (induction s) auto
qed

lemma pint_append:
  assumes t: "delim t" and p: "pint s = Some (i, r)"
  shows "pint (s @ t) = Some (i, r @ t)"
proof (cases s)
  case Nil
  then show ?thesis using p by (simp add: pint_def)
next
  case (Cons x s')
  show ?thesis
  proof (cases "x = CHR ''-''")
    case True
    then show ?thesis
      using p delim_digit [OF t, of s'] unfolding Cons pint_def by (simp add: Let_def split: if_split_asm)
  next
    case False
    then show ?thesis
      using p delim_digit [OF t, of "x # s'"] unfolding Cons pint_def
      by (simp add: Let_def del: takeWhile.simps dropWhile.simps split: if_split_asm)
  qed
qed

lemma pfrac_append: "delim t \<Longrightarrow> pfrac s = Some (i, r) \<Longrightarrow> pfrac (s @ t) = Some (i, r @ t)"
proof (cases s)
  case (Cons c s')
  assume "delim t" "pfrac s = Some (i, r)"
  then show ?thesis by (auto simp: Cons pfrac_def Let_def delim_digit split: if_splits)
qed (cases t; auto simp: pfrac_def delim_def)

lemma pexp_append: "delim t \<Longrightarrow> pexp s = Some (i, r) \<Longrightarrow> pexp (s @ t) = Some (i, r @ t)"
proof (cases s)
  case (Cons c s')
  assume "delim t" "pexp s = Some (i, r)"
  then show ?thesis
    by (cases s') (auto simp: Cons pexp_def Let_def delim_digit split: if_splits)
qed (cases t; auto simp: pexp_def delim_def)

lemma pnum_append: "delim t \<Longrightarrow> num_ok l \<Longrightarrow> pnum (l @ t) = Some (l, t)"
proof -
  assume t: "delim t" and "num_ok l"
  then obtain i r f r' e where p: "pint l = Some (i, r)" "pfrac r = Some (f, r')" "pexp r' = Some (e, [])"
    and l: "l = i @ f @ e"
    by (auto simp: num_ok_def pnum_def split: option.splits)
  show ?thesis
    unfolding pnum_def using pint_append [OF t p(1)] pfrac_append [OF t p(2)] pexp_append [OF t p(3)]
    by (simp add: l)
qed

lemma num_ok_hd:
  assumes "num_ok l"
  obtains c l' where "l = c # l'" "c = CHR ''-'' \<or> is_digit c"
proof (cases l)
  case (Cons c l')
  then show thesis using assms that [of c l']
    by (auto simp: num_ok_def pnum_def pint_def Let_def split: if_splits option.splits)
qed (use assms in \<open>simp add: num_ok_def pnum_def pint_def\<close>)

lemma digit_not:
  assumes "c = CHR ''-'' \<or> is_digit c"
  shows "\<not> json_ws c" and "c \<notin> {CHR 0x22, CHR ''['', CHR '']'', CHR ''{'', CHR ''}'', CHR ''n'', CHR ''t'', CHR ''f''}"
  using assms by (auto simp: is_digit_def json_ws_def)

text \<open>The first byte of a printed value.\<close>

lemma marshal_hd:
  assumes "nums_ok j"
  obtains c s where "marshal j = c # s" "\<not> json_ws c" "c \<noteq> CHR '']''" "c \<noteq> CHR ''}''"
proof (cases j)
  case (JNum l)
  then obtain c s where "l = c # s" "c = CHR ''-'' \<or> is_digit c" using assms num_ok_hd by auto
  then show thesis using that JNum digit_not [of c] by simp
next
  case (JBool b)
  then show thesis using that by (cases b) (auto simp: json_ws_def)
qed (use that in \<open>auto simp: json_ws_def json_quote_def\<close>)

lemma marshal_skip: "nums_ok j \<Longrightarrow> skip_ws (marshal j @ t) = marshal j @ t"
  by (erule marshal_hd) auto

lemma sep_with_Cons: "sep_with s (x # xs) = x @ (if xs = [] then [] else s @ sep_with s xs)"
  by (cases xs) auto

lemma pval_num: "num_ok l \<Longrightarrow> delim t \<Longrightarrow> pval (Suc k) (l @ t) = Some (JNum l, t)"
proof -
  assume l: "num_ok l" and t: "delim t"
  then obtain c s where c: "l = c # s" "c = CHR ''-'' \<or> is_digit c" using num_ok_hd by blast
  then show ?thesis using pnum_append [OF t l] digit_not [of c] by auto
qed

text \<open>A value that is read back whatever follows it, given fuel for its text.\<close>

definition reads_back :: "json \<Rightarrow> bool" where
  "reads_back j \<longleftrightarrow> (\<forall>t k. delim t \<longrightarrow> 2 * length (marshal j) \<le> k \<longrightarrow>
      pval k (marshal j @ t) = Some (coerce_json j, t))"

lemma reads_backD:
  "reads_back j \<Longrightarrow> delim t \<Longrightarrow> 2 * length (marshal j) \<le> k \<Longrightarrow> pval k (marshal j @ t) = Some (coerce_json j, t)"
  by (simp add: reads_back_def)

lemma delim_simps [simp]: "delim (CHR '','' # t)" "delim (CHR '']'' # t)" "delim (CHR ''}'' # t)"
  by (simp_all add: delim_def)

lemma json_ws_punct [simp]:
  "\<not> json_ws (CHR '','')" "\<not> json_ws (CHR '']'')" "\<not> json_ws (CHR ''}'')" "\<not> json_ws (CHR ''['')"
  "\<not> json_ws (CHR ''{'')" "\<not> json_ws (CHR '':'')" "\<not> json_ws (CHR 0x22)"
  by (simp_all add: json_ws_def)

lemma pelems_print:
  "xs \<noteq> [] \<Longrightarrow> list_all reads_back xs \<Longrightarrow> 2 * length (sep_with '','' (map marshal xs)) + 3 \<le> k \<Longrightarrow>
     pelems k (sep_with '','' (map marshal xs) @ CHR '']'' # t) = Some (map coerce_json xs, t)"
proof (induction xs arbitrary: k)
  case (Cons x xs)
  obtain k' where k: "k = Suc k'" using Cons.prems by (cases k) auto
  show ?case
  proof (cases "xs = []")
    case True
    then show ?thesis using reads_backD [of x "CHR '']'' # t" k'] Cons.prems by (simp add: k)
  next
    case False
    have "pelems k' (sep_with '','' (map marshal xs) @ CHR '']'' # t) = Some (map coerce_json xs, t)"
      using Cons.IH [of k'] Cons.prems k False by (simp add: sep_with_Cons)
    then show ?thesis
      using False reads_backD [of x _ k'] Cons.prems by (simp add: k sep_with_Cons)
  qed
qed simp

definition member_text :: "string \<times> json \<Rightarrow> string" where
  "member_text kv = json_quote (fst kv) @ '':'' @ marshal (snd kv)"

lemma marshal_obj: "marshal (JObj kvs) = ''{'' @ sep_with '','' (map member_text kvs) @ ''}''"
proof -
  have "(\<lambda>(k, v). json_quote k @ '':'' @ marshal v) = member_text" by (auto simp: member_text_def)
  then show ?thesis by simp
qed

lemma pmembers_step:
  assumes "nums_ok v" and "reads_back v" and "delim t" and "2 * length (member_text (key, v)) \<le> Suc k"
  shows "pmembers (Suc k) (member_text (key, v) @ t) =
     (case skip_ws t of
        [] \<Rightarrow> None
      | d # r \<Rightarrow> if d = CHR '','' then map_option (apfst (Cons (to_valid key, coerce_json v))) (pmembers k r)
                 else if d = CHR ''}'' then Some ([(to_valid key, coerce_json v)], r) else None)"
proof -
  have "pval k (marshal v @ t) = Some (coerce_json v, t)"
    using assms by (intro reads_backD) (simp_all add: member_text_def json_quote_def)
  then show ?thesis by (simp add: member_text_def json_quote_def pchars_quote)
qed

lemma pmembers_print:
  "kvs \<noteq> [] \<Longrightarrow> list_all (\<lambda>kv. nums_ok (snd kv) \<and> reads_back (snd kv)) kvs \<Longrightarrow>
     2 * length (sep_with '','' (map member_text kvs)) + 3 \<le> k \<Longrightarrow>
     pmembers k (sep_with '','' (map member_text kvs) @ CHR ''}'' # t) =
       Some (map (\<lambda>(k, v). (to_valid k, coerce_json v)) kvs, t)"
proof (induction kvs arbitrary: k)
  case (Cons kv kvs)
  obtain key v where kv: "kv = (key, v)" by (cases kv)
  obtain k' where k: "k = Suc k'" using Cons.prems by (cases k) auto
  show ?case
  proof (cases "kvs = []")
    case True
    then show ?thesis using pmembers_step [of v "CHR ''}'' # t" key k'] Cons.prems by (simp add: k kv)
  next
    case False
    have "pmembers k' (sep_with '','' (map member_text kvs) @ CHR ''}'' # t) =
        Some (map (\<lambda>(k, v). (to_valid k, coerce_json v)) kvs, t)"
      using Cons.IH [of k'] Cons.prems k False by (simp add: sep_with_Cons)
    then show ?thesis
      using False pmembers_step [of v _ key k'] Cons.prems by (simp add: k kv sep_with_Cons)
  qed
qed simp

lemma reads_backI:
  "(\<And>t k. delim t \<Longrightarrow> 2 * length (marshal j) \<le> Suc k \<Longrightarrow> pval (Suc k) (marshal j @ t) = Some (coerce_json j, t)) \<Longrightarrow>
     marshal j \<noteq> [] \<Longrightarrow> reads_back j"
  unfolding reads_back_def
proof (intro allI impI)
  fix t k
  assume *: "\<And>t k. delim t \<Longrightarrow> 2 * length (marshal j) \<le> Suc k \<Longrightarrow>
      pval (Suc k) (marshal j @ t) = Some (coerce_json j, t)"
    and "marshal j \<noteq> []" "delim t" "2 * length (marshal j) \<le> k"
  then show "pval k (marshal j @ t) = Some (coerce_json j, t)" by (cases k) auto
qed

lemma reads_back_scalar: "reads_back JNull" "reads_back (JBool b)" "reads_back (JStr s)"
  by (rule reads_backI; cases b; simp add: json_ws_def json_quote_def pchars_quote)+

lemma reads_back_num: "num_ok l \<Longrightarrow> reads_back (JNum l)"
  by (rule reads_backI) (auto simp: pval_num simp del: pval.simps elim: num_ok_hd)

lemma reads_back_arr:
  assumes "list_all nums_ok xs" and ok: "list_all reads_back xs"
  shows "reads_back (JArr xs)"
proof (rule reads_backI)
  fix t k
  assume le: "2 * length (marshal (JArr xs)) \<le> Suc k"
  show "pval (Suc k) (marshal (JArr xs) @ t) = Some (coerce_json (JArr xs), t)"
  proof (cases xs)
    case (Cons x xs')
    have "nums_ok x" using assms Cons by simp
    then have "take 1 (skip_ws (sep_with '','' (map marshal xs) @ CHR '']'' # t)) \<noteq> '']''"
      by (rule marshal_hd) (simp add: Cons sep_with_Cons)
    then show ?thesis using pelems_print [OF _ ok, of k t] Cons le by simp
  qed simp
qed simp

lemma reads_back_obj:
  assumes ok: "list_all (\<lambda>kv. nums_ok (snd kv) \<and> reads_back (snd kv)) kvs"
  shows "reads_back (JObj kvs)"
proof (rule reads_backI)
  fix t k
  assume le: "2 * length (marshal (JObj kvs)) \<le> Suc k"
  show "pval (Suc k) (marshal (JObj kvs) @ t) = Some (coerce_json (JObj kvs), t)"
  proof (cases kvs)
    case (Cons kv kvs')
    have "take 1 (skip_ws (sep_with '','' (map member_text kvs) @ CHR ''}'' # t)) \<noteq> ''}''"
      by (simp add: Cons sep_with_Cons member_text_def json_quote_def)
    then show ?thesis using pmembers_print [OF _ ok, of k t] Cons le
      unfolding marshal_obj by simp
  qed simp
qed (simp add: marshal_obj)

lemma pval_print: "nums_ok j \<Longrightarrow> reads_back j"
proof (induction j)
  case (JArr xs)
  then show ?case by (intro reads_back_arr) (auto simp: list_all_iff)
next
  case (JObj kvs)
  then show ?case by (intro reads_back_obj) (fastforce simp: list_all_iff)
qed (simp_all add: reads_back_scalar reads_back_num)

lemma parse_marshal: "nums_ok j \<Longrightarrow> parse_json (marshal j) = Some (coerce_json j)"
  using reads_backD [OF pval_print, of j "[]" "2 * length (marshal j) + 2"]
  by (simp add: parse_json_def delim_def)

section \<open>Decoding into structs\<close>

definition members :: "json \<Rightarrow> (string \<times> json) list" where
  "members j = (case j of JObj kvs \<Rightarrow> kvs | _ \<Rightarrow> [])"

text \<open>The values of every member whose key matches the name of a field, in order.\<close>

definition field_vals :: "string \<Rightarrow> json \<Rightarrow> json list" where
  "field_vals name j = map snd (filter (\<lambda>kv. fold_name (fst kv) = fold_name name) (members j))"

text \<open>\<open>Unmarshal\<close> into a struct refuses everything but an object and \<open>null\<close>.\<close>

definition obj_ok :: "json \<Rightarrow> bool" where
  "obj_ok j = (case j of JObj _ \<Rightarrow> True | JNull \<Rightarrow> True | _ \<Rightarrow> False)"

definition get_str :: "string \<Rightarrow> json \<Rightarrow> string" where
  "get_str name j = foldl (\<lambda>a v. case v of JStr s \<Rightarrow> s | _ \<Rightarrow> a) [] (field_vals name j)"

definition str_ok :: "string \<Rightarrow> json \<Rightarrow> bool" where
  "str_ok name j = list_all (\<lambda>v. case v of JStr _ \<Rightarrow> True | JNull \<Rightarrow> True | _ \<Rightarrow> False) (field_vals name j)"

definition get_bool :: "string \<Rightarrow> json \<Rightarrow> bool" where
  "get_bool name j = foldl (\<lambda>a v. case v of JBool b \<Rightarrow> b | _ \<Rightarrow> a) False (field_vals name j)"

definition bool_ok :: "string \<Rightarrow> json \<Rightarrow> bool" where
  "bool_ok name j = list_all (\<lambda>v. case v of JBool _ \<Rightarrow> True | JNull \<Rightarrow> True | _ \<Rightarrow> False) (field_vals name j)"

text \<open>\<open>strconv.ParseInt\<close> on a number literal, at 64 bits.\<close>

definition int_of_num :: "string \<Rightarrow> int option" where
  "int_of_num l =
     (let neg = (take 1 l = ''-''); d = (if neg then tl l else l);
          n = (if neg then - dec_val d else dec_val d)
      in if d \<noteq> [] \<and> list_all is_digit d \<and> - (2 ^ 63) \<le> n \<and> n < 2 ^ 63 then Some n else None)"

definition get_int :: "string \<Rightarrow> json \<Rightarrow> int" where
  "get_int name j =
     foldl (\<lambda>a v. case v of JNum l \<Rightarrow> (case int_of_num l of Some n \<Rightarrow> n | None \<Rightarrow> a) | _ \<Rightarrow> a) 0 (field_vals name j)"

definition int_ok :: "string \<Rightarrow> json \<Rightarrow> bool" where
  "int_ok name j =
     list_all (\<lambda>v. case v of JNum l \<Rightarrow> int_of_num l \<noteq> None | JNull \<Rightarrow> True | _ \<Rightarrow> False) (field_vals name j)"

text \<open>A slice of integers: elements that fail to decode keep what the slice held there.\<close>

fun decode_ints :: "int list \<Rightarrow> json list \<Rightarrow> int list" where
  "decode_ints old [] = []"
| "decode_ints old (v # vs) =
     (let o1 = (case old of [] \<Rightarrow> 0 | x # _ \<Rightarrow> x);
          n = (case v of JNum l \<Rightarrow> (case int_of_num l of Some n \<Rightarrow> n | None \<Rightarrow> o1) | _ \<Rightarrow> o1)
      in n # decode_ints (tl old) vs)"

definition get_ints :: "string \<Rightarrow> json \<Rightarrow> int list" where
  "get_ints name j =
     foldl (\<lambda>a v. case v of JArr vs \<Rightarrow> decode_ints a vs | JNull \<Rightarrow> [] | _ \<Rightarrow> a) [] (field_vals name j)"

text \<open>A slice of strings, by the same rule.\<close>

fun decode_strs :: "string list \<Rightarrow> json list \<Rightarrow> string list" where
  "decode_strs old [] = []"
| "decode_strs old (v # vs) =
     (let o1 = (case old of [] \<Rightarrow> [] | x # _ \<Rightarrow> x)
      in (case v of JStr s \<Rightarrow> s | _ \<Rightarrow> o1) # decode_strs (tl old) vs)"

definition get_strs :: "string \<Rightarrow> json \<Rightarrow> string list" where
  "get_strs name j =
     foldl (\<lambda>a v. case v of JArr vs \<Rightarrow> decode_strs a vs | JNull \<Rightarrow> [] | _ \<Rightarrow> a) [] (field_vals name j)"

text \<open>
  A \<open>map[string]any\<close>: an object is merged into what the map holds, so the members are
  appended, and \<open>lookup_last\<close> finds the latest.
\<close>

definition get_map :: "string \<Rightarrow> json \<Rightarrow> (string \<times> json) list" where
  "get_map name j =
     foldl (\<lambda>a v. case v of JObj kvs \<Rightarrow> a @ kvs | JNull \<Rightarrow> [] | _ \<Rightarrow> a) [] (field_vals name j)"

definition lookup_last :: "string \<Rightarrow> (string \<times> json) list \<Rightarrow> json option" where
  "lookup_last k kvs = map_of (rev kvs) k"

section \<open>Numbers as \<open>float64\<close>\<close>

text \<open>The exact value of a literal, as numerator and denominator.\<close>

definition num_rat :: "string \<Rightarrow> int \<times> int" where
  "num_rat l =
     (let neg = (take 1 l = ''-'');
          r = (if neg then tl l else l);
          i = takeWhile is_digit r;
          r1 = dropWhile is_digit r;
          f = (case r1 of c # r2 \<Rightarrow> if c = CHR ''.'' then takeWhile is_digit r2 else [] | [] \<Rightarrow> []);
          r3 = dropWhile (\<lambda>c. c = CHR ''.'' \<or> is_digit c) r1;
          e = (case r3 of
                 _ # sg # d \<Rightarrow> if sg = CHR ''-'' then - dec_val d
                               else if sg = CHR ''+'' then dec_val d else dec_val (sg # d)
               | _ \<Rightarrow> 0);
          m = (if neg then - dec_val (i @ f) else dec_val (i @ f));
          x = e - int (length f)
      in if 0 \<le> x then (m * 10 ^ nat x, 1) else (m, 10 ^ nat (- x)))"

function bitlen :: "int \<Rightarrow> int" where
  "bitlen n = (if n \<le> 0 then 0 else 1 + bitlen (n div 2))"
  by pat_completeness auto
termination
  by (relation "measure nat") auto

declare bitlen.simps [simp del]

definition scale_div :: "int \<Rightarrow> int \<Rightarrow> int \<Rightarrow> int \<times> int \<times> int" where
  "scale_div a b e =
     (let a' = (if e < 0 then a * 2 ^ nat (- e) else a); b' = (if e < 0 then b else b * 2 ^ nat e)
      in (a' div b', a' mod b', b'))"

text \<open>
  Rounding a positive fraction to the nearest \<open>float64\<close>, ties to even: a significand below
  or equal to \<open>2 ^ 53\<close> and its binary exponent, or \<open>None\<close> on overflow.
\<close>

definition f64_mag :: "int \<Rightarrow> int \<Rightarrow> (int \<times> int) option" where
  "f64_mag a b =
     (let e0 = bitlen a - bitlen b - 53;
          e1 = (if fst (scale_div a b e0) < 2 ^ 53 then e0 else e0 + 1);
          e = max e1 (- 1074);
          (q, r, d) = scale_div a b e;
          q' = (if d < 2 * r \<or> (2 * r = d \<and> odd q) then q + 1 else q)
      in if 971 < e \<or> (e = 971 \<and> q' = 2 ^ 53) then None else Some (q', e))"

text \<open>The integer part of the \<open>float64\<close> a literal stands for, \<open>None\<close> when it overflows.\<close>

definition f64_trunc :: "string \<Rightarrow> int option" where
  "f64_trunc l =
     (let (n, d) = num_rat l
      in if n = 0 then Some 0
         else case f64_mag \<bar>n\<bar> d of
                None \<Rightarrow> None
              | Some (q, e) \<Rightarrow>
                  Some (sgn n * (if 0 \<le> e then q * 2 ^ nat e else q div 2 ^ nat (- e))))"

text \<open>Decoding into \<open>any\<close> fails only on a number beyond the range of \<open>float64\<close>.\<close>

fun any_ok :: "json \<Rightarrow> bool" where
  "any_ok (JNum l) \<longleftrightarrow> f64_trunc l \<noteq> None"
| "any_ok (JArr xs) = list_all any_ok xs"
| "any_ok (JObj kvs) = list_all (\<lambda>(k, v). any_ok v) kvs"
| "any_ok _ = True"

definition map_ok :: "string \<Rightarrow> json \<Rightarrow> bool" where
  "map_ok name j =
     list_all (\<lambda>v. (case v of JObj _ \<Rightarrow> True | JNull \<Rightarrow> True | _ \<Rightarrow> False) \<and> any_ok v) (field_vals name j)"

definition wrap64 :: "int \<Rightarrow> int" where
  "wrap64 n = (n + 2 ^ 63) mod 2 ^ 64 - 2 ^ 63"

lemma wrap64_id: "- (2 ^ 63) \<le> n \<Longrightarrow> n < 2 ^ 63 \<Longrightarrow> wrap64 n = n"
  by (simp add: wrap64_def)

lemma wrap64_range: "- (2 ^ 63) \<le> wrap64 n" "wrap64 n < 2 ^ 63"
  by (simp_all add: wrap64_def)

section \<open>The fuel of the parser is enough\<close>

lemma pchars_length: "pchars s = Some (b, r) \<Longrightarrow> length r < length s"
proof (induction s arbitrary: b rule: pchars.induct)
  case (2 c s)
  then show ?case
    by (auto simp: pchars.simps(2) pre_def split: if_splits option.splits dest!: unescape_length) fastforce+
qed simp

lemma dropWhile_length: "dropWhile P s = c # r \<Longrightarrow> length r < length s"
  using length_dropWhile_le [of P s] by simp

lemma pnum_length: "pnum s = Some (l, r) \<Longrightarrow> length r < length s"
proof -
  assume "pnum s = Some (l, r)"
  then obtain i r1 f r2 e where p: "pint s = Some (i, r1)" "pfrac r1 = Some (f, r2)" "pexp r2 = Some (e, r)"
    by (auto simp: pnum_def split: option.splits)
  have "length r \<le> length r2" using p(3) length_dropWhile_le [of is_digit]
    by (auto simp: pexp_def Let_def split: list.splits if_splits intro: le_SucI le_trans)
  moreover have "length r2 \<le> length r1" using p(2) length_dropWhile_le [of is_digit]
    by (auto simp: pfrac_def Let_def split: list.splits if_splits intro: le_SucI)
  moreover have "length r1 < length s"
    using p(1) length_dropWhile_le [of is_digit]
    by (auto simp: pint_def Let_def le_imp_less_Suc split: list.splits if_splits)
  ultimately show ?thesis by simp
qed


lemma apfst_Some: "map_option (apfst f) x = Some (v, r) \<Longrightarrow> \<exists>w. x = Some (w, r)"
  by (cases x) auto

lemma pval_scalar_length:
  assumes s: "skip_ws s = c # s'" and p: "pval (Suc k) s = Some (v, r)"
    and c: "c \<noteq> CHR ''[''" "c \<noteq> CHR ''{''"
  shows "length r < length s"
proof -
  have le: "length s' < length s" using dropWhile_length [OF s] .
  consider "map_option (apfst JStr) (pchars s') = Some (v, r)" | "r = drop 4 (c # s')" | "r = drop 5 (c # s')"
    | "map_option (apfst JNum) (pnum (c # s')) = Some (v, r)"
    using p c unfolding pval.simps s list.case by (simp only: if_False split: if_split_asm) auto
  then show ?thesis
  proof cases
    case 1
    then show ?thesis using le by (auto dest!: apfst_Some pchars_length)
  next
    case 4
    then show ?thesis using le by (auto dest!: apfst_Some pnum_length)
  qed (use le in auto)
qed

lemma pval_length:
  "pval k s = Some (v, r) \<Longrightarrow> length r < length s"
  "pelems k s = Some (vs, r) \<Longrightarrow> length r < length s"
  "pmembers k s = Some (ms, r) \<Longrightarrow> length r < length s"
proof (induction k s and k s and k s arbitrary: v r and vs r and ms r rule: pval_pelems_pmembers.induct)
  case (2 k s)
  obtain c s' where s: "skip_ws s = c # s'" using "2.prems" by (cases "skip_ws s") auto
  have le: "length s' < length s" using dropWhile_length [OF s] .
  have tl: "length (tl (skip_ws s')) < length s" using le length_dropWhile_le [of json_ws s'] by simp
  consider "c = CHR ''[''" | "c = CHR ''{''" | "c \<noteq> CHR ''[''" "c \<noteq> CHR ''{''" by blast
  then show ?case
  proof cases
    case 1
    with "2.prems" s have "r = tl (skip_ws s') \<or> (\<exists>w. pelems k s' = Some (w, r))"
      by (auto dest: apfst_Some split: if_split_asm)
    then show ?thesis using tl le 2(1) [OF s] 1 "2.prems" s by fastforce
  next
    case b: 2
    with "2.prems" s have "r = tl (skip_ws s') \<or> (\<exists>w. pmembers k s' = Some (w, r))"
      by (auto dest: apfst_Some split: if_split_asm)
    then show ?thesis using tl le 2(2) [OF s] b "2.prems" s by fastforce
  next
    case 3
    then show ?thesis using pval_scalar_length [OF s "2.prems"] by simp
  qed
next
  case (4 k s)
  obtain v1 r1 where 1: "pval k s = Some (v1, r1)" using "4.prems" by (auto split: option.splits)
  obtain c r2 where 2: "skip_ws r1 = c # r2" using "4.prems" 1 by (auto split: list.splits)
  have "length r2 < length r1" using dropWhile_length [OF 2] .
  with 4(1) [OF 1] have "length r2 < length s" by simp
  then show ?case using "4.prems" 1 2 4(2) [OF 1 refl 2] by (auto split: if_splits) 
next
  case (6 k s)
  obtain q r0 where 1: "skip_ws s = q # r0" using "6.prems" by (auto split: list.splits)
  have q: "\<not> q \<noteq> CHR 0x22" using "6.prems" 1 by (auto split: if_splits)
  obtain key r1 where 2: "pchars r0 = Some (key, r1)" using "6.prems" 1 q by (auto split: option.splits)
  obtain c r2 where 3: "skip_ws r1 = c # r2" using "6.prems" 1 q 2 by (auto split: list.splits)
  have c: "\<not> c \<noteq> CHR '':''" using "6.prems" 1 q 2 3 by (auto split: if_splits)
  obtain v r3 where 4: "pval k r2 = Some (v, r3)" using "6.prems" 1 q 2 3 c by (auto split: option.splits)
  obtain d r4 where 5: "skip_ws r3 = d # r4" using "6.prems" 1 q 2 3 c 4 by (auto split: list.splits)
  have "length r4 < length s"
    using dropWhile_length [OF 1] pchars_length [OF 2] dropWhile_length [OF 3] dropWhile_length [OF 5]
      6(1) [OF 1 q 2 refl 3 c 4] by simp
  then show ?case
    using "6.prems" 1 q 2 3 c 4 5 6(2) [OF 1 q 2 refl 3 c 4 refl 5] by (auto split: if_splits)
qed simp_all

lemma parser_fuel_aux:
  "(2 * length s + 1 \<le> k \<longrightarrow> 2 * length s + 1 \<le> k' \<longrightarrow> pval k s = pval k' s) \<and>
   (2 * length s + 2 \<le> k \<longrightarrow> 2 * length s + 2 \<le> k' \<longrightarrow> pelems k s = pelems k' s \<and> pmembers k s = pmembers k' s)"
proof (induction "length s" arbitrary: s k k' rule: less_induct)
  case less
  have v: "pval k s = pval k' s" if "2 * length s + 1 \<le> k" "2 * length s + 1 \<le> k'" for k k'
  proof (cases k; cases k')
    fix j j'
    assume k: "k = Suc j" "k' = Suc j'"
    show ?thesis
    proof (cases "skip_ws s")
      case Nil
      then show ?thesis by (simp only: k pval.simps list.case)
    next
      case (Cons c r)
      have "pelems j r = pelems j' r" "pmembers j r = pmembers j' r"
        using less [of r j j'] dropWhile_length [OF Cons] that k by auto
      then show ?thesis by (simp add: k Cons)
    qed
  qed (use that in auto)
  have "pelems k s = pelems k' s \<and> pmembers k s = pmembers k' s"
    if kk: "2 * length s + 2 \<le> k" "2 * length s + 2 \<le> k'"
  proof -
    obtain j j' where k: "k = Suc j" "k' = Suc j'" using kk by (cases k; cases k') auto
    have e: "pelems j r2 = pelems j' r2" if "pval j s = Some (x, r1)" "skip_ws r1 = c # r2" for x c r1 r2
      using less [of r2 j j'] pval_length(1) [OF that(1)] dropWhile_length [OF that(2)]
        kk k by auto
    have m1: "pval j r2 = pval j' r2"
      if "skip_ws s = q # r0" "pchars r0 = Some (key, r1)" "skip_ws r1 = c # r2" for q r0 key r1 c r2
      using less [of r2 j j'] dropWhile_length [OF that(1)] pchars_length [OF that(2)] dropWhile_length [OF that(3)]
        kk k by auto
    have m2: "pmembers j r4 = pmembers j' r4"
      if "skip_ws s = q # r0" "pchars r0 = Some (key, r1)" "skip_ws r1 = c # r2"
        "pval j' r2 = Some (w, r3)" "skip_ws r3 = d # r4" for q r0 key r1 c r2 w r3 d r4
      using less [of r4 j j'] dropWhile_length [OF that(1)] pchars_length [OF that(2)] dropWhile_length [OF that(3)]
        pval_length(1) [OF that(4)] dropWhile_length [OF that(5)]
        kk k by auto
    have vj: "pval j s = pval j' s" using v [of j j'] kk k by simp
    have "pelems k s = pelems k' s"
      unfolding k pelems.simps vj
      by (auto simp: e [unfolded vj] simp del: dropWhile_eq_Nil_conv split: option.splits list.splits)
    moreover have "pmembers k s = pmembers k' s"
      unfolding k pmembers.simps
      by (auto simp: m1 m2 simp del: dropWhile_eq_Nil_conv split: list.splits option.splits)
    ultimately show ?thesis by simp
  qed
  then show ?case using v by blast
qed

lemma parse_json_fuel:
  "2 * length s + 2 \<le> k \<Longrightarrow>
   parse_json s = (case pval k s of Some (v, r) \<Rightarrow> if skip_ws r = [] then Some v else None | None \<Rightarrow> None)"
  unfolding parse_json_def using parser_fuel_aux [of s k "2 * length s + 2"] by simp

lemma num_ok_itoa: "num_ok (itoa n)"
proof -
  have d: "list_all is_digit (dec_digits m) \<and> dec_digits m \<noteq> []" if "0 \<le> m" for m
    using that dec_digits_digits dec_digits_not_Nil by blast
  have z: "tl (dec_digits m) = []" if "hd (dec_digits m) = CHR ''0''" "0 \<le> m" for m
    using dec_digits_hd [OF that(2,1)] by (simp add: dec_digits.simps)
  have m: "CHR ''-'' \<noteq> hd (dec_digits m)" if "0 \<le> m" for m
    using d [OF that] by (cases "dec_digits m") (auto simp: is_digit_def)
  have t: "takeWhile is_digit (dec_digits m) = dec_digits m" "dropWhile is_digit (dec_digits m) = []" if "0 \<le> m" for m
    using d [OF that] by (simp_all add: list_all_iff)
  have "pint (itoa n) = Some (itoa n, [])"
  proof (cases "n < 0")
    case True
    then show ?thesis using d [of "- n"] z [of "- n"]
      by (auto simp: itoa_def pint_def Let_def t)
  next
    case False
    then have "(case dec_digits n of x # _ \<Rightarrow> if x = CHR ''-'' then [x] else [] | [] \<Rightarrow> []) = []"
      using m [of n] by (cases "dec_digits n") auto
    then show ?thesis using False d [of n] z [of n]
      by (auto simp: itoa_def pint_def Let_def t)
  qed
  then show ?thesis by (simp add: num_ok_def pnum_def pfrac_def pexp_def)
qed

lemma int_of_itoa: "- (2 ^ 63) \<le> n \<Longrightarrow> n < 2 ^ 63 \<Longrightarrow> int_of_num (itoa n) = Some n"
  using dec_digits_digits [of "\<bar>n\<bar>"] dec_digits_not_Nil [of "\<bar>n\<bar>"] dec_val_digits [of "\<bar>n\<bar>"]
  by (cases "dec_digits \<bar>n\<bar>") (auto simp: int_of_num_def itoa_def Let_def is_digit_def)

section \<open>What is parsed is clean\<close>

text \<open>Strings out of the parser are valid UTF-8 and number literals follow the grammar.\<close>

lemma runes_rune:
  assumes "a \<noteq> []" and "rune_len a = length a"
  shows "runes (a @ t) = Rune a # runes t"
proof (cases a)
  case (Cons c a')
  have "rune_len (a @ t) = length a" using rune_len_take [of a t] assms by simp
  then show ?thesis by (simp add: Cons Let_def)
qed (use assms in simp)

lemma utf8_valid_rune: "a \<noteq> [] \<Longrightarrow> rune_len a = length a \<Longrightarrow> utf8_valid (a @ t) = utf8_valid t"
  by (simp add: utf8_valid_def runes_rune)

lemma rune_len_repl: "rune_len repl_char = length repl_char"
  by code_simp

lemma utf8_enc_rune:
  assumes "0 \<le> n" and "n < 0xD800 \<or> 0xE000 \<le> n" and "n < 0x110000"
  shows "rune_len (utf8_enc n) = length (utf8_enc n)"
proof -
  consider "n < 128" | "128 \<le> n" "n < 2048" | "2048 \<le> n" "n < 65536" | "65536 \<le> n" by linarith
  then show ?thesis
  proof cases
    case 1
    then show ?thesis using assms(1) by (simp add: utf8_enc_def rune_len.simps(2))
  next
    case 2
    then have "2 \<le> n div 64" "n div 64 < 32" by linarith+
    with 2 show ?thesis by (simp add: utf8_enc_def rune_len.simps(2) cont_def Let_def)
  next
    case 3
    define a where "a = n div 4096"
    define b where "b = n div 64 mod 64"
    have n64: "n div 64 = 64 * a + b"
      using zdiv_zmult2_eq [of 64 n 64] by (simp add: a_def b_def)
    have ab: "0 \<le> a" "a < 16" "0 \<le> b" "b < 64" using 3 by (auto simp: a_def b_def)
    have "a = 0 \<Longrightarrow> 32 \<le> b" using n64 3 by linarith
    moreover have "b < 32" if "a = 13"
    proof -
      have "n < 57344" using that by (simp add: a_def)
      then have "n < 55296" using assms(2) by simp
      then show ?thesis using n64 that by linarith
    qed
    ultimately have "a = 0 \<Longrightarrow> 32 \<le> b" "a = 13 \<Longrightarrow> b < 32" by blast+
    with ab 3 show ?thesis
      by (simp add: utf8_enc_def rune_len.simps(2) cont_def Let_def a_def [symmetric] b_def [symmetric])
  next
    case 4
    define a where "a = n div 262144"
    define b where "b = n div 4096 mod 64"
    have n64: "n div 4096 = 64 * a + b"
      using zdiv_zmult2_eq [of 64 n 4096] by (simp add: a_def b_def)
    have ab: "0 \<le> a" "a \<le> 4" "0 \<le> b" "b < 64" using 4 assms(3) by (auto simp: a_def b_def)
    have "a = 0 \<Longrightarrow> 16 \<le> b" "a = 4 \<Longrightarrow> b < 16" using n64 4 assms(3) by linarith+
    with ab 4 show ?thesis
      by (simp add: utf8_enc_def rune_len.simps(2) cont_def Let_def a_def [symmetric] b_def [symmetric])
  qed
qed

lemma hex_val_range: "hex_val c = Some n \<Longrightarrow> 0 \<le> n \<and> n < 16"
  by (auto simp: hex_val_def Let_def split: if_splits)

lemma getu4_range: "getu4 s = Some (n, r) \<Longrightarrow> 0 \<le> n \<and> n < 65536"
  by (cases s rule: getu4.cases) (auto split: option.splits dest!: hex_val_range)

lemma low_surrogate_range: "low_surrogate s = Some (n, r) \<Longrightarrow> 0xDC00 \<le> n \<and> n < 0xE000"
  by (cases s rule: low_surrogate.cases) (auto split: option.splits if_splits)

lemma utf8_enc_not_Nil: "utf8_enc n \<noteq> []" "repl_char \<noteq> []"
  by (simp_all add: utf8_enc_def repl_char_def)

lemma unescape_u_rune:
  assumes "getu4 r = Some (n, r')"
    and "(if 0xD800 \<le> n \<and> n < 0xE000 then
            (case (if n < 0xDC00 then low_surrogate r' else None) of
               Some (m, r'') \<Rightarrow> Some (utf8_enc (65536 + (n - 0xD800) * 1024 + (m - 0xDC00)), r'')
             | None \<Rightarrow> Some (repl_char, r'))
          else Some (utf8_enc n, r')) = Some (b, t)"
  shows "b \<noteq> [] \<and> rune_len b = length b"
  using assms getu4_range [OF assms(1)] low_surrogate_range [of r']
  by (auto split: if_split_asm option.split_asm simp: utf8_enc_not_Nil rune_len_repl intro!: utf8_enc_rune)

lemma unescape_rune:
  assumes "unescape s = Some (b, t)"
  shows "b \<noteq> [] \<and> rune_len b = length b"
proof (cases s)
  case (Cons c r)
  show ?thesis
  proof (cases "c = CHR ''u''")
    case True
    then obtain n r' where "getu4 r = Some (n, r')" using assms Cons by (auto split: option.splits)
    with assms Cons True show ?thesis by (intro unescape_u_rune [of r n r' b t]) simp_all
  next
    case False
    then show ?thesis using assms Cons by (auto split: if_split_asm simp: rune_len.simps(2))
  qed
qed (use assms in simp)

lemma pchars_valid: "pchars s = Some (b, r) \<Longrightarrow> utf8_valid b"
proof (induction s arbitrary: b rule: pchars.induct)
  case (2 c s)
  consider "b = []" | d s' b' where "unescape s = Some (d, s')" "pchars s' = Some (b', r)" "b = d @ b'" "c = CHR 0x5C"
    | b' where "pchars s = Some (b', r)" "b = repl_char @ b'" "rune_len (c # s) = 0" "c \<noteq> CHR 0x22" "c \<noteq> CHR 0x5C" "\<not> ord c < 32"
    | b' where "pchars (drop (rune_len (c # s)) (c # s)) = Some (b', r)" "b = take (rune_len (c # s)) (c # s) @ b'"
        "rune_len (c # s) \<noteq> 0" "c \<noteq> CHR 0x22" "c \<noteq> CHR 0x5C" "\<not> ord c < 32"
    using 2(4) by (auto simp: pchars.simps(2) pre_def split: if_split_asm option.splits)
  then show ?case
  proof cases
    case 1
    then show ?thesis by (simp add: utf8_valid_def)
  next
    case a: 2
    then show ?thesis using 2(1) [of "(d, s')"] unescape_rune [OF a(1)] by (simp add: utf8_valid_rune)
  next
    case 3
    then show ?thesis using 2(2) rune_len_repl by (simp add: utf8_valid_rune utf8_enc_not_Nil)
  next
    case 4
    let ?a = "take (rune_len (c # s)) (c # s)"
    have "rune_len ?a = length ?a" "?a \<noteq> []"
      using rune_len_take [of "c # s" "[]"] rune_len_le [of "c # s"] 4(3) by auto
    then show ?thesis using 2(3) 4 by (simp add: utf8_valid_rune)
  qed
qed simp

fun clean :: "json \<Rightarrow> bool" where
  "clean (JNum l) = num_ok l"
| "clean (JStr s) = utf8_valid s"
| "clean (JArr xs) = list_all clean xs"
| "clean (JObj kvs) = list_all (\<lambda>(k, v). utf8_valid k \<and> clean v) kvs"
| "clean _ = True"

lemma clean_nums_ok: "clean j \<Longrightarrow> nums_ok j"
  by (induction j) (auto simp: list_all_iff split_beta)

lemma clean_coerce: "clean j \<Longrightarrow> coerce_json j = j"
proof (induction j)
  case (JArr xs)
  then show ?case by (simp add: list_all_iff map_idI)
next
  case (JObj kvs)
  then have "(\<lambda>(k, v). (to_valid k, coerce_json v)) kv = kv" if "kv \<in> set kvs" for kv
    using that by (cases kv) (fastforce simp: list_all_iff to_valid_id)
  then show ?case by (simp add: map_idI)
qed (simp_all add: to_valid_id)

lemma takeWhile_digits:
  "takeWhile is_digit (takeWhile is_digit r @ t) = takeWhile is_digit r @ takeWhile is_digit t"
  "dropWhile is_digit (takeWhile is_digit r @ t) = dropWhile is_digit t"
  by (induction r) auto

lemma pnum_ok: "pnum s = Some (l, r) \<Longrightarrow> num_ok l"
proof -
  assume "pnum s = Some (l, r)"
  then obtain i r1 f r2 e where p: "pint s = Some (i, r1)" "pfrac r1 = Some (f, r2)" "pexp r2 = Some (e, r)"
    and l: "l = i @ f @ e"
    by (auto simp: pnum_def split: option.splits)
  have e0: "pexp e = Some (e, [])" and e1: "e = [] \<or> (hd e = CHR ''e'' \<or> hd e = CHR ''E'')"
    using p(3) by (auto simp: pexp_def Let_def takeWhile_digits(2) takeWhile_digits [of _ "[]", simplified] split: list.splits if_splits)
  have nd: "takeWhile is_digit e = []" "dropWhile is_digit e = e" using e1 by (cases e; auto simp: is_digit_def)+
  have f0: "pfrac (f @ e) = Some (f, e)" and f1: "f = [] \<or> hd f = CHR ''.''"
    using p(2) e1 by (auto simp: pfrac_def Let_def takeWhile_digits nd split: list.splits if_splits
      dest: set_takeWhileD)
  have t: "takeWhile is_digit (f @ e) = []" "dropWhile is_digit (f @ e) = f @ e"
    using f1 nd by (cases f; auto simp: is_digit_def)+
  have "pint (i @ f @ e) = Some (i, f @ e)"
  proof (cases "take 1 s = ''-''")
    case True
    then obtain s' where "s = CHR ''-'' # s'" by (cases s) auto
    then show ?thesis using p(1) by (auto simp: pint_def Let_def takeWhile_digits t split: if_split_asm)
  next
    case False
    then have i: "i = takeWhile is_digit s" "i \<noteq> []" "hd i = CHR ''0'' \<longrightarrow> tl i = []"
      using p(1) by (cases s; auto simp: pint_def Let_def split: if_split_asm)+
    then obtain c i' where c: "i = c # i'" "is_digit c" by (cases i) (metis list.set_intros(1) set_takeWhileD)+
    have "takeWhile is_digit (i @ f @ e) = i" "dropWhile is_digit (i @ f @ e) = f @ e"
      using takeWhile_digits [of s "f @ e"] t i(1) by simp_all
    moreover have "(case i @ f @ e of x # _ \<Rightarrow> if x = CHR ''-'' then [x] else [] | [] \<Rightarrow> []) = []"
      using c by (auto simp: is_digit_def)
    ultimately show ?thesis
      unfolding pint_def Let_def using i(2,3) by (simp only: list.size drop0 append_Nil if_False) auto
  qed
  then show ?thesis using f0 e0 by (simp add: num_ok_def pnum_def l)
qed

lemma pval_scalar_clean:
  assumes s: "skip_ws s = c # s'" and p: "pval (Suc k) s = Some (v, r)"
    and c: "c \<noteq> CHR ''[''" "c \<noteq> CHR ''{''"
  shows "clean v"
proof -
  have "map_option (apfst JStr) (pchars s') = Some (v, r) \<or> v = JNull \<or> (\<exists>b. v = JBool b) \<or> map_option (apfst JNum) (pnum (c # s')) = Some (v, r)"
    using p c unfolding pval.simps s list.case by (simp only: if_False option.inject prod.inject split: if_split_asm) blast+
  then show ?thesis by (elim disjE exE) (auto dest: pchars_valid pnum_ok)
qed

lemma pval_clean:
  "pval k s = Some (v, r) \<Longrightarrow> clean v"
  "pelems k s = Some (vs, r) \<Longrightarrow> list_all clean vs"
  "pmembers k s = Some (ms, r) \<Longrightarrow> list_all (\<lambda>(k, v). utf8_valid k \<and> clean v) ms"
proof (induction k s and k s and k s arbitrary: v r and vs r and ms r rule: pval_pelems_pmembers.induct)
  case (2 k s)
  obtain c s' where s: "skip_ws s = c # s'" using "2.prems" by (cases "skip_ws s") auto
  consider "c = CHR ''[''" | "c = CHR ''{''" | "c \<noteq> CHR ''[''" "c \<noteq> CHR ''{''" by blast
  then show ?case
  proof cases
    case 1
    with "2.prems" s 2(1) [OF s] show ?thesis by (auto split: if_split_asm)
  next
    case b: 2
    with "2.prems" s 2(2) [OF s] show ?thesis by (auto split: if_split_asm)
  next
    case 3
    then show ?thesis using pval_scalar_clean [OF s "2.prems"] by simp
  qed
next
  case (4 k s)
  obtain v1 r1 where 1: "pval k s = Some (v1, r1)" using "4.prems" by (auto split: option.splits)
  obtain c r2 where 2: "skip_ws r1 = c # r2" using "4.prems" 1 by (auto split: list.splits)
  show ?case using "4.prems" 1 2 4(1) [OF 1] 4(2) [OF 1 refl 2] by (auto split: if_splits)
next
  case (6 k s)
  obtain q r0 where 1: "skip_ws s = q # r0" using "6.prems" by (auto split: list.splits)
  have q: "\<not> q \<noteq> CHR 0x22" using "6.prems" 1 by (auto split: if_splits)
  obtain key r1 where 2: "pchars r0 = Some (key, r1)" using "6.prems" 1 q by (auto split: option.splits)
  obtain c r2 where 3: "skip_ws r1 = c # r2" using "6.prems" 1 q 2 by (auto split: list.splits)
  have c: "\<not> c \<noteq> CHR '':''" using "6.prems" 1 q 2 3 by (auto split: if_splits)
  obtain v r3 where 4: "pval k r2 = Some (v, r3)" using "6.prems" 1 q 2 3 c by (auto split: option.splits)
  obtain d r4 where 5: "skip_ws r3 = d # r4" using "6.prems" 1 q 2 3 c 4 by (auto split: list.splits)
  show ?case
    using "6.prems" 1 q 2 3 c 4 5 6(1) [OF 1 q 2 refl 3 c 4] 6(2) [OF 1 q 2 refl 3 c 4 refl 5]
      pchars_valid [OF 2] by (auto split: if_splits)
qed simp_all

lemma parse_json_clean: "parse_json s = Some j \<Longrightarrow> clean j"
  by (auto simp: parse_json_def simp del: pval.simps
      split: option.splits if_splits dest: pval_clean(1))

text \<open>Printing and parsing again gives the same document.\<close>

lemma reparse: "clean j \<Longrightarrow> parse_json (marshal j) = Some j"
  by (simp add: parse_marshal clean_nums_ok clean_coerce)

declare pval.simps [simp del] pelems.simps [simp del] pmembers.simps [simp del]

section \<open>Integers as \<open>float64\<close>\<close>

lemma bitlen_bounds: "0 < a \<Longrightarrow> 1 \<le> bitlen a \<and> 2 ^ nat (bitlen a - 1) \<le> a \<and> a < 2 ^ nat (bitlen a)"
proof (induction a rule: bitlen.induct)
  case (1 a)
  show ?case
  proof (cases "a = 1")
    case True
    then show ?thesis by (simp add: bitlen.simps)
  next
    case False
    then have pos: "0 < a div 2" using 1(2) by simp
    have ih: "1 \<le> bitlen (a div 2)" "2 ^ nat (bitlen (a div 2) - 1) \<le> a div 2" "a div 2 < 2 ^ nat (bitlen (a div 2))"
      using 1(1) [OF _ pos] 1(2) by simp_all
    have b: "bitlen a = 1 + bitlen (a div 2)" using 1(2) by (subst bitlen.simps) simp
    have "nat (bitlen a) = Suc (nat (bitlen (a div 2)))" "nat (bitlen a - 1) = Suc (nat (bitlen (a div 2) - 1))"
      using b ih(1) by simp_all
    moreover have "2 * (a div 2) \<le> a" "a < 2 * (a div 2) + 2" by presburger+
    ultimately show ?thesis using b ih by simp
  qed
qed

lemma bitlen_le: "0 < a \<Longrightarrow> a < 2 ^ nat k \<Longrightarrow> 0 \<le> k \<Longrightarrow> bitlen a \<le> k"
proof -
  assume a: "0 < a" "a < 2 ^ nat k" and k: "0 \<le> k"
  have "(2::int) ^ nat (bitlen a - 1) < 2 ^ nat k" using bitlen_bounds [OF a(1)] a(2) by linarith
  then have "nat (bitlen a - 1) < nat k" by (rule power_less_imp_less_exp [rotated]) simp
  then show ?thesis using bitlen_bounds [OF a(1)] by simp
qed

lemma bitlen_1: "bitlen 1 = 1"
  by (simp add: bitlen.simps)

lemma num_rat_digits:
  assumes "0 \<le> m"
  shows "num_rat (dec_digits m) = (m, 1)" and "num_rat (CHR ''-'' # dec_digits m) = (- m, 1)"
proof -
  have d: "list_all is_digit (dec_digits m)" "dec_digits m \<noteq> []" "dec_val (dec_digits m) = m"
    using assms by (simp_all add: dec_digits_digits dec_digits_not_Nil dec_val_digits)
  have t: "takeWhile is_digit (dec_digits m) = dec_digits m" "dropWhile is_digit (dec_digits m) = []"
    using d(1) by (simp_all add: list_all_iff)
  have "take 1 (dec_digits m) \<noteq> ''-''"
    using d(1,2) by (cases "dec_digits m") (auto simp: is_digit_def)
  then show "num_rat (dec_digits m) = (m, 1)" by (simp add: num_rat_def Let_def t d(3))
  show "num_rat (CHR ''-'' # dec_digits m) = (- m, 1)" by (simp add: num_rat_def Let_def t d(3))
qed

lemma num_rat_itoa: "num_rat (itoa n) = (n, 1)"
  using num_rat_digits [of n] num_rat_digits [of "- n"] by (simp add: itoa_def)

lemma f64_mag_small:
  assumes "0 < a" and "a < 2 ^ 64"
  shows "f64_mag a 1 \<noteq> None"
proof -
  define e0 where "e0 = bitlen a - bitlen 1 - 53"
  define e where "e = max (if fst (scale_div a 1 e0) < 2 ^ 53 then e0 else e0 + 1) (- 1074)"
  have "bitlen a \<le> 64" using bitlen_le [of a 64] assms by simp
  then have "e < 971" by (simp add: e_def e0_def bitlen_1)
  then have "\<not> 971 < e" "e \<noteq> 971" by simp_all
  then show ?thesis unfolding f64_mag_def Let_def e0_def [symmetric] e_def [symmetric] case_prod_unfold by simp
qed

lemma f64_trunc_itoa: "\<bar>n\<bar> < 2 ^ 64 \<Longrightarrow> f64_trunc (itoa n) \<noteq> None"
  using f64_mag_small [of "\<bar>n\<bar>"]
  by (cases "n = 0") (auto simp: f64_trunc_def num_rat_itoa split: option.splits)

lemma f64_mag_exact:
  assumes "0 < a" and "a < 2 ^ 53"
  shows "f64_mag a 1 = Some (a * 2 ^ nat (53 - bitlen a), bitlen a - 53)"
proof -
  note b = bitlen_bounds [OF assms(1)]
  have le: "bitlen a \<le> 53" using bitlen_le [of a 53] assms by simp
  have s: "scale_div a 1 e = (a * 2 ^ nat (- e), 0, 1)" if "e \<le> 0" for e
    using that by (cases "e = 0") (simp_all add: scale_div_def)
  have "(2::int) ^ 53 = 2 ^ nat (bitlen a - 1) * 2 ^ nat (54 - bitlen a)"
    using b le by (simp flip: power_add nat_add_distrib)
  also have "\<dots> \<le> a * 2 ^ nat (54 - bitlen a)" using b by simp
  finally have big: "\<not> a * 2 ^ nat (54 - bitlen a) < 2 ^ 53" by simp
  show ?thesis
    using b le big s [of "bitlen a - 54"] s [of "bitlen a - 53"]
    by (simp add: f64_mag_def Let_def bitlen_1 max_def)
qed

text \<open>An integer of at most 53 bits is exact.\<close>

lemma f64_exact: "\<bar>n\<bar> < 2 ^ 53 \<Longrightarrow> f64_trunc (itoa n) = Some n"
proof -
  assume n: "\<bar>n\<bar> < 2 ^ 53"
  show ?thesis
  proof (cases "n = 0")
    case True
    then show ?thesis by (simp add: f64_trunc_def num_rat_itoa)
  next
    case False
    then have le: "bitlen \<bar>n\<bar> \<le> 53" using bitlen_le [of "\<bar>n\<bar>" 53] n by simp
    then have "nat (53 - bitlen \<bar>n\<bar>) = nat (- (bitlen \<bar>n\<bar> - 53))" by simp
    with False n le show ?thesis
      by (cases "bitlen \<bar>n\<bar> = 53") (simp_all add: f64_trunc_def num_rat_itoa f64_mag_exact sgn_mult_abs flip: abs_sgn)
  qed
qed

end
