(* ===== verification/Rpc.thy ===== *)
theory Rpc
  imports GoJson
begin

text \<open>
  The request/response protocol of \<open>internal/rpc\<close>: the message frame and its JSON form,
  the dispatcher, the client's table of pending calls and the version negotiation.
  A Go map is an association list; \<open>jmap\<close> prints one the way \<open>json.Marshal\<close> does, with its
  keys sorted. A handler runs on a state of any type, so that the dispatcher serves every
  node. \<open>fmt\<close>'s \<open>%q\<close> depends on Unicode tables and is the parameter \<open>quote\<close>.
\<close>

section \<open>Messages\<close>

definition TypeReq :: string where "TypeReq = ''REQ''"
definition TypeRes :: string where "TypeRes = ''RES''"

definition MethodWrite :: string where "MethodWrite = ''WRITE''"
definition MethodDelete :: string where "MethodDelete = ''DELETE''"
definition MethodUnmount :: string where "MethodUnmount = ''UNMOUNT''"
definition MethodLock :: string where "MethodLock = ''LOCK''"
definition MethodStatus :: string where "MethodStatus = ''STATUS''"
definition MethodManifest :: string where "MethodManifest = ''MANIFEST''"
definition MethodPull :: string where "MethodPull = ''PULL''"
definition MethodSetConfig :: string where "MethodSetConfig = ''SET_CONFIG''"

type_synonym params = "(string, json) gomap"

record message =
  V :: int
  ID :: string
  Type :: string
  Method :: string
  Params :: params
  OK :: bool
  Result :: params
  Err :: string

definition zero_message :: message where
  "zero_message = \<lparr>V = 0, ID = [], Type = [], Method = [], Params = [], OK = False, Result = [], Err = []\<rparr>"

text \<open>\<open>NewRequest\<close>; the fresh UUID is an argument.\<close>

definition NewRequest :: "string \<Rightarrow> string \<Rightarrow> params \<Rightarrow> message" where
  "NewRequest uuid method ps = zero_message\<lparr>V := 1, ID := uuid, Type := TypeReq, Method := method, Params := ps\<rparr>"

definition Reply :: "message \<Rightarrow> bool \<Rightarrow> params \<Rightarrow> string option \<Rightarrow> message" where
  "Reply req ok result err =
     (let m = zero_message\<lparr>V := 1, ID := ID req, Type := TypeRes, OK := ok, Result := result\<rparr>
      in case err of None \<Rightarrow> m | Some e \<Rightarrow> m\<lparr>Err := e\<rparr>)"

definition jmap :: "params \<Rightarrow> json" where
  "jmap kvs = JObj (map (\<lambda>k. (k, the (lookup_last k kvs))) (sort (remdups (keys kvs))))"

definition opt_field :: "bool \<Rightarrow> string \<Rightarrow> json \<Rightarrow> (string \<times> json) list" where
  "opt_field present k v = (if present then [(k, v)] else [])"

definition msg_json :: "message \<Rightarrow> json" where
  "msg_json m =
     JObj ([(''v'', JNum (itoa (V m)))]
        @ opt_field (ID m \<noteq> []) ''id'' (JStr (ID m))
        @ [(''type'', JStr (Type m))]
        @ opt_field (Method m \<noteq> []) ''method'' (JStr (Method m))
        @ opt_field (Params m \<noteq> []) ''params'' (jmap (Params m))
        @ opt_field (OK m) ''ok'' (JBool True)
        @ opt_field (Result m \<noteq> []) ''result'' (jmap (Result m))
        @ opt_field (Err m \<noteq> []) ''error'' (JStr (Err m)))"

definition Encode :: "message \<Rightarrow> bytes" where
  "Encode m = marshal (msg_json m)"

definition msg_of_json :: "json \<Rightarrow> message" where
  "msg_of_json j =
     \<lparr>V = get_int ''v'' j, ID = get_str ''id'' j, Type = get_str ''type'' j, Method = get_str ''method'' j,
      Params = get_map ''params'' j, OK = get_bool ''ok'' j, Result = get_map ''result'' j,
      Err = get_str ''error'' j\<rparr>"

definition msg_json_ok :: "json \<Rightarrow> bool" where
  "msg_json_ok j \<longleftrightarrow>
     obj_ok j \<and> int_ok ''v'' j \<and> str_ok ''id'' j \<and> str_ok ''type'' j \<and> str_ok ''method'' j \<and>
     map_ok ''params'' j \<and> bool_ok ''ok'' j \<and> map_ok ''result'' j \<and> str_ok ''error'' j"

text \<open>\<open>Decode\<close>: the message and whether the returned error is \<open>nil\<close>.\<close>

definition Decode :: "bytes \<Rightarrow> message \<times> bool" where
  "Decode b =
     (case parse_json b of
        None \<Rightarrow> (zero_message, False)
      | Some j \<Rightarrow> (msg_of_json j, msg_json_ok j))"

section \<open>Dispatcher\<close>

type_synonym 's handler = "message \<Rightarrow> 's \<Rightarrow> 's \<times> (string + params)"

record 's dispatcher =
  handlers :: "(string, 's handler) gomap"

definition NewDispatcher :: "'s dispatcher" where
  "NewDispatcher = \<lparr>handlers = []\<rparr>"

definition Handle :: "string \<Rightarrow> 's handler \<Rightarrow> 's dispatcher \<Rightarrow> 's dispatcher" where
  "Handle method h d = d\<lparr>handlers := AList.update (to_upper method) h (handlers d)\<rparr>"

text \<open>\<open>Dispatch\<close>: \<open>None\<close> is the result \<open>(nil, false)\<close>.\<close>

definition Dispatch :: "(string \<Rightarrow> string) \<Rightarrow> 's dispatcher \<Rightarrow> bytes \<Rightarrow> 's \<Rightarrow> 's \<times> bytes option" where
  "Dispatch quote d raw s =
     (let (m, ok) = Decode raw
      in if \<not> ok \<or> Type m \<noteq> TypeReq then (s, None)
         else (case map_of (handlers d) (to_upper (Method m)) of
                 None \<Rightarrow> (s, Some (Encode (Reply m False [] (Some (''unknown method '' @ quote (Method m))))))
               | Some h \<Rightarrow>
                   (case h m s of
                      (s', Inl e) \<Rightarrow> (s', Some (Encode (Reply m False [] (Some e))))
                    | (s', Inr res) \<Rightarrow> (s', Some (Encode (Reply m True res None))))))"

section \<open>Client\<close>

text \<open>
  A channel is a number; \<open>chans\<close> holds the messages put into each channel and not yet
  received, newest last. \<open>next_chan\<close> numbers the channels \<open>make\<close> creates. \<open>owner\<close> is a
  ghost: the request ID each channel was made for.
\<close>

record client =
  pending :: "(string, nat) gomap"
  chans :: "nat \<Rightarrow> message list"
  next_chan :: nat
  owner :: "nat \<Rightarrow> string"

definition NewClient :: client where
  "NewClient = \<lparr>pending = [], chans = (\<lambda>_. []), next_chan = 0, owner = (\<lambda>_. [])\<rparr>"

definition client_onData :: "client \<Rightarrow> bytes \<Rightarrow> client" where
  "client_onData c b =
     (let (m, ok) = Decode b
      in if \<not> ok \<or> Type m \<noteq> TypeRes then c
         else (let ch = map_of (pending c) (ID m);
                   c' = c\<lparr>pending := AList.delete (ID m) (pending c)\<rparr>
               in case ch of
                    None \<Rightarrow> c'
                  | Some n \<Rightarrow> c'\<lparr>chans := (chans c')(n := chans c' n @ [m])\<rparr>))"

text \<open>The parts of \<open>Call\<close> between its blocking points: register and send, give up, receive.\<close>

definition call_begin :: "client \<Rightarrow> string \<Rightarrow> string \<Rightarrow> params \<Rightarrow> client \<times> nat \<times> bytes" where
  "call_begin c uuid method ps =
     (let n = next_chan c
      in (c\<lparr>pending := AList.update uuid n (pending c), next_chan := Suc n, owner := (owner c)(n := uuid)\<rparr>,
          n, Encode (NewRequest uuid method ps)))"

definition call_abandon :: "client \<Rightarrow> string \<Rightarrow> client" where
  "call_abandon c uuid = c\<lparr>pending := AList.delete uuid (pending c)\<rparr>"

definition call_receive :: "client \<Rightarrow> nat \<Rightarrow> (client \<times> message) option" where
  "call_receive c n =
     (case chans c n of [] \<Rightarrow> None | m # ms \<Rightarrow> Some (c\<lparr>chans := (chans c)(n := ms)\<rparr>, m))"

definition call_error :: "string \<Rightarrow> message \<Rightarrow> string option" where
  "call_error method m = (if \<not> OK m then Some (''rpc '' @ method @ '' failed: '' @ Err m) else None)"

section \<open>Protocol versions\<close>

definition V1 :: int where "V1 = 1"
definition V2 :: int where "V2 = 2"

definition Supported :: "int list" where
  "Supported = [V1, V2]"

definition Negotiate :: "int list \<Rightarrow> int \<Rightarrow> int" where
  "Negotiate peer floor =
     foldl (\<lambda>best v. if v < floor then best
                     else foldl (\<lambda>best own. if v = own \<and> v > best then v else best) best Supported) 0 peer"

section \<open>Messages survive the wire\<close>

lemmas fold_keys =
  fold_name_def runes.simps rune_len.simps fold_rune_def upper_char_def

lemma fold_message_keys [simp]:
  "fold_name ''v'' = ''V''" "fold_name ''id'' = ''ID''" "fold_name ''type'' = ''TYPE''"
  "fold_name ''method'' = ''METHOD''" "fold_name ''params'' = ''PARAMS''" "fold_name ''ok'' = ''OK''"
  "fold_name ''result'' = ''RESULT''" "fold_name ''error'' = ''ERROR''"
  by code_simp+

text \<open>A map in the form the wire has it: sorted keys without duplicates, clean values.\<close>

definition wire_map :: "params \<Rightarrow> bool" where
  "wire_map kvs \<longleftrightarrow> sorted (keys kvs) \<and> distinct (keys kvs) \<and> clean (JObj kvs) \<and> any_ok (JObj kvs)"

definition wire_ok :: "message \<Rightarrow> bool" where
  "wire_ok m \<longleftrightarrow>
     - (2 ^ 63) \<le> V m \<and> V m < 2 ^ 63 \<and> utf8_valid (ID m) \<and> utf8_valid (Type m) \<and> utf8_valid (Method m) \<and>
     utf8_valid (Err m) \<and> wire_map (Params m) \<and> wire_map (Result m)"

lemma lookup_last_distinct: "distinct (keys kvs) \<Longrightarrow> (k, v) \<in> set kvs \<Longrightarrow> lookup_last k kvs = Some v"
  unfolding lookup_last_def by (rule map_of_SomeI) (simp_all add: rev_map [symmetric])

lemma jmap_wire: "wire_map kvs \<Longrightarrow> jmap kvs = JObj kvs"
proof -
  assume w: "wire_map kvs"
  then have "sort (remdups (keys kvs)) = keys kvs"
    by (simp add: wire_map_def distinct_remdups_id sorted_sort_id)
  moreover have "map (\<lambda>k. (k, the (lookup_last k kvs))) (keys kvs) = kvs"
    unfolding map_map by (rule map_idI) (use w in \<open>auto simp: wire_map_def lookup_last_distinct\<close>)
  ultimately show ?thesis by (simp add: jmap_def)
qed

lemma to_valid_message_keys [simp]:
  "to_valid ''v'' = ''v''" "to_valid ''id'' = ''id''" "to_valid ''type'' = ''type''"
  "to_valid ''method'' = ''method''" "to_valid ''params'' = ''params''" "to_valid ''ok'' = ''ok''"
  "to_valid ''result'' = ''result''" "to_valid ''error'' = ''error''"
  by (rule to_valid_ascii, simp)+

lemma to_valid_Nil [simp]: "to_valid [] = []"
  by (simp add: to_valid_def)

text \<open>A map whose numbers are printable and within range.\<close>

definition sendable :: "params \<Rightarrow> bool" where
  "sendable kvs \<longleftrightarrow> nums_ok (jmap kvs) \<and> any_ok (jmap kvs)"

definition received :: "params \<Rightarrow> params" where
  "received kvs = members (coerce_json (jmap kvs))"

lemma any_ok_coerce: "any_ok (coerce_json j) = any_ok j"
  by (induction j) (auto simp: list_all_iff split_beta)

lemma jmap_Nil [simp]: "jmap [] = JObj []"
  by (simp add: jmap_def)

lemma coerce_jmap: "coerce_json (jmap kvs) = JObj (received kvs)"
  by (simp add: received_def members_def jmap_def)

lemma any_ok_received: "sendable kvs \<Longrightarrow> any_ok (JObj (received kvs))"
  using any_ok_coerce [of "jmap kvs"] by (simp only: coerce_jmap sendable_def)

lemma received_Nil [simp]: "received [] = []"
  by (simp add: received_def members_def)

lemma nums_ok_msg_json: "sendable (Params m) \<Longrightarrow> sendable (Result m) \<Longrightarrow> nums_ok (msg_json m)"
  by (simp add: msg_json_def opt_field_def num_ok_itoa sendable_def)

text \<open>The document that arrives, and what its fields hold.\<close>

definition arrived :: "message \<Rightarrow> json" where
  "arrived m =
     JObj ([(''v'', JNum (itoa (V m)))]
        @ opt_field (ID m \<noteq> []) ''id'' (JStr (to_valid (ID m)))
        @ [(''type'', JStr (to_valid (Type m)))]
        @ opt_field (Method m \<noteq> []) ''method'' (JStr (to_valid (Method m)))
        @ opt_field (Params m \<noteq> []) ''params'' (JObj (received (Params m)))
        @ opt_field (OK m) ''ok'' (JBool True)
        @ opt_field (Result m \<noteq> []) ''result'' (JObj (received (Result m)))
        @ opt_field (Err m \<noteq> []) ''error'' (JStr (to_valid (Err m))))"

lemma coerce_msg_json: "coerce_json (msg_json m) = arrived m"
  by (simp add: msg_json_def arrived_def opt_field_def coerce_jmap)

lemma field_vals_JObj [simp]:
  "field_vals name (JObj []) = []"
  "field_vals name (JObj ((k, v) # kvs)) =
     (if fold_name k = fold_name name then v # field_vals name (JObj kvs) else field_vals name (JObj kvs))"
  "field_vals name (JObj (opt_field c k v @ kvs)) =
     (if c \<and> fold_name k = fold_name name then v # field_vals name (JObj kvs) else field_vals name (JObj kvs))"
  "field_vals name (JObj (opt_field c k v)) = (if c \<and> fold_name k = fold_name name then [v] else [])"
  by (simp_all add: field_vals_def members_def opt_field_def)

lemma arrived_fields:
  "field_vals ''v'' (arrived m) = [JNum (itoa (V m))]"
  "field_vals ''id'' (arrived m) = (if ID m = [] then [] else [JStr (to_valid (ID m))])"
  "field_vals ''type'' (arrived m) = [JStr (to_valid (Type m))]"
  "field_vals ''method'' (arrived m) = (if Method m = [] then [] else [JStr (to_valid (Method m))])"
  "field_vals ''params'' (arrived m) = (if Params m = [] then [] else [JObj (received (Params m))])"
  "field_vals ''ok'' (arrived m) = (if OK m then [JBool True] else [])"
  "field_vals ''result'' (arrived m) = (if Result m = [] then [] else [JObj (received (Result m))])"
  "field_vals ''error'' (arrived m) = (if Err m = [] then [] else [JStr (to_valid (Err m))])"
  by (simp_all add: arrived_def)

lemma msg_of_arrived:
  "- (2 ^ 63) \<le> V m \<Longrightarrow> V m < 2 ^ 63 \<Longrightarrow>
     msg_of_json (arrived m) =
       \<lparr>V = V m, ID = to_valid (ID m), Type = to_valid (Type m), Method = to_valid (Method m),
        Params = received (Params m), OK = OK m, Result = received (Result m), Err = to_valid (Err m)\<rparr>"
  by (simp add: msg_of_json_def get_int_def get_str_def get_map_def get_bool_def arrived_fields int_of_itoa)

lemma msg_ok_arrived:
  assumes "- (2 ^ 63) \<le> V m" "V m < 2 ^ 63" "sendable (Params m)" "sendable (Result m)"
  shows "msg_json_ok (arrived m)"
proof -
  have "obj_ok (arrived m)" by (simp add: arrived_def obj_ok_def)
  with assms any_ok_received show ?thesis
    by (simp add: msg_json_ok_def str_ok_def int_ok_def bool_ok_def map_ok_def arrived_fields int_of_itoa)
qed

text \<open>A message read back: its texts with invalid bytes replaced, its maps as the wire has them.\<close>

lemma Decode_Encode:
  assumes "- (2 ^ 63) \<le> V m" "V m < 2 ^ 63" "sendable (Params m)" "sendable (Result m)"
  shows "Decode (Encode m) =
      (\<lparr>V = V m, ID = to_valid (ID m), Type = to_valid (Type m), Method = to_valid (Method m),
        Params = received (Params m), OK = OK m, Result = received (Result m), Err = to_valid (Err m)\<rparr>, True)"
  using assms
  by (simp add: Decode_def Encode_def parse_marshal nums_ok_msg_json coerce_msg_json msg_of_arrived msg_ok_arrived)

lemma received_wire: "wire_map kvs \<Longrightarrow> received kvs = kvs"
  by (simp add: received_def jmap_wire members_def wire_map_def clean_coerce del: coerce_json.simps clean.simps)

lemma sendable_wire: "wire_map kvs \<Longrightarrow> sendable kvs"
  by (simp add: sendable_def jmap_wire wire_map_def clean_nums_ok del: nums_ok.simps clean.simps any_ok.simps)

lemma Decode_Encode_exact: "wire_ok m \<Longrightarrow> Decode (Encode m) = (m, True)"
  using Decode_Encode [of m] by (simp add: wire_ok_def sendable_wire received_wire to_valid_id)

section \<open>The dispatcher's contract\<close>

text \<open>
  What a service promises about its handlers, and what the dispatcher makes of it: every
  request is answered by one response that carries the request's ID, and nothing else is
  answered.
\<close>

lemma utf8_get_str: "clean j \<Longrightarrow> utf8_valid (get_str name j)"
proof -
  have "utf8_valid a \<Longrightarrow> list_all clean vs \<Longrightarrow>
      utf8_valid (foldl (\<lambda>a v. case v of JStr s \<Rightarrow> s | _ \<Rightarrow> a) a vs)" for a vs
    by (induction vs arbitrary: a) (auto split: json.splits)
  moreover assume "clean j"
  then have "list_all clean (field_vals name j)"
    by (cases j) (auto simp: field_vals_def members_def list_all_iff)
  ultimately show ?thesis by (simp add: get_str_def utf8_valid_ascii)
qed

lemma Decode_valid:
  assumes "Decode raw = (m, ok)"
  shows "utf8_valid (ID m)" and "utf8_valid (Type m)" and "utf8_valid (Method m)"
proof -
  have "utf8_valid (ID m) \<and> utf8_valid (Type m) \<and> utf8_valid (Method m)"
  proof (cases "parse_json raw")
    case None
    then show ?thesis using assms by (auto simp: Decode_def zero_message_def utf8_valid_ascii)
  next
    case (Some j)
    then show ?thesis using assms parse_json_clean [OF Some]
      by (auto simp: Decode_def msg_of_json_def utf8_get_str)
  qed
  then show "utf8_valid (ID m)" and "utf8_valid (Type m)" and "utf8_valid (Method m)" by simp_all
qed

lemma sendable_Nil [simp]: "sendable []"
  by (simp add: sendable_def)

lemma Reply_simps [simp]:
  "ID (Reply m ok res err) = ID m" "Type (Reply m ok res err) = TypeRes" "OK (Reply m ok res err) = ok"
  "Result (Reply m ok res err) = res" "Params (Reply m ok res err) = []" "V (Reply m ok res err) = 1"
  "Method (Reply m ok res err) = []" "Err (Reply m ok res err) = (case err of None \<Rightarrow> [] | Some e \<Rightarrow> e)"
  by (simp_all add: Reply_def zero_message_def Let_def split: option.split)

lemma Decode_Reply:
  assumes "utf8_valid (ID m)" and "sendable res"
  shows "Decode (Encode (Reply m ok res err)) =
      (\<lparr>V = 1, ID = ID m, Type = TypeRes, Method = [], Params = [], OK = ok, Result = received res,
        Err = (case err of None \<Rightarrow> [] | Some e \<Rightarrow> to_valid e)\<rparr>, True)"
  using Decode_Encode [of "Reply m ok res err"] assms
  by (simp add: to_valid_id TypeRes_def utf8_valid_ascii split: option.split)

locale rpc_service =
  fixes quote :: "string \<Rightarrow> string"
    and d :: "'s dispatcher"
    and inv :: "'s \<Rightarrow> bool"
  assumes handler_inv: "map_of (handlers d) k = Some h \<Longrightarrow> inv s \<Longrightarrow> inv (fst (h m s))"
    and handler_sendable: "map_of (handlers d) k = Some h \<Longrightarrow> inv s \<Longrightarrow> snd (h m s) = Inr res \<Longrightarrow> sendable res"
begin

lemma dispatch_inv: "inv s \<Longrightarrow> inv (fst (Dispatch quote d raw s))"
  using handler_inv
  by (auto simp: Dispatch_def Let_def split: prod.split option.split sum.split) (metis fst_conv)+

lemma dispatch_ignores:
  "Decode raw = (m, ok) \<Longrightarrow> \<not> ok \<or> Type m \<noteq> TypeReq \<Longrightarrow> Dispatch quote d raw s = (s, None)"
  by (auto simp: Dispatch_def)

lemma dispatch_runs:
  assumes "Decode raw = (m, True)" and "Type m = TypeReq" and "map_of (handlers d) (to_upper (Method m)) = Some h"
    and "inv s" and "h m s = (s', Inr res)"
  shows "\<exists>reply. Dispatch quote d raw s = (s', Some reply) \<and>
      (\<exists>r. Decode reply = (r, True) \<and> Type r = TypeRes \<and> ID r = ID m \<and> OK r \<and> Result r = received res)"
  using assms Decode_Reply [OF Decode_valid(1) [OF assms(1)] handler_sendable [OF assms(3,4)], of m res True None]
  by (simp add: Dispatch_def)

lemma dispatch_answers:
  assumes raw: "Decode raw = (m, True)" and req: "Type m = TypeReq" and s: "inv s"
  obtains reply r where "snd (Dispatch quote d raw s) = Some reply" and "Decode reply = (r, True)"
    and "Type r = TypeRes" and "ID r = ID m"
    and "OK r \<longleftrightarrow> (\<exists>h res. map_of (handlers d) (to_upper (Method m)) = Some h \<and> snd (h m s) = Inr res)"
proof (cases "map_of (handlers d) (to_upper (Method m))")
  case None
  from that Decode_Reply [OF Decode_valid(1) [OF raw] sendable_Nil]
  show thesis by (fastforce simp: Dispatch_def raw req None)
next
  case (Some h)
  show thesis
  proof (cases "snd (h m s)")
    case (Inl e)
    from that Decode_Reply [OF Decode_valid(1) [OF raw] sendable_Nil]
    show thesis by (fastforce simp: Dispatch_def raw req Some Inl split_beta)
  next
    case (Inr res)
    from that Decode_Reply [OF Decode_valid(1) [OF raw] handler_sendable [OF Some s Inr]]
    show thesis by (fastforce simp: Dispatch_def raw req Some Inr split_beta)
  qed
qed

end

section \<open>Calls\<close>

inductive client_step :: "client \<Rightarrow> client \<Rightarrow> bool" where
  Begin: "client_step c (fst (call_begin c uuid method ps))"
| Data: "client_step c (client_onData c b)"
| Abandon: "client_step c (call_abandon c uuid)"
| Receive: "call_receive c n = Some (c', m) \<Longrightarrow> client_step c c'"

inductive client_reach :: "client \<Rightarrow> bool" where
  Init: "client_reach NewClient"
| Step: "client_reach c \<Longrightarrow> client_step c c' \<Longrightarrow> client_reach c'"

definition pend_ok :: "client \<Rightarrow> string \<times> nat \<Rightarrow> bool" where
  "pend_ok c kn \<longleftrightarrow> snd kn < next_chan c \<and> chans c (snd kn) = [] \<and> owner c (snd kn) = fst kn"

definition chan_ok :: "client \<Rightarrow> nat \<Rightarrow> bool" where
  "chan_ok c n \<longleftrightarrow> length (chans c n) \<le> 1 \<and> (\<forall>m \<in> set (chans c n). ID m = owner c n \<and> Type m = TypeRes) \<and>
     (next_chan c \<le> n \<longrightarrow> chans c n = [])"

definition client_inv :: "client \<Rightarrow> bool" where
  "client_inv c \<longleftrightarrow> (\<forall>kn \<in> set (pending c). pend_ok c kn) \<and> (\<forall>n. chan_ok c n)"

lemma client_inv_delete: "client_inv c \<Longrightarrow> client_inv (c\<lparr>pending := AList.delete k (pending c)\<rparr>)"
  using set_delete_subset [of k "pending c"]
  by (auto simp: client_inv_def pend_ok_def chan_ok_def)

lemma client_inv_begin:
  assumes "client_inv c"
  shows "client_inv (fst (call_begin c uuid method ps))"
proof -
  let ?c = "fst (call_begin c uuid method ps)"
  have old: "pend_ok ?c kn" if "pend_ok c kn" for kn
    using that by (auto simp: pend_ok_def call_begin_def Let_def)
  have ch: "chan_ok ?c n" for n
    using assms by (auto simp: client_inv_def chan_ok_def call_begin_def Let_def)
  have new: "pend_ok ?c (uuid, next_chan c)"
    using assms by (auto simp: client_inv_def chan_ok_def pend_ok_def call_begin_def Let_def)
  have "pending ?c = AList.update uuid (next_chan c) (pending c)" by (simp add: call_begin_def Let_def)
  then have "kn = (uuid, next_chan c) \<or> kn \<in> set (pending c)" if "kn \<in> set (pending ?c)" for kn
    using that set_update_subset [of uuid "next_chan c" "pending c"] by auto
  then have "pend_ok ?c kn" if "kn \<in> set (pending ?c)" for kn
    using that old new assms unfolding client_inv_def by blast
  with ch show ?thesis by (simp add: client_inv_def)
qed

lemma client_inv_put:
  assumes "client_inv c" and "\<forall>kn \<in> set (pending c). snd kn \<noteq> n" and "chans c n = []" and "n < next_chan c"
    and "owner c n = ID m" and "Type m = TypeRes"
  shows "client_inv (c\<lparr>chans := (chans c)(n := [m])\<rparr>)"
  using assms by (auto simp: client_inv_def pend_ok_def chan_ok_def)

lemma client_inv_data: "client_inv c \<Longrightarrow> client_inv (client_onData c b)"
proof -
  assume c: "client_inv c"
  obtain m ok where m: "Decode b = (m, ok)" by fastforce
  show ?thesis
  proof (cases "\<not> ok \<or> Type m \<noteq> TypeRes")
    case True
    then show ?thesis using c m by (auto simp: client_onData_def)
  next
    case False
    let ?c = "c\<lparr>pending := AList.delete (ID m) (pending c)\<rparr>"
    have c': "client_inv ?c" using client_inv_delete [OF c] .
    show ?thesis
    proof (cases "map_of (pending c) (ID m)")
      case None
      then show ?thesis using False m c' by (simp add: client_onData_def)
    next
      case (Some n)
      then have n: "(ID m, n) \<in> set (pending c)" by (rule map_of_SomeD)
      then have own: "owner c n = ID m" "chans c n = []" "n < next_chan c" using c by (auto simp: client_inv_def pend_ok_def)
      have "\<forall>kn \<in> set (AList.delete (ID m) (pending c)). snd kn \<noteq> n"
        using c own(1) by (auto simp: AList.delete_eq client_inv_def pend_ok_def)
      then show ?thesis using client_inv_put [OF c', of n m] False m own
        by (simp add: client_onData_def Some)
    qed
  qed
qed

lemma client_inv_receive: "client_inv c \<Longrightarrow> call_receive c n = Some (c', m) \<Longrightarrow> client_inv c'"
proof -
  assume c: "client_inv c" and r: "call_receive c n = Some (c', m)"
  then obtain ms where ms: "chans c n = m # ms" "c' = c\<lparr>chans := (chans c)(n := ms)\<rparr>"
    by (auto simp: call_receive_def split: list.splits)
  have "chan_ok c n" using c by (simp add: client_inv_def)
  then have "ms = []" using ms(1) by (simp add: chan_ok_def)
  then show ?thesis using c ms(2) by (simp add: client_inv_def pend_ok_def chan_ok_def)
qed

lemma client_reach_inv: "client_reach c \<Longrightarrow> client_inv c"
proof (induction rule: client_reach.induct)
  case Init
  show ?case by (simp add: client_inv_def chan_ok_def NewClient_def)
next
  case (Step c c')
  from Step(2) show ?case
    using Step(3) client_inv_begin client_inv_data client_inv_delete client_inv_receive
    by cases (auto simp: call_abandon_def)
qed

text \<open>
  C35: In every state a client reaches by starting calls, receiving frames, giving up and
  taking responses, each call's channel holds at most one message, so the handler's send on
  the one-element channel never blocks; every message in it is a response carrying the
  request ID the call was made with; and a call still waiting has an empty channel of its
  own.
\<close>

theorem client_correlates:
  assumes "client_reach c"
  shows "length (chans c n) \<le> 1 \<and> (\<forall>m \<in> set (chans c n). ID m = owner c n \<and> Type m = TypeRes) \<and>
    (map_of (pending c) k = Some n \<longrightarrow> owner c n = k \<and> chans c n = [])"
  using client_reach_inv [OF assms]
  by (auto simp: client_inv_def chan_ok_def pend_ok_def dest!: map_of_SomeD)

text \<open>A call is made and answered; the response of another call is not taken for it.\<close>

definition demo_client :: client where
  "demo_client =
     (let c1 = fst (call_begin NewClient ''a'' MethodStatus []);
          c2 = fst (call_begin c1 ''b'' MethodStatus [])
      in client_onData c2 (Encode (Reply (NewRequest ''b'' MethodStatus []) True [] None)))"

lemma demo_client_reach: "client_reach demo_client"
  unfolding demo_client_def Let_def
  by (rule client_reach.Step [OF client_reach.Step [OF client_reach.Step
        [OF client_reach.Init client_step.Begin] client_step.Begin] client_step.Data])

theorem client_correlates_witness:
  "client_reach demo_client \<and> length (chans demo_client 1) \<le> 1 \<and> map ID (chans demo_client 1) = [''b''] \<and>
   owner demo_client 1 = ''b'' \<and> map_of (pending demo_client) ''a'' = Some 0 \<and> owner demo_client 0 = ''a'' \<and> chans demo_client 0 = []"
proof -
  have d: "map ID (chans demo_client 1) = [''b'']" "map_of (pending demo_client) ''a'' = Some 0" by code_simp+
  then obtain m where "m \<in> set (chans demo_client 1)" "ID m = ''b''" by (cases "chans demo_client 1") auto
  then show ?thesis
    using d demo_client_reach client_correlates [OF demo_client_reach, of 1 "''a''"]
      client_correlates [OF demo_client_reach, of 0 "''a''"] by force
qed

section \<open>Negotiation\<close>

lemma Negotiate_fold:
  assumes "r = foldl (\<lambda>best v. if v < floor then best
      else foldl (\<lambda>best own. if v = own \<and> v > best then v else best) best Supported) b peer"
  shows "b \<le> r" and "r = b \<or> (r \<in> set peer \<and> r \<in> set Supported \<and> floor \<le> r)"
    and "\<forall>v \<in> set peer. v \<in> set Supported \<and> floor \<le> v \<longrightarrow> v \<le> r"
proof -
  have "b \<le> r \<and> (r = b \<or> (r \<in> set peer \<and> r \<in> set Supported \<and> floor \<le> r)) \<and>
      (\<forall>v \<in> set peer. v \<in> set Supported \<and> floor \<le> v \<longrightarrow> v \<le> r)"
    using assms
  proof (induction peer arbitrary: b)
    case (Cons v vs)
    let ?b = "if v < floor then b else foldl (\<lambda>best own. if v = own \<and> v > best then v else best) b Supported"
    have "b \<le> ?b" "?b = b \<or> (?b = v \<and> v \<in> set Supported \<and> floor \<le> v)"
      "v \<in> set Supported \<and> floor \<le> v \<Longrightarrow> v \<le> ?b"
      by (auto simp: Supported_def V1_def V2_def)
    moreover have "r = foldl (\<lambda>best v. if v < floor then best
        else foldl (\<lambda>best own. if v = own \<and> v > best then v else best) best Supported) ?b vs"
      using Cons.prems by simp
    ultimately show ?case using Cons.IH [of ?b] by fastforce
  qed simp
  then show "b \<le> r" and "r = b \<or> (r \<in> set peer \<and> r \<in> set Supported \<and> floor \<le> r)"
    and "\<forall>v \<in> set peer. v \<in> set Supported \<and> floor \<le> v \<longrightarrow> v \<le> r" by blast+
qed

text \<open>
  \<open>Negotiate\<close> returns the highest version that the peer lists, this build supports and
  the floor allows, and 0 exactly when there is none, so a peer's list can never take a
  client below its floor.
\<close>

theorem negotiate_highest:
  "Negotiate peer floor =
     (let common = filter (\<lambda>v. v \<in> set Supported \<and> floor \<le> v) peer
      in if common = [] then 0 else Max (set common))"
proof (cases "filter (\<lambda>v. v \<in> set Supported \<and> floor \<le> v) peer = []")
  case True
  with Negotiate_fold(2) [OF refl, where floor = floor and b = 0 and peer = peer] show ?thesis
    by (auto simp: Negotiate_def filter_empty_conv Let_def)
next
  case False
  note f = Negotiate_fold [OF refl, where floor = floor and b = 0 and peer = peer, folded Negotiate_def]
  from False obtain v where v: "v \<in> set peer" "v \<in> set Supported" "floor \<le> v"
    by (auto simp: filter_empty_conv)
  then have "0 < v" by (auto simp: Supported_def V1_def V2_def)
  then have "Negotiate peer floor \<noteq> 0" using f(3) v by fastforce
  with f show ?thesis
    using False by (auto simp: Let_def intro!: Max_eqI [symmetric])
qed

end
