(* ===== verification/Base64.thy ===== *)
theory Base64
  imports GoText
begin

text \<open>
  Go's \<open>encoding/base64\<close> as the sources use it: \<open>StdEncoding\<close> (padded) and
  \<open>RawURLEncoding\<close> (URL alphabet, no padding). Decoding skips carriage returns and line
  feeds, as Go's decoder does, and ignores the unused low bits of the last group
  (neither encoding is \<open>Strict\<close>).
\<close>

datatype alphabet = StdAlphabet | URLAlphabet

definition b64_char :: "alphabet \<Rightarrow> int \<Rightarrow> char" where
  "b64_char al n =
     char_of (if n < 26 then 65 + n else if n < 52 then 71 + n else if n < 62 then n - 4
              else if n = 62 then (if al = StdAlphabet then 43 else 45)
              else (if al = StdAlphabet then 47 else 95))"

definition b64_val :: "alphabet \<Rightarrow> char \<Rightarrow> int option" where
  "b64_val al c =
     (let n = ord c
      in if 65 \<le> n \<and> n \<le> 90 then Some (n - 65)
         else if 97 \<le> n \<and> n \<le> 122 then Some (n - 71)
         else if 48 \<le> n \<and> n \<le> 57 then Some (n + 4)
         else if n = (if al = StdAlphabet then 43 else 45) then Some 62
         else if n = (if al = StdAlphabet then 47 else 95) then Some 63
         else None)"

abbreviation pad :: char where
  "pad \<equiv> CHR ''=''"

fun b64_enc :: "alphabet \<Rightarrow> bool \<Rightarrow> bytes \<Rightarrow> string" where
  "b64_enc al padded [] = []"
| "b64_enc al padded [a] =
     (let v = ord a * 65536
      in [b64_char al (v div 262144), b64_char al (v div 4096 mod 64)]
         @ (if padded then [pad, pad] else []))"
| "b64_enc al padded [a, b] =
     (let v = ord a * 65536 + ord b * 256
      in [b64_char al (v div 262144), b64_char al (v div 4096 mod 64), b64_char al (v div 64 mod 64)]
         @ (if padded then [pad] else []))"
| "b64_enc al padded (a # b # c # r) =
     (let v = ord a * 65536 + ord b * 256 + ord c
      in [b64_char al (v div 262144), b64_char al (v div 4096 mod 64),
          b64_char al (v div 64 mod 64), b64_char al (v mod 64)] @ b64_enc al padded r)"

text \<open>One group of four sextets, as many bytes as \<open>n\<close> says.\<close>

definition sextets :: "nat \<Rightarrow> int \<Rightarrow> int \<Rightarrow> int \<Rightarrow> int \<Rightarrow> bytes" where
  "sextets n w x y z =
     (let v = w * 262144 + x * 4096 + y * 64 + z
      in take n [char_of (v div 65536), char_of (v div 256 mod 256), char_of (v mod 256)])"

fun b64_dec :: "alphabet \<Rightarrow> bool \<Rightarrow> string \<Rightarrow> bytes option" where
  "b64_dec al padded [] = Some []"
| "b64_dec al padded (c1 # c2 # c3 # c4 # r) =
     (case (b64_val al c1, b64_val al c2, b64_val al c3, b64_val al c4) of
        (Some w, Some x, Some y, Some z) \<Rightarrow> map_option (\<lambda>bs. sextets 3 w x y z @ bs) (b64_dec al padded r)
      | (Some w, Some x, Some y, None) \<Rightarrow>
          if padded \<and> c4 = pad \<and> r = [] then Some (sextets 2 w x y 0) else None
      | (Some w, Some x, None, _) \<Rightarrow>
          if padded \<and> c3 = pad \<and> c4 = pad \<and> r = [] then Some (sextets 1 w x 0 0) else None
      | _ \<Rightarrow> None)"
| "b64_dec al padded [c1, c2, c3] =
     (case (b64_val al c1, b64_val al c2, b64_val al c3) of
        (Some w, Some x, Some y) \<Rightarrow> if padded then None else Some (sextets 2 w x y 0)
      | _ \<Rightarrow> None)"
| "b64_dec al padded [c1, c2] =
     (case (b64_val al c1, b64_val al c2) of
        (Some w, Some x) \<Rightarrow> if padded then None else Some (sextets 1 w x 0 0)
      | _ \<Rightarrow> None)"
| "b64_dec al padded [c1] = None"

definition is_crlf :: "char \<Rightarrow> bool" where
  "is_crlf c \<longleftrightarrow> c = CHR 0x0A \<or> c = CHR 0x0D"

definition std_encode :: "bytes \<Rightarrow> string" where
  "std_encode b = b64_enc StdAlphabet True b"

definition std_decode :: "string \<Rightarrow> bytes option" where
  "std_decode s = b64_dec StdAlphabet True (filter (\<lambda>c. \<not> is_crlf c) s)"

definition rawurl_encode :: "bytes \<Rightarrow> string" where
  "rawurl_encode b = b64_enc URLAlphabet False b"

definition rawurl_decode :: "string \<Rightarrow> bytes option" where
  "rawurl_decode s = b64_dec URLAlphabet False (filter (\<lambda>c. \<not> is_crlf c) s)"

section \<open>Round trips\<close>

lemma b64_val_char [simp]: "0 \<le> n \<Longrightarrow> n < 64 \<Longrightarrow> b64_val al (b64_char al n) = Some n"
  by (auto simp: b64_val_def b64_char_def Let_def)

lemma ord_b64_char: "0 \<le> n \<Longrightarrow> n < 64 \<Longrightarrow> 43 \<le> ord (b64_char al n) \<and> ord (b64_char al n) < 127 \<and>
    ord (b64_char al n) \<noteq> 61"
  by (auto simp: b64_char_def)

lemma b64_char_crlf [simp]: "0 \<le> n \<Longrightarrow> n < 64 \<Longrightarrow> \<not> is_crlf (b64_char al n)"
  using ord_b64_char [of n al] by (auto simp: is_crlf_def)

lemma b64_val_pad [simp]: "b64_val al pad = None"
  by (simp add: b64_val_def)

lemma pad_crlf [simp]: "\<not> is_crlf pad"
  by (simp add: is_crlf_def)

lemma sextet_split:
  fixes v :: int
  shows "v div 262144 * 262144 + v div 4096 mod 64 * 4096 + v div 64 mod 64 * 64 + v mod 64 = v"
proof -
  have "v div 4096 = v div 262144 * 64 + v div 4096 mod 64"
    using zdiv_zmult2_eq [of 64 v 4096] by simp
  moreover have "v div 64 = v div 4096 * 64 + v div 64 mod 64"
    using zdiv_zmult2_eq [of 64 v 64] by simp
  moreover have "v = v div 64 * 64 + v mod 64" by simp
  ultimately show ?thesis by linarith
qed

lemma triple_bytes:
  assumes "v = ord a * 65536 + ord b * 256 + ord c"
  shows "v div 65536 = ord a" and "v div 256 mod 256 = ord b"
    and "v mod 256 = ord c" and "0 \<le> v div 262144" and "v div 262144 < 64"
proof -
  have v: "v = ord c + 256 * (ord b + 256 * ord a)" using assms by simp
  have d1: "v div 256 = ord b + 256 * ord a"
    unfolding v by (subst div_mult_self2) (simp_all add: div_pos_pos_trivial)
  have d2: "v div 65536 = v div 256 div 256" using zdiv_zmult2_eq [of 256 v 256] by simp
  have d3: "v div 262144 = v div 65536 div 4" using zdiv_zmult2_eq [of 4 v 65536] by simp
  show "v mod 256 = ord c"
    unfolding v by (subst mod_mult_self2) (simp add: mod_pos_pos_trivial)
  show "v div 256 mod 256 = ord b"
    unfolding d1 by (subst mod_mult_self2) (simp add: mod_pos_pos_trivial)
  show e: "v div 65536 = ord a"
    unfolding d2 d1 by (subst div_mult_self2) (simp_all add: div_pos_pos_trivial)
  show "0 \<le> v div 262144" "v div 262144 < 64"
    unfolding d3 e using ord_bounds [of a] by linarith+
qed

lemma mult_64:
  fixes x y :: int
  shows "x * 65536 div 64 mod 64 = 0" and "x * 65536 mod 64 = 0"
    and "(x * 65536 + y * 256) mod 64 = 0"
proof -
  have a: "x * 65536 = 64 * (64 * (x * 16))" "x * 65536 + y * 256 = 64 * (x * 1024 + y * 4)" by simp_all
  show "x * 65536 div 64 mod 64 = 0" "x * 65536 mod 64 = 0"
    unfolding a(1) by (simp_all only: nonzero_mult_div_cancel_left mod_mult_self1_is_0 zero_neq_numeral)
  show "(x * 65536 + y * 256) mod 64 = 0"
    unfolding a(2) by (simp only: mod_mult_self1_is_0)
qed

lemma sextets_split:
  assumes "v = ord a * 65536 + ord b * 256 + ord c"
  shows "sextets n (v div 262144) (v div 4096 mod 64) (v div 64 mod 64) (v mod 64) = take n [a, b, c]"
proof -
  show ?thesis
    unfolding sextets_def Let_def sextet_split triple_bytes [OF assms] char_of_char ..
qed

lemma b64_round_trip: "b64_dec al padded (b64_enc al padded b) = Some b"
proof (induction al padded b rule: b64_enc.induct)
  case (2 al padded a)
  let ?v = "ord a * 65536"
  have v: "?v = ord a * 65536 + ord (CHR 0x00) * 256 + ord (CHR 0x00)" by simp
  show ?case
    using sextets_split [OF v, of 1] triple_bytes(4,5) [OF v] mult_64 [of "ord a"]
    by (simp add: Let_def)
next
  case (3 al padded a b)
  let ?v = "ord a * 65536 + ord b * 256"
  have v: "?v = ord a * 65536 + ord b * 256 + ord (CHR 0x00)" by simp
  show ?case
    using sextets_split [OF v, of 2] triple_bytes(4,5) [OF v] mult_64(3) [of "ord a" "ord b"]
    by (simp add: Let_def)
next
  case (4 al padded a b c r)
  then show ?case
    using sextets_split [OF refl, of 3 a b c] triple_bytes(4,5) [OF refl, of a b c]
    by (simp add: Let_def)
qed simp

lemma b64_enc_no_crlf: "filter (\<lambda>c. \<not> is_crlf c) (b64_enc al padded b) = b64_enc al padded b"
proof (induction al padded b rule: b64_enc.induct)
  case (4 al padded a b c r)
  then show ?case using triple_bytes(4,5) [OF refl, of a b c] by (simp add: Let_def)
next
  case (2 al padded a)
  then show ?case using triple_bytes(4,5) [of "ord a * 65536" a "CHR 0x00" "CHR 0x00"]
    by (simp add: Let_def)
next
  case (3 al padded a b)
  then show ?case using triple_bytes(4,5) [of "ord a * 65536 + ord b * 256" a b "CHR 0x00"]
    by (simp add: Let_def)
qed simp

lemma std_decode_encode [simp]: "std_decode (std_encode b) = Some b"
  by (simp add: std_decode_def std_encode_def b64_enc_no_crlf b64_round_trip)

lemma rawurl_decode_encode [simp]: "rawurl_decode (rawurl_encode b) = Some b"
  by (simp add: rawurl_decode_def rawurl_encode_def b64_enc_no_crlf b64_round_trip)

text \<open>The characters of an encoding are printable and are no white space.\<close>

lemma std_encode_chars: "c \<in> set (b64_enc al padded b) \<Longrightarrow> 43 \<le> ord c \<and> ord c < 127"
proof (induction al padded b rule: b64_enc.induct)
  case (4 al padded a b d r)
  then show ?case
    using triple_bytes(4,5) [OF refl, of a b d] ord_b64_char by (auto simp: Let_def)
next
  case (2 al padded a)
  then show ?case
    using triple_bytes(4,5) [of "ord a * 65536" a "CHR 0x00" "CHR 0x00"] ord_b64_char
    by (auto simp: Let_def split: if_splits)
next
  case (3 al padded a b)
  then show ?case
    using triple_bytes(4,5) [of "ord a * 65536 + ord b * 256" a b "CHR 0x00"] ord_b64_char
    by (auto simp: Let_def split: if_splits)
qed simp

lemma std_encode_Nil [simp]: "std_encode b = [] \<longleftrightarrow> b = []"
  by (cases "(StdAlphabet, True, b)" rule: b64_enc.cases) (auto simp: std_encode_def Let_def)

end
