(* ===== verification/GoPath.thy ===== *)
theory GoPath
  imports Prelude
begin

text \<open>
  The functions of Go's \<open>path\<close> package the sources call: \<open>Clean\<close>, \<open>Join\<close>, \<open>Dir\<close>
  and \<open>Base\<close>. \<open>Clean\<close> is modelled on the list of components between slashes, the
  rewritten prefix kept as a reversed stack: empty components and \<open>.\<close> disappear,
  \<open>..\<close> removes the component before it, and at the root it is dropped.
\<close>

abbreviation slash :: char where
  "slash \<equiv> CHR ''/''"

definition clean_step :: "bool \<Rightarrow> string list \<Rightarrow> string \<Rightarrow> string list" where
  "clean_step rooted st c =
     (if c = '''' \<or> c = ''.'' then st
      else if c = ''..'' then
        (case st of
           [] \<Rightarrow> if rooted then [] else [''..'']
         | x # xs \<Rightarrow> if x = ''..'' then ''..'' # st else xs)
      else c # st)"

definition clean_comps :: "bool \<Rightarrow> string list \<Rightarrow> string list" where
  "clean_comps rooted cs = rev (foldl (clean_step rooted) [] cs)"

definition path_clean :: "string \<Rightarrow> string" where
  "path_clean p =
     (if p = '''' then ''.''
      else
        let rooted = (hd p = slash);
            body = join_on slash (clean_comps rooted (split_on slash p))
        in if rooted then slash # body
           else if body = '''' then ''.'' else body)"

definition path_join :: "string list \<Rightarrow> string" where
  "path_join es =
     (let ne = filter (\<lambda>e. e \<noteq> '''') es
      in if ne = [] then '''' else path_clean (join_on slash ne))"

text \<open>\<open>path.Dir\<close>: everything up to and including the last slash, cleaned.\<close>

definition path_dir :: "string \<Rightarrow> string" where
  "path_dir p = path_clean (rev (dropWhile (\<lambda>c. c \<noteq> slash) (rev p)))"

definition path_base :: "string \<Rightarrow> string" where
  "path_base p =
     (if p = '''' then ''.''
      else
        let q = rev (dropWhile (\<lambda>c. c = slash) (rev p));
            b = rev (takeWhile (\<lambda>c. c \<noteq> slash) (rev q))
        in if b = '''' then ''/'' else b)"

section \<open>Components of a cleaned rooted path\<close>

definition plain_comp :: "string \<Rightarrow> bool" where
  "plain_comp c \<longleftrightarrow> c \<noteq> '''' \<and> c \<noteq> ''.'' \<and> c \<noteq> ''..'' \<and> slash \<notin> set c"

abbreviation plain_comps :: "string list \<Rightarrow> bool" where
  "plain_comps cs \<equiv> list_all plain_comp cs"

lemma clean_step_plain:
  "plain_comps st \<Longrightarrow> slash \<notin> set c \<Longrightarrow> plain_comps (clean_step True st c)"
  by (auto simp: clean_step_def plain_comp_def split: list.splits)

lemma foldl_clean_plain:
  "plain_comps st \<Longrightarrow> (\<And>c. c \<in> set cs \<Longrightarrow> slash \<notin> set c) \<Longrightarrow>
     plain_comps (foldl (clean_step True) st cs)"
  by (induction cs arbitrary: st) (simp_all add: clean_step_plain)

lemma clean_comps_plain:
  "(\<And>c. c \<in> set cs \<Longrightarrow> slash \<notin> set c) \<Longrightarrow> plain_comps (clean_comps True cs)"
  by (simp add: clean_comps_def foldl_clean_plain)

lemma clean_step_keep: "plain_comp c \<Longrightarrow> clean_step r st c = c # st"
  by (auto simp: clean_step_def plain_comp_def)

lemma foldl_clean_keep: "plain_comps cs \<Longrightarrow> foldl (clean_step r) st cs = rev cs @ st"
  by (induction cs arbitrary: st) (simp_all add: clean_step_keep)

lemma clean_comps_keep: "plain_comps cs \<Longrightarrow> clean_comps r cs = cs"
  by (simp add: clean_comps_def foldl_clean_keep)

lemma clean_comps_Nil_head: "clean_comps r ('''' # cs) = clean_comps r cs"
  by (simp add: clean_comps_def clean_step_def)

lemma plain_comp_no_slash: "plain_comp c \<Longrightarrow> slash \<notin> set c"
  by (simp add: plain_comp_def)

lemma split_join_plain: "cs \<noteq> [] \<Longrightarrow> plain_comps cs \<Longrightarrow> split_on slash (join_on slash cs) = cs"
  by (rule split_join) (auto simp: list_all_iff plain_comp_def)

lemma join_plain_Nil: "plain_comps cs \<Longrightarrow> join_on slash cs = '''' \<longleftrightarrow> cs = []"
  by (cases cs) (auto simp: join_on_Cons plain_comp_def)

text \<open>The rooted path of a list of components, and back.\<close>

definition path_of :: "string list \<Rightarrow> string" where
  "path_of cs = slash # join_on slash cs"

lemma path_clean_rooted:
  "path_clean (slash # p) = path_of (clean_comps True (split_on slash p))"
  by (simp add: path_clean_def path_of_def clean_comps_Nil_head)

lemma clean_split_join:
  "plain_comps cs \<Longrightarrow> clean_comps True (split_on slash (join_on slash cs)) = cs"
  by (cases "cs = []")
    (simp_all add: split_join_plain clean_comps_keep clean_comps_Nil_head)

lemma path_clean_path_of: "plain_comps cs \<Longrightarrow> path_clean (path_of cs) = path_of cs"
  by (simp add: path_of_def [of cs] path_clean_rooted clean_split_join)

lemma path_of_inj: "plain_comps cs \<Longrightarrow> plain_comps ds \<Longrightarrow> path_of cs = path_of ds \<longleftrightarrow> cs = ds"
  by (metis join_plain_Nil path_of_def list.inject split_join_plain)

lemma path_join_child:
  assumes "plain_comps cs" and "plain_comp c"
  shows "path_join [path_of cs, c] = path_of (cs @ [c])"
proof (cases "cs = []")
  case True
  have c: "split_on slash c = [c]" and ne: "c \<noteq> ''''"
    using assms(2) by (auto simp: plain_comp_def intro: split_on_plain)
  have "path_clean (slash # slash # c) = path_of [c]"
    using assms(2) by (simp add: path_clean_rooted clean_comps_Nil_head c clean_comps_keep)
  with True ne show ?thesis
    by (simp add: path_join_def path_of_def)
next
  case False
  have "path_clean (path_of (cs @ [c])) = path_of (cs @ [c])"
    using assms by (intro path_clean_path_of) simp
  moreover have "c \<noteq> ''''" using assms(2) by (simp add: plain_comp_def)
  ultimately show ?thesis
    using False by (simp add: path_join_def path_of_def join_on_snoc)
qed

text \<open>A cleaned rooted path is a fixed point, whatever it was before.\<close>

lemma clean_comps_split_plain: "plain_comps (clean_comps True (split_on slash p))"
  by (rule clean_comps_plain) (rule split_on_no_sep)

lemma path_clean_idem: "path_clean (path_clean (slash # p)) = path_clean (slash # p)"
  by (simp add: path_clean_rooted path_clean_path_of clean_comps_split_plain)

section \<open>Cleaning twice\<close>

text \<open>
  Cleaning a path first, rooted or not, does not change the components its rooted form has:
  an unrooted path keeps its leading \<open>..\<close> components, and a root swallows them.
\<close>

lemma clean_unrooted_stack:
  "\<exists>a k. foldl (clean_step False) [] cs = a @ replicate k ''..'' \<and> foldl (clean_step True) [] cs = a \<and> ''..'' \<notin> set a"
proof (induction cs rule: rev_induct)
  case (snoc c cs)
  then obtain a k where a: "foldl (clean_step False) [] cs = a @ replicate k ''..''"
    "foldl (clean_step True) [] cs = a" "''..'' \<notin> set a" by blast
  show ?case
  proof (cases "c = ''..''")
    case True
    show ?thesis
    proof (cases a)
      case Nil
      then have "clean_step False (replicate k ''..'') c = replicate (Suc k) ''..''" "clean_step True [] c = []"
        using True by (cases k; simp add: clean_step_def)+
      then have "foldl (clean_step False) [] (cs @ [c]) = [] @ replicate (Suc k) ''..'' \<and>
          foldl (clean_step True) [] (cs @ [c]) = []" using a Nil by simp
      then show ?thesis by (intro exI [of _ "[]"] exI [of _ "Suc k"]) simp
    next
      case (Cons x xs)
      then have "clean_step False (a @ replicate k ''..'') c = xs @ replicate k ''..''" "clean_step True a c = xs"
        using a(3) True by (auto simp: clean_step_def)
      then show ?thesis using a Cons by (intro exI [of _ xs] exI [of _ k]) simp
    qed
  next
    case False
    let ?a = "if c = '''' \<or> c = ''.'' then a else c # a"
    have "clean_step False (a @ replicate k ''..'') c = ?a @ replicate k ''..''" "clean_step True a c = ?a"
      using False by (simp_all add: clean_step_def)
    then show ?thesis using a False by (intro exI [of _ ?a] exI [of _ k]) simp
  qed
qed simp

lemma clean_dots: "foldl (clean_step True) [] (replicate k ''..'') = []"
  by (induction k) (simp_all add: clean_step_def)

lemma clean_step_parts:
  "x \<in> set (foldl (clean_step r) st cs) \<Longrightarrow> x \<in> set st \<or> x = ''..'' \<or> (x \<in> set cs \<and> x \<noteq> '''' \<and> x \<noteq> ''.'')"
proof (induction cs arbitrary: st)
  case (Cons c cs)
  have "x \<in> set (clean_step r st c) \<Longrightarrow> x \<in> set st \<or> x = ''..'' \<or> (x = c \<and> x \<noteq> '''' \<and> x \<noteq> ''.'')"
    by (auto simp: clean_step_def split: if_splits list.splits)
  with Cons show ?case by fastforce
qed simp

lemma clean_comps_rooted_unrooted: "clean_comps True (clean_comps False cs) = clean_comps True cs"
proof -
  obtain a k where a: "foldl (clean_step False) [] cs = a @ replicate k ''..''"
    "foldl (clean_step True) [] cs = a" "''..'' \<notin> set a" using clean_unrooted_stack by blast
  have "x \<noteq> '''' \<and> x \<noteq> ''.''" if "x \<in> set a" for x
    using clean_step_parts [of x True "[]" cs] a(2) that by auto
  then have keep: "clean_step True st x = x # st" if "x \<in> set a" for x st
    using that a(3) by (auto simp: clean_step_def)
  have "foldl (clean_step True) st (rev b) = b @ st" if "set b \<subseteq> set a" for b st
    using that by (induction b arbitrary: st) (auto simp: keep)
  then have "foldl (clean_step True) [] (rev a) = a" by simp
  then show ?thesis using a by (simp add: clean_comps_def clean_dots)
qed

lemma clean_comps_no_slash: "x \<in> set (clean_comps r (split_on slash p)) \<Longrightarrow> slash \<notin> set x \<and> x \<noteq> ''''"
  using clean_step_parts [of x r "[]" "split_on slash p"] split_on_no_sep [of x slash p]
  by (auto simp: clean_comps_def)

lemma clean_path_clean:
  assumes "x \<noteq> ''''"
  shows "clean_comps True (split_on slash (path_clean x)) = clean_comps True (split_on slash x)"
proof (cases "hd x = slash")
  case True
  then obtain y where x: "x = slash # y" using assms by (cases x) auto
  show ?thesis
    using clean_split_join [OF clean_comps_split_plain [of y]]
    by (simp add: x path_clean_rooted path_of_def clean_comps_Nil_head)
next
  case False
  let ?cs = "clean_comps False (split_on slash x)"
  have ns: "\<And>c. c \<in> set ?cs \<Longrightarrow> slash \<notin> set c \<and> c \<noteq> ''''" by (rule clean_comps_no_slash)
  have empty: "join_on slash ?cs = '''' \<longleftrightarrow> ?cs = []"
    using ns by (cases ?cs) (auto simp: join_on_Cons)
  have "clean_comps True (split_on slash (path_clean x)) = clean_comps True ?cs"
  proof (cases "?cs = []")
    case True
    then show ?thesis using False assms empty
      by (simp add: path_clean_def Let_def clean_comps_def clean_step_def)
  next
    case ne: False
    then have "split_on slash (join_on slash ?cs) = ?cs" using ns by (intro split_join) auto
    then show ?thesis using False assms empty ne by (simp add: path_clean_def Let_def)
  qed
  then show ?thesis by (simp add: clean_comps_rooted_unrooted)
qed

lemma split_on_last: "c \<notin> set y \<Longrightarrow> split_on c (x @ c # y) = split_on c x @ [y]"
  by (induction x) (auto simp: split_on_plain split: list.splits)

lemma clean_comps_snoc: "plain_comp c \<Longrightarrow> clean_comps r (cs @ [c]) = clean_comps r cs @ [c]"
  by (simp add: clean_comps_def clean_step_keep)

lemma clean_path_join:
  assumes "p \<noteq> ''''" and "plain_comp c"
  shows "clean_comps True (split_on slash (path_join [p, c])) = clean_comps True (split_on slash p) @ [c]"
proof -
  have c: "c \<noteq> ''''" "slash \<notin> set c" using assms(2) by (simp_all add: plain_comp_def)
  then have "path_join [p, c] = path_clean (p @ slash # c)" using assms(1) by (simp add: path_join_def)
  then show ?thesis
    using clean_path_clean [of "p @ slash # c"] assms c by (simp add: split_on_last clean_comps_snoc)
qed

end
