(* ===== verification/FileStore.thy ===== *)
theory FileStore
  imports Prelude
begin

text \<open>
  The contract between the in-memory file system and its clients (the RPC handlers, the
  control API, the WebDAV and FUSE front ends): operations by key, an invariant, and a
  view of the stored bodies by canonical path. Clients are proved against the locale,
  and \<open>MemFS\<close> interprets it.
\<close>

locale file_store =
  fixes inv :: "'s \<Rightarrow> bool"
    and vw :: "'s \<Rightarrow> 'p \<Rightarrow> 'v option"
    and resolve :: "'k \<Rightarrow> 'p option"
    and wr :: "'s \<Rightarrow> 'k \<Rightarrow> 'v \<Rightarrow> 's \<times> 'e option"
    and rd :: "'s \<Rightarrow> 'k \<Rightarrow> 'v option"
    and rm :: "'s \<Rightarrow> 'k \<Rightarrow> 's \<times> 'e option"
  assumes inv_wr: "inv s \<Longrightarrow> inv (fst (wr s k v))"
    and inv_rm: "inv s \<Longrightarrow> inv (fst (rm s k))"
    and wr_ok: "inv s \<Longrightarrow> wr s k v = (s', None) \<Longrightarrow>
      \<exists>p. resolve k = Some p \<and> vw s' = (vw s)(p \<mapsto> v)"
    and rm_ok: "inv s \<Longrightarrow> rm s k = (s', None) \<Longrightarrow>
      \<exists>p. resolve k = Some p \<and> vw s' = (vw s)(p := None)"
    and rd_iff: "rd s k = Some v \<longleftrightarrow> (\<exists>p. resolve k = Some p \<and> vw s p = Some v)"
begin

lemma rd_eq: "rd s k = Option.bind (resolve k) (vw s)"
proof (cases "rd s k")
  case None
  then show ?thesis
    using rd_iff [of s k] by (cases "resolve k"; cases "vw s (the (resolve k))") auto
next
  case (Some v)
  then show ?thesis using rd_iff [of s k v] by auto
qed

lemma read_after_write: "inv s \<Longrightarrow> wr s k v = (s', None) \<Longrightarrow> rd s' k = Some v"
  using wr_ok [of s k v s'] by (auto simp: rd_iff)

lemma read_other:
  "inv s \<Longrightarrow> wr s k v = (s', None) \<Longrightarrow> resolve j \<noteq> resolve k \<Longrightarrow> rd s' j = rd s j"
  using wr_ok [of s k v s'] by (cases "resolve j") (auto simp: rd_eq)

lemma read_after_remove: "inv s \<Longrightarrow> rm s k = (s', None) \<Longrightarrow> rd s' k = None"
  using rm_ok [of s k s'] by (auto simp: rd_eq)

lemma read_other_remove:
  "inv s \<Longrightarrow> rm s k = (s', None) \<Longrightarrow> resolve j \<noteq> resolve k \<Longrightarrow> rd s' j = rd s j"
  using rm_ok [of s k s'] by (cases "resolve j") (auto simp: rd_eq)

text \<open>Copy, then remove the source: a move between different places, a loss at the same place.\<close>

lemma move:
  assumes "inv s" and "rd s a = Some v" and "wr s b v = (s1, None)" and "rm s1 a = (s2, None)"
  shows "rd s2 a = None"
    and "resolve a \<noteq> resolve b \<Longrightarrow> rd s2 b = Some v"
    and "resolve j \<noteq> resolve a \<Longrightarrow> resolve j \<noteq> resolve b \<Longrightarrow> rd s2 j = rd s j"
proof -
  have s1: "inv s1" using inv_wr [OF assms(1), of b v] assms(3) by simp
  show "rd s2 a = None" using read_after_remove [OF s1 assms(4)] .
  show "rd s2 b = Some v" if "resolve a \<noteq> resolve b"
    using read_other_remove [OF s1 assms(4)] read_after_write [OF assms(1,3)] that by metis
  show "rd s2 j = rd s j" if "resolve j \<noteq> resolve a" "resolve j \<noteq> resolve b"
    using read_other_remove [OF s1 assms(4)] read_other [OF assms(1,3)] that by metis
qed

end

end
