(* ===== verification/MemFS.thy ===== *)
theory MemFS
  imports GoPath FileStore
begin

unbundle bit_operations_syntax

text \<open>
  The in-memory file system of \<open>internal/vfs/memfs.go\<close>. A \<open>Node\<close> keeps the fields of the
  Go struct; its \<open>Children\<close> map is an association list, so that every operation
  computes. Every method takes the file system and returns it updated next to its
  error (or value); the pointer a method walks to and then writes through is
  \<open>modify\<close>, which applies the write to the node at that path. Time is the reading
  \<open>now\<close> of the clock during the call. The field \<open>freed\<close> is history, not state of the
  program: the contents, at the moment they became unreachable, of the byte buffers
  the tree has dropped.
\<close>

section \<open>Data\<close>

datatype fs_error =
    ErrNotFound | ErrExists | ErrNotDir | ErrIsDir | ErrQuota | ErrInvalidPath | ErrNotEmpty

type_synonym filemode = "32 word"
type_synonym time = int

definition modeDir :: filemode where
  "modeDir = push_bit 31 1"

datatype node = Node (nname: string) (isDir: bool) (nmode: filemode) (modTime: time)
  (ndata: bytes) (children: "(string, node) gomap")

record memfs =
  root :: node
  used :: int
  quota :: int
  version :: int
  freed :: "bytes list"

record manifest_entry =
  me_path :: string
  me_sha :: string
  me_size :: int
  me_modTime :: time

definition new_dir :: "string \<Rightarrow> filemode \<Rightarrow> time \<Rightarrow> node" where
  "new_dir nm mode now = Node nm True (mode OR modeDir) now [] []"

definition new_file :: "string \<Rightarrow> filemode \<Rightarrow> time \<Rightarrow> bytes \<Rightarrow> node" where
  "new_file nm mode now data = Node nm False (mode AND NOT modeDir) now data []"

text \<open>Permission bits are written in hexadecimal: \<open>0x1ED\<close> is Go's \<open>0o755\<close>.\<close>

definition New :: "time \<Rightarrow> int \<Rightarrow> memfs" where
  "New now quotaBytes =
     \<lparr>root = new_dir ''/'' 0x1ED now, used = 0, quota = quotaBytes, version = 0, freed = []\<rparr>"

section \<open>Paths\<close>

definition normalize_fs :: "string \<Rightarrow> fs_error + string list" where
  "normalize_fs p =
     (if p = '''' then Inl ErrInvalidPath
      else
        let q = path_clean (slash # p)
        in if q = ''/'' then Inr []
           else if contains q ''..'' then Inl ErrInvalidPath
           else Inr (split_on slash (trim_prefix q ''/'')))"

fun walk_node :: "node \<Rightarrow> string list \<Rightarrow> fs_error + node" where
  "walk_node n [] = Inr n"
| "walk_node n (part # parts) =
     (if \<not> isDir n then Inl ErrNotDir
      else case map_of (children n) part of
             None \<Rightarrow> Inl ErrNotFound
           | Some child \<Rightarrow> walk_node child parts)"

definition walk :: "memfs \<Rightarrow> string list \<Rightarrow> fs_error + node" where
  "walk m parts = walk_node (root m) parts"

definition walkParent :: "memfs \<Rightarrow> string list \<Rightarrow> fs_error + node \<times> string" where
  "walkParent m parts =
     (if parts = [] then Inl ErrInvalidPath
      else case walk m (butlast parts) of
             Inl e \<Rightarrow> Inl e
           | Inr parent \<Rightarrow>
               if \<not> isDir parent then Inl ErrNotDir else Inr (parent, last parts))"

section \<open>Writes through a pointer\<close>

definition set_children :: "(string, node) gomap \<Rightarrow> node \<Rightarrow> node" where
  "set_children cs n = Node (nname n) (isDir n) (nmode n) (modTime n) (ndata n) cs"

definition put_child :: "string \<Rightarrow> node \<Rightarrow> node \<Rightarrow> node" where
  "put_child k c n = set_children (AList.update k c (children n)) n"

definition del_child :: "string \<Rightarrow> node \<Rightarrow> node" where
  "del_child k n = set_children (AList.delete k (children n)) n"

definition touch :: "time \<Rightarrow> node \<Rightarrow> node" where
  "touch now n = Node (nname n) (isDir n) (nmode n) now (ndata n) (children n)"

definition zeroBytes :: "bytes \<Rightarrow> bytes" where
  "zeroBytes b = zeros (length b)"

definition zero_data :: "node \<Rightarrow> node" where
  "zero_data n = Node (nname n) (isDir n) (nmode n) (modTime n) (zeroBytes (ndata n)) (children n)"

fun modify :: "string list \<Rightarrow> (node \<Rightarrow> node) \<Rightarrow> node \<Rightarrow> node" where
  "modify [] f n = f n"
| "modify (part # parts) f n =
     (case map_of (children n) part of
        None \<Rightarrow> n
      | Some child \<Rightarrow> put_child part (modify parts f child) n)"

section \<open>Operations\<close>

definition Used :: "memfs \<Rightarrow> int" where
  "Used m = used m"

definition Version :: "memfs \<Rightarrow> int" where
  "Version m = version m"

definition Mkdir :: "time \<Rightarrow> memfs \<Rightarrow> string \<Rightarrow> filemode \<Rightarrow> memfs \<times> fs_error option" where
  "Mkdir now m p mode =
     (case normalize_fs p of
        Inl e \<Rightarrow> (m, Some e)
      | Inr parts \<Rightarrow>
          if parts = [] then (m, Some ErrExists)
          else (case walkParent m parts of
            Inl e \<Rightarrow> (m, Some e)
          | Inr (parent, name) \<Rightarrow>
              if map_of (children parent) name \<noteq> None then (m, Some ErrExists)
              else (m\<lparr>root := modify (butlast parts)
                         (\<lambda>n. touch now (put_child name (new_dir name mode now) n)) (root m),
                      version := version m + 1\<rparr>, None)))"

fun mkdir_all_node :: "time \<Rightarrow> filemode \<Rightarrow> string list \<Rightarrow> node \<Rightarrow> node \<times> fs_error option" where
  "mkdir_all_node now mode [] cur = (cur, None)"
| "mkdir_all_node now mode (part # parts) cur =
     (case map_of (children cur) part of
        None \<Rightarrow>
          (let (child, e) = mkdir_all_node now mode parts (new_dir part mode now)
           in (put_child part child cur, e))
      | Some child \<Rightarrow>
          if \<not> isDir child then (cur, Some ErrNotDir)
          else let (child', e) = mkdir_all_node now mode parts child
               in (put_child part child' cur, e))"

definition MkdirAll :: "time \<Rightarrow> memfs \<Rightarrow> string \<Rightarrow> filemode \<Rightarrow> memfs \<times> fs_error option" where
  "MkdirAll now m p mode =
     (case normalize_fs p of
        Inl e \<Rightarrow> (m, Some e)
      | Inr parts \<Rightarrow>
          (case mkdir_all_node now mode parts (root m) of
             (r, Some e) \<Rightarrow> (m\<lparr>root := r\<rparr>, Some e)
           | (r, None) \<Rightarrow> (m\<lparr>root := r, version := version m + 1\<rparr>, None)))"

text \<open>
  \<open>Write\<close>: an existing file's buffer is zeroed in place as soon as it is found, before
  the quota is looked at.
\<close>

definition Write :: "time \<Rightarrow> memfs \<Rightarrow> string \<Rightarrow> bytes \<Rightarrow> filemode \<Rightarrow> memfs \<times> fs_error option" where
  "Write now m p data mode =
     (case normalize_fs p of
        Inl e \<Rightarrow> (m, Some e)
      | Inr parts \<Rightarrow>
          if parts = [] then (m, Some ErrIsDir)
          else (case walkParent m parts of
            Inl e \<Rightarrow> (m, Some e)
          | Inr (parent, name) \<Rightarrow>
             (let existing = map_of (children parent) name
              in if existing \<noteq> None \<and> isDir (the existing) then (m, Some ErrIsDir)
                 else
                   let oldSize = (case existing of None \<Rightarrow> 0 | Some n \<Rightarrow> int (length (ndata n)));
                       m1 = (case existing of
                               None \<Rightarrow> m
                             | Some n \<Rightarrow> m\<lparr>root := modify (butlast parts)
                                           (put_child name (zero_data n)) (root m)\<rparr>);
                       newSize = int (length data)
                   in if quota m > 0 \<and> used m - oldSize + newSize > quota m
                      then (m1, Some ErrQuota)
                      else (m1\<lparr>root := modify (butlast parts)
                                 (\<lambda>n. touch now (put_child name (new_file name mode now data) n))
                                 (root m1),
                               used := used m - oldSize + newSize,
                               version := version m + 1,
                               freed := freed m @ (case existing of None \<Rightarrow> []
                                          | Some n \<Rightarrow> [ndata (zero_data n)])\<rparr>, None))))"

definition Read :: "memfs \<Rightarrow> string \<Rightarrow> fs_error + bytes" where
  "Read m p =
     (case normalize_fs p of
        Inl e \<Rightarrow> Inl e
      | Inr parts \<Rightarrow>
          (case walk m parts of
             Inl e \<Rightarrow> Inl e
           | Inr n \<Rightarrow> if isDir n then Inl ErrIsDir else Inr (ndata n)))"

definition Remove :: "time \<Rightarrow> memfs \<Rightarrow> string \<Rightarrow> memfs \<times> fs_error option" where
  "Remove now m p =
     (case normalize_fs p of
        Inl e \<Rightarrow> (m, Some e)
      | Inr parts \<Rightarrow>
          if parts = [] then (m, Some ErrInvalidPath)
          else (case walkParent m parts of
            Inl e \<Rightarrow> (m, Some e)
          | Inr (parent, name) \<Rightarrow>
             (case map_of (children parent) name of
                None \<Rightarrow> (m, Some ErrNotFound)
              | Some child \<Rightarrow>
                  if isDir child \<and> children child \<noteq> [] then (m, Some ErrNotEmpty)
                  else (m\<lparr>root := modify (butlast parts)
                             (\<lambda>n. touch now (del_child name n)) (root m),
                          used := (if isDir child then used m
                                   else used m - int (length (ndata child))),
                          version := version m + 1,
                          freed := freed m @ (if isDir child then [] else [zeroBytes (ndata child)])\<rparr>,
                        None))))"

definition Stat :: "memfs \<Rightarrow> string \<Rightarrow> fs_error + node" where
  "Stat m p =
     (case normalize_fs p of
        Inl e \<Rightarrow> Inl e
      | Inr parts \<Rightarrow>
          (case walk m parts of
             Inl e \<Rightarrow> Inl e
           | Inr n \<Rightarrow> Inr (Node (nname n) (isDir n) (nmode n) (modTime n) [] [])))"

definition List_fs :: "memfs \<Rightarrow> string \<Rightarrow> fs_error + string list" where
  "List_fs m p =
     (case normalize_fs p of
        Inl e \<Rightarrow> Inl e
      | Inr parts \<Rightarrow>
          (case walk m parts of
             Inl e \<Rightarrow> Inl e
           | Inr n \<Rightarrow> if \<not> isDir n then Inl ErrNotDir else Inr (sort (keys (children n)))))"

text \<open>
  \<open>Manifest\<close> and \<open>Snapshot\<close> visit the files of the tree with the path built on the way
  down; the digest is a parameter (\<open>crypto/sha256\<close> and \<open>encoding/hex\<close> of the body).
\<close>

lemma size_child [termination_simp]: "(k, c) \<in> set (children n) \<Longrightarrow> size c < size n"
proof (cases n)
  case (Node a b d e f cs)
  assume "(k, c) \<in> set (children n)"
  then have "size c \<le> size_list (size_prod (\<lambda>_. 0) size) cs"
    using Node by (auto intro: size_list_estimation' [where x = "(k, c)"])
  then show ?thesis using Node by simp
qed

function files_under :: "string \<Rightarrow> node \<Rightarrow> (string \<times> node) list" where
  "files_under pre n =
     (if \<not> isDir n then [(pre, n)]
      else concat (map (\<lambda>(name, child). files_under (path_join [pre, name]) child) (children n)))"
  by pat_completeness auto
termination
  by (relation "measure (size \<circ> snd)") (auto simp: size_child)

declare files_under.simps [simp del]

definition Manifest :: "(bytes \<Rightarrow> string) \<Rightarrow> memfs \<Rightarrow> manifest_entry list" where
  "Manifest sha m =
     sort_key me_path
       (map (\<lambda>(p, n). \<lparr>me_path = p, me_sha = sha (ndata n), me_size = int (length (ndata n)),
                        me_modTime = modTime n\<rparr>)
         (files_under ''/'' (root m)))"

definition Snapshot :: "memfs \<Rightarrow> (string, bytes) gomap" where
  "Snapshot m = map (\<lambda>(p, n). (p, ndata n)) (files_under ''/'' (root m))"

function bodies :: "node \<Rightarrow> bytes list" where
  "bodies n =
     (if \<not> isDir n then [ndata n]
      else concat (map (\<lambda>(name, child). bodies child) (children n)))"
  by pat_completeness auto
termination
  by (relation "measure size") (auto simp: size_child)

declare bodies.simps [simp del]

definition Wipe :: "time \<Rightarrow> memfs \<Rightarrow> memfs" where
  "Wipe now m =
     m\<lparr>root := new_dir ''/'' 0x1ED now, used := 0, version := version m + 1,
       freed := freed m @ map zeroBytes (bodies (root m))\<rparr>"

section \<open>What a path names: the abstract view\<close>

text \<open>
  The view of a tree is a map from component lists to entries: the promise of the file
  system to its clients, with no tree left in it.
\<close>

datatype entry = EDir | EFile (body: bytes)

fun view :: "node \<Rightarrow> string list \<Rightarrow> entry option" where
  "view n [] = Some (if isDir n then EDir else EFile (ndata n))"
| "view n (q # qs) =
     (if isDir n then
        (case map_of (children n) q of None \<Rightarrow> None | Some c \<Rightarrow> view c qs)
      else None)"

lemmas node_field_defs = set_children_def put_child_def del_child_def touch_def zero_data_def
  new_dir_def new_file_def

lemma node_fields [simp]:
  "nname (touch t n) = nname n" "isDir (touch t n) = isDir n" "ndata (touch t n) = ndata n"
  "children (touch t n) = children n"
  "nname (put_child k c n) = nname n" "isDir (put_child k c n) = isDir n"
  "ndata (put_child k c n) = ndata n" "children (put_child k c n) = AList.update k c (children n)"
  "nname (del_child k n) = nname n" "isDir (del_child k n) = isDir n"
  "ndata (del_child k n) = ndata n" "children (del_child k n) = AList.delete k (children n)"
  "nname (zero_data n) = nname n" "isDir (zero_data n) = isDir n"
  "ndata (zero_data n) = zeroBytes (ndata n)" "children (zero_data n) = children n"
  "nname (new_dir k md t) = k" "isDir (new_dir k md t)" "ndata (new_dir k md t) = []"
  "children (new_dir k md t) = []"
  "nname (new_file k md t b) = k" "\<not> isDir (new_file k md t b)" "ndata (new_file k md t b) = b"
  "children (new_file k md t b) = []"
  by (simp_all add: node_field_defs)

lemma view_touch [simp]: "view (touch t n) qs = view n qs"
  by (cases qs) auto

lemma view_walk:
  "view n qs = (case walk_node n qs of
     Inl _ \<Rightarrow> None | Inr c \<Rightarrow> Some (if isDir c then EDir else EFile (ndata c)))"
  by (induction qs arbitrary: n) (auto split: option.splits)

lemma walk_view_dir: "walk_node n qs = Inr c \<Longrightarrow> isDir c \<Longrightarrow> view n qs = Some EDir"
  by (simp add: view_walk)

lemma walk_node_append:
  "walk_node n (ps @ qs) = (case walk_node n ps of Inl e \<Rightarrow> Inl e | Inr c \<Rightarrow> walk_node c qs)"
  by (induction ps arbitrary: n) (auto split: option.splits)

lemma view_append: "walk_node n ps = Inr c \<Longrightarrow> view n (ps @ qs) = view c qs"
  by (induction ps arbitrary: n) (auto split: if_splits option.splits)

lemma view_put_child:
  "isDir n \<Longrightarrow> view (put_child k x n) qs =
     (case qs of [] \<Rightarrow> Some EDir | q # qs' \<Rightarrow> if q = k then view x qs' else view n qs)"
  by (cases qs) auto

lemma view_del_child:
  "isDir n \<Longrightarrow> view (del_child k n) qs =
     (case qs of [] \<Rightarrow> Some EDir | q # qs' \<Rightarrow> if q = k then None else view n qs)"
  by (cases qs) auto

text \<open>Writing through the pointer at \<open>ps\<close> changes the view below \<open>ps\<close> and nowhere else.\<close>

lemma view_modify:
  assumes "walk_node n ps = Inr c" and "isDir (f c) = isDir c" and "isDir c"
  shows "view (modify ps f n) qs =
    (if prefix ps qs then view (f c) (drop (length ps) qs) else view n qs)"
  using assms
proof (induction ps arbitrary: n qs)
  case Nil
  then show ?case by simp
next
  case (Cons p ps)
  then obtain d where d: "isDir n" "map_of (children n) p = Some d" "walk_node d ps = Inr c"
    by (auto split: if_splits option.splits)
  then show ?case
    using Cons.IH [OF d(3)] Cons.prems by (cases qs) (auto simp: view_put_child)
qed

lemma walk_modify:
  "walk_node n ps = Inr c \<Longrightarrow> walk_node (modify ps f n) ps = Inr (f c)"
  by (induction ps arbitrary: n) (auto split: if_splits option.splits)

text \<open>The two shapes of update the operations make: store an entry, drop an entry.\<close>

lemma view_store:
  assumes "walk_node n ps = Inr c" and "isDir c"
  shows "view (modify ps (\<lambda>n. touch now (put_child k x n)) n) qs =
    (if prefix (ps @ [k]) qs then view x (drop (Suc (length ps)) qs) else view n qs)"
proof -
  have "prefix (ps @ [k]) qs \<longleftrightarrow> (\<exists>rs. qs = ps @ k # rs)" by (auto simp: prefix_def)
  then show ?thesis
    using assms view_append [OF assms(1)] walk_view_dir [OF assms]
    by (auto simp: view_modify view_put_child prefix_def split: list.splits)
qed

lemma view_drop:
  assumes "walk_node n ps = Inr c" and "isDir c"
  shows "view (modify ps (\<lambda>n. touch now (del_child k n)) n) qs =
    (if prefix (ps @ [k]) qs then None else view n qs)"
proof -
  have "prefix (ps @ [k]) qs \<longleftrightarrow> (\<exists>rs. qs = ps @ k # rs)" by (auto simp: prefix_def)
  then show ?thesis
    using assms view_append [OF assms(1)] walk_view_dir [OF assms]
    by (auto simp: view_modify view_del_child prefix_def split: list.splits)
qed

lemma put_child_twice: "put_child k v (put_child k w n) = put_child k v n"
  by (simp add: put_child_def set_children_def)

lemma modify_modify:
  "walk_node n ps = Inr c \<Longrightarrow> modify ps g (modify ps f n) = modify ps (\<lambda>x. g (f x)) n"
  by (induction ps arbitrary: n) (auto simp: put_child_twice split: if_splits option.splits)

section \<open>Well-formed trees and the size they account for\<close>

definition good_name :: "string \<Rightarrow> bool" where
  "good_name k \<longleftrightarrow> plain_comp k \<and> \<not> contains k ''..''"

function wf_node :: "node \<Rightarrow> bool" where
  "wf_node n \<longleftrightarrow>
     (if isDir n then
        ndata n = [] \<and> distinct (keys (children n)) \<and>
        (\<forall>(k, c) \<in> set (children n). good_name k \<and> nname c = k \<and> wf_node c)
      else children n = [])"
  by pat_completeness auto
termination
  by (relation "measure size") (auto simp: size_child)

declare wf_node.simps [simp del]

function nbytes :: "node \<Rightarrow> int" where
  "nbytes n =
     (if isDir n then sum_list (map (\<lambda>(k, c). nbytes c) (children n)) else int (length (ndata n)))"
  by pat_completeness auto
termination
  by (relation "measure size") (auto simp: size_child)

declare nbytes.simps [simp del]

lemma nbytes_file: "\<not> isDir n \<Longrightarrow> nbytes n = int (length (ndata n))"
  by (subst nbytes.simps) simp

lemma nbytes_dir: "isDir n \<Longrightarrow> nbytes n = sum_vals nbytes (children n)"
  by (subst nbytes.simps) (simp add: sum_vals_def comp_def case_prod_unfold)

lemma wf_file: "\<not> isDir n \<Longrightarrow> wf_node n \<longleftrightarrow> children n = []"
  by (subst wf_node.simps) simp

lemma wf_dir:
  "isDir n \<Longrightarrow> wf_node n \<longleftrightarrow> ndata n = [] \<and> distinct (keys (children n)) \<and>
     (\<forall>(k, c) \<in> set (children n). good_name k \<and> nname c = k \<and> wf_node c)"
  by (subst wf_node.simps) simp

lemma wf_new [simp]: "wf_node (new_dir k md t)" "wf_node (new_file k md t b)"
  by (simp_all add: wf_dir wf_file)

lemma nbytes_new [simp]:
  "nbytes (new_dir k md t) = 0" "nbytes (new_file k md t b) = int (length b)"
  by (simp_all add: nbytes_dir nbytes_file)

lemma wf_touch [simp]: "wf_node (touch t n) = wf_node n"
  by (cases "isDir n") (simp_all add: wf_dir wf_file)

lemma nbytes_touch [simp]: "nbytes (touch t n) = nbytes n"
  by (cases "isDir n") (simp_all add: nbytes_dir nbytes_file)

lemma wf_zero_data [simp]: "\<not> isDir n \<Longrightarrow> wf_node (zero_data n) = wf_node n"
  by (simp add: wf_file)

lemma length_zeroBytes [simp]: "length (zeroBytes b) = length b"
  by (simp add: zeroBytes_def)

lemma all_zero_zeroBytes [simp]: "all_zero (zeroBytes b)"
  by (simp add: zeroBytes_def)

lemma nbytes_zero_data [simp]: "\<not> isDir n \<Longrightarrow> nbytes (zero_data n) = nbytes n"
  by (simp add: nbytes_file)

lemma wf_child:
  "wf_node n \<Longrightarrow> isDir n \<Longrightarrow> map_of (children n) k = Some c \<Longrightarrow>
     good_name k \<and> nname c = k \<and> wf_node c"
  by (auto simp: wf_dir dest!: map_of_SomeD)

lemma wf_put_child:
  "wf_node n \<Longrightarrow> isDir n \<Longrightarrow> good_name k \<Longrightarrow> nname c = k \<Longrightarrow> wf_node c \<Longrightarrow>
     wf_node (put_child k c n)"
  using set_update_subset [of k c "children n"] by (auto simp: wf_dir distinct_update)

lemma wf_del_child: "wf_node n \<Longrightarrow> isDir n \<Longrightarrow> wf_node (del_child k n)"
  using set_delete_subset [of k "children n"] by (auto simp: wf_dir distinct_delete)

lemma nbytes_put_child:
  "wf_node n \<Longrightarrow> isDir n \<Longrightarrow> nbytes (put_child k c n) =
     nbytes n - (case map_of (children n) k of None \<Rightarrow> 0 | Some d \<Rightarrow> nbytes d) + nbytes c"
  by (auto simp: nbytes_dir wf_dir sum_vals_update_new sum_vals_update_old split: option.splits)

lemma nbytes_del_child:
  "wf_node n \<Longrightarrow> isDir n \<Longrightarrow> map_of (children n) k = Some d \<Longrightarrow>
     nbytes (del_child k n) = nbytes n - nbytes d"
  by (simp add: nbytes_dir wf_dir sum_vals_delete)

lemma wf_walk: "wf_node n \<Longrightarrow> walk_node n ps = Inr c \<Longrightarrow> wf_node c"
  by (induction ps arbitrary: n) (auto split: if_splits option.splits dest: wf_child)

lemma nname_modify:
  "walk_node n ps = Inr c \<Longrightarrow> nname (f c) = nname c \<Longrightarrow> nname (modify ps f n) = nname n"
  by (cases ps) (auto split: option.splits)

lemma isDir_modify:
  "walk_node n ps = Inr c \<Longrightarrow> isDir (f c) = isDir c \<Longrightarrow> isDir (modify ps f n) = isDir n"
  by (cases ps) (auto split: option.splits)

lemma wf_modify:
  assumes "wf_node n" and "walk_node n ps = Inr c" and "wf_node (f c)" and "nname (f c) = nname c"
  shows "wf_node (modify ps f n)"
  using assms
proof (induction ps arbitrary: n)
  case (Cons p ps)
  then obtain d where d: "isDir n" "map_of (children n) p = Some d" "walk_node d ps = Inr c"
    by (auto split: if_splits option.splits)
  with Cons wf_child [OF Cons.prems(1) d(1,2)] show ?case
    by (auto intro!: wf_put_child simp: nname_modify)
qed simp

lemma nbytes_modify:
  assumes "wf_node n" and "walk_node n ps = Inr c"
  shows "nbytes (modify ps f n) = nbytes n - nbytes c + nbytes (f c)"
  using assms
proof (induction ps arbitrary: n)
  case (Cons p ps)
  then obtain d where d: "isDir n" "map_of (children n) p = Some d" "walk_node d ps = Inr c"
    by (auto split: if_splits option.splits)
  with Cons wf_child [OF Cons.prems(1) d(1,2)] show ?case
    by (simp add: nbytes_put_child)
qed simp

lemma nbytes_nonneg: "wf_node n \<Longrightarrow> 0 \<le> nbytes n"
proof (induction n rule: nbytes.induct)
  case (1 n)
  then show ?case
    by (cases "isDir n") (auto simp: nbytes_file nbytes_dir wf_dir intro!: sum_vals_nonneg)
qed

section \<open>What \<open>normalize_fs\<close> accepts\<close>

lemma pair_sublist_sep:
  assumes "a \<noteq> s" and "b \<noteq> s"
  shows "sublist [a, b] (p @ s # q) \<longleftrightarrow> sublist [a, b] p \<or> sublist [a, b] q"
proof -
  have "sublist [a, b] (s # q) \<longleftrightarrow> sublist [a, b] q"
    using assms by (auto simp: sublist_Cons_right)
  moreover have "(\<exists>xs1 xs2. [a, b] = xs1 @ xs2 \<and> suffix xs1 p \<and> prefix xs2 (s # q)) \<Longrightarrow>
      sublist [a, b] p"
    using assms by (auto simp: Cons_eq_append_conv prefix_Cons)
  ultimately show ?thesis by (auto simp: sublist_append)
qed

lemma pair_sublist_join:
  "a \<noteq> s \<Longrightarrow> b \<noteq> s \<Longrightarrow> sublist [a, b] (join_on s cs) \<longleftrightarrow> (\<exists>c \<in> set cs. sublist [a, b] c)"
  by (induction cs) (auto simp: join_on_Cons pair_sublist_sep)

lemma dotdot_path_of: "contains (path_of cs) ''..'' \<longleftrightarrow> (\<exists>c \<in> set cs. contains c ''..'')"
  using pair_sublist_sep [of "CHR ''.''" slash "CHR ''.''" "[]"]
  by (simp add: path_of_def pair_sublist_join)

lemma normalize_eq:
  "normalize_fs p =
     (let cs = clean_comps True (split_on slash p)
      in if p = '''' then Inl ErrInvalidPath
         else if (\<exists>c \<in> set cs. contains c ''..'') then Inl ErrInvalidPath
         else Inr cs)"
proof -
  let ?cs = "clean_comps True (split_on slash p)"
  have plain: "plain_comps ?cs" by (rule clean_comps_split_plain)
  have root: "path_of ?cs = ''/'' \<longleftrightarrow> ?cs = []"
    using join_plain_Nil [OF plain] by (simp add: path_of_def)
  have "trim_prefix (path_of ?cs) ''/'' = join_on slash ?cs"
    by (simp add: path_of_def trim_prefix_def)
  with plain root show ?thesis
    by (simp add: normalize_fs_def path_clean_rooted Let_def dotdot_path_of split_join_plain)
qed

lemma normalize_good: "normalize_fs p = Inr parts \<Longrightarrow> list_all good_name parts"
  using clean_comps_split_plain [of p]
  by (auto simp: normalize_eq Let_def good_name_def list_all_iff split: if_splits)

lemma good_names_plain: "list_all good_name cs \<Longrightarrow> plain_comps cs"
  by (simp add: list_all_iff good_name_def)

lemma normalize_path_of: "list_all good_name cs \<Longrightarrow> normalize_fs (path_of cs) = Inr cs"
  using good_names_plain [of cs]
  by (simp add: path_of_def normalize_eq clean_comps_Nil_head clean_split_join)
    (auto simp: list_all_iff good_name_def)

section \<open>The invariant\<close>

definition fs_inv :: "memfs \<Rightarrow> bool" where
  "fs_inv m \<longleftrightarrow> wf_node (root m) \<and> isDir (root m) \<and> used m = nbytes (root m) \<and>
     (0 < quota m \<longrightarrow> used m \<le> quota m) \<and> list_all all_zero (freed m)"

definition fs_view :: "memfs \<Rightarrow> string list \<Rightarrow> entry option" where
  "fs_view m = view (root m)"

lemma fs_inv_New: "fs_inv (New now q)"
  by (simp add: fs_inv_def New_def)

text \<open>The data a successful \<open>walkParent\<close> provides.\<close>

lemma walkParent_Inr:
  "walkParent m parts = Inr (parent, name) \<longleftrightarrow>
     parts \<noteq> [] \<and> name = last parts \<and> walk_node (root m) (butlast parts) = Inr parent \<and> isDir parent"
  by (auto simp: walkParent_def walk_def split: sum.splits)

lemma walkParent_child:
  assumes "walkParent m parts = Inr (parent, name)"
  shows "walk_node (root m) parts =
    (case map_of (children parent) name of None \<Rightarrow> Inl ErrNotFound | Some c \<Rightarrow> Inr c)"
proof -
  have "parts = butlast parts @ [name]"
    using assms by (simp add: walkParent_Inr)
  then have "walk_node (root m) parts = walk_node (root m) (butlast parts @ [name])" by simp
  then show ?thesis
    using assms by (simp add: walkParent_Inr walk_node_append split: option.splits)
qed

section \<open>Storing and dropping an entry keep the tree well-formed\<close>

lemma store_wf:
  assumes "fs_inv m" and "walk_node (root m) ps = Inr parent" and "isDir parent"
    and "good_name k" and "nname x = k" and "wf_node x"
  shows "wf_node (modify ps (\<lambda>n. touch now (put_child k x n)) (root m))"
    and "isDir (modify ps (\<lambda>n. touch now (put_child k x n)) (root m))"
    and "nbytes (modify ps (\<lambda>n. touch now (put_child k x n)) (root m)) = nbytes (root m)
      - (case map_of (children parent) k of None \<Rightarrow> 0 | Some d \<Rightarrow> nbytes d) + nbytes x"
  using assms wf_walk [of "root m" ps parent]
  by (auto simp: fs_inv_def nbytes_modify isDir_modify nbytes_put_child
      intro!: wf_modify wf_put_child)

lemma drop_wf:
  assumes "fs_inv m" and "walk_node (root m) ps = Inr parent" and "isDir parent"
    and "map_of (children parent) k = Some d"
  shows "wf_node (modify ps (\<lambda>n. touch now (del_child k n)) (root m))"
    and "isDir (modify ps (\<lambda>n. touch now (del_child k n)) (root m))"
    and "nbytes (modify ps (\<lambda>n. touch now (del_child k n)) (root m)) = nbytes (root m) - nbytes d"
  using assms wf_walk [of "root m" ps parent]
  by (auto simp: fs_inv_def nbytes_modify isDir_modify nbytes_del_child
      intro!: wf_modify wf_del_child)

lemma zero_wf:
  assumes "fs_inv m" and "walk_node (root m) ps = Inr parent" and "isDir parent"
    and "map_of (children parent) k = Some n" and "\<not> isDir n"
  shows "wf_node (modify ps (put_child k (zero_data n)) (root m))"
    and "isDir (modify ps (put_child k (zero_data n)) (root m))"
    and "nbytes (modify ps (put_child k (zero_data n)) (root m)) = nbytes (root m)"
  using assms wf_walk [of "root m" ps parent] wf_child [of parent k n]
  by (auto simp: fs_inv_def nbytes_modify isDir_modify nbytes_put_child
      intro!: wf_modify wf_put_child)

lemma good_last: "normalize_fs p = Inr parts \<Longrightarrow> parts \<noteq> [] \<Longrightarrow> good_name (last parts)"
  using normalize_good [of p parts] by (auto simp: list_all_iff)

lemma prefix_parts: "parts \<noteq> [] \<Longrightarrow> prefix (butlast parts @ [last parts]) qs = prefix parts qs"
  by simp

lemma prefix_leaf_view:
  assumes "walk_node n parts = Inr c" and "\<not> isDir c \<or> children c = []"
    and "prefix parts qs" and "qs \<noteq> parts"
  shows "view n qs = None"
proof -
  from assms(3,4) obtain r rs where "qs = parts @ r # rs"
    by (metis append_Nil2 list.exhaust prefixE)
  then show ?thesis using assms(1,2) by (auto simp: view_append)
qed

lemma prefix_missing_view:
  assumes "walk_node n parts = Inl e" and "prefix parts qs"
  shows "view n qs = None"
  using assms by (auto simp: prefix_def view_walk walk_node_append split: sum.splits)

section \<open>\<open>Write\<close>\<close>

text \<open>
  One equation for the branch past the checks; \<open>old\<close> is the file being replaced.
\<close>

definition old_size :: "node option \<Rightarrow> int" where
  "old_size old = (case old of None \<Rightarrow> 0 | Some n \<Rightarrow> int (length (ndata n)))"

definition over_quota :: "memfs \<Rightarrow> node option \<Rightarrow> bytes \<Rightarrow> bool" where
  "over_quota m old data \<longleftrightarrow> quota m > 0 \<and> used m - old_size old + int (length data) > quota m"

lemma Write_file:
  assumes "normalize_fs p = Inr parts" and "walkParent m parts = Inr (parent, name)"
    and "map_of (children parent) name = old" and "\<forall>n. old = Some n \<longrightarrow> \<not> isDir n"
  shows "Write now m p data mode =
    (if over_quota m old data then
       (case old of None \<Rightarrow> m
        | Some n \<Rightarrow> m\<lparr>root := modify (butlast parts) (put_child name (zero_data n)) (root m)\<rparr>,
        Some ErrQuota)
     else
       (m\<lparr>root := modify (butlast parts)
            (\<lambda>n. touch now (put_child name (new_file name mode now data) n)) (root m),
          used := used m - old_size old + int (length data),
          version := version m + 1,
          freed := freed m @ (case old of None \<Rightarrow> [] | Some n \<Rightarrow> [zeroBytes (ndata n)])\<rparr>, None))"
proof -
  have w: "parts \<noteq> []" "walk_node (root m) (butlast parts) = Inr parent"
    using assms(2) by (auto simp: walkParent_Inr)
  show ?thesis
    using assms w
    by (cases old) (auto simp: Write_def Let_def over_quota_def old_size_def
        modify_modify [OF w(2)] put_child_twice)
qed

text \<open>Every way a call of \<open>Write\<close> can end.\<close>

lemma Write_cases:
  assumes "Write now m p data mode = (m', err)"
  obtains (refused) e where "err = Some e" and "m' = m" and "e \<noteq> ErrQuota"
  | (accepted) parts parent nm old where
      "normalize_fs p = Inr parts" and "walkParent m parts = Inr (parent, nm)"
      and "map_of (children parent) nm = old" and "\<forall>n. old = Some n \<longrightarrow> \<not> isDir n"
proof (cases "normalize_fs p")
  case (Inl e)
  then show ?thesis
    using assms refused by (auto simp: Write_def normalize_fs_def Let_def split: if_splits)
next
  case (Inr parts)
  show ?thesis
  proof (cases "walkParent m parts")
    case wp: (Inl e)
    have "e \<noteq> ErrQuota"
    proof -
      have "walk_node n qs = Inl d \<Longrightarrow> d \<noteq> ErrQuota" for n qs d
        by (induction qs arbitrary: n) (auto split: if_splits option.splits)
      then show ?thesis
        using wp by (auto simp: walkParent_def walk_def split: if_splits sum.splits)
    qed
    with assms Inr wp refused show ?thesis
      by (auto simp: Write_def split: if_splits)
  next
    case wp: (Inr q)
    obtain parent name where q: "q = (parent, name)" by force
    show ?thesis
    proof (cases "map_of (children parent) name \<noteq> None \<and>
        isDir (the (map_of (children parent) name))")
      case True
      with assms Inr wp q refused show ?thesis
        by (auto simp: Write_def Let_def split: if_splits)
    next
      case False
      then have "\<forall>n. map_of (children parent) name = Some n \<longrightarrow> \<not> isDir n" by auto
      then show ?thesis by (rule accepted [OF Inr wp [unfolded q] refl])
    qed
  qed
qed

lemma old_size_nbytes:
  "\<forall>n. old = Some n \<longrightarrow> \<not> isDir n \<Longrightarrow>
     (case old of None \<Rightarrow> 0 | Some n \<Rightarrow> nbytes n) = old_size old"
  by (cases old) (auto simp: old_size_def nbytes_file)

lemma fs_inv_Write:
  assumes "fs_inv m"
  shows "fs_inv (fst (Write now m p data mode))"
proof (cases "Write now m p data mode")
  case (Pair m' err)
  from Pair show ?thesis
  proof (cases rule: Write_cases)
    case (refused e)
    then show ?thesis using assms Pair by simp
  next
    case (accepted parts parent nm old)
    have w: "walk_node (root m) (butlast parts) = Inr parent" "isDir parent" "good_name nm"
      using accepted(1,2) good_last by (auto simp: walkParent_Inr)
    note sz = old_size_nbytes [OF accepted(4)]
    note file_eq = Write_file [OF accepted, of now data mode]
    note st = store_wf [OF assms w, of "new_file nm mode now data" now]
    show ?thesis
    proof (cases "over_quota m old data")
      case True
      show ?thesis
      proof (cases old)
        case (Some n)
        then show ?thesis
          using zero_wf [OF assms w(1,2), of nm n] accepted(3,4) True assms file_eq
          by (auto simp: fs_inv_def)
      qed (use True assms file_eq in simp)
    next
      case False
      have "nbytes (modify (butlast parts)
          (\<lambda>n. touch now (put_child nm (new_file nm mode now data) n)) (root m)) =
          nbytes (root m) - old_size old + int (length data)"
        using st(3) sz accepted(3) by simp
      moreover have "0 < quota m \<longrightarrow> used m - old_size old + int (length data) \<le> quota m"
        using False by (auto simp: over_quota_def)
      ultimately show ?thesis
        using False st(1,2) assms unfolding file_eq fs_inv_def by (cases old) simp_all
    qed
  qed
qed

lemma view_new_file: "view (new_file k md t b) qs = (if qs = [] then Some (EFile b) else None)"
  by (cases qs) auto

text \<open>A successful write is a point update of the view.\<close>

lemma Write_view:
  assumes "fs_inv m" and "Write now m p data mode = (m', None)"
  shows "\<exists>parts. normalize_fs p = Inr parts \<and> parts \<noteq> [] \<and>
    fs_view m (butlast parts) = Some EDir \<and> fs_view m parts \<noteq> Some EDir \<and>
    fs_view m' = (fs_view m)(parts \<mapsto> EFile data) \<and>
    version m' = version m + 1"
  using assms(2)
proof (cases rule: Write_cases)
  case (accepted parts parent nm old)
  have w: "walk_node (root m) (butlast parts) = Inr parent" "isDir parent"
    and ne: "parts \<noteq> []" "nm = last parts"
    using accepted(2) by (auto simp: walkParent_Inr)
  have leaf: "prefix parts qs \<Longrightarrow> qs \<noteq> parts \<Longrightarrow> view (root m) qs = None" for qs
    using walkParent_child [OF accepted(2)] accepted(3,4)
      prefix_leaf_view [of "root m" parts] prefix_missing_view [of "root m" parts]
    by (cases old) auto
  have upd: "fs_view m' = (fs_view m)(parts \<mapsto> EFile data)"
  proof
    fix qs
    have "fs_view m' qs = (if prefix parts qs
        then view (new_file nm mode now data) (drop (length parts) qs) else view (root m) qs)"
      using assms(2) Write_file [OF accepted, of now data mode] ne w
      by (auto simp: fs_view_def view_store [OF w] split: if_splits)
    then show "fs_view m' qs = ((fs_view m)(parts \<mapsto> EFile data)) qs"
      using leaf [of qs] by (auto simp: fs_view_def prefix_def view_new_file)
  qed
  have "fs_view m parts \<noteq> Some EDir"
    using walkParent_child [OF accepted(2)] accepted(3,4)
    by (auto simp: fs_view_def view_walk split: option.splits)
  moreover have "fs_view m (butlast parts) = Some EDir"
    using walk_view_dir [OF w] by (simp add: fs_view_def)
  moreover have "version m' = version m + 1"
    using assms(2) Write_file [OF accepted, of now data mode] by (auto split: if_splits)
  ultimately show ?thesis using upd accepted(1) ne by blast
qed auto

lemma view_Some_walkParent:
  assumes "fs_view m parts = Some x" and "parts \<noteq> []"
  obtains parent c where "walkParent m parts = Inr (parent, last parts)"
    and "map_of (children parent) (last parts) = Some c"
    and "x = (if isDir c then EDir else EFile (ndata c))"
proof -
  have "view (root m) (butlast parts @ [last parts]) = Some x"
    using assms by (simp add: fs_view_def)
  then obtain parent where "walk_node (root m) (butlast parts) = Inr parent"
    and "view parent [last parts] = Some x"
    by (auto simp: view_walk walk_node_append split: sum.splits)
  then obtain c where "isDir parent" "map_of (children parent) (last parts) = Some c"
    "x = (if isDir c then EDir else EFile (ndata c))"
    by (auto split: if_splits option.splits)
  with \<open>walk_node (root m) (butlast parts) = Inr parent\<close> assms(2) that show ?thesis
    by (simp add: walkParent_Inr)
qed

lemma over_quota_view:
  assumes "normalize_fs p = Inr parts" and "fs_view m parts = Some (EFile b)"
    and "parts \<noteq> []" and "quota m > 0" and "used m - int (length b) + int (length data) > quota m"
  shows "\<exists>m'. Write now m p data mode = (m', Some ErrQuota) \<and>
    fs_view m' = (fs_view m)(parts \<mapsto> EFile (zeroBytes b)) \<and> version m' = version m"
proof -
  obtain parent c where c: "walkParent m parts = Inr (parent, last parts)"
    "map_of (children parent) (last parts) = Some c" "\<not> isDir c" "ndata c = b"
    using view_Some_walkParent [OF assms(2,3)] by (metis entry.distinct(1) entry.inject)
  have w: "walk_node (root m) (butlast parts) = Inr parent" "isDir parent"
    using c(1) by (auto simp: walkParent_Inr)
  let ?r = "modify (butlast parts) (put_child (last parts) (zero_data c)) (root m)"
  have "over_quota m (Some c) data"
    using assms(4,5) c(4) by (simp add: over_quota_def old_size_def)
  then have wr: "Write now m p data mode = (m\<lparr>root := ?r\<rparr>, Some ErrQuota)"
    using Write_file [OF assms(1) c(1,2)] c(3) by simp
  have leaf: "prefix parts qs \<Longrightarrow> qs \<noteq> parts \<Longrightarrow> view (root m) qs = None" for qs
    using walkParent_child [OF c(1)] c(2,3) prefix_leaf_view [of "root m" parts] by simp
  have "view ?r qs = ((view (root m))(parts \<mapsto> EFile (zeroBytes b))) qs" for qs
  proof -
    have "view ?r qs = view (modify (butlast parts)
        (\<lambda>n. touch 0 (put_child (last parts) (zero_data c) n)) (root m)) qs"
      using w by (simp add: view_modify)
    also have "\<dots> = (if prefix parts qs then view (zero_data c) (drop (length parts) qs)
        else view (root m) qs)"
      using assms(3) by (simp add: view_store [OF w])
    finally show ?thesis
      using leaf [of qs] c(3,4) by (cases "drop (length parts) qs") (auto simp: prefix_def)
  qed
  then show ?thesis using wr by (auto simp: fs_view_def)
qed

section \<open>\<open>Read\<close>, \<open>Remove\<close>, \<open>Mkdir\<close>, \<open>MkdirAll\<close>, \<open>Wipe\<close>\<close>

lemma Read_iff:
  "normalize_fs p = Inr parts \<Longrightarrow> Read m p = Inr b \<longleftrightarrow> fs_view m parts = Some (EFile b)"
  by (auto simp: Read_def fs_view_def view_walk walk_def split: sum.splits)

lemma Read_dir: "normalize_fs p = Inr parts \<Longrightarrow> Read m p = Inl ErrIsDir \<longleftrightarrow> fs_view m parts = Some EDir"
proof -
  have "walk_node n qs = Inl d \<Longrightarrow> d \<noteq> ErrIsDir" for n qs d
    by (induction qs arbitrary: n) (auto split: if_splits option.splits)
  then show "normalize_fs p = Inr parts \<Longrightarrow> ?thesis"
    by (auto simp: Read_def fs_view_def view_walk walk_def split: sum.splits)
qed

lemma Remove_ok:
  assumes "Remove now m p = (m', None)"
  obtains parts parent c where "normalize_fs p = Inr parts"
    and "walkParent m parts = Inr (parent, last parts)"
    and "map_of (children parent) (last parts) = Some c" and "isDir c \<longrightarrow> children c = []"
    and "m' = m\<lparr>root := modify (butlast parts) (\<lambda>n. touch now (del_child (last parts) n)) (root m),
      used := (if isDir c then used m else used m - int (length (ndata c))),
      version := version m + 1,
      freed := freed m @ (if isDir c then [] else [zeroBytes (ndata c)])\<rparr>"
  using assms by (auto simp: Remove_def walkParent_Inr split: sum.splits if_splits option.splits)

lemma walk_dropped:
  "walk_node n ps = Inr c \<Longrightarrow> isDir c \<Longrightarrow>
     walk_node (modify ps (\<lambda>n. touch now (del_child k n)) n) (ps @ [k]) = Inl ErrNotFound"
  by (simp add: walk_node_append walk_modify)

lemma Remove_err: "Remove now m p = (m', Some e) \<Longrightarrow> m' = m"
  by (auto simp: Remove_def split: sum.splits if_splits option.splits)

lemma fs_inv_Remove:
  assumes "fs_inv m"
  shows "fs_inv (fst (Remove now m p))"
proof (cases "snd (Remove now m p)")
  case None
  then have "Remove now m p = (fst (Remove now m p), None)" by (metis prod.collapse)
  then show ?thesis
  proof (cases rule: Remove_ok)
    case (1 parts parent c)
    have w: "walk_node (root m) (butlast parts) = Inr parent" "isDir parent"
      using 1(2) by (auto simp: walkParent_Inr)
    have "nbytes c = (if isDir c then 0 else int (length (ndata c)))"
      using 1(4) by (simp add: nbytes_dir nbytes_file)
    then show ?thesis
      using drop_wf [OF assms w 1(3), of now] 1(5) assms
      by (auto simp: fs_inv_def split: if_splits)
  qed
next
  case (Some e)
  then show ?thesis using assms Remove_err by (metis prod.collapse)
qed

lemma Remove_view:
  assumes "Remove now m p = (m', None)"
  shows "\<exists>parts. normalize_fs p = Inr parts \<and> parts \<noteq> [] \<and> fs_view m parts \<noteq> None \<and>
    fs_view m' = (fs_view m)(parts := None) \<and> version m' = version m + 1"
  using assms
proof (cases rule: Remove_ok)
  case (1 parts parent c)
  have w: "walk_node (root m) (butlast parts) = Inr parent" "isDir parent" "parts \<noteq> []"
    using 1(2) by (auto simp: walkParent_Inr)
  have c: "walk_node (root m) parts = Inr c"
    using walkParent_child [OF 1(2)] 1(3) by simp
  have leaf: "prefix parts qs \<Longrightarrow> qs \<noteq> parts \<Longrightarrow> view (root m) qs = None" for qs
    using prefix_leaf_view [OF c] 1(4) by blast
  have "fs_view m' = (fs_view m)(parts := None)"
    using 1(5) w leaf by (auto simp: fs_view_def view_drop [OF w(1,2)])
  moreover have "fs_view m parts \<noteq> None" using c by (simp add: fs_view_def view_walk)
  ultimately show ?thesis using 1 w(3) by auto
qed

lemma Mkdir_ok:
  assumes "Mkdir now m p mode = (m', None)"
  obtains parts parent where "normalize_fs p = Inr parts"
    and "walkParent m parts = Inr (parent, last parts)"
    and "map_of (children parent) (last parts) = None"
    and "m' = m\<lparr>root := modify (butlast parts)
        (\<lambda>n. touch now (put_child (last parts) (new_dir (last parts) mode now) n)) (root m),
      version := version m + 1\<rparr>"
  using assms by (auto simp: Mkdir_def walkParent_Inr split: sum.splits if_splits)

lemma Mkdir_err: "Mkdir now m p mode = (m', Some e) \<Longrightarrow> m' = m"
  by (auto simp: Mkdir_def split: sum.splits if_splits)

lemma fs_inv_Mkdir:
  assumes "fs_inv m"
  shows "fs_inv (fst (Mkdir now m p mode))"
proof (cases "snd (Mkdir now m p mode)")
  case None
  then have "Mkdir now m p mode = (fst (Mkdir now m p mode), None)" by (metis prod.collapse)
  then show ?thesis
  proof (cases rule: Mkdir_ok)
    case (1 parts parent)
    have w: "walk_node (root m) (butlast parts) = Inr parent" "isDir parent"
      "good_name (last parts)"
      using 1(1,2) good_last by (auto simp: walkParent_Inr)
    show ?thesis
      using store_wf [OF assms w, of "new_dir (last parts) mode now" now] 1(3,4) assms
      by (auto simp: fs_inv_def)
  qed
next
  case (Some e)
  then show ?thesis using assms Mkdir_err by (metis prod.collapse)
qed

lemma view_new_dir: "view (new_dir k md t) qs = (if qs = [] then Some EDir else None)"
  by (cases qs) auto

lemma Mkdir_view:
  assumes "Mkdir now m p mode = (m', None)"
  shows "\<exists>parts. normalize_fs p = Inr parts \<and> parts \<noteq> [] \<and>
    fs_view m (butlast parts) = Some EDir \<and> fs_view m parts = None \<and>
    fs_view m' = (fs_view m)(parts \<mapsto> EDir) \<and> version m' = version m + 1"
  using assms
proof (cases rule: Mkdir_ok)
  case (1 parts parent)
  have w: "walk_node (root m) (butlast parts) = Inr parent" "isDir parent" "parts \<noteq> []"
    using 1(2) by (auto simp: walkParent_Inr)
  have c: "walk_node (root m) parts = Inl ErrNotFound"
    using walkParent_child [OF 1(2)] 1(3) by simp
  note leaf = prefix_missing_view [OF c]
  have "fs_view m' qs = ((fs_view m)(parts \<mapsto> EDir)) qs" for qs
    using 1(4) w leaf [of qs] by (auto simp: fs_view_def view_store [OF w(1,2)] view_new_dir prefix_def)
  then have "fs_view m' = (fs_view m)(parts \<mapsto> EDir)" by blast
  moreover have "fs_view m parts = None" using leaf by (simp add: fs_view_def)
  moreover have "fs_view m (butlast parts) = Some EDir"
    using walk_view_dir [OF w(1,2)] by (simp add: fs_view_def)
  ultimately show ?thesis using 1(1,4) w(3) by auto
qed

text \<open>\<open>MkdirAll\<close> fails only before it has created anything.\<close>

lemma mkdir_all_fresh: "children cur = [] \<Longrightarrow> snd (mkdir_all_node now md parts cur) = None"
  by (induction parts arbitrary: cur) (auto simp: Let_def case_prod_unfold)

lemma mkdir_all_err:
  "mkdir_all_node now md parts cur = (r, Some e) \<Longrightarrow> r = cur \<and> e = ErrNotDir"
proof (induction parts arbitrary: cur r)
  case (Cons p ps)
  show ?case
  proof (cases "map_of (children cur) p")
    case None
    then show ?thesis
      using Cons.prems mkdir_all_fresh [of "new_dir p md now" now md ps]
      by (auto simp: Let_def case_prod_unfold)
  next
    case (Some c)
    then show ?thesis
      using Cons.prems Cons.IH [of c] update_triv [OF Some]
      by (cases cur)
        (auto simp: Let_def case_prod_unfold put_child_def set_children_def prod_eq_iff split: if_splits)
  qed
qed simp

lemma mkdir_all_fields:
  "nname (fst (mkdir_all_node now md parts cur)) = nname cur"
  "isDir cur \<Longrightarrow> isDir (fst (mkdir_all_node now md parts cur))"
  by (induction parts arbitrary: cur)
    (auto simp: Let_def case_prod_unfold split: option.splits if_splits)

lemma mkdir_all_wf:
  "wf_node cur \<Longrightarrow> isDir cur \<Longrightarrow> list_all good_name parts \<Longrightarrow>
     wf_node (fst (mkdir_all_node now md parts cur)) \<and>
     nbytes (fst (mkdir_all_node now md parts cur)) = nbytes cur"
proof (induction parts arbitrary: cur)
  case (Cons p ps)
  show ?case
  proof (cases "map_of (children cur) p")
    case None
    then show ?thesis
      using Cons.prems Cons.IH [of "new_dir p md now"]
      by (auto simp: Let_def case_prod_unfold nbytes_put_child mkdir_all_fields intro!: wf_put_child)
  next
    case (Some c)
    then show ?thesis
      using Cons.prems Cons.IH [of c] wf_child [of cur p c]
      by (auto simp: Let_def case_prod_unfold nbytes_put_child mkdir_all_fields intro!: wf_put_child)
  qed
qed simp

lemma mkdir_all_view:
  "isDir cur \<Longrightarrow> mkdir_all_node now md parts cur = (r, None) \<Longrightarrow>
     view r qs = (if prefix qs parts then Some EDir else view cur qs)"
proof (induction parts arbitrary: cur r qs)
  case (Cons p ps)
  show ?case
  proof (cases "map_of (children cur) p")
    case None
    then show ?thesis
      using Cons.prems Cons.IH [of "new_dir p md now"]
      by (cases qs) (auto simp: Let_def case_prod_unfold view_put_child prod_eq_iff view_new_dir)
  next
    case (Some c)
    then show ?thesis
      using Cons.prems Cons.IH [of c]
      by (cases qs) (auto simp: Let_def case_prod_unfold view_put_child prod_eq_iff split: if_splits)
  qed
qed auto

lemma fs_inv_MkdirAll:
  assumes "fs_inv m"
  shows "fs_inv (fst (MkdirAll now m p mode))"
proof (cases "normalize_fs p")
  case (Inr parts)
  then show ?thesis
    using assms mkdir_all_wf [of "root m" parts now mode] normalize_good [OF Inr]
      mkdir_all_fields(2) [of "root m" now mode parts]
    by (auto simp: MkdirAll_def fs_inv_def split: prod.splits option.splits)
qed (use assms in \<open>simp add: MkdirAll_def\<close>)

lemma MkdirAll_view:
  assumes "fs_inv m" and "MkdirAll now m p mode = (m', None)"
  shows "\<exists>parts. normalize_fs p = Inr parts \<and> version m' = version m + 1 \<and>
    fs_view m' = (\<lambda>qs. if prefix qs parts then Some EDir else fs_view m qs)"
  using assms mkdir_all_view [of "root m" now mode]
  by (fastforce simp: MkdirAll_def fs_view_def fs_inv_def split: sum.splits prod.splits option.splits)

lemma MkdirAll_err: "MkdirAll now m p mode = (m', Some e) \<Longrightarrow> m' = m"
  by (auto simp: MkdirAll_def split: sum.splits prod.splits option.splits dest: mkdir_all_err)

lemma fs_inv_Wipe: "fs_inv m \<Longrightarrow> fs_inv (Wipe now m)"
  by (auto simp: fs_inv_def Wipe_def list_all_iff)

lemma Wipe_view: "fs_view (Wipe now m) = [[] \<mapsto> EDir]"
  by (auto simp: fs_view_def Wipe_def view_new_dir)

section \<open>The files of a tree\<close>

function files :: "node \<Rightarrow> (string list \<times> node) list" where
  "files n =
     (if \<not> isDir n then [([], n)]
      else concat (map (\<lambda>(k, c). map (\<lambda>(ps, x). (k # ps, x)) (files c)) (children n)))"
  by pat_completeness auto
termination
  by (relation "measure size") (auto simp: size_child)

declare files.simps [simp del]

lemma files_file: "\<not> isDir n \<Longrightarrow> files n = [([], n)]"
  by (subst files.simps) simp

lemma files_dir:
  "isDir n \<Longrightarrow> files n =
     concat (map (\<lambda>(k, c). map (\<lambda>(ps, x). (k # ps, x)) (files c)) (children n))"
  by (subst files.simps) simp

lemma concat_map_cong:
  "(\<And>k c. (k, c) \<in> set m \<Longrightarrow> f k c = g k c) \<Longrightarrow>
     concat (map (\<lambda>(k, c). f k c) m) = concat (map (\<lambda>(k, c). g k c) m)"
  by (induction m) auto

lemma files_under_files:
  "wf_node n \<Longrightarrow> list_all good_name cs \<Longrightarrow>
     files_under (path_of cs) n = map (\<lambda>(ps, x). (path_of (cs @ ps), x)) (files n)"
proof (induction n arbitrary: cs rule: files.induct)
  case (1 n)
  show ?case
  proof (cases "isDir n")
    case True
    have "files_under (path_join [path_of cs, k]) c =
        map (\<lambda>(ps, x). (path_of (cs @ ps), x)) (map (\<lambda>(ps, x). (k # ps, x)) (files c))"
      if "(k, c) \<in> set (children n)" for k c
    proof -
      have k: "good_name k" "wf_node c" using 1(2) True that by (auto simp: wf_dir)
      then have "path_join [path_of cs, k] = path_of (cs @ [k])"
        using good_names_plain [OF 1(3)] by (intro path_join_child) (simp_all add: good_name_def)
      then show ?thesis
        using 1(1) [of "(k, c)" k c "cs @ [k]"] True that 1(3) k
        by (simp add: comp_def case_prod_unfold)
    qed
    then have "concat (map (\<lambda>(k, c). files_under (path_join [path_of cs, k]) c) (children n)) =
        concat (map (\<lambda>(k, c). map (\<lambda>(ps, x). (path_of (cs @ ps), x))
          (map (\<lambda>(ps, x). (k # ps, x)) (files c))) (children n))"
      by (rule concat_map_cong)
    moreover have "files_under (path_of cs) n =
        concat (map (\<lambda>(k, c). files_under (path_join [path_of cs, k]) c) (children n))"
      using True by (subst files_under.simps) simp
    ultimately show ?thesis
      using True by (simp add: files_dir map_concat comp_def case_prod_unfold)
  next
    case False
    then show ?thesis by (subst files_under.simps) (simp add: files_file)
  qed
qed

lemma files_walk: "wf_node n \<Longrightarrow> (ps, x) \<in> set (files n) \<longleftrightarrow> walk_node n ps = Inr x \<and> \<not> isDir x"
proof (induction n arbitrary: ps rule: files.induct)
  case (1 n)
  show ?case
  proof (cases "isDir n")
    case True
    have IH: "(k, c) \<in> set (children n) \<Longrightarrow>
        (qs, x) \<in> set (files c) \<longleftrightarrow> walk_node c qs = Inr x \<and> \<not> isDir x" for k c qs
      using 1(1) [of "(k, c)" k c] 1(2) True by (auto simp: wf_dir)
    have d: "distinct (keys (children n))" using 1(2) True by (simp add: wf_dir)
    show ?thesis
    proof (cases ps)
      case (Cons k qs)
      have "(ps, x) \<in> set (files n) \<longleftrightarrow>
          (\<exists>c. (k, c) \<in> set (children n) \<and> walk_node c qs = Inr x \<and> \<not> isDir x)"
        using True Cons IH by (fastforce simp: files_dir)
      then show ?thesis
        using True Cons by (simp add: map_of_eq_Some_iff [OF d, symmetric] split: option.splits)
    qed (use True in \<open>auto simp: files_dir\<close>)
  next
    case False
    then show ?thesis by (cases ps) (auto simp: files_file)
  qed
qed

lemma distinct_concat_keys:
  "distinct (keys m) \<Longrightarrow> (\<And>k c. (k, c) \<in> set m \<Longrightarrow> distinct (g c)) \<Longrightarrow>
     distinct (concat (map (\<lambda>(k, c). map ((#) k) (g c)) m))"
proof (induction m)
  case (Cons kc m)
  obtain k c where kc: "kc = (k, c)" by force
  have "k \<notin> fst ` set m" using Cons.prems(1) kc by simp
  then have "set (map ((#) k) (g c)) \<inter>
      set (concat (map (\<lambda>(k, c). map ((#) k) (g c)) m)) = {}"
    by force
  moreover have "distinct (g c)" using Cons.prems(2) kc by auto
  moreover have "distinct (concat (map (\<lambda>(k, c). map ((#) k) (g c)) m))"
    using Cons.prems by (intro Cons.IH) auto
  ultimately show ?case
    using kc by (simp add: distinct_map)
qed simp

lemma files_distinct: "wf_node n \<Longrightarrow> distinct (map fst (files n))"
proof (induction n rule: files.induct)
  case (1 n)
  show ?case
  proof (cases "isDir n")
    case True
    have "map fst (files n) =
        concat (map (\<lambda>(k, c). map ((#) k) (map fst (files c))) (children n))"
      using True by (simp add: files_dir map_concat comp_def case_prod_unfold)
    moreover have "distinct (map fst (files c))" if "(k, c) \<in> set (children n)" for k c
      using 1(1) [of "(k, c)" k c] 1(2) True that by (auto simp: wf_dir)
    ultimately show ?thesis
      using distinct_concat_keys [of "children n" "\<lambda>c. map fst (files c)"] 1(2) True
      by (simp add: wf_dir)
  qed (simp add: files_file)
qed

lemma sum_vals_files:
  "\<forall>kc \<in> set m. nbytes (snd kc) = sum_list (map (\<lambda>(ps, x). int (length (ndata x))) (files (snd kc))) \<Longrightarrow>
     sum_vals nbytes m = sum_list (map (\<lambda>(ps, x). int (length (ndata x)))
       (concat (map (\<lambda>(k, c). map (\<lambda>(ps, x). (k # ps, x)) (files c)) m)))"
  by (induction m) (auto simp: comp_def case_prod_unfold)

lemma files_nbytes:
  "wf_node n \<Longrightarrow> nbytes n = sum_list (map (\<lambda>(ps, x). int (length (ndata x))) (files n))"
proof (induction n rule: files.induct)
  case (1 n)
  show ?case
  proof (cases "isDir n")
    case True
    have "\<forall>kc \<in> set (children n). nbytes (snd kc) =
        sum_list (map (\<lambda>(ps, x). int (length (ndata x))) (files (snd kc)))"
      using 1 True by (auto simp: wf_dir)
    then show ?thesis using True by (simp add: nbytes_dir files_dir sum_vals_files)
  qed (simp add: files_file nbytes_file)
qed

lemma walk_good_names: "wf_node n \<Longrightarrow> walk_node n ps = Inr x \<Longrightarrow> list_all good_name ps"
  by (induction ps arbitrary: n) (auto split: if_splits option.splits dest: wf_child)

section \<open>\<open>Manifest\<close>\<close>

definition entry_of :: "(bytes \<Rightarrow> string) \<Rightarrow> string list \<times> node \<Rightarrow> manifest_entry" where
  "entry_of sha = (\<lambda>(ps, n).
     \<lparr>me_path = path_of ps, me_sha = sha (ndata n), me_size = int (length (ndata n)),
      me_modTime = modTime n\<rparr>)"

lemma Manifest_files:
  assumes "fs_inv m"
  shows "Manifest sha m = sort_key me_path (map (entry_of sha) (files (root m)))"
proof -
  have "files_under ''/'' (root m) = map (\<lambda>(ps, x). (path_of ps, x)) (files (root m))"
    using files_under_files [of "root m" "[]"] assms by (simp add: fs_inv_def path_of_def)
  then show ?thesis by (simp add: Manifest_def entry_of_def comp_def case_prod_unfold)
qed

lemma Manifest_mset:
  "fs_inv m \<Longrightarrow> mset (map f (Manifest sha m)) = mset (map (\<lambda>x. f (entry_of sha x)) (files (root m)))"
  by (simp add: Manifest_files image_mset.compositionality comp_def)

lemma Manifest_distinct:
  assumes "fs_inv m"
  shows "distinct (map me_path (Manifest sha m))"
proof -
  have wf: "wf_node (root m)" using assms by (simp add: fs_inv_def)
  have "inj_on path_of (set (map fst (files (root m))))"
    using files_walk [OF wf] walk_good_names [OF wf] good_names_plain path_of_inj
    by (fastforce simp: inj_on_def)
  then have "distinct (map path_of (map fst (files (root m))))"
    using files_distinct [OF wf] by (subst distinct_map) simp
  then show ?thesis
    using mset_eq_imp_distinct_iff [OF Manifest_mset [OF assms, of me_path sha]]
    by (simp add: entry_of_def comp_def case_prod_unfold)
qed

lemma Manifest_mem:
  assumes "fs_inv m"
  shows "e \<in> set (Manifest sha m) \<longleftrightarrow>
    (\<exists>ps n. walk_node (root m) ps = Inr n \<and> \<not> isDir n \<and> e = entry_of sha (ps, n))"
  using assms files_walk [of "root m"] by (force simp: Manifest_files fs_inv_def)

lemma Manifest_total:
  assumes "fs_inv m"
  shows "sum_list (map me_size (Manifest sha m)) = used m"
proof -
  have "sum_list (map me_size (Manifest sha m)) =
      sum_list (map (\<lambda>(ps, x). int (length (ndata x))) (files (root m)))"
    using Manifest_mset [OF assms, of me_size sha]
    by (simp add: entry_of_def case_prod_unfold flip: sum_mset_sum_list)
  then show ?thesis using assms files_nbytes [of "root m"] by (simp add: fs_inv_def)
qed

section \<open>\<open>MemFS\<close> provides the store contract\<close>

definition file_body :: "memfs \<Rightarrow> string list \<Rightarrow> bytes option" where
  "file_body m ps = (case fs_view m ps of Some (EFile b) \<Rightarrow> Some b | _ \<Rightarrow> None)"

definition resolve_fs :: "string \<Rightarrow> string list option" where
  "resolve_fs p = (case normalize_fs p of Inl _ \<Rightarrow> None | Inr ps \<Rightarrow> Some ps)"

definition read_opt :: "memfs \<Rightarrow> string \<Rightarrow> bytes option" where
  "read_opt m p = (case Read m p of Inl _ \<Rightarrow> None | Inr b \<Rightarrow> Some b)"

lemma read_opt_Some [simp]: "read_opt m p = Some b \<longleftrightarrow> Read m p = Inr b"
  by (simp add: read_opt_def split: sum.splits)

lemma Read_file_body: "Read m p = Inr b \<longleftrightarrow> (\<exists>ps. resolve_fs p = Some ps \<and> file_body m ps = Some b)"
proof (cases "normalize_fs p")
  case (Inl e)
  then show ?thesis by (simp add: Read_def resolve_fs_def)
next
  case (Inr ps)
  then show ?thesis
    by (auto simp: Read_iff resolve_fs_def file_body_def split: option.splits entry.splits)
qed

interpretation mem: file_store fs_inv file_body resolve_fs
  "\<lambda>m p b. Write now m p b mode" read_opt "\<lambda>m p. Remove now' m p"
  for now now' :: time and mode :: filemode
proof unfold_locales
  fix s s' :: memfs and k :: string and v :: bytes and p :: string
  show "fs_inv s \<Longrightarrow> fs_inv (fst (Write now s k v mode))" by (rule fs_inv_Write)
  show "fs_inv s \<Longrightarrow> fs_inv (fst (Remove now' s k))" by (rule fs_inv_Remove)
  show "\<exists>p. resolve_fs k = Some p \<and> file_body s' = (file_body s)(p \<mapsto> v)"
    if "fs_inv s" "Write now s k v mode = (s', None)"
    using Write_view [OF that] by (auto simp: resolve_fs_def file_body_def fun_eq_iff)
  show "\<exists>p. resolve_fs k = Some p \<and> file_body s' = (file_body s)(p := None)"
    if "fs_inv s" "Remove now' s k = (s', None)"
    using Remove_view [OF that(2)] by (auto simp: resolve_fs_def file_body_def fun_eq_iff)
  show "read_opt s k = Some v \<longleftrightarrow> (\<exists>p. resolve_fs k = Some p \<and> file_body s p = Some v)"
    by (simp add: Read_file_body)
qed

section \<open>Runs of the file system\<close>

datatype fs_op =
    OMkdir string filemode | OMkdirAll string filemode | OWrite string bytes filemode
  | ORemove string | OWipe

fun fs_step :: "time \<Rightarrow> fs_op \<Rightarrow> memfs \<Rightarrow> memfs" where
  "fs_step now (OMkdir p md) m = fst (Mkdir now m p md)"
| "fs_step now (OMkdirAll p md) m = fst (MkdirAll now m p md)"
| "fs_step now (OWrite p b md) m = fst (Write now m p b md)"
| "fs_step now (ORemove p) m = fst (Remove now m p)"
| "fs_step now OWipe m = Wipe now m"

inductive fs_reach :: "int \<Rightarrow> memfs \<Rightarrow> bool" for q where
  init: "fs_reach q (New now q)"
| step: "fs_reach q m \<Longrightarrow> fs_reach q (fs_step now op m)"

lemma fs_inv_step: "fs_inv m \<Longrightarrow> fs_inv (fs_step now op m)"
  by (cases op) (simp_all add: fs_inv_Mkdir fs_inv_MkdirAll fs_inv_Write fs_inv_Remove fs_inv_Wipe)

lemma quota_Write: "quota (fst (Write now m p b md)) = quota m"
proof (cases "Write now m p b md")
  case (Pair m' err)
  then show ?thesis
  proof (cases rule: Write_cases)
    case (accepted parts parent nm old)
    show ?thesis by (simp add: Write_file [OF accepted] split: option.splits)
  qed (use Pair in simp)
qed

lemma quota_step: "quota (fs_step now op m) = quota m"
  by (cases op)
    (auto simp: quota_Write Mkdir_def MkdirAll_def Remove_def Wipe_def Let_def
      split: sum.splits if_splits option.splits prod.splits)

lemma fs_reach_inv: "fs_reach q m \<Longrightarrow> fs_inv m \<and> quota m = q"
  by (induction rule: fs_reach.induct) (simp_all add: fs_inv_New fs_inv_step quota_step, simp add: New_def)

section \<open>Properties\<close>

definition demo_fs :: memfs where
  "demo_fs = fs_step 1 (OWrite ''/a'' ''xy'' 0x180) (New 0 3)"

lemma demo_fs_reach: "fs_reach 3 demo_fs"
  unfolding demo_fs_def by (intro fs_reach.intros)

text \<open>
  C2: In every state any sequence of \<open>Mkdir\<close>, \<open>MkdirAll\<close>, \<open>Write\<close>, \<open>Remove\<close> and \<open>Wipe\<close> calls
  can reach, the \<open>used\<close> counter is the exact total size of the files in the tree, it
  never exceeds a positive quota, and every byte buffer the tree has dropped was zeroed
  before it became unreachable.
\<close>

theorem memfs_accounting:
  assumes "fs_reach q m"
  shows "used m = sum_list (map me_size (Manifest sha m)) \<and> (0 < q \<longrightarrow> used m \<le> q) \<and>
    (\<forall>b. b \<in> set (freed m) \<longrightarrow> all_zero b)"
  using fs_reach_inv [OF assms] Manifest_total [of m sha]
  by (auto simp: fs_inv_def list_all_iff)

theorem memfs_accounting_witness:
  "fs_reach 3 demo_fs \<and> used demo_fs = sum_list (map me_size (Manifest id demo_fs)) \<and>
   used demo_fs \<le> 3"
  using memfs_accounting [OF demo_fs_reach, of id] demo_fs_reach by simp

text \<open>
  C7: \<open>Write\<close> refines a point update: when it returns no error, the path named a place whose
  parent is a directory and which is not itself a directory, and afterwards that path
  holds exactly the given bytes while every other path, files and directories alike, is
  as before.
\<close>

theorem write_refines_update:
  assumes "fs_reach q m" and "Write now m p data mode = (m', None)"
  shows "\<exists>parts. normalize_fs p = Inr parts \<and> parts \<noteq> [] \<and>
    fs_view m (butlast parts) = Some EDir \<and> fs_view m parts \<noteq> Some EDir \<and>
    fs_view m' = (fs_view m)(parts \<mapsto> EFile data) \<and> version m' = version m + 1"
  using Write_view [OF _ assms(2)] fs_reach_inv [OF assms(1)] by blast

theorem write_refines_update_witness:
  "\<exists>m'. Write 2 demo_fs ''a'' ''z'' 0x180 = (m', None) \<and>
     (\<exists>parts. normalize_fs ''a'' = Inr parts \<and> fs_view m' = (fs_view demo_fs)(parts \<mapsto> EFile ''z''))"
proof -
  have "Write 2 demo_fs ''a'' ''z'' 0x180 = (fst (Write 2 demo_fs ''a'' ''z'' 0x180), None)"
    by code_simp
  from write_refines_update [OF demo_fs_reach this] this show ?thesis by blast
qed

text \<open>
  A \<open>Write\<close> that would exceed the quota returns \<open>ErrQuota\<close>, but an existing file at that
  path has already been overwritten with zero bytes: the refused call destroys the
  stored secret, without changing the version counter that tells peers something
  changed.
\<close>

theorem write_quota_destroys_file:
  assumes "normalize_fs p = Inr parts" and "parts \<noteq> []" and "fs_view m parts = Some (EFile b)"
    and "quota m > 0" and "used m - int (length b) + int (length data) > quota m"
  shows "\<exists>m'. Write now m p data mode = (m', Some ErrQuota) \<and>
    fs_view m' = (fs_view m)(parts \<mapsto> EFile (zeroBytes b)) \<and> version m' = version m"
  by (rule over_quota_view [OF assms(1,3,2,4,5)])

theorem write_quota_destroys_file_witness:
  "\<exists>m'. Write 2 demo_fs ''/a'' ''12345'' 0x180 = (m', Some ErrQuota) \<and>
     fs_view m' = (fs_view demo_fs)([''a''] \<mapsto> EFile (zeroBytes ''xy'')) \<and> version m' = version demo_fs"
proof (rule write_quota_destroys_file)
  show "normalize_fs ''/a'' = Inr [''a'']" by code_simp
  show "fs_view demo_fs [''a''] = Some (EFile ''xy'')" by code_simp
  show "quota demo_fs > 0" by code_simp
  show "used demo_fs - int (length ''xy'') + int (length ''12345'') > quota demo_fs" by code_simp
qed simp

text \<open>
  A call of \<open>Mkdir\<close>, \<open>MkdirAll\<close> or \<open>Remove\<close> that returns an error, and a call of \<open>Write\<close>
  that returns any error but \<open>ErrQuota\<close>, leaves the file system exactly as it was; a
  \<open>MkdirAll\<close> that fails has not created part of the chain.
\<close>

theorem failed_calls_change_nothing:
  "(Mkdir now m p mode = (m', Some e) \<longrightarrow> m' = m) \<and>
   (MkdirAll now m p mode = (m', Some e) \<longrightarrow> m' = m) \<and>
   (Remove now m p = (m', Some e) \<longrightarrow> m' = m) \<and>
   (Write now m p data mode = (m', Some e) \<longrightarrow> e \<noteq> ErrQuota \<longrightarrow> m' = m)"
proof -
  have "m' = m" if w: "Write now m p data mode = (m', Some e)" and "e \<noteq> ErrQuota"
    using w
  proof (cases rule: Write_cases)
    case (accepted parts parent nm old)
    then show ?thesis
      using Write_file [OF accepted, of now data mode] that by (auto split: if_splits)
  qed
  then show ?thesis using Mkdir_err MkdirAll_err Remove_err by blast
qed

theorem failed_calls_change_nothing_witness:
  "MkdirAll 5 demo_fs ''/a/b'' 0x1ED = (demo_fs, Some ErrNotDir)"
proof -
  have "MkdirAll 5 demo_fs ''/a/b'' 0x1ED =
      (fst (MkdirAll 5 demo_fs ''/a/b'' 0x1ED), Some ErrNotDir)" by code_simp
  with failed_calls_change_nothing
    [of 5 demo_fs "''/a/b''" "0x1ED" "fst (MkdirAll 5 demo_fs ''/a/b'' 0x1ED)" ErrNotDir]
  show ?thesis by metis
qed

text \<open>
  C24: \<open>Remove\<close> refines a deletion: when it succeeds the path named an existing file or an empty
  directory other than the root, that path is gone, every other path is as before, and
  a subsequent \<open>Read\<close> of it reports \<open>ErrNotFound\<close>.
\<close>

theorem remove_refines_delete:
  assumes "fs_reach q m" and "Remove now m p = (m', None)"
  shows "(\<exists>parts. normalize_fs p = Inr parts \<and> parts \<noteq> [] \<and> fs_view m parts \<noteq> None \<and>
      fs_view m' = (fs_view m)(parts := None)) \<and> Read m' p = Inl ErrNotFound"
  using assms(2)
proof (cases rule: Remove_ok)
  case (1 parts parent c)
  have w: "walk_node (root m) (butlast parts) = Inr parent" "isDir parent" "parts \<noteq> []"
    using 1(2) by (auto simp: walkParent_Inr)
  have "walk_node (root m') parts = Inl ErrNotFound"
    using walk_dropped [OF w(1,2), of now "last parts"] w(3) 1(5) by simp
  then have "Read m' p = Inl ErrNotFound" using 1(1) by (simp add: Read_def walk_def)
  then show ?thesis using Remove_view [OF assms(2)] by blast
qed

theorem remove_refines_delete_witness:
  "\<exists>m'. Remove 2 demo_fs ''a'' = (m', None) \<and> Read m' ''a'' = Inl ErrNotFound"
proof -
  have "Remove 2 demo_fs ''a'' = (fst (Remove 2 demo_fs ''a''), None)" by code_simp
  from remove_refines_delete [OF demo_fs_reach this] this show ?thesis by blast
qed

text \<open>
  C25: \<open>Manifest\<close> lists every file exactly once, sorted by path: an entry's path reads back, with
  \<open>Read\<close>, a body of the recorded size and digest, and every path \<open>Read\<close> accepts has its
  entry under the cleaned path. A peer that diffs the manifest and pulls what it
  misses therefore sees the whole store.
\<close>

theorem manifest_exact:
  assumes "fs_reach q m"
  shows "sorted (map me_path (Manifest sha m)) \<and> distinct (map me_path (Manifest sha m)) \<and>
    (\<forall>e. e \<in> set (Manifest sha m) \<longrightarrow>
       (\<exists>b. Read m (me_path e) = Inr b \<and> me_sha e = sha b \<and> me_size e = int (length b))) \<and>
    (\<forall>p b. Read m p = Inr b \<longrightarrow>
       (\<exists>e. e \<in> set (Manifest sha m) \<and> me_path e = path_clean (slash # p) \<and> me_sha e = sha b))"
proof -
  have inv: "fs_inv m" using fs_reach_inv [OF assms] by simp
  then have wf: "wf_node (root m)" by (simp add: fs_inv_def)
  have "\<exists>b. Read m (me_path e) = Inr b \<and> me_sha e = sha b \<and> me_size e = int (length b)"
    if "e \<in> set (Manifest sha m)" for e
  proof -
    obtain ps n where n: "walk_node (root m) ps = Inr n" "\<not> isDir n" "e = entry_of sha (ps, n)"
      using \<open>e \<in> _\<close> Manifest_mem [OF inv] by blast
    have "normalize_fs (path_of ps) = Inr ps"
      using walk_good_names [OF wf n(1)] by (rule normalize_path_of)
    then show ?thesis using n by (simp add: entry_of_def Read_def walk_def)
  qed
  moreover have "\<exists>e. e \<in> set (Manifest sha m) \<and> me_path e = path_clean (slash # p) \<and> me_sha e = sha b"
    if rd: "Read m p = Inr b" for p b
  proof -
    obtain ps n where n: "normalize_fs p = Inr ps" "walk_node (root m) ps = Inr n" "\<not> isDir n"
      "b = ndata n"
      using rd by (auto simp: Read_def walk_def split: sum.splits if_splits)
    have "ps = clean_comps True (split_on slash p)"
      using n(1) by (auto simp: normalize_eq Let_def split: if_splits)
    then show ?thesis
      using n Manifest_mem [OF inv, of "entry_of sha (ps, n)" sha]
      by (auto simp: entry_of_def path_clean_rooted)
  qed
  moreover have "sorted (map me_path (Manifest sha m))"
    by (simp add: Manifest_def)
  ultimately show ?thesis using Manifest_distinct [OF inv] by blast
qed

theorem manifest_exact_witness:
  "Manifest id demo_fs \<noteq> [] \<and> sorted (map me_path (Manifest id demo_fs)) \<and>
   distinct (map me_path (Manifest id demo_fs))"
proof -
  have "map me_path (Manifest id demo_fs) = [''/a'']" by code_simp
  then show ?thesis using manifest_exact [OF demo_fs_reach, of id] by auto
qed

text \<open>
  \<open>normalize\<close> confines every accepted path to the tree: its components are non-empty, are
  neither \<open>.\<close> nor \<open>..\<close>, hold no slash and no two adjacent dots, and are exactly the
  components of the cleaned path; normalising the path rebuilt from them gives them
  back.
\<close>

theorem normalize_confines:
  assumes "normalize_fs p = Inr parts"
  shows "list_all good_name parts \<and> path_clean (slash # p) = path_of parts \<and>
    normalize_fs (path_of parts) = Inr parts"
proof -
  have "parts = clean_comps True (split_on slash p)"
    using assms by (auto simp: normalize_eq Let_def split: if_splits)
  then have "path_clean (slash # p) = path_of parts" by (simp add: path_clean_rooted)
  then show ?thesis using normalize_good [OF assms] normalize_path_of by blast
qed

theorem normalize_confines_witness:
  "normalize_fs ''../../etc//./passwd'' = Inr [''etc'', ''passwd''] \<and>
   normalize_fs (path_of [''etc'', ''passwd'']) = Inr [''etc'', ''passwd'']"
proof -
  have "normalize_fs ''../../etc//./passwd'' = Inr [''etc'', ''passwd'']" by code_simp
  with normalize_confines [OF this] show ?thesis by blast
qed

end
