(* ===== verification/Node.thy ===== *)
theory Node
  imports Rpc Base64 MemFS
begin

text \<open>
  The daemon-side control node of \<open>internal/node\<close>: the RPC handlers over the in-memory
  file system and the authoritative grace timer. The node's configuration holds callbacks
  into the daemon, so its state is generic in a host type \<open>'h\<close> that the callbacks act on;
  \<open>Serve\<close> wires it to the daemon's model. One clock reading serves a whole frame.

  \<open>time.AfterFunc\<close> runs its callback in a goroutine of its own: a timer that expires while
  it has not been stopped moves into \<open>firing\<close>, from where the lock runs at a later step.
  \<open>env\<close> collects what the language leaves to tables or to the platform: the quoting of
  \<open>%q\<close>, the text of base64 and JSON errors, the two renderings of times (RFC 3339 with and
  without nanoseconds), the digest, and the result of converting an out-of-range float to
  \<open>int64\<close>.
\<close>

record env =
  quote :: "string \<Rightarrow> string"
  b64_error :: "string \<Rightarrow> string"
  fmt_time :: "time \<Rightarrow> string"
  fmt_time_sec :: "time \<Rightarrow> string"
  json_error :: "bytes \<Rightarrow> string"
  sha_hex :: "bytes \<Rightarrow> string"
  f2i_out :: int

record ServeInfo =
  Backend :: string
  FuseActive :: bool
  FuseError :: string
  WebdavServing :: bool
  WebdavAddr :: string

text \<open>\<open>Config\<close>: optional callbacks are \<open>option\<close> values; \<open>FS\<close> is the host's file system.\<close>

record 'h node_config =
  get_fs :: "'h \<Rightarrow> memfs"
  set_fs :: "memfs \<Rightarrow> 'h \<Rightarrow> 'h"
  cb_Lock :: "('h \<Rightarrow> 'h) option"
  cb_Unmount :: "('h \<Rightarrow> 'h) option"
  cb_Remount :: "('h \<Rightarrow> 'h) option"
  cb_Mounted :: "('h \<Rightarrow> bool) option"
  cb_Serving :: "('h \<Rightarrow> ServeInfo) option"

record timer =
  deadline :: time
  expired :: bool

record 'h memory_node =
  host :: 'h
  Grace :: int
  grace :: "timer option"
  graceEnd :: "time option"
  firing :: nat

definition Second :: int where
  "Second = 1000000000"

text \<open>Go's integer division truncates towards zero.\<close>

definition quot :: "int \<Rightarrow> int \<Rightarrow> int" where
  "quot a b = sgn a * (\<bar>a\<bar> div b)"

definition fs_error_text :: "fs_error \<Rightarrow> string" where
  "fs_error_text e =
     (case e of
        ErrNotFound \<Rightarrow> ''valetfs: not found''
      | ErrExists \<Rightarrow> ''valetfs: already exists''
      | ErrNotDir \<Rightarrow> ''valetfs: not a directory''
      | ErrIsDir \<Rightarrow> ''valetfs: is a directory''
      | ErrQuota \<Rightarrow> ''valetfs: quota exceeded''
      | ErrInvalidPath \<Rightarrow> ''valetfs: invalid path''
      | ErrNotEmpty \<Rightarrow> ''valetfs: directory not empty'')"

definition new_node :: "'h \<Rightarrow> int \<Rightarrow> 'h memory_node" where
  "new_node h g = \<lparr>host = h, Grace = g, grace = None, graceEnd = None, firing = 0\<rparr>"

definition node_fs :: "'h node_config \<Rightarrow> 'h memory_node \<Rightarrow> memfs" where
  "node_fs cfg n = get_fs cfg (host n)"

definition run_cb :: "('h \<Rightarrow> 'h) option \<Rightarrow> 'h memory_node \<Rightarrow> 'h memory_node" where
  "run_cb cb n = (case cb of None \<Rightarrow> n | Some f \<Rightarrow> n\<lparr>host := f (host n)\<rparr>)"

section \<open>The grace timer\<close>

definition startGrace :: "'h node_config \<Rightarrow> time \<Rightarrow> 'h memory_node \<Rightarrow> 'h memory_node" where
  "startGrace cfg now n =
     (let n1 = n\<lparr>grace := None\<rparr>; d = Grace n
      in if d \<le> 0 then run_cb (cb_Lock cfg) n1
         else n1\<lparr>grace := Some \<lparr>deadline = now + d, expired = False\<rparr>, graceEnd := Some (now + d)\<rparr>)"

definition cancelGrace :: "'h memory_node \<Rightarrow> 'h memory_node" where
  "cancelGrace n = n\<lparr>grace := None, graceEnd := None\<rparr>"

definition GraceState :: "time \<Rightarrow> 'h memory_node \<Rightarrow> int \<times> bool \<times> int" where
  "GraceState now n =
     (case (grace n, graceEnd n) of
        (Some _, Some e) \<Rightarrow> (Grace n, True, max 0 (e - now))
      | _ \<Rightarrow> (Grace n, False, 0))"

definition ArmGrace :: "'h node_config \<Rightarrow> time \<Rightarrow> 'h memory_node \<Rightarrow> 'h memory_node" where
  "ArmGrace cfg now n = startGrace cfg now n"

definition SetGrace :: "'h node_config \<Rightarrow> time \<Rightarrow> int \<Rightarrow> 'h memory_node \<Rightarrow> 'h memory_node" where
  "SetGrace cfg now d n =
     (let n1 = n\<lparr>Grace := d\<rparr>
      in if grace n \<noteq> None then startGrace cfg now n1 else n1)"

text \<open>The runtime's part: a timer that reaches its deadline starts its callback.\<close>

definition expire :: "time \<Rightarrow> 'h memory_node \<Rightarrow> 'h memory_node option" where
  "expire now n =
     (case grace n of
        Some t \<Rightarrow> if \<not> expired t \<and> deadline t \<le> now
                  then Some (n\<lparr>grace := Some (t\<lparr>expired := True\<rparr>), firing := Suc (firing n)\<rparr>) else None
      | None \<Rightarrow> None)"

definition run_fired :: "'h node_config \<Rightarrow> 'h memory_node \<Rightarrow> 'h memory_node option" where
  "run_fired cfg n =
     (case firing n of 0 \<Rightarrow> None | Suc k \<Rightarrow> Some (run_cb (cb_Lock cfg) (n\<lparr>firing := k\<rparr>)))"

section \<open>Handlers\<close>

definition str_param :: "string \<Rightarrow> message \<Rightarrow> string" where
  "str_param k m = (case lookup_last k (Params m) of Some (JStr s) \<Rightarrow> s | _ \<Rightarrow> [])"

definition decodeContent :: "env \<Rightarrow> params \<Rightarrow> string + bytes" where
  "decodeContent en ps =
     (case lookup_last ''content_b64'' ps of
        Some (JStr b) \<Rightarrow> (case std_decode b of None \<Rightarrow> Inl (b64_error en b) | Some d \<Rightarrow> Inr d)
      | _ \<Rightarrow> (case lookup_last ''content'' ps of Some (JStr s) \<Rightarrow> Inr s | _ \<Rightarrow> Inr []))"

text \<open>\<open>toFloat\<close> then the conversion to \<open>int64\<close>; a number in a decoded frame is a \<open>float64\<close>.\<close>

definition toFloat_int :: "env \<Rightarrow> json \<Rightarrow> int option" where
  "toFloat_int en v =
     (case v of
        JNum l \<Rightarrow>
          (case f64_trunc l of
             None \<Rightarrow> None
           | Some s \<Rightarrow> Some (if - (2 ^ 63) \<le> s \<and> s < 2 ^ 63 then s else f2i_out en))
      | _ \<Rightarrow> None)"

text \<open>An \<open>int64\<close> result: the counters of the model are printed at their width.\<close>

definition int64_json :: "int \<Rightarrow> json" where
  "int64_json n = JNum (itoa (wrap64 n))"

definition ok_result :: params where
  "ok_result = [(''ok'', JBool True)]"

definition write_file :: "time \<Rightarrow> string \<Rightarrow> bytes \<Rightarrow> memfs \<Rightarrow> memfs \<times> fs_error option" where
  "write_file now p data m =
     (let dir = path_dir p;
          m1 = (if dir \<noteq> [] \<and> dir \<noteq> ''/'' then fst (MkdirAll now m dir 0x1ED) else m)
      in Write now m1 p data 0x180)"

definition handle_write :: "env \<Rightarrow> 'h node_config \<Rightarrow> time \<Rightarrow> 'h memory_node handler" where
  "handle_write en cfg now req n =
     (let p = str_param ''path'' req
      in if p = [] then (n, Inl ''missing path'')
         else (case decodeContent en (Params req) of
                 Inl e \<Rightarrow> (n, Inl e)
               | Inr data \<Rightarrow>
                   (let n1 = run_cb (cb_Remount cfg) n;
                        (m, err) = write_file now p data (node_fs cfg n1);
                        n2 = n1\<lparr>host := set_fs cfg m (host n1)\<rparr>
                    in case err of Some e \<Rightarrow> (n2, Inl (fs_error_text e)) | None \<Rightarrow> (n2, Inr ok_result))))"

definition handle_delete :: "'h node_config \<Rightarrow> time \<Rightarrow> 'h memory_node handler" where
  "handle_delete cfg now req n =
     (let p = str_param ''path'' req
      in if p = [] then (n, Inl ''missing path'')
         else (let (m, err) = Remove now (node_fs cfg n) p;
                   n1 = n\<lparr>host := set_fs cfg m (host n)\<rparr>
               in case err of Some e \<Rightarrow> (n1, Inl (fs_error_text e)) | None \<Rightarrow> (n1, Inr ok_result)))"

definition handle_lock :: "'h node_config \<Rightarrow> 'h memory_node handler" where
  "handle_lock cfg req n = (run_cb (cb_Lock cfg) (cancelGrace n), Inr [(''locked'', JBool True)])"

definition handle_unmount :: "'h node_config \<Rightarrow> 'h memory_node handler" where
  "handle_unmount cfg req n =
     ((case cb_Unmount cfg of
         Some f \<Rightarrow> run_cb (Some f) (cancelGrace n)
       | None \<Rightarrow> run_cb (cb_Lock cfg) (cancelGrace n)), Inr [(''unmounted'', JBool True)])"

definition handle_status :: "'h node_config \<Rightarrow> time \<Rightarrow> 'h memory_node handler" where
  "handle_status cfg now req n =
     (let mounted = (case cb_Mounted cfg of None \<Rightarrow> False | Some f \<Rightarrow> f (host n));
          (graceCfg, graceArmed, graceLeft) = GraceState now n;
          res = [(''mounted'', JBool mounted),
                 (''used'', int64_json (Used (node_fs cfg n))),
                 (''version'', int64_json (Version (node_fs cfg n))),
                 (''grace_seconds'', int64_json (quot graceCfg Second)),
                 (''grace_armed'', JBool graceArmed),
                 (''protocol_versions'', JArr (map (\<lambda>v. int64_json v) Supported))]
               @ (if graceArmed then [(''grace_remaining_seconds'', int64_json (quot graceLeft Second))] else [])
               @ (case cb_Serving cfg of
                    None \<Rightarrow> []
                  | Some f \<Rightarrow>
                      (let s = f (host n)
                       in [(''backend'', JStr (Backend s)),
                           (''serving'', JBool (FuseActive s \<or> WebdavServing s)),
                           (''fuse'', jmap [(''active'', JBool (FuseActive s)), (''error'', JStr (FuseError s))]),
                           (''webdav'', jmap [(''serving'', JBool (WebdavServing s)), (''addr'', JStr (WebdavAddr s))])]))
      in (n, Inr res))"

definition manifest_json :: "env \<Rightarrow> manifest_entry \<Rightarrow> json" where
  "manifest_json en e =
     jmap [(''path'', JStr (me_path e)), (''sha'', JStr (me_sha e)), (''size'', int64_json (me_size e)),
           (''mod_time'', JStr (fmt_time en (me_modTime e)))]"

definition handle_manifest :: "env \<Rightarrow> 'h node_config \<Rightarrow> 'h memory_node handler" where
  "handle_manifest en cfg req n =
     (n, Inr [(''version'', int64_json (Version (node_fs cfg n))),
              (''entries'', JArr (map (manifest_json en) (Manifest (sha_hex en) (node_fs cfg n))))])"

definition pull_blobs :: "memfs \<Rightarrow> json list \<Rightarrow> params" where
  "pull_blobs m paths =
     concat (map (\<lambda>pv. case pv of
                         JStr p \<Rightarrow>
                           if p = [] then []
                           else (case Read m p of
                                   Inl _ \<Rightarrow> []
                                 | Inr data \<Rightarrow> [(p, JStr (std_encode data))])
                       | _ \<Rightarrow> []) paths)"

definition handle_pull :: "'h node_config \<Rightarrow> 'h memory_node handler" where
  "handle_pull cfg req n =
     (let paths = (case lookup_last ''paths'' (Params req) of Some (JArr ps) \<Rightarrow> ps | _ \<Rightarrow> [])
      in (n, Inr [(''blobs'', jmap (pull_blobs (node_fs cfg n) paths))]))"

definition handle_set_config :: "env \<Rightarrow> 'h node_config \<Rightarrow> time \<Rightarrow> 'h memory_node handler" where
  "handle_set_config en cfg now req n =
     (case lookup_last ''grace_seconds'' (Params req) of
        None \<Rightarrow> (n, Inr ok_result)
      | Some v \<Rightarrow>
          (case toFloat_int en v of
             None \<Rightarrow> (n, Inr ok_result)
           | Some secs \<Rightarrow> (SetGrace cfg now (wrap64 (secs * Second)) n, Inr ok_result)))"

text \<open>\<open>register\<close>.\<close>

definition register :: "env \<Rightarrow> 'h node_config \<Rightarrow> time \<Rightarrow> 'h memory_node dispatcher" where
  "register en cfg now =
     Handle MethodSetConfig (handle_set_config en cfg now)
      (Handle MethodPull (handle_pull cfg)
       (Handle MethodManifest (handle_manifest en cfg)
        (Handle MethodStatus (handle_status cfg now)
         (Handle MethodUnmount (handle_unmount cfg)
          (Handle MethodLock (handle_lock cfg)
           (Handle MethodDelete (handle_delete cfg now)
            (Handle MethodWrite (handle_write en cfg now) NewDispatcher)))))))"

section \<open>Frames\<close>

record sysFrame =
  Sys :: string
  Role :: string

text \<open>\<open>Some\<close> when \<open>json.Unmarshal\<close> into the struct returns no error.\<close>

definition sys_frame :: "bytes \<Rightarrow> sysFrame option" where
  "sys_frame b =
     (case parse_json b of
        None \<Rightarrow> None
      | Some j \<Rightarrow>
          if obj_ok j \<and> str_ok ''sys'' j \<and> str_ok ''role'' j
          then Some \<lparr>Sys = get_str ''sys'' j, Role = get_str ''role'' j\<rparr> else None)"

text \<open>\<open>onData\<close>: the new state and the reply handed to the connection.\<close>

definition node_onData :: "env \<Rightarrow> 'h node_config \<Rightarrow> time \<Rightarrow> 'h memory_node \<Rightarrow> bytes \<Rightarrow> 'h memory_node \<times> bytes option" where
  "node_onData en cfg now n b =
     (case sys_frame b of
        Some sf \<Rightarrow>
          if Sys sf \<noteq> [] then
            (if Role sf = ''vault'' \<and> Sys sf = ''peer_offline'' then (startGrace cfg now n, None) else (n, None))
          else Dispatch (quote en) (register en cfg now) b (cancelGrace n)
      | None \<Rightarrow> Dispatch (quote en) (register en cfg now) b (cancelGrace n))"

section \<open>Dispatching\<close>

lemma to_upper_methods [simp]:
  "to_upper MethodWrite = ''WRITE''" "to_upper MethodDelete = ''DELETE''" "to_upper MethodUnmount = ''UNMOUNT''"
  "to_upper MethodLock = ''LOCK''" "to_upper MethodStatus = ''STATUS''" "to_upper MethodManifest = ''MANIFEST''"
  "to_upper MethodPull = ''PULL''" "to_upper MethodSetConfig = ''SET_CONFIG''"
  by code_simp+

lemma register_lookup:
  "map_of (handlers (register en cfg now)) =
     [''SET_CONFIG'' \<mapsto> handle_set_config en cfg now, ''PULL'' \<mapsto> handle_pull cfg,
      ''MANIFEST'' \<mapsto> handle_manifest en cfg, ''STATUS'' \<mapsto> handle_status cfg now,
      ''UNMOUNT'' \<mapsto> handle_unmount cfg, ''LOCK'' \<mapsto> handle_lock cfg,
      ''DELETE'' \<mapsto> handle_delete cfg now, ''WRITE'' \<mapsto> handle_write en cfg now]"
  by (simp add: register_def Handle_def NewDispatcher_def)

lemma register_cases:
  assumes "map_of (handlers (register en cfg now)) k = Some h"
  obtains "h = handle_write en cfg now" | "h = handle_delete cfg now" | "h = handle_lock cfg"
    | "h = handle_unmount cfg" | "h = handle_status cfg now" | "h = handle_manifest en cfg"
    | "h = handle_pull cfg" | "h = handle_set_config en cfg now"
  using assms unfolding register_lookup by (auto split: if_splits)

lemma int64_json_ok [simp]: "nums_ok (int64_json n)" "any_ok (int64_json n)"
proof -
  have "\<bar>wrap64 n\<bar> < 2 ^ 64" using wrap64_range [of n] by simp
  then show "any_ok (int64_json n)" by (simp add: int64_json_def f64_trunc_itoa)
qed (simp add: int64_json_def num_ok_itoa)

lemma sendableI: "(\<forall>(k, v) \<in> set kvs. nums_ok v \<and> any_ok v) \<Longrightarrow> nums_ok (jmap kvs) \<and> any_ok (jmap kvs)"
proof -
  assume a: "\<forall>(k, v) \<in> set kvs. nums_ok v \<and> any_ok v"
  have "nums_ok (the (lookup_last k kvs)) \<and> any_ok (the (lookup_last k kvs))" if "k \<in> set (keys kvs)" for k
  proof -
    have "k \<in> fst ` set (rev kvs)" using that by simp
    then obtain v where v: "map_of (rev kvs) k = Some v" by (metis map_of_eq_None_iff not_Some_eq)
    then show ?thesis using a map_of_SomeD [OF v] by (auto simp: lookup_last_def)
  qed
  then show ?thesis by (simp add: jmap_def list_all_iff)
qed

lemma jmap_ok [simp]:
  "(\<forall>(k, v) \<in> set kvs. nums_ok v \<and> any_ok v) \<Longrightarrow> nums_ok (jmap kvs)"
  "(\<forall>(k, v) \<in> set kvs. nums_ok v \<and> any_ok v) \<Longrightarrow> any_ok (jmap kvs)"
  using sendableI by blast+

lemma sendable_list: "(\<forall>(k, v) \<in> set kvs. nums_ok v \<and> any_ok v) \<Longrightarrow> sendable kvs"
  by (simp add: sendable_def)

lemma handlers_sendable:
  assumes "map_of (handlers (register en cfg now)) k = Some h" and "snd (h m n) = Inr res"
  shows "sendable res"
proof (rule sendable_list)
  show "\<forall>(k, v) \<in> set res. nums_ok v \<and> any_ok v"
    using assms(1)
  proof (cases rule: register_cases)
    case 1
    then show ?thesis using assms(2)
      by (auto simp: handle_write_def Let_def ok_result_def split: if_splits sum.splits prod.splits option.splits)
  next
    case 2
    then show ?thesis using assms(2)
      by (auto simp: handle_delete_def Let_def ok_result_def split: if_splits prod.splits option.splits)
  next
    case 5
    then show ?thesis using assms(2)
      by (auto simp: handle_status_def Let_def list_all_iff split: prod.splits option.splits if_splits)
  next
    case 6
    then show ?thesis using assms(2) by (auto simp: handle_manifest_def manifest_json_def list_all_iff)
  next
    case 7
    have "\<forall>(k, v) \<in> set (pull_blobs fs ps). nums_ok v \<and> any_ok v" for fs ps
      by (auto simp: pull_blobs_def split: json.splits if_splits sum.splits)
    then show ?thesis using 7 assms(2) by (auto simp: handle_pull_def Let_def)
  next
    case 8
    then show ?thesis using assms(2)
      by (auto simp: handle_set_config_def ok_result_def split: option.splits)
  qed (use assms(2) in \<open>auto simp: handle_lock_def handle_unmount_def\<close>)
qed

section \<open>The host's contract\<close>

text \<open>
  What the node relies on in its host: the file system is a field of it, the lock callback
  is there and empties the file system, unmounting and remounting leave it alone.
\<close>

locale node_host =
  fixes cfg :: "'h node_config"
    and hinv :: "'h \<Rightarrow> bool"
  assumes get_set: "get_fs cfg (set_fs cfg m h) = m"
    and set_inv: "hinv h \<Longrightarrow> fs_inv m \<Longrightarrow> hinv (set_fs cfg m h)"
    and host_fs: "hinv h \<Longrightarrow> fs_inv (get_fs cfg h)"
    and has_lock: "cb_Lock cfg \<noteq> None"
    and lock_inv: "cb_Lock cfg = Some f \<Longrightarrow> hinv h \<Longrightarrow> hinv (f h)"
    and lock_wipes: "cb_Lock cfg = Some f \<Longrightarrow> fs_view (get_fs cfg (f h)) = [[] \<mapsto> EDir]"
    and unmount_inv: "cb_Unmount cfg = Some f \<Longrightarrow> hinv h \<Longrightarrow> hinv (f h)"
    and unmount_keeps: "cb_Unmount cfg = Some f \<Longrightarrow> get_fs cfg (f h) = get_fs cfg h"
    and remount_inv: "cb_Remount cfg = Some f \<Longrightarrow> hinv h \<Longrightarrow> hinv (f h)"
    and remount_keeps: "cb_Remount cfg = Some f \<Longrightarrow> get_fs cfg (f h) = get_fs cfg h"
begin

lemma run_lock:
  "hinv (host n) \<Longrightarrow> hinv (host (run_cb (cb_Lock cfg) n))"
  "fs_view (node_fs cfg (run_cb (cb_Lock cfg) n)) = [[] \<mapsto> EDir]"
  using has_lock lock_inv lock_wipes by (auto simp: run_cb_def node_fs_def)

lemma run_remount:
  "hinv (host n) \<Longrightarrow> hinv (host (run_cb (cb_Remount cfg) n))"
  "node_fs cfg (run_cb (cb_Remount cfg) n) = node_fs cfg n"
  using remount_inv remount_keeps by (auto simp: run_cb_def node_fs_def split: option.split)

lemma startGrace_inv: "hinv (host n) \<Longrightarrow> hinv (host (startGrace cfg now n))"
  using run_lock(1) [of "n\<lparr>grace := None\<rparr>"] by (simp add: startGrace_def Let_def)

lemma SetGrace_inv: "hinv (host n) \<Longrightarrow> hinv (host (SetGrace cfg now d n))"
  using startGrace_inv [of "n\<lparr>Grace := d\<rparr>"] by (simp add: SetGrace_def Let_def)

end

lemma fs_inv_write_file: "fs_inv m \<Longrightarrow> fs_inv (fst (write_file now p data m))"
  by (auto simp: write_file_def Let_def intro: fs_inv_Write fs_inv_MkdirAll)

lemma write_file_reads:
  assumes "fs_inv m" and "write_file now p data m = (m', None)"
  shows "Read m' p = Inr data"
proof -
  let ?m = "if path_dir p \<noteq> [] \<and> path_dir p \<noteq> ''/'' then fst (MkdirAll now m (path_dir p) 0x1ED) else m"
  have "fs_inv ?m" using assms(1) by (auto intro: fs_inv_MkdirAll)
  moreover have "Write now ?m p data 0x180 = (m', None)" using assms(2) by (simp add: write_file_def Let_def)
  ultimately show ?thesis using mem.read_after_write read_opt_Some by blast
qed

context node_host
begin

lemma handle_write_inv: "hinv (host n) \<Longrightarrow> hinv (host (fst (handle_write en cfg now req n)))"
proof -
  assume n: "hinv (host n)"
  let ?n = "run_cb (cb_Remount cfg) n"
  have "hinv (set_fs cfg (fst (write_file now p data (node_fs cfg ?n))) (host ?n))" for p data
    using set_inv [OF run_remount(1) [OF n]] fs_inv_write_file host_fs [OF run_remount(1) [OF n]]
    by (simp add: node_fs_def)
  then show ?thesis
    using n by (auto simp: handle_write_def Let_def split_beta split: sum.split option.split)
qed

lemma handle_delete_inv: "hinv (host n) \<Longrightarrow> hinv (host (fst (handle_delete cfg now req n)))"
  using set_inv [OF _ fs_inv_Remove [OF host_fs], of "host n" "host n"]
  by (auto simp: handle_delete_def Let_def split_beta node_fs_def split: option.split)

lemma handlers_inv:
  assumes "map_of (handlers (register en cfg now)) k = Some h" and n: "hinv (host n)"
  shows "hinv (host (fst (h m n)))"
  using assms(1)
proof (cases rule: register_cases)
  case 3
  then show ?thesis using run_lock(1) [of "cancelGrace n"] n by (simp add: handle_lock_def cancelGrace_def)
next
  case 4
  then show ?thesis using run_lock(1) [of "cancelGrace n"] n unmount_inv
    by (auto simp: handle_unmount_def cancelGrace_def run_cb_def split: option.split)
next
  case 8
  then show ?thesis using n SetGrace_inv by (auto simp: handle_set_config_def split: option.split)
qed (use n handle_write_inv handle_delete_inv in
    \<open>auto simp: handle_status_def handle_manifest_def handle_pull_def Let_def split: prod.split\<close>)

end

sublocale node_host \<subseteq> svc: rpc_service "quote en" "register en cfg now" "\<lambda>n. hinv (host n)"
  for en :: env and now :: time
  by unfold_locales (use handlers_inv handlers_sendable in blast)+

context node_host
begin

lemma node_onData_inv: "hinv (host n) \<Longrightarrow> hinv (host (fst (node_onData en cfg now n b)))"
  using startGrace_inv svc.dispatch_inv [of "cancelGrace n" en now b]
  by (auto simp: node_onData_def cancelGrace_def split: option.split)

text \<open>A countdown that nothing touches ends in an empty file system.\<close>

lemma grace_locks:
  assumes "grace n = Some t" and "\<not> expired t" and "deadline t \<le> now"
  shows "\<exists>n1 n2. expire now n = Some n1 \<and> run_fired cfg n1 = Some n2 \<and> fs_view (node_fs cfg n2) = [[] \<mapsto> EDir]"
  using assms run_lock(2) by (simp add: expire_def run_fired_def)

lemma handle_write_reads:
  assumes "hinv (host n)" and "handle_write en cfg now req n = (n', Inr res)"
    and "decodeContent en (Params req) = Inr data"
  shows "Read (node_fs cfg n') (str_param ''path'' req) = Inr data \<and> res = ok_result"
proof -
  let ?n = "run_cb (cb_Remount cfg) n"
  obtain m err where w: "write_file now (str_param ''path'' req) data (node_fs cfg ?n) = (m, err)" by fastforce
  from assms w have "err = None" "n' = ?n\<lparr>host := set_fs cfg m (host ?n)\<rparr>" "res = ok_result"
    by (auto simp: handle_write_def Let_def split: if_splits option.splits)
  moreover have "fs_inv (node_fs cfg ?n)" using host_fs [OF run_remount(1) [OF assms(1)]] by (simp add: node_fs_def)
  ultimately show ?thesis using write_file_reads w by (auto simp: node_fs_def get_set)
qed

end

end
