(* ===== verification/Daemon.thy ===== *)
theory Daemon
  imports Node
begin

text \<open>
  The daemon of \<open>internal/daemon\<close> and the diff repository of \<open>internal/sync\<close>: mounting and
  unmounting, shutdown, and the local HTTP control API over the in-memory file system.
  The two front ends run in goroutines of their own, so what they report arrives as
  separate events. What cgofuse, \<open>net/http\<close> and go-git answer is an argument of the
  operation that asks them. A request holds what \<open>net/http\<close> has parsed: method, path, the
  query values, the token header and the body.
\<close>

section \<open>The diff repository\<close>

definition manifest_line :: "(bytes \<Rightarrow> bytes \<Rightarrow> bytes) \<Rightarrow> bytes \<Rightarrow> string \<times> bytes \<Rightarrow> string" where
  "manifest_line hmac key pd =
     hex_encode (hmac key (snd pd)) @ '' '' @ itoa (int (length (snd pd))) @ '' '' @ fst pd @ [CHR 0x0A]"

definition buildManifest :: "(bytes \<Rightarrow> bytes \<Rightarrow> bytes) \<Rightarrow> (string, bytes) gomap \<Rightarrow> bytes \<Rightarrow> string" where
  "buildManifest hmac snapshot key =
     concat (map (\<lambda>p. manifest_line hmac key (p, the (map_of snapshot p))) (sort (keys snapshot)))"

record repo =
  rkey :: bytes
  manifest_txt :: "string option"
  history :: "(string \<times> string) list"

text \<open>
  \<open>git\<close> is what go-git answers: an error, a clean work tree, or the hash of the new commit.
\<close>

definition repo_Commit ::
  "(bytes \<Rightarrow> bytes \<Rightarrow> bytes) \<Rightarrow> string + string option \<Rightarrow> repo \<Rightarrow> (string, bytes) gomap \<Rightarrow> string \<Rightarrow> repo \<times> (string + string)" where
  "repo_Commit hmac git r snapshot msg =
     (let mf = buildManifest hmac snapshot (rkey r); r1 = r\<lparr>manifest_txt := Some mf\<rparr>
      in case git of
           Inl e \<Rightarrow> (r1, Inl e)
         | Inr None \<Rightarrow> (r1, Inr [])
         | Inr (Some h) \<Rightarrow> (r1\<lparr>history := history r @ [(msg, mf)]\<rparr>, Inr h))"

text \<open>\<open>Wipe\<close>: the fresh key is an argument; the file-system and go-git calls succeed.\<close>

definition repo_Wipe :: "bytes \<Rightarrow> repo \<Rightarrow> repo" where
  "repo_Wipe newKey r = \<lparr>rkey = newKey, manifest_txt = None, history = []\<rparr>"

section \<open>The daemon\<close>

record daemon_config =
  MountPoint :: string
  ControlToken :: string
  WebdavDisabled :: bool
  QuotaBytes :: int

text \<open>
  \<open>mounter_up\<close> and \<open>webdav_up\<close> say whether the two servers accept requests: state of the
  front ends, which the flags of the daemon only report on.
\<close>

record daemon =
  dcfg :: daemon_config
  dfs :: memfs
  drepo :: repo
  mounted :: bool
  fuseErr :: string
  webdavOn :: bool
  backend :: string
  webdav_addr :: string
  devAddr :: string
  mounter_up :: bool
  webdav_up :: bool

definition new_daemon :: "time \<Rightarrow> bytes \<Rightarrow> string \<Rightarrow> daemon_config \<Rightarrow> daemon" where
  "new_daemon now key be c =
     \<lparr>dcfg = c, dfs = New now (QuotaBytes c), drepo = \<lparr>rkey = key, manifest_txt = None, history = []\<rparr>,
      mounted = False, fuseErr = [], webdavOn = False, backend = be, webdav_addr = ''127.0.0.1:0'', devAddr = [],
      mounter_up = False, webdav_up = False\<rparr>"

definition FuseActive_d :: "daemon \<Rightarrow> bool" where
  "FuseActive_d d \<longleftrightarrow> mounted d \<and> fuseErr d = [] \<and> backend d = ''fuse''"

text \<open>\<open>Mount\<close> only records the wish; the goroutines it starts report through the events below.\<close>

definition Mount :: "daemon \<Rightarrow> daemon" where
  "Mount d = (if mounted d then d else d\<lparr>mounted := True\<rparr>)"

definition webdav_listens :: "string \<Rightarrow> daemon \<Rightarrow> daemon" where
  "webdav_listens addr d = d\<lparr>webdav_up := True, webdav_addr := addr\<rparr>"

definition webdav_fails :: "daemon \<Rightarrow> daemon" where
  "webdav_fails d = d\<lparr>webdavOn := False, webdav_up := False\<rparr>"

definition waitWebDAVReady :: "daemon \<Rightarrow> daemon" where
  "waitWebDAVReady d =
     (if webdav_addr d \<noteq> [] \<and> \<not> has_suffix (webdav_addr d) '':0'' then d\<lparr>webdavOn := True\<rparr> else d)"

definition mounter_serves :: "daemon \<Rightarrow> daemon" where
  "mounter_serves d = d\<lparr>mounter_up := True\<rparr>"

definition mounter_fails :: "string \<Rightarrow> daemon \<Rightarrow> daemon" where
  "mounter_fails e d = d\<lparr>fuseErr := e, mounter_up := False\<rparr>"

text \<open>
  \<open>Unmount\<close>; the two arguments are the errors of the front ends' \<open>Unmount\<close>. A server that
  shuts down stops listening even when waiting for its open connections times out.
\<close>

definition Unmount :: "string option \<Rightarrow> string option \<Rightarrow> daemon \<Rightarrow> daemon \<times> string option" where
  "Unmount ferr werr d =
     (if \<not> mounted d then (d, None)
      else let d1 = d\<lparr>mounted := False, webdavOn := False, fuseErr := []\<rparr>
           in case ferr of
                Some e \<Rightarrow> (d1, Some e)
              | None \<Rightarrow>
                  (let d2 = d1\<lparr>mounter_up := False\<rparr>
                   in if \<not> WebdavDisabled (dcfg d) then (d2\<lparr>webdav_up := False\<rparr>, werr) else (d2, None)))"

definition WipeHistory :: "bytes \<Rightarrow> daemon \<Rightarrow> daemon" where
  "WipeHistory key d = d\<lparr>drepo := repo_Wipe key (drepo d)\<rparr>"

definition Sync ::
  "(bytes \<Rightarrow> bytes \<Rightarrow> bytes) \<Rightarrow> env \<Rightarrow> string + string option \<Rightarrow> time \<Rightarrow> daemon \<Rightarrow> daemon \<times> (string + string)" where
  "Sync hmac en git now d =
     (let (r, res) = repo_Commit hmac git (drepo d) (Snapshot (dfs d)) (''sync '' @ fmt_time_sec en now)
      in (d\<lparr>drepo := r\<rparr>, res))"

definition Shutdown :: "string option \<Rightarrow> string option \<Rightarrow> bytes \<Rightarrow> time \<Rightarrow> daemon \<Rightarrow> daemon" where
  "Shutdown ferr werr key now d =
     (let d1 = fst (Unmount ferr werr d); d2 = d1\<lparr>dfs := Wipe now (dfs d1)\<rparr>
      in WipeHistory key d2)"

section \<open>The control API\<close>

record http_req =
  rmethod :: string
  rquery :: "(string \<times> string) list"
  rtoken :: string
  rbody :: bytes

datatype http_body = BJson json | BRaw bytes | BEmpty

record http_resp =
  code :: int
  rbody_out :: http_body

definition qget :: "string \<Rightarrow> http_req \<Rightarrow> string" where
  "qget k r = (case map_of (rquery r) k of None \<Rightarrow> [] | Some v \<Rightarrow> v)"

definition auth :: "http_req \<Rightarrow> daemon \<Rightarrow> bool" where
  "auth r d =
     (let tok = (if rtoken r = [] then qget ''token'' r else rtoken r)
      in if tok = [] \<or> ControlToken (dcfg d) = [] then False else tok = ControlToken (dcfg d))"

definition reply_json :: "int \<Rightarrow> params \<Rightarrow> http_resp" where
  "reply_json c kvs = \<lparr>code = c, rbody_out = BJson (jmap kvs)\<rparr>"

definition reply_error :: "int \<Rightarrow> string \<Rightarrow> http_resp" where
  "reply_error c e = reply_json c [(''error'', JStr e)]"

definition unauthorized :: http_resp where
  "unauthorized = reply_error 401 ''unauthorized''"

definition reply_ok :: http_resp where
  "reply_ok = reply_json 200 [(''ok'', JBool True)]"

definition method_not_allowed :: http_resp where
  "method_not_allowed = \<lparr>code = 405, rbody_out = BEmpty\<rparr>"

definition handleMount :: "http_req \<Rightarrow> daemon \<Rightarrow> daemon \<times> http_resp" where
  "handleMount r d =
     (if \<not> auth r d then (d, unauthorized)
      else (Mount d, reply_json 200 [(''mounted'', JBool True), (''mountpoint'', JStr (MountPoint (dcfg d)))]))"

definition handleUnmount :: "string option \<Rightarrow> string option \<Rightarrow> http_req \<Rightarrow> daemon \<Rightarrow> daemon \<times> http_resp" where
  "handleUnmount ferr werr r d =
     (if \<not> auth r d then (d, unauthorized)
      else (let (d', err) = Unmount ferr werr d
            in case err of
                 Some e \<Rightarrow> (d', reply_error 500 e)
               | None \<Rightarrow> (d', reply_json 200 [(''mounted'', JBool False)])))"

definition handleSync ::
  "(bytes \<Rightarrow> bytes \<Rightarrow> bytes) \<Rightarrow> env \<Rightarrow> string + string option \<Rightarrow> time \<Rightarrow> http_req \<Rightarrow> daemon \<Rightarrow> daemon \<times> http_resp" where
  "handleSync hmac en git now r d =
     (if \<not> auth r d then (d, unauthorized)
      else (let (d', res) = Sync hmac en git now d
            in case res of
                 Inl e \<Rightarrow> (d', reply_error 500 e)
               | Inr h \<Rightarrow> (d', reply_json 200 [(''commit'', JStr h)])))"

text \<open>\<open>graceState\<close> is the optional reporter the node installs.\<close>

definition handleStatus :: "(int \<times> bool \<times> int) option \<Rightarrow> http_req \<Rightarrow> daemon \<Rightarrow> daemon \<times> http_resp" where
  "handleStatus graceState r d =
     (if \<not> auth r d then (d, unauthorized)
      else
        (let fuseActive = FuseActive_d d
         in (d, reply_json 200
              ([(''mounted'', JBool (mounted d)), (''mountpoint'', JStr (MountPoint (dcfg d))),
                (''backend'', JStr (backend d)), (''serving'', JBool (fuseActive \<or> webdavOn d)),
                (''fuse'', jmap [(''active'', JBool fuseActive), (''mounted'', JBool fuseActive),
                                 (''error'', JStr (fuseErr d))]),
                (''webdav'', jmap [(''enabled'', JBool (\<not> WebdavDisabled (dcfg d))), (''serving'', JBool (webdavOn d)),
                                   (''addr'', JStr (webdav_addr d))]),
                (''used'', int64_json (Used (dfs d))), (''quota'', int64_json (QuotaBytes (dcfg d))),
                (''version'', int64_json (Version (dfs d)))]
               @ (case graceState of
                    None \<Rightarrow> []
                  | Some (g, armed, left) \<Rightarrow>
                      [(''grace_seconds'', int64_json (quot g Second)), (''grace_armed'', JBool armed)]
                      @ (if armed then [(''grace_remaining_seconds'', int64_json (quot left Second))] else []))))))"

text \<open>\<open>os.FileMode.String\<close>.\<close>

definition mode_string :: "filemode \<Rightarrow> string" where
  "mode_string m =
     (let hi = concat (map (\<lambda>(i, c). if bit m (31 - i) then [c] else []) (enumerate 0 ''dalTLDpSugct?''));
          lo = map (\<lambda>(i, c). if bit m (8 - i) then c else CHR ''-'') (enumerate 0 ''rwxrwxrwx'')
      in (if hi = [] then ''-'' else hi) @ lo)"

definition size_of :: "memfs \<Rightarrow> string \<Rightarrow> node \<Rightarrow> int" where
  "size_of m p n =
     (if isDir n then 0 else (case Read m p of Inr data \<Rightarrow> int (length data) | Inl _ \<Rightarrow> 0))"

definition stat_fields :: "env \<Rightarrow> memfs \<Rightarrow> string \<Rightarrow> string \<Rightarrow> node \<Rightarrow> params" where
  "stat_fields en m p nm n =
     [(''name'', JStr nm), (''is_dir'', JBool (isDir n)), (''mode'', JStr (mode_string (nmode n))),
      (''size'', int64_json (size_of m p n)), (''mod_time'', JStr (fmt_time_sec en (modTime n)))]"

definition files_get :: "env \<Rightarrow> string \<Rightarrow> http_req \<Rightarrow> daemon \<Rightarrow> http_resp" where
  "files_get en p r d =
     (let m = dfs d
      in if qget ''meta'' r = ''1'' then
           (case Stat m p of
              Inl e \<Rightarrow> reply_error 404 (fs_error_text e)
            | Inr n \<Rightarrow> reply_json 200 (stat_fields en m p (nname n) n))
         else if qget ''list'' r = ''1'' then
           (case List_fs m p of
              Inl e \<Rightarrow> reply_error 404 (fs_error_text e)
            | Inr names0 \<Rightarrow>
                (let names = (if qget ''all'' r = ''1'' then names0
                              else filter (\<lambda>n. \<not> has_prefix n ''.'') names0)
                 in if qget ''detail'' r \<noteq> ''1'' then reply_json 200 [(''items'', JArr (map JStr names))]
                    else reply_json 200
                      [(''items'', JArr (concat (map (\<lambda>nm.
                          case Stat m (path_join [p, nm]) of
                            Inl _ \<Rightarrow> []
                          | Inr n \<Rightarrow> [JObj (stat_fields en m (path_join [p, nm]) nm n)]) names)))]))
         else (case Read m p of
                 Inl e \<Rightarrow> reply_error 404 (fs_error_text e)
               | Inr data \<Rightarrow> \<lparr>code = 200, rbody_out = BRaw data\<rparr>))"

text \<open>
  \<open>json.NewDecoder(r.Body).Decode\<close> reads one value from the front of the body.
\<close>

definition parse_first :: "string \<Rightarrow> json option" where
  "parse_first s = map_option fst (pval (2 * length s + 2) s)"

definition files_put :: "env \<Rightarrow> time \<Rightarrow> string \<Rightarrow> http_req \<Rightarrow> daemon \<Rightarrow> daemon \<times> http_resp" where
  "files_put en now p r d =
     (case parse_first (rbody r) of
        None \<Rightarrow> (d, reply_error 400 (json_error en (rbody r)))
      | Some j \<Rightarrow>
          if \<not> (obj_ok j \<and> str_ok ''content'' j \<and> str_ok ''from'' j)
          then (d, reply_error 400 (json_error en (rbody r)))
          else if get_str ''from'' j \<noteq> [] then
            (case Read (dfs d) (get_str ''from'' j) of
               Inl e \<Rightarrow> (d, reply_error 404 (fs_error_text e))
             | Inr data \<Rightarrow>
                 (let (m, err) = write_file now p data (dfs d)
                  in (d\<lparr>dfs := m\<rparr>, case err of Some e \<Rightarrow> reply_error 500 (fs_error_text e) | None \<Rightarrow> reply_ok)))
          else (let (m, err) = write_file now p (get_str ''content'' j) (dfs d)
                in (d\<lparr>dfs := m\<rparr>, case err of Some e \<Rightarrow> reply_error 500 (fs_error_text e) | None \<Rightarrow> reply_ok)))"

text \<open>
  \<open>removeRecursive\<close>; the fuel bounds the depth of the recursion, \<open>None\<close> is running out of
  it, and the size of the tree is enough.
\<close>

fun removeRecursive :: "nat \<Rightarrow> time \<Rightarrow> string \<Rightarrow> memfs \<Rightarrow> (memfs \<times> fs_error option) option"
  and removeChildren :: "nat \<Rightarrow> time \<Rightarrow> string \<Rightarrow> string list \<Rightarrow> memfs \<Rightarrow> (memfs \<times> fs_error option) option" where
  "removeRecursive 0 now p m = None"
| "removeRecursive (Suc k) now p m =
     (case Stat m p of
        Inl e \<Rightarrow> Some (m, Some e)
      | Inr n \<Rightarrow>
          if \<not> isDir n then Some (Remove now m p)
          else (case List_fs m p of
                  Inl e \<Rightarrow> Some (m, Some e)
                | Inr cs \<Rightarrow>
                    (case removeChildren k now p cs m of
                       None \<Rightarrow> None
                     | Some (m1, Some e) \<Rightarrow> Some (m1, Some e)
                     | Some (m1, None) \<Rightarrow> Some (Remove now m1 p))))"
| "removeChildren k now p [] m = Some (m, None)"
| "removeChildren k now p (c # cs) m =
     (case removeRecursive k now (path_join [p, c]) m of
        None \<Rightarrow> None
      | Some (m1, Some e) \<Rightarrow> Some (m1, Some e)
      | Some (m1, None) \<Rightarrow> removeChildren k now p cs m1)"

definition remove_all :: "time \<Rightarrow> string \<Rightarrow> memfs \<Rightarrow> memfs \<times> fs_error option" where
  "remove_all now p m = the (removeRecursive (Suc (size (root m))) now p m)"

definition files_delete :: "time \<Rightarrow> string \<Rightarrow> http_req \<Rightarrow> daemon \<Rightarrow> daemon \<times> http_resp" where
  "files_delete now p r d =
     (let (m, err) = (if qget ''recursive'' r = ''1'' then remove_all now p (dfs d)
                      else Remove now (dfs d) p)
      in (d\<lparr>dfs := m\<rparr>, case err of Some e \<Rightarrow> reply_error 404 (fs_error_text e) | None \<Rightarrow> reply_ok))"

definition handleFiles :: "env \<Rightarrow> time \<Rightarrow> http_req \<Rightarrow> daemon \<Rightarrow> daemon \<times> http_resp" where
  "handleFiles en now r d =
     (if \<not> auth r d then (d, unauthorized)
      else if qget ''path'' r = [] then (d, reply_error 400 ''missing path'')
      else if rmethod r = ''GET'' then (d, files_get en (qget ''path'' r) r d)
      else if rmethod r = ''POST'' \<or> rmethod r = ''PUT'' then files_put en now (qget ''path'' r) r d
      else if rmethod r = ''DELETE'' then files_delete now (qget ''path'' r) r d
      else (d, method_not_allowed))"

definition handleMkdir :: "time \<Rightarrow> http_req \<Rightarrow> daemon \<Rightarrow> daemon \<times> http_resp" where
  "handleMkdir now r d =
     (if \<not> auth r d then (d, unauthorized)
      else if rmethod r \<noteq> ''POST'' then (d, method_not_allowed)
      else if qget ''path'' r = [] then (d, reply_error 400 ''missing path'')
      else (let (m, err) = (if qget ''parents'' r = ''1'' then MkdirAll now (dfs d) (qget ''path'' r) 0x1ED
                            else Mkdir now (dfs d) (qget ''path'' r) 0x1ED)
            in (d\<lparr>dfs := m\<rparr>, case err of Some e \<Rightarrow> reply_error 400 (fs_error_text e) | None \<Rightarrow> reply_ok)))"

definition handleRmdir :: "time \<Rightarrow> http_req \<Rightarrow> daemon \<Rightarrow> daemon \<times> http_resp" where
  "handleRmdir now r d =
     (if \<not> auth r d then (d, unauthorized)
      else if rmethod r \<noteq> ''POST'' then (d, method_not_allowed)
      else if qget ''path'' r = [] then (d, reply_error 400 ''missing path'')
      else (let (m, err) = Remove now (dfs d) (qget ''path'' r)
            in (d\<lparr>dfs := m\<rparr>, case err of Some e \<Rightarrow> reply_error 400 (fs_error_text e) | None \<Rightarrow> reply_ok)))"

definition handleShutdown ::
  "string option \<Rightarrow> string option \<Rightarrow> bytes \<Rightarrow> time \<Rightarrow> http_req \<Rightarrow> daemon \<Rightarrow> daemon \<times> http_resp" where
  "handleShutdown ferr werr key now r d =
     (if \<not> auth r d then (d, unauthorized)
      else if rmethod r \<noteq> ''POST'' then (d, method_not_allowed)
      else (Shutdown ferr werr key now d, reply_ok))"

text \<open>The routes of \<open>StartDevAPI\<close>, with what the outside answers collected in one record.\<close>

record outside =
  o_ferr :: "string option"
  o_werr :: "string option"
  o_git :: "string + string option"
  o_key :: bytes
  o_grace :: "(int \<times> bool \<times> int) option"

definition control_api ::
  "(bytes \<Rightarrow> bytes \<Rightarrow> bytes) \<Rightarrow> env \<Rightarrow> outside \<Rightarrow> time \<Rightarrow> string \<Rightarrow> http_req \<Rightarrow> daemon \<Rightarrow> daemon \<times> http_resp" where
  "control_api hmac en ou now path r d =
     (if path = ''/mount'' then handleMount r d
      else if path = ''/unmount'' then handleUnmount (o_ferr ou) (o_werr ou) r d
      else if path = ''/sync'' then handleSync hmac en (o_git ou) now r d
      else if path = ''/status'' then handleStatus (o_grace ou) r d
      else if path = ''/files'' then handleFiles en now r d
      else if path = ''/mkdir'' then handleMkdir now r d
      else if path = ''/rmdir'' then handleRmdir now r d
      else if path = ''/shutdown'' then handleShutdown (o_ferr ou) (o_werr ou) (o_key ou) now r d
      else (d, \<lparr>code = 404, rbody_out = BRaw (''404 page not found'' @ [CHR 0x0A])\<rparr>))"

section \<open>\<open>runtime.json\<close>\<close>

definition writeRuntimeState :: "daemon \<Rightarrow> bytes" where
  "writeRuntimeState d =
     marshal (JObj [(''control_url'', JStr (''http://'' @ devAddr d)), (''control_addr'', JStr (devAddr d)),
                    (''control_token'', JStr (ControlToken (dcfg d))), (''webdav_addr'', JStr (webdav_addr d)),
                    (''mountpoint'', JStr (MountPoint (dcfg d)))])"

section \<open>Recursive removal\<close>

lemma normalize_join:
  assumes "normalize_fs p = Inr parts" and "good_name c"
  shows "normalize_fs (path_join [p, c]) = Inr (parts @ [c])"
proof -
  have p: "p \<noteq> ''''" "parts = clean_comps True (split_on slash p)" "\<forall>x \<in> set parts. \<not> contains x ''..''"
    using assms(1) by (auto simp: normalize_eq Let_def split: if_splits)
  have c: "plain_comp c" "\<not> contains c ''..''"
    using assms(2) good_names_plain [of "[c]"] by (auto simp: good_name_def)
  have "clean_comps True (split_on slash (path_join [p, c])) = parts @ [c]"
    using clean_path_join [OF p(1) c(1)] p(2) by simp
  moreover from this have "path_join [p, c] \<noteq> ''''" by (auto simp: clean_comps_def clean_step_def)
  ultimately show ?thesis using p(3) c(2) by (simp add: normalize_eq)
qed

lemma Stat_view:
  assumes "normalize_fs p = Inr parts"
  shows "(\<exists>n. Stat m p = Inr n \<and> isDir n) \<longleftrightarrow> fs_view m parts = Some EDir"
    and "(\<exists>n. Stat m p = Inr n \<and> \<not> isDir n) \<longleftrightarrow> (\<exists>b. fs_view m parts = Some (EFile b))"
    and "Stat m p = Inl e \<Longrightarrow> fs_view m parts = None"
proof -
  have v: "fs_view m parts = (case walk m parts of Inl _ \<Rightarrow> None | Inr n \<Rightarrow> Some (if isDir n then EDir else EFile (ndata n)))"
    using view_walk [of "root m" parts] by (simp add: fs_view_def walk_def split: sum.splits)
  show "(\<exists>n. Stat m p = Inr n \<and> isDir n) \<longleftrightarrow> fs_view m parts = Some EDir"
    and "(\<exists>n. Stat m p = Inr n \<and> \<not> isDir n) \<longleftrightarrow> (\<exists>b. fs_view m parts = Some (EFile b))"
    and "Stat m p = Inl e \<Longrightarrow> fs_view m parts = None"
    by (auto simp: Stat_def assms v split: sum.splits if_splits)
qed

lemma List_view:
  assumes m: "fs_inv m" and p: "normalize_fs p = Inr parts" and v: "fs_view m parts = Some EDir"
  obtains cs where "List_fs m p = Inr cs" and "distinct cs" and "list_all good_name cs"
    and "set cs = {c. fs_view m (parts @ [c]) \<noteq> None}"
proof -
  obtain n where n: "walk_node (root m) parts = Inr n" "isDir n"
    using v by (auto simp: fs_view_def view_walk split: sum.splits if_splits)
  have wf: "wf_node n" using m n(1) wf_walk by (auto simp: fs_inv_def)
  have "view n [c] \<noteq> None \<longleftrightarrow> c \<in> set (keys (children n))" for c
    using n(2) map_of_eq_None_iff [of "children n" c] by (auto split: option.splits)
  then have "fs_view m (parts @ [c]) \<noteq> None \<longleftrightarrow> c \<in> set (keys (children n))" for c
    using view_append [OF n(1), of "[c]"] by (simp add: fs_view_def)
  moreover have "\<forall>c \<in> set (keys (children n)). good_name c" "distinct (keys (children n))"
    using wf n(2) by (auto simp: wf_dir)
  ultimately show thesis
    using that [of "sort (keys (children n))"] n p
    by (simp add: List_fs_def walk_def list_all_iff)
qed

lemma Remove_leaf:
  assumes p: "normalize_fs p = Inr parts" "parts \<noteq> []" and v: "fs_view m parts \<noteq> None"
    and leaf: "\<forall>c. fs_view m (parts @ [c]) = None"
  obtains m' where "Remove now m p = (m', None)"
proof -
  obtain x where "fs_view m parts = Some x" using v by auto
  then obtain parent c where w: "walkParent m parts = Inr (parent, last parts)"
    "map_of (children parent) (last parts) = Some c" using p(2) by (rule view_Some_walkParent)
  then have "walk_node (root m) parts = Inr c" using walkParent_child by fastforce
  then have "view c [k] = None" for k using view_append [of "root m" parts c "[k]"] leaf by (simp add: fs_view_def)
  then have v1: "view c [k] = None" for k .
  have "isDir c \<longrightarrow> children c = []"
  proof (cases "children c")
    case (Cons kc rest)
    then show ?thesis using v1 [of "fst kc"] by (cases kc) (auto simp: Cons split: if_split_asm)
  qed simp
  then have "Remove now m p = (fst (Remove now m p), None)"
    using w p by (auto simp: Remove_def)
  then show thesis by (rule that)
qed

definition drop_under :: "string list \<Rightarrow> (string list \<Rightarrow> entry option) \<Rightarrow> string list \<Rightarrow> entry option" where
  "drop_under parts v q = (if prefix parts q then None else v q)"

text \<open>Enough fuel: no entry under the path is \<open>k\<close> or more components below it.\<close>

definition shallow :: "nat \<Rightarrow> string list \<Rightarrow> memfs \<Rightarrow> bool" where
  "shallow k parts m \<longleftrightarrow> (\<forall>q. prefix parts q \<and> fs_view m q \<noteq> None \<longrightarrow> length q < length parts + k)"

lemma shallow_child: "shallow (Suc k) parts m \<Longrightarrow> shallow k (parts @ [c]) m"
  by (auto simp: shallow_def dest: append_prefixD)

lemma view_parent: "view n (qs @ rs) \<noteq> None \<Longrightarrow> view n qs \<noteq> None"
  by (induction qs arbitrary: n) (auto split: if_splits option.splits)

lemma fs_view_child: "fs_view m q \<noteq> None \<Longrightarrow> prefix parts q \<Longrightarrow> q \<noteq> parts \<Longrightarrow> \<exists>c. prefix (parts @ [c]) q \<and> fs_view m (parts @ [c]) \<noteq> None"
proof -
  assume a: "fs_view m q \<noteq> None" "prefix parts q" "q \<noteq> parts"
  then obtain zs where zs: "q = parts @ zs" "zs \<noteq> []" by (auto simp: prefix_def)
  then obtain c r where "q = (parts @ [c]) @ r" by (cases zs) auto
  then show ?thesis using a(1) view_parent [of "root m" "parts @ [c]" r] by (auto simp: fs_view_def)
qed

text \<open>What one call does, as the induction carries it.\<close>

definition removes :: "nat \<Rightarrow> time \<Rightarrow> bool" where
  "removes k now \<longleftrightarrow> (\<forall>p parts m. fs_inv m \<and> normalize_fs p = Inr parts \<and> parts \<noteq> [] \<and> fs_view m parts \<noteq> None \<and>
     shallow k parts m \<longrightarrow>
     (\<exists>m'. removeRecursive k now p m = Some (m', None) \<and> fs_inv m' \<and> fs_view m' = drop_under parts (fs_view m)))"

lemma removesD:
  assumes "removes k now" and "fs_inv m" and "normalize_fs p = Inr parts" and "parts \<noteq> []" and "fs_view m parts \<noteq> None"
    and "shallow k parts m"
  obtains m' where "removeRecursive k now p m = Some (m', None)" and "fs_inv m'" and "fs_view m' = drop_under parts (fs_view m)"
  using assms unfolding removes_def by blast

lemma removeChildren_view:
  assumes k: "removes k now" and p: "normalize_fs p = Inr parts"
  shows "fs_inv m \<Longrightarrow> distinct cs \<Longrightarrow> list_all good_name cs \<Longrightarrow> (\<forall>c \<in> set cs. fs_view m (parts @ [c]) \<noteq> None) \<Longrightarrow>
     shallow (Suc k) parts m \<Longrightarrow>
     \<exists>m'. removeChildren k now p cs m = Some (m', None) \<and> fs_inv m' \<and>
       fs_view m' = (\<lambda>q. if \<exists>c \<in> set cs. prefix (parts @ [c]) q then None else fs_view m q)"
proof (induction cs arbitrary: m)
  case (Cons c cs)
  have "normalize_fs (path_join [p, c]) = Inr (parts @ [c])"
    using normalize_join [OF p] Cons.prems(3) by simp
  moreover have "fs_view m (parts @ [c]) \<noteq> None" "shallow k (parts @ [c]) m"
    using Cons.prems(4,5) shallow_child by auto
  ultimately obtain m1 where m1: "removeRecursive k now (path_join [p, c]) m = Some (m1, None)" "fs_inv m1"
    "fs_view m1 = drop_under (parts @ [c]) (fs_view m)"
    using removesD [OF k Cons.prems(1)] by blast
  have other: "\<forall>d \<in> set cs. fs_view m1 (parts @ [d]) \<noteq> None"
    using Cons.prems(2,4) by (auto simp: m1(3) drop_under_def)
  have "shallow (Suc k) parts m1"
    using Cons.prems(5) unfolding shallow_def m1(3) drop_under_def by (metis (no_types, lifting))
  with Cons.IH [OF m1(2)] other Cons.prems(2,3) obtain m2 where
    "removeChildren k now p cs m1 = Some (m2, None)" "fs_inv m2"
    "fs_view m2 = (\<lambda>q. if \<exists>c \<in> set cs. prefix (parts @ [c]) q then None else fs_view m1 q)" by auto
  then show ?case using m1 by (auto simp: drop_under_def)
qed simp

lemma removes_step:
  assumes k: "removes k now"
  shows "removes (Suc k) now"
  unfolding removes_def
proof (intro allI impI)
  fix p parts m
  assume a: "fs_inv m \<and> normalize_fs p = Inr parts \<and> parts \<noteq> [] \<and> fs_view m parts \<noteq> None \<and> shallow (Suc k) parts m"
  have rm: "\<exists>m'. Remove now m1 p = (m', None) \<and> fs_inv m' \<and> fs_view m' = (fs_view m1)(parts := None)"
    if b: "fs_inv m1" "fs_view m1 parts \<noteq> None" "\<forall>c. fs_view m1 (parts @ [c]) = None" for m1
  proof -
    obtain m' where m': "Remove now m1 p = (m', None)" using Remove_leaf [of p parts m1 now] a b by blast
    then show ?thesis using Remove_view [OF m'] fs_inv_Remove [OF b(1), of now p] a by auto
  qed
  show "\<exists>m'. removeRecursive (Suc k) now p m = Some (m', None) \<and> fs_inv m' \<and> fs_view m' = drop_under parts (fs_view m)"
  proof (cases "fs_view m parts = Some EDir")
    case True
    then obtain n where n: "Stat m p = Inr n" "isDir n" using Stat_view(1) a by blast
    obtain cs where cs: "List_fs m p = Inr cs" "distinct cs" "list_all good_name cs"
      "set cs = {c. fs_view m (parts @ [c]) \<noteq> None}" using List_view a True by blast
    then obtain m1 where m1: "removeChildren k now p cs m = Some (m1, None)" "fs_inv m1"
      "fs_view m1 = (\<lambda>q. if \<exists>c \<in> set cs. prefix (parts @ [c]) q then None else fs_view m q)"
      using removeChildren_view [OF k, of p parts m cs] a by auto
    have "fs_view m1 parts \<noteq> None" "\<forall>c. fs_view m1 (parts @ [c]) = None"
      using a cs(4) by (auto simp: m1(3))
    then obtain m' where m': "Remove now m1 p = (m', None)" "fs_inv m'" "fs_view m' = (fs_view m1)(parts := None)"
      using rm m1(2) by blast
    have "fs_view m' q = drop_under parts (fs_view m) q" for q
    proof (cases "prefix parts q \<and> q \<noteq> parts \<and> fs_view m q \<noteq> None")
      case True
      then have "\<exists>c \<in> set cs. prefix (parts @ [c]) q" using fs_view_child [of m q parts] cs(4) by auto
      then show ?thesis using True by (simp add: m'(3) m1(3) drop_under_def)
    next
      case False
      then show ?thesis by (auto simp: m'(3) m1(3) drop_under_def dest: append_prefixD)
    qed
    then show ?thesis using n cs(1) m1(1) m' by auto
  next
    case False
    then obtain b where b: "fs_view m parts = Some (EFile b)" using a by (auto intro: entry.exhaust)
    then obtain n where n: "Stat m p = Inr n" "\<not> isDir n" using Stat_view(2) a by blast
    obtain c where c: "walk_node (root m) parts = Inr c" "\<not> isDir c"
      using b by (auto simp: fs_view_def view_walk split: sum.splits if_splits)
    have leaf: "fs_view m q = None" if "prefix parts q" "q \<noteq> parts" for q
      using prefix_leaf_view [OF c(1) _ that] c(2) by (simp add: fs_view_def)
    then obtain m' where "Remove now m p = (m', None)" "fs_inv m'" "fs_view m' = (fs_view m)(parts := None)"
      using rm [of m] a by auto
    moreover have "(fs_view m)(parts := None) = drop_under parts (fs_view m)"
      using leaf by (auto simp: drop_under_def fun_eq_iff)
    ultimately show ?thesis using n by auto
  qed
qed

lemma removes_all: "removes k now"
proof (induction k)
  case 0
  show ?case unfolding removes_def shallow_def by auto
next
  case (Suc k)
  then show ?case by (rule removes_step)
qed

lemma view_depth: "view n q \<noteq> None \<Longrightarrow> length q < size n"
proof (induction q arbitrary: n)
  case (Cons x q)
  then obtain c where "map_of (children n) x = Some c" "view c q \<noteq> None" by (auto split: if_splits option.splits)
  then show ?case using Cons.IH [of c] size_child [of x c n] by (fastforce dest: map_of_SomeD)
next
  case Nil
  show ?case by (cases n) simp
qed

lemma shallow_root: "shallow (Suc (size (root m))) parts m"
  using view_depth [of "root m"] by (auto simp: shallow_def fs_view_def intro: less_SucI trans_less_add2)

text \<open>
  C23: A recursive delete of a path other than the root that exists ends, reports success,
  keeps the accounting invariant, and removes exactly the entries at and below the path:
  every other path is as it was.
\<close>

theorem recursive_delete_exact:
  assumes "fs_inv m" and "normalize_fs p = Inr parts" and "parts \<noteq> []" and "fs_view m parts \<noteq> None"
  shows "\<exists>m'. removeRecursive (Suc (size (root m))) now p m = Some (m', None) \<and> remove_all now p m = (m', None) \<and>
    fs_inv m' \<and> fs_view m' = (\<lambda>q. if prefix parts q then None else fs_view m q)"
proof -
  obtain m' where "removeRecursive (Suc (size (root m))) now p m = Some (m', None)" "fs_inv m'"
    "fs_view m' = drop_under parts (fs_view m)"
    using removesD [OF removes_all assms shallow_root] by blast
  then show ?thesis by (auto simp: remove_all_def drop_under_def fun_eq_iff)
qed

definition demo_tree :: memfs where
  "demo_tree = fs_step 2 (OWrite ''/d/e/f'' ''x'' 0x180) (fs_step 1 (OMkdirAll ''/d/e'' 0x1ED) (New 0 0))"

theorem recursive_delete_exact_witness:
  "fs_inv demo_tree \<and> normalize_fs ''d//'' = Inr [''d''] \<and> fs_view demo_tree [''d''] \<noteq> None \<and>
   (\<exists>m'. removeRecursive (Suc (size (root demo_tree))) 3 ''d//'' demo_tree = Some (m', None) \<and>
     remove_all 3 ''d//'' demo_tree = (m', None) \<and>
     fs_inv m' \<and> fs_view m' = (\<lambda>q. if prefix [''d''] q then None else fs_view demo_tree q))"
proof -
  have i: "fs_inv demo_tree" unfolding demo_tree_def by (intro fs_inv_step fs_inv_New)
  have n: "normalize_fs ''d//'' = Inr [''d'']" by code_simp
  have v: "fs_view demo_tree [''d''] \<noteq> None" by code_simp
  show ?thesis using recursive_delete_exact [OF i n _ v, of 3] i n v by simp
qed

section \<open>The control API keeps the invariant and the door\<close>

lemma remove_total:
  assumes m: "fs_inv m"
  shows "\<exists>r. removeRecursive (Suc (size (root m))) now p m = Some r \<and> fs_inv (fst r)"
proof (cases "normalize_fs p")
  case (Inl e)
  then show ?thesis using m by (simp add: Stat_def)
next
  case (Inr parts)
  consider "fs_view m parts = None" | "fs_view m parts \<noteq> None" "parts \<noteq> []" | "parts = []" by blast
  then show ?thesis
  proof cases
    case 1
    then have "\<exists>e. Stat m p = Inl e" using Stat_view(1,2) [OF Inr, of m] by (cases "Stat m p") auto
    then show ?thesis using m by auto
  next
    case 2
    then show ?thesis using removesD [OF removes_all m Inr _ _ shallow_root] by (metis fst_conv)
  next
    case 3
    have v: "fs_view m parts = Some EDir" using m 3 by (simp add: fs_view_def fs_inv_def)
    then obtain n where n: "Stat m p = Inr n" "isDir n" using Stat_view(1) Inr by blast
    obtain cs where cs: "List_fs m p = Inr cs" "distinct cs" "list_all good_name cs"
      "set cs = {c. fs_view m (parts @ [c]) \<noteq> None}" using List_view [OF m Inr v] by blast
    then obtain m1 where "removeChildren (size (root m)) now p cs m = Some (m1, None)" "fs_inv m1"
      using removeChildren_view [OF removes_all [of "size (root m)" now] Inr m cs(2,3) _ shallow_root] by auto
    then show ?thesis using n cs(1) fs_inv_Remove by auto
  qed
qed

lemma fs_inv_remove_all: "fs_inv m \<Longrightarrow> fs_inv (fst (remove_all now p m))"
  using remove_total [of m now p] by (auto simp: remove_all_def simp del: removeRecursive.simps)

lemma control_api_inv: "fs_inv (dfs d) \<Longrightarrow> fs_inv (dfs (fst (control_api hmac en ou now path r d)))"
proof -
  assume d: "fs_inv (dfs d)"
  have "fs_inv (dfs (fst (files_put en now p r d)))" for p
    using d fs_inv_write_file [OF d]
    by (auto simp: files_put_def Let_def split_beta split: option.split sum.split)
  moreover have "fs_inv (dfs (fst (files_delete now p r d)))" for p
    using d fs_inv_remove_all fs_inv_Remove by (auto simp: files_delete_def Let_def split_beta)
  moreover have "fs_inv (dfs (fst (Unmount f w d)))" for f w
    using d by (auto simp: Unmount_def Let_def split: option.split)
  moreover have "fs_inv (dfs (Shutdown f w k now d))" for f w k
    using d fs_inv_Wipe by (auto simp: Shutdown_def WipeHistory_def Unmount_def Let_def split: option.split)
  ultimately show ?thesis
    using d fs_inv_Mkdir fs_inv_MkdirAll fs_inv_Remove
    by (auto simp: control_api_def handleMount_def Mount_def handleUnmount_def handleSync_def Sync_def handleStatus_def
        handleFiles_def handleMkdir_def handleRmdir_def handleShutdown_def Let_def split_beta
        split: option.split sum.split)
qed

text \<open>
  C10: The control API is closed without the token: a request that does not present the
  configured, non-empty control token, in the header or, when the header is empty, in the
  query, changes nothing in the daemon and is answered with 401 or, off the routes, 404,
  whatever the route, the method and the body are.
\<close>

theorem control_api_closed:
  assumes "ControlToken (dcfg d) = [] \<or> (if rtoken r = [] then qget ''token'' r else rtoken r) \<noteq> ControlToken (dcfg d)"
  shows "fst (control_api hmac en ou now path r d) = d \<and>
    (snd (control_api hmac en ou now path r d) = unauthorized \<or> code (snd (control_api hmac en ou now path r d)) = 404)"
proof -
  have "\<not> auth r d" using assms by (auto simp: auth_def Let_def)
  then show ?thesis
    by (simp add: control_api_def handleMount_def handleUnmount_def handleSync_def handleStatus_def
        handleFiles_def handleMkdir_def handleRmdir_def handleShutdown_def)
qed

lemma parse_first_marshal: "nums_ok j \<Longrightarrow> parse_first (marshal j) = Some (coerce_json j)"
  using reads_backD [OF pval_print, of j "[]" "2 * length (marshal j) + 2"] by (simp add: parse_first_def delim_def)

lemma fold_files_keys: "fold_name ''content'' = ''CONTENT''" "fold_name ''from'' = ''FROM''"
  by code_simp+

lemma files_put_content:
  assumes "rbody r = marshal (JObj [(''content'', JStr s)])"
  shows "files_put en now p r d =
    (let (m, err) = write_file now p (to_valid s) (dfs d)
     in (d\<lparr>dfs := m\<rparr>, case err of Some e \<Rightarrow> reply_error 500 (fs_error_text e) | None \<Rightarrow> reply_ok))"
  using assms parse_first_marshal [of "JObj [(''content'', JStr s)]"]
  by (simp add: files_put_def obj_ok_def str_ok_def get_str_def fold_files_keys to_valid_ascii)

text \<open>
  Over the control API a \<open>PUT\<close> of JSON content answered with success is what a following
  \<open>GET\<close> of the same path returns, byte for byte; invalid UTF-8 in the sent text has been
  replaced on the way in.
\<close>

theorem api_put_get:
  assumes d: "fs_inv (dfs d)" and tok: "auth r d" "auth r' d"
    and put: "rmethod r = ''PUT''" "rbody r = marshal (JObj [(''content'', JStr s)])" "qget ''path'' r = p" "p \<noteq> []"
    and get: "rmethod r' = ''GET''" "qget ''path'' r' = p" "qget ''meta'' r' = []" "qget ''list'' r' = []"
    and ok: "handleFiles en now r d = (d', reply_ok)"
  shows "handleFiles en now' r' d' = (d', \<lparr>code = 200, rbody_out = BRaw (to_valid s)\<rparr>)"
proof -
  note put' = files_put_content [OF put(2)]
  obtain m err where w: "write_file now p (to_valid s) (dfs d) = (m, err)" by fastforce
  have "handleFiles en now r d = files_put en now p r d" using put tok by (simp add: handleFiles_def)
  then have d': "d' = d\<lparr>dfs := m\<rparr>" and "(case err of Some e \<Rightarrow> reply_error 500 (fs_error_text e) | None \<Rightarrow> reply_ok) = reply_ok"
    using ok by (simp_all add: put' w)
  then have "err = None" by (cases err) (simp_all add: reply_ok_def reply_error_def reply_json_def)
  then have "Read (dfs d') p = Inr (to_valid s)" using write_file_reads [OF d] w d' by simp
  moreover have "auth r' d' = auth r' d" unfolding d' auth_def by simp
  then have "auth r' d'" using tok(2) by simp
  ultimately show ?thesis using get put(4) by (simp add: handleFiles_def files_get_def Let_def)
qed

definition demo_daemon :: daemon where
  "demo_daemon = new_daemon 0 ''k'' ''fuse''
     \<lparr>MountPoint = ''/mnt'', ControlToken = ''t'', WebdavDisabled = False, QuotaBytes = 0\<rparr>"

definition demo_env :: env where
  "demo_env = \<lparr>quote = (\<lambda>s. s), b64_error = (\<lambda>_. ''b''), fmt_time = (\<lambda>_. ''now''), fmt_time_sec = (\<lambda>_. ''now''),
     json_error = (\<lambda>_. ''j''), sha_hex = (\<lambda>_. ''h''), f2i_out = - (2 ^ 63)\<rparr>"

definition demo_put :: http_req where
  "demo_put = \<lparr>rmethod = ''PUT'', rquery = [(''path'', ''/a/b'')], rtoken = ''t'',
     rbody = marshal (JObj [(''content'', JStr [CHR 0xFF, CHR ''x''])])\<rparr>"

definition demo_get :: http_req where
  "demo_get = \<lparr>rmethod = ''GET'', rquery = [(''path'', ''/a/b''), (''token'', ''t'')], rtoken = [], rbody = []\<rparr>"

lemma demo_daemon_inv: "fs_inv (dfs demo_daemon)"
  by (simp add: demo_daemon_def new_daemon_def fs_inv_New)

theorem control_api_closed_witness:
  "rtoken (demo_put\<lparr>rtoken := ''u''\<rparr>) = ''u'' \<and> ControlToken (dcfg demo_daemon) = ''t'' \<and>
   fst (control_api (\<lambda>_ _. []) demo_env \<lparr>o_ferr = None, o_werr = None, o_git = Inr None, o_key = [], o_grace = None\<rparr> 1
     ''/files'' (demo_put\<lparr>rtoken := ''u''\<rparr>) demo_daemon) = demo_daemon"
proof -
  have a: "ControlToken (dcfg demo_daemon) = [] \<or>
     (if rtoken (demo_put\<lparr>rtoken := ''u''\<rparr>) = [] then qget ''token'' (demo_put\<lparr>rtoken := ''u''\<rparr>)
      else rtoken (demo_put\<lparr>rtoken := ''u''\<rparr>)) \<noteq> ControlToken (dcfg demo_daemon)"
    by (simp add: demo_put_def demo_daemon_def new_daemon_def)
  have "ControlToken (dcfg demo_daemon) = ''t''" by (simp add: demo_daemon_def new_daemon_def)
  then show ?thesis using control_api_closed [OF a] by simp
qed

theorem api_put_get_witness:
  "\<exists>d'. handleFiles demo_env 1 demo_put demo_daemon = (d', reply_ok) \<and>
     handleFiles demo_env 2 demo_get d' = (d', \<lparr>code = 200, rbody_out = BRaw (repl_char @ ''x'')\<rparr>)"
proof -
  obtain d' where d': "handleFiles demo_env 1 demo_put demo_daemon = (d', reply_ok)"
  proof -
    have "snd (handleFiles demo_env 1 demo_put demo_daemon) = reply_ok" by code_simp
    then show thesis using that by (metis prod.collapse)
  qed
  have "auth demo_put demo_daemon" "auth demo_get demo_daemon" "rmethod demo_put = ''PUT''"
    "rbody demo_put = marshal (JObj [(''content'', JStr [CHR 0xFF, CHR ''x''])])" "qget ''path'' demo_put = ''/a/b''"
    "''/a/b'' \<noteq> []" "rmethod demo_get = ''GET''" "qget ''path'' demo_get = ''/a/b''" "qget ''meta'' demo_get = []"
    "qget ''list'' demo_get = []"
    by code_simp+
  from api_put_get [OF demo_daemon_inv this d', of 2]
  have "handleFiles demo_env 2 demo_get d' = (d', \<lparr>code = 200, rbody_out = BRaw (to_valid [CHR 0xFF, CHR ''x''])\<rparr>)" .
  moreover have "to_valid [CHR 0xFF, CHR ''x''] = repl_char @ ''x''" by code_simp
  ultimately show ?thesis using d' by auto
qed

section \<open>Teardown\<close>

text \<open>
  When \<open>Unmount\<close> of a mounted daemon returns no error, neither front end accepts requests
  any more, the status flags say so, and the heap is untouched. When the FUSE front end
  refuses, the loopback WebDAV server is left running although the daemon now counts as
  unmounted, and no later \<open>Unmount\<close> stops it: the call returns at once. The same state is
  reached without any error when the server's goroutine gets to listen only after the
  unmount.
\<close>

theorem unmount_outcomes:
  assumes "mounted d" and "\<not> WebdavDisabled (dcfg d)"
  shows "(snd (Unmount f w d) = None \<longrightarrow>
      (let d' = fst (Unmount f w d)
       in \<not> mounted d' \<and> \<not> webdavOn d' \<and> \<not> mounter_up d' \<and> \<not> webdav_up d' \<and> dfs d' = dfs d)) \<and>
    (let d' = fst (Unmount (Some e) w d)
     in snd (Unmount (Some e) w d) = Some e \<and> \<not> mounted d' \<and> webdav_up d' = webdav_up d \<and>
        Unmount f' w' d' = (d', None)) \<and>
    (let d' = webdav_listens addr (fst (Unmount None None d))
     in \<not> mounted d' \<and> webdav_up d' \<and> Unmount f' w' d' = (d', None))"
  using assms by (auto simp: Unmount_def webdav_listens_def Let_def split: option.split)

theorem unmount_outcomes_witness:
  "mounted (webdav_listens ''127.0.0.1:9'' (Mount demo_daemon)) \<and>
   (let d' = fst (Unmount (Some ''busy'') None (webdav_listens ''127.0.0.1:9'' (Mount demo_daemon)))
    in \<not> mounted d' \<and> webdav_up d' \<and> Unmount None None d' = (d', None))"
proof -
  have m: "mounted (webdav_listens ''127.0.0.1:9'' (Mount demo_daemon))"
    "\<not> WebdavDisabled (dcfg (webdav_listens ''127.0.0.1:9'' (Mount demo_daemon)))"
    "webdav_up (webdav_listens ''127.0.0.1:9'' (Mount demo_daemon))" by code_simp+
  show ?thesis
    using unmount_outcomes [OF m(1,2), of None None "''busy''" None None "''a''"] m by (auto simp: Let_def)
qed

text \<open>
  \<open>Shutdown\<close> empties the heap and the change history whatever the unmount reports: no path
  but the root is left, every file body that was in the tree has been overwritten with
  zeros, and no manifest or commit remains.
\<close>

theorem shutdown_wipes:
  "fs_view (dfs (Shutdown f w key now d)) = [[] \<mapsto> EDir] \<and> used (dfs (Shutdown f w key now d)) = 0 \<and>
   (\<exists>old. freed (dfs (Shutdown f w key now d)) = old @ map zeroBytes (bodies (root (dfs d)))) \<and>
   history (drepo (Shutdown f w key now d)) = [] \<and> manifest_txt (drepo (Shutdown f w key now d)) = None \<and>
   \<not> mounted (Shutdown f w key now d)"
proof -
  have "dfs (fst (Unmount f w d)) = dfs d" "\<not> mounted (fst (Unmount f w d))"
    by (auto simp: Unmount_def Let_def split: option.split)
  then show ?thesis
    using Wipe_view [of now "dfs d"]
    by (simp add: Shutdown_def WipeHistory_def repo_Wipe_def Wipe_def Let_def)
qed

end
