(* ===== verification/Serve.thy ===== *)
theory Serve
  imports Daemon
begin

text \<open>
  The composition \<open>serve\<close> builds in \<open>cmd/valetfs/main.go\<close> for the \<open>ws\<close> transport: the control
  node of \<open>Node\<close> over the daemon of \<open>Daemon\<close>, sharing one file system, with the lock
  callback that unmounts, wipes the heap and wipes the history. The properties of the
  node are stated here, for the callbacks the program installs.
\<close>

definition lock_daemon :: "outside \<Rightarrow> time \<Rightarrow> daemon \<Rightarrow> daemon" where
  "lock_daemon ou now d =
     (let d1 = fst (Unmount (o_ferr ou) (o_werr ou) d)
      in WipeHistory (o_key ou) (d1\<lparr>dfs := Wipe now (dfs d1)\<rparr>))"

definition serve_info :: "daemon \<Rightarrow> ServeInfo" where
  "serve_info d = \<lparr>Backend = backend d, FuseActive = FuseActive_d d, FuseError = fuseErr d,
     WebdavServing = webdavOn d, WebdavAddr = webdav_addr d\<rparr>"

definition serve_config :: "outside \<Rightarrow> time \<Rightarrow> daemon node_config" where
  "serve_config ou now =
     \<lparr>get_fs = dfs, set_fs = (\<lambda>m d. d\<lparr>dfs := m\<rparr>), cb_Lock = Some (lock_daemon ou now),
      cb_Unmount = Some (\<lambda>d. fst (Unmount (o_ferr ou) (o_werr ou) d)), cb_Remount = Some Mount,
      cb_Mounted = Some mounted, cb_Serving = Some serve_info\<rparr>"

text \<open>The node as \<open>serve\<close> makes it, and what each of its inputs does.\<close>

definition serve_node :: "daemon \<Rightarrow> int \<Rightarrow> daemon memory_node" where
  "serve_node d graceSeconds = new_node d (wrap64 (graceSeconds * Second))"

definition serve_frame :: "env \<Rightarrow> outside \<Rightarrow> time \<Rightarrow> daemon memory_node \<Rightarrow> bytes \<Rightarrow> daemon memory_node \<times> bytes option" where
  "serve_frame en ou now n b = node_onData en (serve_config ou now) now n b"

section \<open>The daemon is a host for the node\<close>

lemma Unmount_fs [simp]: "dfs (fst (Unmount f w d)) = dfs d"
  by (auto simp: Unmount_def Let_def split: option.split)

lemma Mount_fs [simp]: "dfs (Mount d) = dfs d"
  by (simp add: Mount_def)

lemma lock_daemon_fs [simp]: "dfs (lock_daemon ou now d) = Wipe now (dfs d)"
  by (simp add: lock_daemon_def WipeHistory_def Let_def)

interpretation served: node_host "serve_config ou now" "\<lambda>d. fs_inv (dfs d)"
  for ou :: outside and now :: time
  by unfold_locales (auto simp: serve_config_def fs_inv_Wipe Wipe_view)

lemma node_fs_serve [simp]: "node_fs (serve_config ou now) n = dfs (host n)"
  by (simp add: node_fs_def serve_config_def)

section \<open>Runs\<close>

text \<open>
  Everything that changes the state of a running daemon: a frame from the connection, the
  runtime firing and running the grace timer, a control request, the loss of the control
  plane, and the reports of the front ends.
\<close>

inductive serve_step :: "env \<Rightarrow> daemon memory_node \<Rightarrow> daemon memory_node \<Rightarrow> bool" for en where
  Frame: "serve_step en n (fst (serve_frame en ou now n b))"
| Expire: "expire now n = Some n' \<Longrightarrow> serve_step en n n'"
| Fired: "run_fired (serve_config ou now) n = Some n' \<Longrightarrow> serve_step en n n'"
| Arm: "serve_step en n (ArmGrace (serve_config ou now) now n)"
| Request: "serve_step en n (n\<lparr>host := fst (control_api hmac en ou now path r (host n))\<rparr>)"
| Lost: "serve_step en n (n\<lparr>host := lock_daemon ou now (host n)\<rparr>)"
| Listens: "serve_step en n (n\<lparr>host := webdav_listens addr (host n)\<rparr>)"
| Ready: "serve_step en n (n\<lparr>host := waitWebDAVReady (host n)\<rparr>)"
| Serves: "serve_step en n (n\<lparr>host := mounter_serves (host n)\<rparr>)"
| DavFails: "serve_step en n (n\<lparr>host := webdav_fails (host n)\<rparr>)"
| FuseFails: "serve_step en n (n\<lparr>host := mounter_fails e (host n)\<rparr>)"

inductive serve_reach :: "env \<Rightarrow> daemon memory_node \<Rightarrow> bool" for en where
  Start: "serve_reach en (serve_node (new_daemon now key be c) g)"
| Step: "serve_reach en n \<Longrightarrow> serve_step en n n' \<Longrightarrow> serve_reach en n'"

lemma serve_step_inv:
  assumes "serve_step en n n'" and n: "fs_inv (dfs (host n))"
  shows "fs_inv (dfs (host n'))"
  using assms(1)
proof cases
  case (Frame ou now b)
  then show ?thesis using served.node_onData_inv [OF n] by (simp add: serve_frame_def)
next
  case (Expire now)
  then show ?thesis using n by (auto simp: expire_def split: option.splits if_splits)
next
  case (Fired ou now)
  then obtain k where "n' = run_cb (cb_Lock (serve_config ou now)) (n\<lparr>firing := k\<rparr>)"
    by (auto simp: run_fired_def split: nat.splits)
  then show ?thesis using served.run_lock(1) [of "n\<lparr>firing := k\<rparr>"] n by simp
next
  case (Arm ou now)
  then show ?thesis using served.startGrace_inv [OF n] by (simp add: ArmGrace_def)
next
  case (Request hmac ou now path r)
  then show ?thesis using control_api_inv [OF n] by simp
qed (use n fs_inv_Wipe in
    \<open>auto simp: webdav_listens_def waitWebDAVReady_def mounter_serves_def webdav_fails_def mounter_fails_def\<close>)

lemma serve_reach_inv: "serve_reach en n \<Longrightarrow> fs_inv (dfs (host n))"
proof (induction rule: serve_reach.induct)
  case (Start now key be c g)
  then show ?case by (simp add: serve_node_def new_node_def new_daemon_def fs_inv_New)
next
  case (Step n n')
  then show ?case using serve_step_inv by blast
qed


definition demo_outside :: outside where
  "demo_outside = \<lparr>o_ferr = None, o_werr = None, o_git = Inr None, o_key = [], o_grace = None\<rparr>"

definition demo_served :: "daemon memory_node" where
  "demo_served = fst (serve_frame demo_env demo_outside 5 (serve_node demo_daemon 30)
     (Encode (NewRequest ''u'' MethodWrite [(''content'', JStr ''abc''), (''path'', JStr ''/x/y'')])))"

lemma demo_served_reach: "serve_reach demo_env demo_served"
  unfolding demo_served_def demo_daemon_def
  by (rule serve_reach.Step [OF serve_reach.Start serve_step.Frame])

lemma demo_served_used: "used (dfs (host demo_served)) = 3"
  by code_simp


section \<open>Presence\<close>

definition peer_offline_frame :: bytes where
  "peer_offline_frame = marshal (JObj [(''sys'', JStr ''peer_offline''), (''role'', JStr ''vault'')])"

lemma peer_offline_sys: "sys_frame peer_offline_frame = Some \<lparr>Sys = ''peer_offline'', Role = ''vault''\<rparr>"
  by code_simp

text \<open>
  A presence frame never carries out a request and never takes a countdown away: any
  frame that decodes with a non-empty \<open>sys\<close> string leaves the node as it was or starts the
  countdown (at once locking when the window is not positive), and gets no reply.
\<close>

theorem presence_only_arms:
  assumes "sys_frame b = Some sf" and "Sys sf \<noteq> []"
  shows "node_onData en cfg now n b = (n, None) \<or> node_onData en cfg now n b = (startGrace cfg now n, None)"
  using assms by (simp add: node_onData_def)

theorem presence_only_arms_witness:
  "sys_frame peer_offline_frame = Some \<lparr>Sys = ''peer_offline'', Role = ''vault''\<rparr> \<and>
   (let n = serve_node demo_daemon 30; cfg = serve_config demo_outside 1
    in node_onData demo_env cfg 1 n peer_offline_frame = (n, None) \<or>
       node_onData demo_env cfg 1 n peer_offline_frame = (startGrace cfg 1 n, None))"
  using presence_only_arms [OF peer_offline_sys] peer_offline_sys by (simp add: Let_def)



text \<open>
  Presence frames are not harmless, though: every repeated \<open>peer_offline\<close> restarts the
  countdown from the beginning, so a hub that repeats it at intervals shorter than the
  window keeps the daemon unlocked for ever. After any such series the timer cannot fire
  before a whole window has passed since the last frame, however long ago the first was.
\<close>

theorem repeated_offline_postpones:
  assumes "0 < Grace n" and "ts \<noteq> []"
  shows "let n' = foldl (\<lambda>n t. fst (serve_frame en ou t n peer_offline_frame)) n ts
    in (\<forall>t < last ts + Grace n. expire t n' = None) \<and> host n' = host n \<and> grace n' \<noteq> None"
proof -
  have step: "fst (serve_frame en ou t n peer_offline_frame) =
      n\<lparr>grace := Some \<lparr>deadline = t + Grace n, expired = False\<rparr>, graceEnd := Some (t + Grace n)\<rparr>"
    if "0 < Grace n" for t n
    using that by (simp add: serve_frame_def node_onData_def peer_offline_sys startGrace_def Let_def)
  have "ts \<noteq> [] \<Longrightarrow> foldl (\<lambda>n t. fst (serve_frame en ou t n peer_offline_frame)) n ts =
      n\<lparr>grace := Some \<lparr>deadline = last ts + Grace n, expired = False\<rparr>, graceEnd := Some (last ts + Grace n)\<rparr>"
    using assms(1)
  proof (induction ts rule: rev_induct)
    case (snoc t ts)
    then show ?case by (cases "ts = []") (simp_all add: step)
  qed simp
  then show ?thesis using assms(2) by (simp add: Let_def expire_def)
qed

theorem repeated_offline_postpones_witness:
  "let n = serve_node demo_daemon 30;
       n' = foldl (\<lambda>n t. fst (serve_frame demo_env demo_outside t n
              peer_offline_frame)) n [0, 20000000000, 40000000000, 60000000000]
   in expire 80000000000 n' = None \<and> Grace n = 30000000000"
proof -
  have g: "Grace (serve_node demo_daemon 30) = 30000000000" by code_simp
  then show ?thesis
    using repeated_offline_postpones [of "serve_node demo_daemon 30" "[0, 20000000000, 40000000000, 60000000000]" demo_env
        "demo_outside"]
    by (simp add: Let_def)
qed

section \<open>Requests over the wire\<close>

lemma fold_sys [simp]: "fold_name ''sys'' = ''SYS''" "fold_name ''role'' = ''ROLE''"
  by code_simp+

lemma sys_frame_message: "sendable (Params m) \<Longrightarrow> sendable (Result m) \<Longrightarrow> sys_frame (Encode m) = Some \<lparr>Sys = [], Role = []\<rparr>"
proof -
  assume s: "sendable (Params m)" "sendable (Result m)"
  have "field_vals ''sys'' (arrived m) = []" "field_vals ''role'' (arrived m) = []" by (simp_all add: arrived_def)
  moreover have "obj_ok (arrived m)" by (simp add: arrived_def obj_ok_def)
  ultimately show ?thesis
    using s by (simp add: sys_frame_def Encode_def parse_marshal nums_ok_msg_json coerce_msg_json str_ok_def get_str_def)
qed

definition request_as_read :: "string \<Rightarrow> string \<Rightarrow> params \<Rightarrow> message" where
  "request_as_read u meth ps = NewRequest (to_valid u) (to_valid meth) (received ps)"

lemma serve_request:
  assumes "sendable ps"
  shows "serve_frame en ou now n (Encode (NewRequest u meth ps)) =
      Dispatch (quote en) (register en (serve_config ou now) now) (Encode (NewRequest u meth ps)) (cancelGrace n)"
    and "Decode (Encode (NewRequest u meth ps)) = (request_as_read u meth ps, True)"
proof -
  have p: "sendable (Params (NewRequest u meth ps))" "sendable (Result (NewRequest u meth ps))"
    using assms by (simp_all add: NewRequest_def zero_message_def)
  show "serve_frame en ou now n (Encode (NewRequest u meth ps)) =
      Dispatch (quote en) (register en (serve_config ou now) now) (Encode (NewRequest u meth ps)) (cancelGrace n)"
    by (simp add: serve_frame_def node_onData_def sys_frame_message [OF p])
  show "Decode (Encode (NewRequest u meth ps)) = (request_as_read u meth ps, True)"
    using Decode_Encode [OF _ _ p]
    by (simp add: NewRequest_def zero_message_def request_as_read_def TypeReq_def to_valid_ascii)
qed

lemma request_as_read_simps [simp]:
  "ID (request_as_read u meth ps) = to_valid u" "Type (request_as_read u meth ps) = TypeReq"
  "Method (request_as_read u meth ps) = to_valid meth" "Params (request_as_read u meth ps) = received ps"
  by (simp_all add: request_as_read_def NewRequest_def zero_message_def)

lemma to_valid_methods [simp]:
  "to_valid MethodWrite = MethodWrite" "to_valid MethodDelete = MethodDelete" "to_valid MethodUnmount = MethodUnmount"
  "to_valid MethodLock = MethodLock" "to_valid MethodStatus = MethodStatus" "to_valid MethodManifest = MethodManifest"
  "to_valid MethodPull = MethodPull" "to_valid MethodSetConfig = MethodSetConfig"
  by code_simp+

text \<open>A request that names a registered method runs its handler on the node without its countdown.\<close>

lemma serve_dispatch:
  assumes "sendable ps" and "map_of (handlers (register en (serve_config ou now) now)) (to_upper (to_valid meth)) = Some h"
  shows "serve_frame en ou now n (Encode (NewRequest u meth ps)) =
    (case h (request_as_read u meth ps) (cancelGrace n) of
       (n', Inl e) \<Rightarrow> (n', Some (Encode (Reply (request_as_read u meth ps) False [] (Some e))))
     | (n', Inr res) \<Rightarrow> (n', Some (Encode (Reply (request_as_read u meth ps) True res None))))"
  using serve_request [OF assms(1)] assms(2) by (simp add: Dispatch_def)

lemma utf8_valid_to_valid_id: "utf8_valid (ID (request_as_read u meth ps))"
proof -
  have "utf8_valid (to_valid u)"
    using Decode_valid(1) [OF serve_request(2) [OF sendable_Nil], of u "[]"] by simp
  then show ?thesis by simp
qed

lemma std_encode_valid [simp]: "utf8_valid (std_encode b)"
  unfolding std_encode_def by (rule utf8_valid_ascii) (use std_encode_chars in \<open>fastforce simp: list_all_iff\<close>)

text \<open>The bodies of the two requests of a push and a pull.\<close>

definition push_params :: "string \<Rightarrow> bytes \<Rightarrow> params" where
  "push_params p data = [(''content_b64'', JStr (std_encode data)), (''path'', JStr p)]"

definition pull_params :: "string \<Rightarrow> params" where
  "pull_params p = [(''paths'', JArr [JStr p])]"

lemma push_params_wire: "utf8_valid p \<Longrightarrow> wire_map (push_params p data)"
proof -
  have "sorted [''content_b64'', ''path'']" by code_simp
  then show "utf8_valid p \<Longrightarrow> wire_map (push_params p data)"
    by (simp add: wire_map_def push_params_def utf8_valid_ascii)
qed

lemma pull_params_wire: "utf8_valid p \<Longrightarrow> wire_map (pull_params p)"
  by (simp add: wire_map_def pull_params_def utf8_valid_ascii)

lemma pull_request:
  assumes "utf8_valid p" and "p \<noteq> []" and "Read (dfs (host n)) p = Inr data"
  shows "\<exists>reply r. serve_frame en ou now n (Encode (NewRequest u MethodPull (pull_params p))) = (cancelGrace n, Some reply) \<and>
    Decode reply = (r, True) \<and> ID r = to_valid u \<and> OK r \<and> Result r = [(''blobs'', JObj [(p, JStr (std_encode data))])]"
proof -
  let ?req = "request_as_read u MethodPull (pull_params p)"
  have w: "wire_map (pull_params p)" using pull_params_wire assms(1) .
  have bl: "pull_blobs (dfs (host n)) [JStr p] = [(p, JStr (std_encode data))]"
    using assms(2,3) by (simp add: pull_blobs_def)
  have jm: "jmap [(k, v)] = JObj [(k, v)]" for k v by (simp add: jmap_def lookup_last_def)
  have h: "handle_pull (serve_config ou now) ?req (cancelGrace n) =
      (cancelGrace n, Inr [(''blobs'', JObj [(p, JStr (std_encode data))])])"
    using received_wire [OF w] bl
    by (simp add: handle_pull_def lookup_last_def pull_params_def cancelGrace_def jm)
  have "serve_frame en ou now n (Encode (NewRequest u MethodPull (pull_params p))) =
      (cancelGrace n, Some (Encode (Reply ?req True [(''blobs'', JObj [(p, JStr (std_encode data))])] None)))"
    using serve_dispatch [OF sendable_wire [OF w], of en ou now MethodPull] h by (simp add: register_lookup)
  moreover have "sendable [(''blobs'', JObj [(p, JStr (std_encode data))])]"
    by (rule sendable_list) simp
  from Decode_Reply [OF utf8_valid_to_valid_id this, of u MethodPull "pull_params p" True None]
  have "Decode (Encode (Reply ?req True [(''blobs'', JObj [(p, JStr (std_encode data))])] None)) =
      (\<lparr>V = 1, ID = to_valid u, Type = TypeRes, Method = [], Params = [], OK = True,
        Result = [(''blobs'', JObj [(p, JStr (std_encode data))])], Err = []\<rparr>, True)"
    using assms(1) by (simp add: received_def jm members_def to_valid_id to_valid_ascii)
  ultimately show ?thesis by simp
qed

lemma push_request:
  assumes n: "fs_inv (dfs (host n))" and p: "utf8_valid p"
    and push: "serve_frame en ou now n (Encode (NewRequest u MethodWrite (push_params p data))) = (n1, Some reply)"
    and ok: "OK (fst (Decode reply))"
  shows "Read (dfs (host n1)) p = Inr data"
proof -
  let ?req = "request_as_read u MethodWrite (push_params p data)"
  have w: "wire_map (push_params p data)" using push_params_wire p .
  have ps: "Params ?req = push_params p data" using received_wire [OF w] by simp
  have content: "decodeContent en (Params ?req) = Inr data" "str_param ''path'' ?req = p"
    using ps by (simp_all add: decodeContent_def str_param_def push_params_def lookup_last_def)
  obtain n' out where h: "handle_write en (serve_config ou now) now ?req (cancelGrace n) = (n', out)" by fastforce
  have "serve_frame en ou now n (Encode (NewRequest u MethodWrite (push_params p data))) =
      (case out of
         Inl e \<Rightarrow> (n', Some (Encode (Reply ?req False [] (Some e))))
       | Inr res \<Rightarrow> (n', Some (Encode (Reply ?req True res None))))"
    using serve_dispatch [OF sendable_wire [OF w], of en ou now MethodWrite] h by (simp add: register_lookup)
  with push ok obtain res where out: "out = Inr res" "n1 = n'"
    using Decode_Reply [OF utf8_valid_to_valid_id sendable_Nil] by (cases out) auto
  have "fs_inv (dfs (host (cancelGrace n)))" using n by (simp add: cancelGrace_def)
  from served.handle_write_reads [OF this h [unfolded out(1)] content(1)] show ?thesis
    using content(2) out(2) by simp
qed

text \<open>
  C5: A secret survives the trip: when the \<open>WRITE\<close> request for a path with base64 content is
  answered with \<open>OK\<close>, the next \<open>PULL\<close> of that path answers \<open>OK\<close>, under the puller's request
  ID, with a blob that decodes to exactly the bytes pushed, whatever those bytes are. Both
  requests and both replies are the JSON frames on the wire.
\<close>

theorem push_pull:
  assumes "fs_inv (dfs (host n))" and "utf8_valid p" and "p \<noteq> []"
    and "serve_frame en ou now n (Encode (NewRequest u MethodWrite (push_params p data))) = (n1, Some reply1)"
    and "OK (fst (Decode reply1))"
  shows "\<exists>n2 reply2 r blob. serve_frame en ou' now' n1 (Encode (NewRequest u' MethodPull (pull_params p))) = (n2, Some reply2) \<and>
    Decode reply2 = (r, True) \<and> ID r = to_valid u' \<and> OK r \<and>
    Result r = [(''blobs'', JObj [(p, JStr blob)])] \<and> std_decode blob = Some data"
proof -
  have "Read (dfs (host n1)) p = Inr data" using push_request assms(1,2,4,5) by blast
  from pull_request [OF assms(2,3) this, of en ou' now' u'] std_decode_encode [of data]
  show ?thesis by blast
qed

theorem push_pull_witness:
  "\<exists>n1 reply1. serve_frame demo_env demo_outside 5 (serve_node demo_daemon 30)
      (Encode (NewRequest ''u'' MethodWrite (push_params ''/x/y'' [CHR 0xFF, CHR 0x00]))) = (n1, Some reply1) \<and>
    OK (fst (Decode reply1)) \<and>
    (\<exists>n2 reply2 r blob. serve_frame demo_env demo_outside 6 n1 (Encode (NewRequest ''v'' MethodPull (pull_params ''/x/y''))) = (n2, Some reply2) \<and>
      Decode reply2 = (r, True) \<and> ID r = to_valid ''v'' \<and> OK r \<and>
      Result r = [(''blobs'', JObj [(''/x/y'', JStr blob)])] \<and> std_decode blob = Some [CHR 0xFF, CHR 0x00])"
proof -
  let ?f = "serve_frame demo_env demo_outside 5 (serve_node demo_daemon 30)
      (Encode (NewRequest ''u'' MethodWrite (push_params ''/x/y'' [CHR 0xFF, CHR 0x00])))"
  have "(case snd ?f of None \<Rightarrow> False | Some reply \<Rightarrow> OK (fst (Decode reply)))" by code_simp
  then obtain n1 reply1 where f: "?f = (n1, Some reply1)" "OK (fst (Decode reply1))"
    by (cases ?f) (auto split: option.splits)
  have "fs_inv (dfs (host (serve_node demo_daemon 30)))" "utf8_valid ''/x/y''" "''/x/y'' \<noteq> []"
    using demo_daemon_inv by (simp_all add: serve_node_def new_node_def utf8_valid_ascii)
  from push_pull [OF this f] f show ?thesis by blast
qed

text \<open>
  \<open>SET_CONFIG\<close> with a whole number of seconds of at most 53 bits sets the window to exactly
  that many seconds as long as the nanoseconds fit 64 bits; the request itself has ended
  any countdown, so none is restarted, and the daemon is otherwise untouched. A larger
  number wraps around: asking for \<open>9223372037\<close> seconds yields a negative window, under
  which the next loss of the vault locks at once.
\<close>

theorem set_config_grace:
  assumes "\<bar>s\<bar> < 2 ^ 53"
  shows "let n' = fst (serve_frame en ou now n (Encode (NewRequest u MethodSetConfig [(''grace_seconds'', JNum (itoa s))])))
    in Grace n' = wrap64 (s * Second) \<and> grace n' = None \<and> graceEnd n' = None \<and> host n' = host n \<and>
       (- (2 ^ 63) \<le> s * Second \<and> s * Second < 2 ^ 63 \<longrightarrow> Grace n' = s * 1000000000) \<and>
       (s = 9223372037 \<longrightarrow> Grace n' < 0)"
proof -
  let ?ps = "[(''grace_seconds'', JNum (itoa s))]"
  have w: "wire_map ?ps"
    using f64_exact [OF assms] by (simp add: wire_map_def num_ok_itoa utf8_valid_ascii)
  have "- (2 ^ 63) \<le> s \<and> s < 2 ^ 63" using assms by auto
  then have "toFloat_int en (JNum (itoa s)) = Some s"
    using f64_exact [OF assms] by (simp add: toFloat_int_def)
  then have "handle_set_config en (serve_config ou now) now (request_as_read u MethodSetConfig ?ps) (cancelGrace n) =
      ((cancelGrace n)\<lparr>Grace := wrap64 (s * Second)\<rparr>, Inr ok_result)"
    using received_wire [OF w]
    by (simp add: handle_set_config_def lookup_last_def SetGrace_def cancelGrace_def)
  then have "fst (serve_frame en ou now n (Encode (NewRequest u MethodSetConfig ?ps))) = (cancelGrace n)\<lparr>Grace := wrap64 (s * Second)\<rparr>"
    using serve_dispatch [OF sendable_wire [OF w], of en ou now MethodSetConfig] by (simp add: register_lookup)
  moreover have "wrap64 (9223372037 * Second) < 0" by (simp add: wrap64_def Second_def)
  ultimately show ?thesis
    using wrap64_id [of "s * Second"] by (simp add: cancelGrace_def Let_def Second_def)
qed

theorem set_config_grace_witness:
  "\<bar>60 :: int\<bar> < 2 ^ 53 \<and>
   Grace (fst (serve_frame demo_env demo_outside 5 (serve_node demo_daemon 30)
     (Encode (NewRequest ''u'' MethodSetConfig [(''grace_seconds'', JNum (itoa 60))])))) = 60000000000"
proof -
  have s: "\<bar>60 :: int\<bar> < 2 ^ 53" by simp
  show ?thesis
    using set_config_grace [OF s, of demo_env demo_outside 5 "serve_node demo_daemon 30" "''u''"]
    by (simp add: Let_def Second_def)
qed

text \<open>
  After the countdown has run out and locked the daemon, the node still reports it as
  armed, with nothing remaining: the fired timer is not cleared, so \<open>STATUS\<close> and the control
  API cannot tell a locked daemon from one about to lock.
\<close>

theorem fired_timer_still_armed:
  assumes "0 < Grace n" and "n' = fst (serve_frame en ou now n peer_offline_frame)" and "now + Grace n \<le> t"
    and "expire t n' = Some n1" and "run_fired (serve_config ou' t) n1 = Some n2"
  shows "GraceState t n2 = (Grace n, True, 0) \<and> fs_view (dfs (host n2)) = [[] \<mapsto> EDir]"
  using assms Wipe_view
  by (auto simp: serve_frame_def node_onData_def peer_offline_sys startGrace_def expire_def run_fired_def run_cb_def
      serve_config_def GraceState_def Let_def)

theorem fired_timer_still_armed_witness:
  "\<exists>n1 n2. expire 31000000000 (fst (serve_frame demo_env demo_outside 1000000000 (serve_node demo_daemon 30) peer_offline_frame)) = Some n1 \<and>
     run_fired (serve_config demo_outside 31000000000) n1 = Some n2 \<and>
     GraceState 31000000000 n2 = (30000000000, True, 0)"
proof -
  let ?n = "fst (serve_frame demo_env demo_outside 1000000000 (serve_node demo_daemon 30) peer_offline_frame)"
  have g: "0 < Grace (serve_node demo_daemon 30)" "1000000000 + Grace (serve_node demo_daemon 30) \<le> 31000000000"
    "Grace (serve_node demo_daemon 30) = 30000000000" by code_simp+
  have "expire 31000000000 ?n \<noteq> None" by code_simp
  then obtain n1 where n1: "expire 31000000000 ?n = Some n1" by auto
  then have "firing n1 \<noteq> 0" by (auto simp: expire_def split: option.splits if_splits)
  then obtain n2 where n2: "run_fired (serve_config demo_outside 31000000000) n1 = Some n2"
    by (cases "firing n1") (auto simp: run_fired_def)
  from fired_timer_still_armed [OF g(1) refl g(2) n1 n2] n1 n2 g(3) show ?thesis by auto
qed

end
