(* ===== verification/Frame.thy ===== *)
theory Frame
  imports Rpc Base64
begin

text \<open>
  Control frames: JSON objects whose fields are all strings with \<open>omitempty\<close>. The layers
  below the node read them with \<open>json.Unmarshal\<close> into structs that differ only in the
  fields they name, so one decoder takes the field names as an argument.
\<close>

definition unmarshal_strs :: "string list \<Rightarrow> bytes \<Rightarrow> (string \<Rightarrow> string) option" where
  "unmarshal_strs names b =
     (case parse_json b of
        None \<Rightarrow> None
      | Some j \<Rightarrow> if obj_ok j \<and> list_all (\<lambda>n. str_ok n j) names then Some (\<lambda>n. get_str n j) else None)"

definition str_frame :: "(string \<times> string) list \<Rightarrow> bytes" where
  "str_frame kvs = marshal (JObj (map (\<lambda>(k, v). (k, JStr v)) (filter (\<lambda>(k, v). v \<noteq> []) kvs)))"

definition ascii :: "string \<Rightarrow> bool" where
  "ascii s \<longleftrightarrow> list_all (\<lambda>c. ord c < 128) s"

lemma ascii_simps [simp]: "ascii []" "ascii (c # s) \<longleftrightarrow> ord c < 128 \<and> ascii s"
  by (simp_all add: ascii_def)

lemma ascii_std_encode [simp]: "ascii (std_encode b)"
  unfolding std_encode_def ascii_def using std_encode_chars by (fastforce simp: list_all_iff)

lemma parse_str_frame:
  assumes "\<forall>(k, v) \<in> set kvs. ascii k \<and> ascii v"
  shows "parse_json (str_frame kvs) = Some (JObj (map (\<lambda>(k, v). (k, JStr v)) (filter (\<lambda>(k, v). v \<noteq> []) kvs)))"
  unfolding str_frame_def
  by (rule reparse) (use assms in \<open>auto simp: list_all_iff ascii_def intro!: utf8_valid_ascii\<close>)

lemma str_field_JStr:
  "list_all (\<lambda>v. case v of JStr _ \<Rightarrow> True | JNull \<Rightarrow> True | _ \<Rightarrow> False)
     (field_vals n (JObj (map (\<lambda>(k, v). (k, JStr v)) kvs)))"
  by (induction kvs) auto

lemma str_ok_strs: "str_ok n (JObj (map (\<lambda>(k, v). (k, JStr v)) kvs))"
  by (simp add: str_ok_def str_field_JStr)

text \<open>A frame of strings read back.\<close>

lemma unmarshal_str_frame:
  assumes "\<forall>(k, v) \<in> set kvs. ascii k \<and> ascii v"
  shows "unmarshal_strs names (str_frame kvs) =
    Some (\<lambda>n. get_str n (JObj (map (\<lambda>(k, v). (k, JStr v)) (filter (\<lambda>(k, v). v \<noteq> []) kvs))))"
  by (simp add: unmarshal_strs_def parse_str_frame [OF assms] obj_ok_def str_ok_strs list.pred_True)

end
