(* ===== verification/E2ee.thy ===== *)
theory E2ee
  imports Frame
begin

text \<open>
  The version 1 encryption layer of \<open>internal/e2ee\<close>. X25519, HKDF and ChaCha20-Poly1305 come
  from \<open>golang.org/x/crypto\<close> and are parameters, collected in \<open>v1_crypto\<close>; random bytes are
  arguments of the operations that draw them. \<open>crypto_laws\<close> names what the layer relies on.
  A connection returns the frame it delivers upwards and the frame it sends, if any.
\<close>

record v1_crypto =
  x25519 :: "bytes \<Rightarrow> bytes \<Rightarrow> bytes option"
  basepoint :: bytes
  hkdf :: "bytes \<Rightarrow> string \<Rightarrow> bytes"
  aead_seal :: "bytes \<Rightarrow> bytes \<Rightarrow> bytes \<Rightarrow> bytes"
  aead_open :: "bytes \<Rightarrow> bytes \<Rightarrow> bytes \<Rightarrow> bytes option"

definition hkdfInfo :: string where
  "hkdfInfo = ''valetfs-e2ee-v1''"

definition nonceSize :: nat where
  "nonceSize = 12"

record KeyPair =
  Priv :: bytes
  Pub :: bytes

definition Generate :: "v1_crypto \<Rightarrow> bytes \<Rightarrow> KeyPair option" where
  "Generate cr priv = map_option (\<lambda>p. \<lparr>Priv = priv, Pub = p\<rparr>) (x25519 cr priv (basepoint cr))"

definition key_PubB64 :: "KeyPair \<Rightarrow> string" where
  "key_PubB64 k = std_encode (Pub k)"

definition decodePub :: "string \<Rightarrow> bytes option" where
  "decodePub b64 =
     (case std_decode b64 of
        None \<Rightarrow> None
      | Some raw \<Rightarrow> if length raw \<noteq> 32 then None else Some raw)"

definition deriveKey :: "v1_crypto \<Rightarrow> bytes \<Rightarrow> bytes \<Rightarrow> bytes option" where
  "deriveKey cr ownPriv peerPub = map_option (\<lambda>shared. hkdf cr shared hkdfInfo) (x25519 cr ownPriv peerPub)"

text \<open>A session is its key; \<open>chacha20poly1305.New\<close> takes every 32-byte key, and \<open>deriveKey\<close> makes no other.\<close>

definition sess_seal :: "v1_crypto \<Rightarrow> bytes \<Rightarrow> bytes \<Rightarrow> bytes \<Rightarrow> string" where
  "sess_seal cr key nonce plain = std_encode (nonce @ aead_seal cr key nonce plain)"

definition sess_open :: "v1_crypto \<Rightarrow> bytes \<Rightarrow> string \<Rightarrow> bytes option" where
  "sess_open cr key b64 =
     (case std_decode b64 of
        None \<Rightarrow> None
      | Some raw \<Rightarrow>
          if length raw < nonceSize then None
          else aead_open cr key (take nonceSize raw) (drop nonceSize raw))"

definition v1_fields :: "string list" where
  "v1_fields = [''sys'', ''role'', ''kx'', ''pub'', ''enc'']"

record v1_conn =
  kp :: KeyPair
  isController :: bool
  sess :: "bytes option"
  rekeys :: nat

definition WrapController :: "v1_crypto \<Rightarrow> KeyPair \<Rightarrow> string \<Rightarrow> v1_conn option" where
  "WrapController cr k daemonPub =
     (case decodePub daemonPub of
        None \<Rightarrow> None
      | Some peer \<Rightarrow>
          (case deriveKey cr (Priv k) peer of
             None \<Rightarrow> None
           | Some key \<Rightarrow> Some \<lparr>kp = k, isController = True, sess = Some key, rekeys = 0\<rparr>))"

definition WrapDaemon :: "KeyPair \<Rightarrow> v1_conn" where
  "WrapDaemon k = \<lparr>kp = k, isController = False, sess = None, rekeys = 0\<rparr>"

definition v1_hello :: "v1_crypto \<Rightarrow> v1_conn \<Rightarrow> string \<Rightarrow> v1_conn" where
  "v1_hello cr c pub =
     (case decodePub pub of
        None \<Rightarrow> c
      | Some peer \<Rightarrow>
          (case deriveKey cr (Priv (kp c)) peer of
             None \<Rightarrow> c
           | Some key \<Rightarrow>
               c\<lparr>rekeys := (if sess c \<noteq> None then Suc (rekeys c) else rekeys c), sess := Some key\<rparr>))"

text \<open>\<open>handle\<close>: the new state and the frame delivered to the layer above.\<close>

definition v1_handle :: "v1_crypto \<Rightarrow> v1_conn \<Rightarrow> bytes \<Rightarrow> v1_conn \<times> bytes option" where
  "v1_handle cr c b =
     (case unmarshal_strs v1_fields b of
        None \<Rightarrow> (c, None)
      | Some f \<Rightarrow>
          if f ''sys'' \<noteq> [] then (c, Some b)
          else if f ''kx'' = ''hello'' then ((if isController c then c else v1_hello cr c (f ''pub'')), None)
          else if f ''enc'' \<noteq> [] then
            (c, case sess c of None \<Rightarrow> None | Some key \<Rightarrow> sess_open cr key (f ''enc''))
          else (c, None))"

definition v1_Start :: "v1_conn \<Rightarrow> bytes option" where
  "v1_Start c =
     (if isController c then Some (str_frame [(''kx'', ''hello''), (''pub'', key_PubB64 (kp c))]) else None)"

definition v1_Send :: "v1_crypto \<Rightarrow> v1_conn \<Rightarrow> bytes \<Rightarrow> bytes \<Rightarrow> bytes option" where
  "v1_Send cr c nonce b =
     (case sess c of
        None \<Rightarrow> None
      | Some key \<Rightarrow> Some (str_frame [(''enc'', sess_seal cr key nonce b)]))"

text \<open>\<open>LoadOrGenerate\<close>: the file is \<open>None\<close> when it does not exist; the result has the pair, whether
  it was reused, and what is written.\<close>

definition LoadOrGenerate :: "v1_crypto \<Rightarrow> bytes option \<Rightarrow> bytes \<Rightarrow> (KeyPair \<times> bool \<times> bytes option) option" where
  "LoadOrGenerate cr file fresh =
     (case file of
        Some b \<Rightarrow>
          if length b \<noteq> 32 then None
          else map_option (\<lambda>p. (\<lparr>Priv = b, Pub = p\<rparr>, True, None)) (x25519 cr b (basepoint cr))
      | None \<Rightarrow> map_option (\<lambda>k. (k, False, Some (Priv k))) (Generate cr fresh))"

section \<open>What the layer relies on, and what it gives\<close>

text \<open>
  Diffie--Hellman agrees, public keys have 32 bytes, and opening undoes sealing.
\<close>

definition crypto_laws :: "v1_crypto \<Rightarrow> bool" where
  "crypto_laws cr \<longleftrightarrow>
     (\<forall>a b pa pb. x25519 cr a (basepoint cr) = Some pa \<longrightarrow> x25519 cr b (basepoint cr) = Some pb \<longrightarrow>
        x25519 cr a pb = x25519 cr b pa \<and> x25519 cr a pb \<noteq> None) \<and>
     (\<forall>a p. x25519 cr a (basepoint cr) = Some p \<longrightarrow> length p = 32) \<and>
     (\<forall>k n m. aead_open cr k n (aead_seal cr k n m) = Some m)"

lemma crypto_laws_len: "crypto_laws cr \<Longrightarrow> x25519 cr a (basepoint cr) = Some p \<Longrightarrow> length p = 32"
  unfolding crypto_laws_def by blast

lemma crypto_laws_dh:
  "crypto_laws cr \<Longrightarrow> x25519 cr a (basepoint cr) = Some pa \<Longrightarrow> x25519 cr b (basepoint cr) = Some pb \<Longrightarrow>
     \<exists>sh. x25519 cr a pb = Some sh \<and> x25519 cr b pa = Some sh"
  unfolding crypto_laws_def by (metis option.exhaust)

lemma decodePub_PubB64: "length (Pub k) = 32 \<Longrightarrow> decodePub (key_PubB64 k) = Some (Pub k)"
  by (simp add: decodePub_def key_PubB64_def)

lemma seal_open: "crypto_laws cr \<Longrightarrow> length nonce = nonceSize \<Longrightarrow> sess_open cr key (sess_seal cr key nonce b) = Some b"
  by (simp add: crypto_laws_def sess_open_def sess_seal_def)

lemma v1_field_names [simp]:
  "fold_name ''kx'' = ''KX''" "fold_name ''pub'' = ''PUB''" "fold_name ''enc'' = ''ENC''"
  "fold_name ''sys'' = ''SYS''"
  by code_simp+

lemma v1_enc_frame:
  assumes "ascii s"
  shows "unmarshal_strs v1_fields (str_frame [(''enc'', s)]) =
      Some (\<lambda>n. get_str n (JObj (if s = [] then [] else [(''enc'', JStr s)])))"
  using assms by (subst unmarshal_str_frame) auto

lemma v1_deliver:
  assumes "sess c = Some key" and "sess_open cr key s = Some b" and "ascii s" and "s \<noteq> []"
  shows "v1_handle cr c (str_frame [(''enc'', s)]) = (c, Some b)"
  using assms by (simp add: v1_handle_def v1_enc_frame get_str_def)

lemma v1_hello_frame:
  "unmarshal_strs v1_fields (str_frame [(''kx'', ''hello''), (''pub'', key_PubB64 k)]) =
     Some (\<lambda>n. get_str n (JObj ((''kx'', JStr ''hello'') # (if Pub k = [] then [] else [(''pub'', JStr (key_PubB64 k))]))))"
  by (subst unmarshal_str_frame) (auto simp: key_PubB64_def)

lemma v1_pairs:
  assumes cr: "crypto_laws cr" and d: "Generate cr dk = Some dkp" and c: "Generate cr ck = Some ckp"
    and nonce: "length nonce = nonceSize"
  obtains cc dc where "WrapController cr ckp (key_PubB64 dkp) = Some cc"
    "v1_Start cc = Some (str_frame [(''kx'', ''hello''), (''pub'', key_PubB64 ckp)])"
    "v1_handle cr (WrapDaemon dkp) (str_frame [(''kx'', ''hello''), (''pub'', key_PubB64 ckp)]) = (dc, None)"
    "\<exists>s. ascii s \<and> s \<noteq> [] \<and> v1_Send cr cc nonce b = Some (str_frame [(''enc'', s)]) \<and> v1_handle cr dc (str_frame [(''enc'', s)]) = (dc, Some b)"
    "\<exists>s. ascii s \<and> s \<noteq> [] \<and> v1_Send cr dc nonce b = Some (str_frame [(''enc'', s)]) \<and> v1_handle cr cc (str_frame [(''enc'', s)]) = (cc, Some b)"
proof -
  obtain dp cp where k: "dkp = \<lparr>Priv = dk, Pub = dp\<rparr>" "ckp = \<lparr>Priv = ck, Pub = cp\<rparr>"
    "x25519 cr dk (basepoint cr) = Some dp" "x25519 cr ck (basepoint cr) = Some cp"
    using c d by (auto simp: Generate_def)
  have len: "length dp = 32" "length cp = 32" using crypto_laws_len [OF cr] k(3,4) by blast+
  obtain sh where sh: "x25519 cr ck dp = Some sh" "x25519 cr dk cp = Some sh"
    using crypto_laws_dh [OF cr k(3,4)] by auto
  let ?key = "hkdf cr sh hkdfInfo"
  let ?cc = "\<lparr>kp = ckp, isController = True, sess = Some ?key, rekeys = 0\<rparr>"
  let ?dc = "(WrapDaemon dkp)\<lparr>sess := Some ?key\<rparr>"
  have cc: "WrapController cr ckp (key_PubB64 dkp) = Some ?cc"
    using len sh k decodePub_PubB64 [of dkp] by (simp add: WrapController_def deriveKey_def)
  have "v1_hello cr (WrapDaemon dkp) (key_PubB64 ckp) = ?dc"
    using len sh k decodePub_PubB64 [of ckp] by (simp add: v1_hello_def WrapDaemon_def deriveKey_def)
  then have dc: "v1_handle cr (WrapDaemon dkp) (str_frame [(''kx'', ''hello''), (''pub'', key_PubB64 ckp)]) = (?dc, None)"
  proof -
    have "Pub ckp \<noteq> []" "\<not> isController (WrapDaemon dkp)" using len k by (auto simp: WrapDaemon_def)
    then show ?thesis
      using \<open>v1_hello cr (WrapDaemon dkp) (key_PubB64 ckp) = ?dc\<close>
      by (simp add: v1_handle_def v1_hello_frame get_str_def)
  qed
  have open_ok: "sess_open cr ?key (sess_seal cr ?key nonce b) = Some b" using seal_open [OF cr nonce] .
  have nz: "sess_seal cr ?key nonce b \<noteq> []" "ascii (sess_seal cr ?key nonce b)"
    using nonce by (auto simp: sess_seal_def nonceSize_def)
  have "v1_handle cr ?dc (str_frame [(''enc'', sess_seal cr ?key nonce b)]) = (?dc, Some b)"
    "v1_handle cr ?cc (str_frame [(''enc'', sess_seal cr ?key nonce b)]) = (?cc, Some b)"
    by (rule v1_deliver [OF _ open_ok nz(2,1)], simp)+
  moreover have "v1_Send cr ?dc nonce b = Some (str_frame [(''enc'', sess_seal cr ?key nonce b)])"
    "v1_Send cr ?cc nonce b = Some (str_frame [(''enc'', sess_seal cr ?key nonce b)])"
    "v1_Start ?cc = Some (str_frame [(''kx'', ''hello''), (''pub'', key_PubB64 ckp)])"
    by (simp_all add: v1_Send_def WrapDaemon_def v1_Start_def)
  ultimately show ?thesis using that [of ?cc ?dc] cc dc nz by blast
qed

text \<open>
  In version 1 a controller that knows the daemon's public key and the daemon that has
  read the controller's hello share a channel: every frame either side sends from then on is
  delivered unchanged by the other, given that the cryptography does what it documents. Before
  a hello the daemon has no key and sends nothing.
\<close>

theorem v1_channel:
  assumes cr: "crypto_laws cr" and d: "Generate cr dk = Some dkp" and c: "Generate cr ck = Some ckp"
    and nonce: "length nonce = nonceSize"
  shows "\<exists>cc dc hello. WrapController cr ckp (key_PubB64 dkp) = Some cc \<and> v1_Start cc = Some hello \<and>
    v1_handle cr (WrapDaemon dkp) hello = (dc, None) \<and>
    (\<exists>f. v1_Send cr cc nonce b = Some f \<and> v1_handle cr dc f = (dc, Some b)) \<and>
    (\<exists>f. v1_Send cr dc nonce b = Some f \<and> v1_handle cr cc f = (cc, Some b)) \<and>
    v1_Send cr (WrapDaemon dkp) nonce b = None"
proof -
  have "v1_Send cr (WrapDaemon dkp) nonce b = None" by (simp add: v1_Send_def WrapDaemon_def)
  then show ?thesis by (rule_tac v1_pairs [OF cr d c nonce, where b = b]) blast
qed

definition hd0 :: "bytes \<Rightarrow> char" where
  "hd0 b = (case b of [] \<Rightarrow> CHR 0x00 | c # _ \<Rightarrow> c)"

definition demo_crypto :: v1_crypto where
  "demo_crypto =
     \<lparr>x25519 = (\<lambda>a p. Some (replicate 32 (char_of (ord (hd0 a) + ord (hd0 p))))), basepoint = replicate 32 (CHR 0x00),
      hkdf = (\<lambda>s i. s), aead_seal = (\<lambda>k n m. m @ k), aead_open = (\<lambda>k n c. Some (take (length c - length k) c))\<rparr>"

lemma hd0_replicate: "hd0 (replicate 32 c) = c"
  by (simp add: hd0_def eval_nat_numeral)

lemma demo_crypto_laws: "crypto_laws demo_crypto"
  by (simp add: crypto_laws_def demo_crypto_def hd0_replicate add.commute)

theorem v1_channel_witness:
  "crypto_laws demo_crypto \<and>
   (\<exists>dkp ckp cc dc hello. Generate demo_crypto ''d'' = Some dkp \<and> Generate demo_crypto ''c'' = Some ckp \<and>
     WrapController demo_crypto ckp (key_PubB64 dkp) = Some cc \<and> v1_Start cc = Some hello \<and>
     v1_handle demo_crypto (WrapDaemon dkp) hello = (dc, None) \<and>
     (\<exists>f. v1_Send demo_crypto cc (replicate 12 (CHR ''n'')) ''hi'' = Some f \<and> v1_handle demo_crypto dc f = (dc, Some ''hi'')))"
proof -
  obtain dkp ckp where k: "Generate demo_crypto ''d'' = Some dkp" "Generate demo_crypto ''c'' = Some ckp"
    by (simp add: Generate_def demo_crypto_def)
  have n: "length (replicate 12 (CHR ''n'')) = nonceSize" by (simp add: nonceSize_def)
  from v1_channel [OF demo_crypto_laws k n, of "''hi''"] k demo_crypto_laws show ?thesis by blast
qed

end
