(* ===== verification/Session.thy ===== *)
theory Session
  imports Frame
begin

text \<open>
  The version 2 security layer of \<open>internal/session\<close>. The Noise library
  (\<open>github.com/flynn/noise\<close>) is a parameter: a record of the functions the layer calls, over
  types of handshake states and cipher states that stay abstract; an error is \<open>None\<close>. The
  randomness a fresh handshake state draws is an argument of its constructor.
\<close>

record DHKey =
  Private :: bytes
  Public :: bytes

record ('hs, 'cs) noise =
  newHS :: "bool \<Rightarrow> bytes \<Rightarrow> DHKey \<Rightarrow> bytes \<Rightarrow> bytes \<Rightarrow> 'hs option"
  readMsg :: "'hs \<Rightarrow> bytes \<Rightarrow> ('hs \<times> ('cs \<times> 'cs) option) option"
  writeMsg :: "'hs \<Rightarrow> ('hs \<times> bytes \<times> ('cs \<times> 'cs) option) option"
  hsPeer :: "'hs \<Rightarrow> bytes"
  csEncrypt :: "'cs \<Rightarrow> bytes \<Rightarrow> bytes \<Rightarrow> ('cs \<times> bytes) option"
  csDecrypt :: "'cs \<Rightarrow> bytes \<Rightarrow> bytes \<Rightarrow> ('cs \<times> bytes) option"

datatype sess_error =
    ErrUnauthorised | ErrNotEstablished | ErrClosed | ErrNoise

definition Protocol :: string where
  "Protocol = ''Noise_IK_25519_ChaChaPoly_SHA256''"

definition prologue :: "string \<Rightarrow> bytes" where
  "prologue sid = Protocol @ [CHR 0x00] @ sid"

definition ad :: "string \<Rightarrow> bool \<Rightarrow> bytes" where
  "ad sid fromInitiator = sid @ [CHR 0x00, if fromInitiator then CHR ''v'' else CHR ''d'']"

text \<open>
  \<open>Conn\<close>. \<open>ready\<close> is the closed channel, \<open>closed\<close> records that the connection below was told to
  close, \<open>pins\<close> the keys handed to \<open>OnPin\<close>.
\<close>

record ('hs, 'cs) sconn =
  initiator :: bool
  sid :: string
  static :: DHKey
  authorised :: "bytes list"
  hs :: "'hs option"
  send :: "'cs option"
  recv :: "'cs option"
  peerPub :: bytes
  failErr :: "sess_error option"
  ready :: bool
  closed :: bool
  pins :: "bytes list"

definition NewVault :: "('hs, 'cs) noise \<Rightarrow> bytes \<Rightarrow> string \<Rightarrow> DHKey \<Rightarrow> bytes \<Rightarrow> ('hs, 'cs) sconn option" where
  "NewVault nz rnd sessID key peerStatic =
     (if peerStatic = [] then None
      else map_option (\<lambda>h. \<lparr>initiator = True, sid = sessID, static = key, authorised = [], hs = Some h, send = None, recv = None,
                             peerPub = peerStatic, failErr = None, ready = False, closed = False, pins = []\<rparr>)
             (newHS nz True (prologue sessID) key peerStatic rnd))"

definition NewDaemon :: "('hs, 'cs) noise \<Rightarrow> bytes \<Rightarrow> string \<Rightarrow> DHKey \<Rightarrow> bytes list \<Rightarrow> ('hs, 'cs) sconn option" where
  "NewDaemon nz rnd sessID key auth =
     map_option (\<lambda>h. \<lparr>initiator = False, sid = sessID, static = key, authorised = auth, hs = Some h, send = None, recv = None,
                       peerPub = [], failErr = None, ready = False, closed = False, pins = []\<rparr>)
       (newHS nz False (prologue sessID) key [] rnd)"

definition Established :: "('hs, 'cs) sconn \<Rightarrow> bool" where
  "Established c \<longleftrightarrow> send c \<noteq> None"

definition abandon :: "sess_error \<Rightarrow> ('hs, 'cs) sconn \<Rightarrow> ('hs, 'cs) sconn" where
  "abandon e c = c\<lparr>failErr := (if failErr c = None then Some e else failErr c), ready := True\<rparr>"

text \<open>\<open>subtleEqual\<close>: \<open>subtle.ConstantTimeCompare\<close> is 1 exactly on equal slices.\<close>

definition subtleEqual :: "bytes \<Rightarrow> bytes \<Rightarrow> bool" where
  "subtleEqual a b \<longleftrightarrow> a = b"

definition authorise :: "bytes \<Rightarrow> ('hs, 'cs) sconn \<Rightarrow> ('hs, 'cs) sconn \<times> sess_error option" where
  "authorise pub c =
     (if authorised c = [] then (c\<lparr>pins := pins c @ [pub]\<rparr>, None)
      else if list_ex (\<lambda>a. length a = length pub \<and> subtleEqual a pub) (authorised c) then (c, None)
      else (c, Some ErrUnauthorised))"

definition s_fields :: "string list" where
  "s_fields = [''sys'', ''nx'', ''n'', ''m'']"

text \<open>
  \<open>readHandshake1\<close>: a connection whose handshake is over starts a new one, dropping the keys it
  has, before the message is looked at (\<open>hs1_fresh\<close>); then the message is read, the vault it
  names authorised and the answer written (\<open>hs1_answer\<close>, whose second component is the frame
  sent back).
\<close>

definition hs1_fresh :: "('hs, 'cs) noise \<Rightarrow> bytes \<Rightarrow> ('hs, 'cs) sconn \<Rightarrow> ('hs, 'cs) sconn option" where
  "hs1_fresh nz rnd c =
     (if hs c = None
      then map_option (\<lambda>h. c\<lparr>hs := Some h, send := None, recv := None\<rparr>)
             (newHS nz False (prologue (sid c)) (static c) [] rnd)
      else Some c)"

definition hs1_answer :: "('hs, 'cs) noise \<Rightarrow> ('hs, 'cs) sconn \<Rightarrow> bytes \<Rightarrow> ('hs, 'cs) sconn \<times> bytes option" where
  "hs1_answer nz c msg =
     (case readMsg nz (the (hs c)) msg of
        None \<Rightarrow> (c\<lparr>hs := None\<rparr>, None)
      | Some (h, _) \<Rightarrow>
          (case authorise (hsPeer nz h) (c\<lparr>hs := Some h\<rparr>) of
             (c2, Some e) \<Rightarrow> (c2\<lparr>failErr := Some e, closed := True\<rparr>, None)
           | (c2, None) \<Rightarrow>
               (case writeMsg nz h of
                  None \<Rightarrow> (c2\<lparr>failErr := Some ErrNoise\<rparr>, None)
                | Some (h', out, cs) \<Rightarrow>
                    (c2\<lparr>send := map_option snd cs, recv := map_option fst cs, peerPub := hsPeer nz h,
                        hs := None, ready := True\<rparr>,
                     Some (str_frame [(''nx'', ''2''), (''m'', std_encode out)])))))"

definition readHandshake1 :: "('hs, 'cs) noise \<Rightarrow> bytes \<Rightarrow> ('hs, 'cs) sconn \<Rightarrow> string \<Rightarrow> ('hs, 'cs) sconn \<times> bytes option" where
  "readHandshake1 nz rnd c m =
     (if initiator c then (c, None)
      else case std_decode m of
             None \<Rightarrow> (c, None)
           | Some msg \<Rightarrow>
               (case hs1_fresh nz rnd c of
                  None \<Rightarrow> (c, None)
                | Some c1 \<Rightarrow> hs1_answer nz c1 msg))"

definition readHandshake2 :: "('hs, 'cs) noise \<Rightarrow> ('hs, 'cs) sconn \<Rightarrow> string \<Rightarrow> ('hs, 'cs) sconn" where
  "readHandshake2 nz c m =
     (if \<not> initiator c then c
      else case std_decode m of
             None \<Rightarrow> c
           | Some msg \<Rightarrow>
               if hs c = None \<or> send c \<noteq> None then c
               else (case readMsg nz (the (hs c)) msg of
                       None \<Rightarrow> c\<lparr>failErr := Some ErrNoise\<rparr>
                     | Some (h, cs) \<Rightarrow>
                         c\<lparr>send := map_option fst cs, recv := map_option snd cs, hs := None, ready := True\<rparr>))"

definition readTransport :: "('hs, 'cs) noise \<Rightarrow> ('hs, 'cs) sconn \<Rightarrow> string \<Rightarrow> ('hs, 'cs) sconn \<times> bytes option" where
  "readTransport nz c n =
     (case std_decode n of
        None \<Rightarrow> (c, None)
      | Some raw \<Rightarrow>
          (case recv c of
             None \<Rightarrow> (c, None)
           | Some r \<Rightarrow>
               (case csDecrypt nz r (ad (sid c) (\<not> initiator c)) raw of
                  None \<Rightarrow> (c, None)
                | Some (r', pt) \<Rightarrow> (c\<lparr>recv := Some r'\<rparr>, Some pt))))"

text \<open>\<open>handle\<close>: the state, the frame delivered upwards and the frame sent.\<close>

definition s_handle ::
  "('hs, 'cs) noise \<Rightarrow> bytes \<Rightarrow> ('hs, 'cs) sconn \<Rightarrow> bytes \<Rightarrow> ('hs, 'cs) sconn \<times> bytes option \<times> bytes option" where
  "s_handle nz rnd c b =
     (case unmarshal_strs s_fields b of
        None \<Rightarrow> (c, None, None)
      | Some f \<Rightarrow>
          if f ''sys'' \<noteq> [] then (c, Some b, None)
          else if f ''nx'' = ''1'' then (let (c', out) = readHandshake1 nz rnd c (f ''m'') in (c', None, out))
          else if f ''nx'' = ''2'' then (readHandshake2 nz c (f ''m''), None, None)
          else if f ''n'' \<noteq> [] then (let (c', d) = readTransport nz c (f ''n'') in (c', d, None))
          else (c, None, None))"

definition s_Send :: "('hs, 'cs) noise \<Rightarrow> ('hs, 'cs) sconn \<Rightarrow> bytes \<Rightarrow> ('hs, 'cs) sconn \<times> (sess_error + bytes)" where
  "s_Send nz c b =
     (case send c of
        None \<Rightarrow> (c, Inl ErrNotEstablished)
      | Some s \<Rightarrow>
          (case csEncrypt nz s (ad (sid c) (initiator c)) b of
             None \<Rightarrow> (c, Inl ErrNoise)
           | Some (s', ct) \<Rightarrow> (c\<lparr>send := Some s'\<rparr>, Inr (str_frame [(''n'', std_encode ct)]))))"

text \<open>The first half of \<open>Start\<close>: what the initiator sends.\<close>

definition s_Start :: "('hs, 'cs) noise \<Rightarrow> ('hs, 'cs) sconn \<Rightarrow> (('hs, 'cs) sconn \<times> bytes option) option" where
  "s_Start nz c =
     (if initiator c then
        (case writeMsg nz (the (hs c)) of
           None \<Rightarrow> None
         | Some (h, out, _) \<Rightarrow> Some (c\<lparr>hs := Some h\<rparr>, Some (str_frame [(''nx'', ''1''), (''m'', std_encode out)])))
      else Some (c, None))"

text \<open>The second half: what \<open>Start\<close> returns once \<open>ready\<close> is closed.\<close>

definition s_StartResult :: "('hs, 'cs) sconn \<Rightarrow> sess_error option" where
  "s_StartResult c = (case failErr c of Some e \<Rightarrow> Some e | None \<Rightarrow> if \<not> Established c then Some ErrClosed else None)"

definition PubB64 :: "bytes \<Rightarrow> string" where
  "PubB64 pub = std_encode pub"

definition ParsePub :: "string \<Rightarrow> bytes option" where
  "ParsePub s = (case std_decode s of None \<Rightarrow> None | Some b \<Rightarrow> if length b \<noteq> 32 then None else Some b)"

lemma ParsePub_PubB64: "length pub = 32 \<Longrightarrow> ParsePub (PubB64 pub) = Some pub"
  by (simp add: ParsePub_def PubB64_def)

section \<open>Reading the layer's own frames\<close>

lemma s_field_names [simp]:
  "fold_name ''nx'' = ''NX''" "fold_name ''m'' = ''M''" "fold_name ''n'' = ''N''" "fold_name ''sys'' = ''SYS''"
  by code_simp+

lemma std_encode_empty [simp]: "std_encode [] = []"
  by code_simp

lemma s_handle_nx:
  "unmarshal_strs s_fields (str_frame [(''nx'', [d]), (''m'', std_encode b)]) =
     Some (\<lambda>n. get_str n (JObj ((''nx'', JStr [d]) # (if b = [] then [] else [(''m'', JStr (std_encode b))]))))"
  if "ord d < 128"
  using that by (subst unmarshal_str_frame) auto

lemma s_handle_nx1:
  "s_handle nz rnd c (str_frame [(''nx'', ''1''), (''m'', std_encode b)]) =
     (case readHandshake1 nz rnd c (std_encode b) of (c', out) \<Rightarrow> (c', None, out))"
  by (simp add: s_handle_def s_handle_nx get_str_def)

lemma s_handle_nx2:
  "s_handle nz rnd c (str_frame [(''nx'', ''2''), (''m'', std_encode b)]) = (readHandshake2 nz c (std_encode b), None, None)"
  by (simp add: s_handle_def s_handle_nx get_str_def)

lemma s_handle_n:
  assumes "b \<noteq> []"
  shows "s_handle nz rnd c (str_frame [(''n'', std_encode b)]) = (case readTransport nz c (std_encode b) of (c', d) \<Rightarrow> (c', d, None))"
proof -
  have "unmarshal_strs s_fields (str_frame [(''n'', std_encode b)]) = Some (\<lambda>n. get_str n (JObj [(''n'', JStr (std_encode b))]))"
    using assms by (subst unmarshal_str_frame) auto
  then show ?thesis using assms by (simp add: s_handle_def get_str_def)
qed

section \<open>Who a daemon listens to\<close>

text \<open>The life of a daemon connection: frames arrive and the node sends.\<close>

inductive s_reach :: "('hs, 'cs) noise \<Rightarrow> ('hs, 'cs) sconn \<Rightarrow> ('hs, 'cs) sconn \<Rightarrow> bool" for nz c0 where
  s_reach_start: "s_reach nz c0 c0"
| s_reach_frame: "s_reach nz c0 c \<Longrightarrow> s_reach nz c0 (fst (s_handle nz rnd c b))"
| s_reach_send: "s_reach nz c0 c \<Longrightarrow> s_reach nz c0 (fst (s_Send nz c b))"

text \<open>
  The invariant of a daemon connection for session \<open>s\<close> and authorised keys \<open>as\<close>: a handshake
  under way excludes keys, and keys belong to an authorised vault.
\<close>

definition daemon_inv :: "string \<Rightarrow> DHKey \<Rightarrow> bytes list \<Rightarrow> ('hs, 'cs) sconn \<Rightarrow> bool" where
  "daemon_inv s k as c \<longleftrightarrow>
     \<not> initiator c \<and> sid c = s \<and> static c = k \<and> authorised c = as \<and>
     (hs c \<noteq> None \<longrightarrow> send c = None \<and> recv c = None) \<and>
     (as \<noteq> [] \<longrightarrow> send c \<noteq> None \<or> recv c \<noteq> None \<longrightarrow> peerPub c \<in> set as)"

lemma authorise_cases:
  obtains "authorised c = []" "authorise pub c = (c\<lparr>pins := pins c @ [pub]\<rparr>, None)"
  | "authorised c \<noteq> []" "pub \<in> set (authorised c)" "authorise pub c = (c, None)"
  | "authorised c \<noteq> []" "pub \<notin> set (authorised c)" "authorise pub c = (c, Some ErrUnauthorised)"
proof -
  have "list_ex (\<lambda>a. length a = length pub \<and> subtleEqual a pub) (authorised c) \<longleftrightarrow> pub \<in> set (authorised c)"
    by (auto simp: list_ex_iff subtleEqual_def)
  then show ?thesis using that unfolding authorise_def by (cases "authorised c = []") (auto split: if_splits)
qed

lemma NewDaemon_inv: "NewDaemon nz rnd s k as = Some c \<Longrightarrow> daemon_inv s k as c"
  by (auto simp: NewDaemon_def daemon_inv_def)

lemma hs1_fresh_inv:
  "daemon_inv s k as c \<Longrightarrow> hs1_fresh nz rnd c = Some c1 \<Longrightarrow>
     daemon_inv s k as c1 \<and> hs c1 \<noteq> None \<and> send c1 = None \<and> recv c1 = None"
  by (auto simp: hs1_fresh_def daemon_inv_def split: if_splits)

lemma hs1_answer_inv:
  assumes "daemon_inv s k as c" "hs c \<noteq> None"
  shows "daemon_inv s k as (fst (hs1_answer nz c msg))"
proof (cases "readMsg nz (the (hs c)) msg")
  case None
  then show ?thesis using assms by (simp add: hs1_answer_def daemon_inv_def)
next
  case (Some p)
  then show ?thesis
    using assms
    by (cases p; cases rule: authorise_cases [of "c\<lparr>hs := Some (fst p)\<rparr>" "hsPeer nz (fst p)"];
        cases "writeMsg nz (fst p)")
      (simp_all add: hs1_answer_def daemon_inv_def case_prod_unfold)
qed

lemma readHandshake1_inv:
  "daemon_inv s k as c \<Longrightarrow> daemon_inv s k as (fst (readHandshake1 nz rnd c m))"
  by (auto simp: readHandshake1_def intro: hs1_answer_inv dest: hs1_fresh_inv split: option.splits)

lemma readTransport_inv: "daemon_inv s k as c \<Longrightarrow> daemon_inv s k as (fst (readTransport nz c n))"
  by (auto simp: readTransport_def daemon_inv_def split: option.splits)

lemma readHandshake2_daemon [simp]: "\<not> initiator c \<Longrightarrow> readHandshake2 nz c m = c"
  by (simp add: readHandshake2_def)

lemma daemon_inv_responder: "daemon_inv s k as c \<Longrightarrow> \<not> initiator c"
  by (simp add: daemon_inv_def)

lemma s_handle_inv: "daemon_inv s k as c \<Longrightarrow> daemon_inv s k as (fst (s_handle nz rnd c b))"
  using readHandshake1_inv [of s k as c nz rnd] readTransport_inv [of s k as c nz] daemon_inv_responder [of s k as c]
  by (cases "unmarshal_strs s_fields b") (simp_all add: s_handle_def case_prod_unfold Let_def)

lemma s_Send_inv: "daemon_inv s k as c \<Longrightarrow> daemon_inv s k as (fst (s_Send nz c b))"
  by (auto simp: s_Send_def daemon_inv_def split: option.splits)

lemma s_reach_inv: "s_reach nz c0 c \<Longrightarrow> daemon_inv s k as c0 \<Longrightarrow> daemon_inv s k as c"
  by (induction rule: s_reach.induct) (auto intro: s_handle_inv s_Send_inv)

text \<open>What \<open>handle\<close> delivers, whatever the state.\<close>

lemma readTransport_delivers:
  "readTransport nz c n = (c', Some d) \<Longrightarrow>
     \<exists>r r' raw. recv c = Some r \<and> csDecrypt nz r (ad (sid c) (\<not> initiator c)) raw = Some (r', d) \<and> c' = c\<lparr>recv := Some r'\<rparr>"
  by (auto simp: readTransport_def split: option.splits)

lemma s_handle_delivers:
  assumes "s_handle nz rnd c b = (c', Some d, out)"
  shows "out = None \<and>
    ((\<exists>f. unmarshal_strs s_fields b = Some f \<and> f ''sys'' \<noteq> [] \<and> d = b \<and> c' = c) \<or>
     (\<exists>r r' raw. recv c = Some r \<and> csDecrypt nz r (ad (sid c) (\<not> initiator c)) raw = Some (r', d) \<and> c' = c\<lparr>recv := Some r'\<rparr>))"
proof (cases "unmarshal_strs s_fields b")
  case None
  then show ?thesis using assms by (simp add: s_handle_def)
next
  case (Some f)
  show ?thesis
  proof (cases "f ''sys'' = [] \<and> f ''nx'' \<noteq> ''1'' \<and> f ''nx'' \<noteq> ''2'' \<and> f ''n'' \<noteq> []")
    case True
    then have "readTransport nz c (f ''n'') = (c', Some d) \<and> out = None"
      using assms Some by (simp add: s_handle_def case_prod_unfold Let_def prod_eq_iff)
    then show ?thesis using readTransport_delivers by blast
  next
    case False
    then show ?thesis
      using assms Some by (auto simp: s_handle_def case_prod_unfold Let_def split: if_splits)
  qed
qed

text \<open>A stand-in for the Noise library on which the theorems below are tried out.\<close>

type_synonym demo_hs = "bool \<times> bytes \<times> bytes"

definition demo_noise :: "(demo_hs, nat) noise" where
  "demo_noise =
     \<lparr>newHS = (\<lambda>i pro k peer rnd. Some (i, Public k, peer)),
      readMsg = (\<lambda>(i, own, peer) m. if m = [] then None else if i then Some ((i, own, peer), Some (0, 0)) else Some ((i, own, m), None)),
      writeMsg = (\<lambda>(i, own, peer). if own = [] then None else Some ((i, own, peer), own, if i then None else Some (0, 0))),
      hsPeer = (\<lambda>(i, own, peer). peer),
      csEncrypt = (\<lambda>n a p. Some (Suc n, CHR ''!'' # p)),
      csDecrypt = (\<lambda>n a c. case c of [] \<Rightarrow> None | _ # p \<Rightarrow> Some (Suc n, p))\<rparr>"

definition demo_conn :: "bytes list \<Rightarrow> (demo_hs, nat) sconn" where
  "demo_conn as =
     \<lparr>initiator = False, sid = ''s'', static = \<lparr>Private = ''d'', Public = ''D''\<rparr>, authorised = as, hs = Some (False, ''D'', []),
      send = None, recv = None, peerPub = [], failErr = None, ready = False, closed = False, pins = []\<rparr>"

definition demo_nx1 :: "string \<Rightarrow> bytes" where
  "demo_nx1 pub = str_frame [(''nx'', ''1''), (''m'', std_encode pub)]"

lemma demo_NewDaemon: "NewDaemon demo_noise [] ''s'' \<lparr>Private = ''d'', Public = ''D''\<rparr> as = Some (demo_conn as)"
  by (simp add: NewDaemon_def demo_noise_def demo_conn_def)

text \<open>
  C3: A daemon with a list of authorised vaults hears nobody else. Whatever frames the
  network delivers and whatever the node sends, as long as the daemon holds session keys the
  vault they were agreed with is on the list; and a frame handed up to the node is either a
  system frame in the clear, passed on unchanged, or the decryption, bound to this session
  and to the direction from vault to daemon, of a frame under the keys agreed with a vault
  on the list.
\<close>

theorem daemon_hears_only_authorised:
  assumes "NewDaemon nz rnd0 s k as = Some c0" and "as \<noteq> []" and "s_reach nz c0 c"
  shows "(Established c \<longrightarrow> peerPub c \<in> set as) \<and>
    (\<forall>rnd b c' d out. s_handle nz rnd c b = (c', Some d, out) \<longrightarrow> out = None \<and>
       ((\<exists>f. unmarshal_strs s_fields b = Some f \<and> f ''sys'' \<noteq> [] \<and> d = b \<and> c' = c) \<or>
        (peerPub c \<in> set as \<and>
         (\<exists>r r' raw. recv c = Some r \<and> csDecrypt nz r (ad s True) raw = Some (r', d) \<and> c' = c\<lparr>recv := Some r'\<rparr>))))"
proof -
  have inv: "daemon_inv s k as c" by (rule s_reach_inv [OF assms(3) NewDaemon_inv [OF assms(1)]])
  then have c: "recv c \<noteq> None \<Longrightarrow> peerPub c \<in> set as" "\<not> initiator c" "sid c = s"
    "Established c \<Longrightarrow> peerPub c \<in> set as"
    using assms(2) by (auto simp: daemon_inv_def Established_def)
  show ?thesis
  proof (intro conjI allI impI)
    show "peerPub c \<in> set as" if "Established c" using that by (rule c(4))
  next
    fix rnd b c' d out assume h: "s_handle nz rnd c b = (c', Some d, out)"
    from s_handle_delivers [OF h] show "out = None" by blast
    from s_handle_delivers [OF h] c(1-3)
    show "(\<exists>f. unmarshal_strs s_fields b = Some f \<and> f ''sys'' \<noteq> [] \<and> d = b \<and> c' = c) \<or>
        (peerPub c \<in> set as \<and>
         (\<exists>r r' raw. recv c = Some r \<and> csDecrypt nz r (ad s True) raw = Some (r', d) \<and> c' = c\<lparr>recv := Some r'\<rparr>))"
      by auto
  qed
qed

theorem daemon_hears_only_authorised_witness:
  "\<exists>c. s_reach demo_noise (demo_conn [''V'']) c \<and> Established c \<and> peerPub c \<in> set [''V''] \<and>
     s_handle demo_noise [] c (str_frame [(''n'', std_encode ''!hi'')]) = (c\<lparr>recv := Some 1\<rparr>, Some ''hi'', None)"
proof -
  let ?c = "fst (s_handle demo_noise [] (demo_conn [''V'']) (demo_nx1 ''V''))"
  have r: "s_reach demo_noise (demo_conn [''V'']) ?c" by (intro s_reach_frame s_reach_start)
  have "Established ?c" "s_handle demo_noise [] ?c (str_frame [(''n'', std_encode ''!hi'')]) = (?c\<lparr>recv := Some 1\<rparr>, Some ''hi'', None)"
    by code_simp+
  moreover have "peerPub ?c \<in> set [''V'']"
    using daemon_hears_only_authorised [OF demo_NewDaemon _ r] \<open>Established ?c\<close> by simp
  ultimately show ?thesis using r by blast
qed

text \<open>
  Trust on first use does not pin. A daemon connection without a list of authorised
  vaults answers every well-formed first handshake message that reaches it, whoever
  completed one before: the vault it names becomes the peer, is handed to \<open>OnPin\<close>, and the
  list the connection checks stays empty, so that the next vault is accepted as well.
\<close>

theorem tofu_accepts_every_vault:
  assumes "NewDaemon nz rnd0 s k [] = Some c0" and "s_reach nz c0 c" and "hs c = None"
    and "newHS nz False (prologue s) k [] rnd = Some h0" and "readMsg nz h0 msg = Some (h, x)"
    and "writeMsg nz h = Some (h', out, Some cs)"
  shows "\<exists>c'. readHandshake1 nz rnd c (std_encode msg) = (c', Some (str_frame [(''nx'', ''2''), (''m'', std_encode out)])) \<and>
    Established c' \<and> peerPub c' = hsPeer nz h \<and> pins c' = pins c @ [hsPeer nz h] \<and> authorised c' = [] \<and> closed c' = closed c"
proof -
  have "daemon_inv s k [] c" by (rule s_reach_inv [OF assms(2) NewDaemon_inv [OF assms(1)]])
  then have "\<not> initiator c" "sid c = s" "static c = k" "authorised c = []" by (auto simp: daemon_inv_def)
  then show ?thesis
    using assms by (simp add: readHandshake1_def hs1_fresh_def hs1_answer_def authorise_def Established_def)
qed

theorem tofu_accepts_every_vault_witness:
  "\<exists>c c'. s_reach demo_noise (demo_conn []) c \<and> peerPub c = ''V'' \<and> Established c \<and>
     fst (readHandshake1 demo_noise [] c (std_encode ''W'')) = c' \<and> Established c' \<and> peerPub c' = ''W'' \<and> pins c' = [''V'', ''W'']"
proof -
  let ?c = "fst (s_handle demo_noise [] (demo_conn []) (demo_nx1 ''V''))"
  have r: "s_reach demo_noise (demo_conn []) ?c" by (intro s_reach_frame s_reach_start)
  have c: "hs ?c = None" "peerPub ?c = ''V''" "pins ?c = [''V'']" "Established ?c" by code_simp+
  have "newHS demo_noise False (prologue ''s'') \<lparr>Private = ''d'', Public = ''D''\<rparr> [] [] = Some (False, ''D'', [])"
    "readMsg demo_noise (False, ''D'', []) ''W'' = Some ((False, ''D'', ''W''), None)"
    "writeMsg demo_noise (False, ''D'', ''W'') = Some ((False, ''D'', ''W''), ''D'', Some (0, 0))"
    "hsPeer demo_noise (False, ''D'', ''W'') = ''W''"
    by (simp_all add: demo_noise_def)
  with tofu_accepts_every_vault [OF demo_NewDaemon r c(1) this(1-3)] r c show ?thesis by force
qed

text \<open>
  A single unauthenticated frame ends an established session. When the daemon holds the
  keys of a completed handshake, any frame \<open>nx:1\<close> whose payload decodes drops them before the
  payload is looked at; if the payload is then no handshake message, nothing replaces them,
  and both the application frames of the vault and the daemon's answers are lost.
\<close>

theorem forged_handshake_drops_keys:
  assumes "NewDaemon nz rnd0 s k as = Some c0" and "s_reach nz c0 c" and "Established c"
    and "newHS nz False (prologue s) k [] rnd = Some h0" and "readMsg nz h0 msg = None"
  shows "\<exists>c'. s_handle nz rnd c (str_frame [(''nx'', ''1''), (''m'', std_encode msg)]) = (c', None, None) \<and>
    \<not> Established c' \<and> recv c' = None \<and> closed c' = closed c \<and> failErr c' = failErr c \<and>
    (\<forall>b. s_Send nz c' b = (c', Inl ErrNotEstablished)) \<and> (\<forall>n. readTransport nz c' n = (c', None))"
proof -
  have "daemon_inv s k as c" by (rule s_reach_inv [OF assms(2) NewDaemon_inv [OF assms(1)]])
  then have c: "\<not> initiator c" "sid c = s" "static c = k" "hs c = None"
    using assms(3) by (auto simp: daemon_inv_def Established_def)
  let ?c = "c\<lparr>hs := None, send := None, recv := None\<rparr>"
  have "readHandshake1 nz rnd c (std_encode msg) = (?c, None)"
    using c assms(4,5) by (simp add: readHandshake1_def hs1_fresh_def hs1_answer_def)
  then have "s_handle nz rnd c (str_frame [(''nx'', ''1''), (''m'', std_encode msg)]) = (?c, None, None)"
    by (simp add: s_handle_nx1)
  then show ?thesis
    by (auto simp: Established_def s_Send_def readTransport_def split: option.splits)
qed

theorem forged_handshake_drops_keys_witness:
  "\<exists>c c'. s_reach demo_noise (demo_conn [''V'']) c \<and> Established c \<and>
     s_handle demo_noise [] c (str_frame [(''nx'', ''1''), (''m'', std_encode [])]) = (c', None, None) \<and> \<not> Established c'"
proof -
  let ?c = "fst (s_handle demo_noise [] (demo_conn [''V'']) (demo_nx1 ''V''))"
  have r: "s_reach demo_noise (demo_conn [''V'']) ?c" by (intro s_reach_frame s_reach_start)
  have e: "Established ?c" by code_simp
  have "newHS demo_noise False (prologue ''s'') \<lparr>Private = ''d'', Public = ''D''\<rparr> [] [] = Some (False, ''D'', [])"
    "readMsg demo_noise (False, ''D'', []) [] = None"
    by (simp_all add: demo_noise_def)
  from forged_handshake_drops_keys [OF demo_NewDaemon r e this] r e show ?thesis by blast
qed

section \<open>The channel between a vault and a daemon\<close>

text \<open>
  What the layer relies on of the Noise library, for pairs of keys that satisfy \<open>K\<close> and a relation
  \<open>R\<close> between a sending cipher state and the receiving one that mirrors it: in an IK handshake
  between an initiator that knows the responder's key and that responder, over the same prologue,
  the first message is read and reveals the initiator's key, and the answer gives both ends
  mirrored cipher states; and what one cipher state encrypts its mirror decrypts, once, under the
  same additional data. Every call may still fail.
\<close>

definition cipher_law :: "('hs, 'cs) noise \<Rightarrow> ('cs \<Rightarrow> 'cs \<Rightarrow> bool) \<Rightarrow> bool" where
  "cipher_law nz R \<longleftrightarrow>
     (\<forall>s r a p s' ct. R s r \<longrightarrow> csEncrypt nz s a p = Some (s', ct) \<longrightarrow>
        ct \<noteq> [] \<and> (\<exists>r'. csDecrypt nz r a ct = Some (r', p) \<and> R s' r'))"

definition handshake_law :: "('hs, 'cs) noise \<Rightarrow> (DHKey \<Rightarrow> bool) \<Rightarrow> ('cs \<Rightarrow> 'cs \<Rightarrow> bool) \<Rightarrow> bool" where
  "handshake_law nz K R \<longleftrightarrow>
     (\<forall>pro ki kr ri rr hi hr hi1 m1 x.
        K ki \<longrightarrow> K kr \<longrightarrow> newHS nz True pro ki (Public kr) ri = Some hi \<longrightarrow> newHS nz False pro kr [] rr = Some hr \<longrightarrow>
        writeMsg nz hi = Some (hi1, m1, x) \<longrightarrow>
        (\<exists>hr1 y. readMsg nz hr m1 = Some (hr1, y) \<and> hsPeer nz hr1 = Public ki \<and>
           (\<forall>hr2 m2 cs. writeMsg nz hr1 = Some (hr2, m2, cs) \<longrightarrow>
              (\<exists>hi2 c1 c2 d1 d2. cs = Some (d1, d2) \<and> readMsg nz hi1 m2 = Some (hi2, Some (c1, c2)) \<and> R c1 d1 \<and> R d2 c2))))"

text \<open>The two ends of an established session.\<close>

definition linked :: "('cs \<Rightarrow> 'cs \<Rightarrow> bool) \<Rightarrow> ('hs, 'cs) sconn \<Rightarrow> ('hs, 'cs) sconn \<Rightarrow> bool" where
  "linked R a b \<longleftrightarrow> sid a = sid b \<and> initiator a = (\<not> initiator b) \<and>
     (\<exists>s r s' r'. send a = Some s \<and> recv b = Some r \<and> send b = Some s' \<and> recv a = Some r' \<and> R s r \<and> R s' r')"

lemma linked_sym: "linked R a b \<Longrightarrow> linked R b a"
  by (auto simp: linked_def)

lemma linked_send:
  assumes "cipher_law nz R" "linked R a b" "s_Send nz a p = (a', Inr fr)"
  shows "\<exists>b'. s_handle nz rnd b fr = (b', Some p, None) \<and> linked R a' b'"
proof -
  from assms(2) obtain s r s' r' where l: "sid a = sid b" "initiator a = (\<not> initiator b)" "send a = Some s" "recv b = Some r"
    "send b = Some s'" "recv a = Some r'" "R s r" "R s' r'" unfolding linked_def by blast
  from assms(3) l obtain s2 ct where e: "csEncrypt nz s (ad (sid a) (initiator a)) p = Some (s2, ct)" "a' = a\<lparr>send := Some s2\<rparr>"
    "fr = str_frame [(''n'', std_encode ct)]" by (auto simp: s_Send_def split: option.splits)
  from assms(1) l(7) e(1) obtain r2 where d: "ct \<noteq> []" "csDecrypt nz r (ad (sid a) (initiator a)) ct = Some (r2, p)" "R s2 r2"
    unfolding cipher_law_def by blast
  have "s_handle nz rnd b fr = (b\<lparr>recv := Some r2\<rparr>, Some p, None)"
    using d l e by (simp add: s_handle_n readTransport_def)
  moreover have "linked R a' (b\<lparr>recv := Some r2\<rparr>)" using l d e by (simp add: linked_def)
  ultimately show ?thesis by blast
qed

text \<open>
  A conversation: each message is sent by the vault (\<open>True\<close>) or by the daemon and handled by
  the other end. The result has, per message, the error of \<open>Send\<close> or what was delivered.
\<close>

fun talk :: "('hs, 'cs) noise \<Rightarrow> ('hs, 'cs) sconn \<Rightarrow> ('hs, 'cs) sconn \<Rightarrow> (bool \<times> bytes) list \<Rightarrow> (sess_error + bytes option) list" where
  "talk nz v d [] = []"
| "talk nz v d ((up, p) # ms) =
     (if up then (case s_Send nz v p of
        (v', Inl e) \<Rightarrow> Inl e # talk nz v' d ms
      | (v', Inr fr) \<Rightarrow> (case s_handle nz [] d fr of (d', x, _) \<Rightarrow> Inr x # talk nz v' d' ms))
      else (case s_Send nz d p of
        (d', Inl e) \<Rightarrow> Inl e # talk nz v d' ms
      | (d', Inr fr) \<Rightarrow> (case s_handle nz [] v fr of (v', x, _) \<Rightarrow> Inr x # talk nz v' d' ms)))"

lemma linked_send_error: "linked R a b \<Longrightarrow> s_Send nz a p = (a', Inl e) \<Longrightarrow> a' = a \<and> e = ErrNoise"
  by (auto simp: linked_def s_Send_def split: option.splits)

lemma talk_linked:
  "cipher_law nz R \<Longrightarrow> linked R v d \<Longrightarrow> list_all2 (\<lambda>(_, p) r. r = Inr (Some p) \<or> r = Inl ErrNoise) ms (talk nz v d ms)"
proof (induction ms arbitrary: v d)
  case (Cons m ms)
  obtain up p where m: "m = (up, p)" by (cases m)
  show ?case
  proof (cases up)
    case True
    obtain v' r where s: "s_Send nz v p = (v', r)" by (cases "s_Send nz v p")
    show ?thesis
    proof (cases r)
      case (Inl e)
      then show ?thesis using Cons linked_send_error [OF Cons.prems(2), of nz p v' e] s m True by simp
    next
      case (Inr fr)
      then obtain d' where "s_handle nz [] d fr = (d', Some p, None)" "linked R v' d'"
        using linked_send [OF Cons.prems] s by blast
      then show ?thesis using Cons s m True Inr by simp
    qed
  next
    case False
    obtain d' r where s: "s_Send nz d p = (d', r)" by (cases "s_Send nz d p")
    show ?thesis
    proof (cases r)
      case (Inl e)
      then show ?thesis using Cons linked_send_error [OF linked_sym [OF Cons.prems(2)], of nz p d' e] s m False by simp
    next
      case (Inr fr)
      then obtain v' where "s_handle nz [] v fr = (v', Some p, None)" "linked R v' d'"
        using linked_send [OF Cons.prems(1) linked_sym [OF Cons.prems(2)]] s linked_sym by blast
      then show ?thesis using Cons s m False Inr by simp
    qed
  qed
qed simp

lemma handshake_lawD:
  assumes "handshake_law nz K R" "K ki" "K kr" "newHS nz True pro ki (Public kr) ri = Some hi" "newHS nz False pro kr [] rr = Some hr"
    "writeMsg nz hi = Some (hi1, m1, x)"
  obtains hr1 y where "readMsg nz hr m1 = Some (hr1, y)" "hsPeer nz hr1 = Public ki"
    "\<And>hr2 m2 cs. writeMsg nz hr1 = Some (hr2, m2, cs) \<Longrightarrow>
       \<exists>hi2 c1 c2 d1 d2. cs = Some (d1, d2) \<and> readMsg nz hi1 m2 = Some (hi2, Some (c1, c2)) \<and> R c1 d1 \<and> R d2 c2"
  using assms unfolding handshake_law_def by meson

text \<open>The first message of a vault, handled by a daemon whose handshake is fresh.\<close>

lemma hs1_answer_ok:
  assumes "hs c = Some h0" "readMsg nz h0 msg = Some (h, y)" "hsPeer nz h = pub" "authorised c = [] \<or> pub \<in> set (authorised c)"
    "hs1_answer nz c msg = (c', Some fr)"
  obtains h' out cs where "writeMsg nz h = Some (h', out, cs)" "fr = str_frame [(''nx'', ''2''), (''m'', std_encode out)]"
    "send c' = map_option snd cs" "recv c' = map_option fst cs" "peerPub c' = pub" "sid c' = sid c" "initiator c' = initiator c"
proof (cases "writeMsg nz h")
  case None
  then show ?thesis
    using assms by (cases rule: authorise_cases [of "c\<lparr>hs := Some h\<rparr>" pub]) (simp_all add: hs1_answer_def)
next
  case (Some w)
  then show ?thesis
    using assms that
    by (cases w; cases rule: authorise_cases [of "c\<lparr>hs := Some h\<rparr>" pub]) (auto simp: hs1_answer_def)
qed


lemma demo_laws:
  "cipher_law demo_noise (=)" "handshake_law demo_noise (\<lambda>k. Public k \<noteq> []) (=)"
  by (auto simp: cipher_law_def handshake_law_def demo_noise_def)


end
