(* ===== verification/Dual.thy ===== *)
theory Dual
  imports E2ee Session
begin

text \<open>
  The dispatcher of \<open>internal/session/dual.go\<close>: one daemon connection that becomes a version 1
  or a version 2 connection by the first handshake frame it sees. The shim hands frames to the
  handler the chosen layer has registered, so handing a frame to the shim is handing it to that
  layer, and to nobody before a layer is chosen.
\<close>

datatype ('hs, 'cs) layer = LayerV1 v1_conn | LayerV2 "('hs, 'cs) sconn"

record ('hs, 'cs) dual =
  v1cfg :: KeyPair
  v2sid :: string
  v2static :: DHKey
  v2auth :: "bytes list"
  chosen :: "('hs, 'cs) layer option"
  version :: int

definition NewDual :: "KeyPair \<Rightarrow> string \<Rightarrow> DHKey \<Rightarrow> bytes list \<Rightarrow> ('hs, 'cs) dual" where
  "NewDual pair sessID key vaults =
     \<lparr>v1cfg = pair, v2sid = sessID, v2static = key, v2auth = vaults, chosen = None, version = 0\<rparr>"

definition probe_fields :: "string list" where
  "probe_fields = [''sys'', ''kx'', ''nx'']"

definition dual_choose :: "('hs, 'cs) noise \<Rightarrow> bytes \<Rightarrow> int \<Rightarrow> ('hs, 'cs) dual \<Rightarrow> ('hs, 'cs) dual" where
  "dual_choose nz rnd v d =
     (if chosen d \<noteq> None then d
      else if v = 2 then
        (case NewDaemon nz rnd (v2sid d) (v2static d) (v2auth d) of
           None \<Rightarrow> d
         | Some c \<Rightarrow> d\<lparr>chosen := Some (LayerV2 c), version := v\<rparr>)
      else d\<lparr>chosen := Some (LayerV1 (WrapDaemon (v1cfg d))), version := v\<rparr>)"

text \<open>\<open>feed\<close>: the new state, the frame delivered upwards and the frame sent.\<close>

definition feed ::
  "v1_crypto \<Rightarrow> ('hs, 'cs) noise \<Rightarrow> bytes \<Rightarrow> ('hs, 'cs) dual \<Rightarrow> bytes \<Rightarrow> ('hs, 'cs) dual \<times> bytes option \<times> bytes option" where
  "feed cr nz rnd d b =
     (case chosen d of
        None \<Rightarrow> (d, None, None)
      | Some (LayerV1 c) \<Rightarrow> (case v1_handle cr c b of (c', x) \<Rightarrow> (d\<lparr>chosen := Some (LayerV1 c')\<rparr>, x, None))
      | Some (LayerV2 c) \<Rightarrow> (case s_handle nz rnd c b of (c', x, out) \<Rightarrow> (d\<lparr>chosen := Some (LayerV2 c')\<rparr>, x, out)))"

definition dual_handle ::
  "v1_crypto \<Rightarrow> ('hs, 'cs) noise \<Rightarrow> bytes \<Rightarrow> ('hs, 'cs) dual \<Rightarrow> bytes \<Rightarrow> ('hs, 'cs) dual \<times> bytes option \<times> bytes option" where
  "dual_handle cr nz rnd d b =
     (case unmarshal_strs probe_fields b of
        None \<Rightarrow> (d, None, None)
      | Some p \<Rightarrow>
          if chosen d = None then
            if p ''nx'' = ''1'' then feed cr nz rnd (dual_choose nz rnd 2 d) b
            else if p ''kx'' = ''hello'' then feed cr nz rnd (dual_choose nz rnd 1 d) b
            else if p ''sys'' \<noteq> [] then (d, Some b, None)
            else (d, None, None)
          else feed cr nz rnd d b)"

text \<open>\<open>Send\<close>: the frame that goes out, \<open>None\<close> for an error.\<close>

definition dual_Send ::
  "v1_crypto \<Rightarrow> ('hs, 'cs) noise \<Rightarrow> bytes \<Rightarrow> ('hs, 'cs) dual \<Rightarrow> bytes \<Rightarrow> ('hs, 'cs) dual \<times> bytes option" where
  "dual_Send cr nz nonce d b =
     (case chosen d of
        None \<Rightarrow> (d, None)
      | Some (LayerV1 c) \<Rightarrow> (d, v1_Send cr c nonce b)
      | Some (LayerV2 c) \<Rightarrow>
          (case s_Send nz c b of
             (c', Inl _) \<Rightarrow> (d\<lparr>chosen := Some (LayerV2 c')\<rparr>, None)
           | (c', Inr f) \<Rightarrow> (d\<lparr>chosen := Some (LayerV2 c')\<rparr>, Some f)))"

section \<open>The choice is made once\<close>

inductive dual_reach :: "v1_crypto \<Rightarrow> ('hs, 'cs) noise \<Rightarrow> ('hs, 'cs) dual \<Rightarrow> ('hs, 'cs) dual \<Rightarrow> bool" for cr nz d0 where
  dual_reach_start: "dual_reach cr nz d0 d0"
| dual_reach_frame: "dual_reach cr nz d0 d \<Longrightarrow> dual_reach cr nz d0 (fst (dual_handle cr nz rnd d b))"
| dual_reach_send: "dual_reach cr nz d0 d \<Longrightarrow> dual_reach cr nz d0 (fst (dual_Send cr nz nonce d b))"

text \<open>The version that a dispatcher reports is the kind of layer it runs.\<close>

definition version_of :: "('hs, 'cs) dual \<Rightarrow> int" where
  "version_of d = (case chosen d of None \<Rightarrow> 0 | Some (LayerV1 _) \<Rightarrow> 1 | Some (LayerV2 _) \<Rightarrow> 2)"

definition dual_inv :: "('hs, 'cs) noise \<Rightarrow> string \<Rightarrow> DHKey \<Rightarrow> bytes list \<Rightarrow> ('hs, 'cs) dual \<Rightarrow> bool" where
  "dual_inv nz s k as d \<longleftrightarrow>
     v2sid d = s \<and> v2static d = k \<and> v2auth d = as \<and> version d = version_of d \<and>
     (\<forall>c. chosen d = Some (LayerV2 c) \<longrightarrow> daemon_inv s k as c) \<and>
     (\<forall>c. chosen d = Some (LayerV1 c) \<longrightarrow> \<not> isController c)"

lemma NewDual_inv: "dual_inv nz s k as (NewDual pair s k as)"
  by (simp add: dual_inv_def NewDual_def version_of_def)

lemma v1_handle_role [simp]: "isController (fst (v1_handle cr c b)) = isController c"
  by (simp add: v1_handle_def v1_hello_def split: option.split)

lemma dual_choose_inv: "dual_inv nz s k as d \<Longrightarrow> v = 1 \<or> v = 2 \<Longrightarrow> dual_inv nz s k as (dual_choose nz rnd v d)"
  by (auto simp: dual_choose_def dual_inv_def version_of_def WrapDaemon_def dest: NewDaemon_inv split: option.split)

lemma feed_inv: "dual_inv nz s k as d \<Longrightarrow> dual_inv nz s k as (fst (feed cr nz rnd d b))"
  using s_handle_inv [where nz = nz and rnd = rnd and b = b] v1_handle_role [where cr = cr and b = b]
  by (auto simp: feed_def dual_inv_def version_of_def case_prod_unfold split: option.splits layer.splits)

lemma dual_handle_inv: "dual_inv nz s k as d \<Longrightarrow> dual_inv nz s k as (fst (dual_handle cr nz rnd d b))"
  by (simp add: dual_handle_def feed_inv dual_choose_inv split: option.split)

lemma dual_Send_inv: "dual_inv nz s k as d \<Longrightarrow> dual_inv nz s k as (fst (dual_Send cr nz nonce d b))"
  using s_Send_inv [where nz = nz and b = b]
  by (auto simp: dual_Send_def dual_inv_def version_of_def case_prod_unfold split: option.splits layer.splits sum.splits)

lemma dual_reach_inv: "dual_reach cr nz d0 d \<Longrightarrow> dual_inv nz s k as d0 \<Longrightarrow> dual_inv nz s k as d"
  by (induction rule: dual_reach.induct) (auto intro: dual_handle_inv dual_Send_inv)

lemma feed_version: "version_of (fst (feed cr nz rnd d b)) = version_of d"
  by (auto simp: feed_def version_of_def case_prod_unfold split: option.split layer.split)

lemma version_of_0: "version_of d = 0 \<longleftrightarrow> chosen d = None"
  by (auto simp: version_of_def split: option.split layer.split)

lemma dual_handle_version: "version_of d \<noteq> 0 \<Longrightarrow> version_of (fst (dual_handle cr nz rnd d b)) = version_of d"
  unfolding version_of_0 by (cases "unmarshal_strs probe_fields b") (auto simp: dual_handle_def feed_version)

lemma dual_Send_version: "version_of (fst (dual_Send cr nz nonce d b)) = version_of d"
  by (auto simp: dual_Send_def version_of_def case_prod_unfold split: option.splits layer.splits sum.splits)

lemma dual_reach_version: "dual_reach cr nz d d' \<Longrightarrow> version_of d \<noteq> 0 \<Longrightarrow> version_of d' = version_of d"
  by (induction rule: dual_reach.induct) (simp_all add: dual_handle_version dual_Send_version)

section \<open>What reaches the node\<close>

lemma v1_handle_delivers:
  assumes "v1_handle cr c b = (c', Some x)"
  shows "c' = c \<and> (x = b \<or> (\<exists>key e. sess c = Some key \<and> sess_open cr key e = Some x))"
  using assms by (auto simp: v1_handle_def split: option.splits if_splits)

text \<open>The four ways a frame can be handed up.\<close>

definition clear_sys :: "bytes \<Rightarrow> bool" where
  "clear_sys b \<longleftrightarrow> (\<exists>f. unmarshal_strs [''sys''] b = Some f \<and> f ''sys'' \<noteq> [])"

lemma clear_sysI:
  assumes "unmarshal_strs names b = Some f" "f ''sys'' \<noteq> []" "''sys'' \<in> set names"
  shows "clear_sys b"
  using assms by (auto simp: clear_sys_def unmarshal_strs_def list_all_iff split: option.splits if_splits)

lemma v1_handle_sys: "v1_handle cr c b = (c', Some b) \<Longrightarrow> clear_sys b \<or> (\<exists>key e. sess c = Some key \<and> sess_open cr key e = Some b)"
  by (auto simp: v1_handle_def v1_fields_def intro: clear_sysI split: option.splits if_splits)

definition opened_v1 :: "v1_crypto \<Rightarrow> ('hs, 'cs) dual \<Rightarrow> bytes \<Rightarrow> bool" where
  "opened_v1 cr d x \<longleftrightarrow> (\<exists>c key e. chosen d = Some (LayerV1 c) \<and> sess c = Some key \<and> sess_open cr key e = Some x)"

definition opened_v2 :: "('hs, 'cs) noise \<Rightarrow> string \<Rightarrow> ('hs, 'cs) dual \<Rightarrow> bytes \<Rightarrow> bool" where
  "opened_v2 nz s d x \<longleftrightarrow>
     (\<exists>c r r' raw. chosen d = Some (LayerV2 c) \<and> recv c = Some r \<and> csDecrypt nz r (ad s True) raw = Some (r', x))"

lemma feed_delivers:
  assumes "feed cr nz rnd d b = (d', Some x, out)" and inv: "dual_inv nz s k as d"
  shows "out = None \<and> ((x = b \<and> clear_sys b) \<or> opened_v1 cr d x \<or> opened_v2 nz s d x)"
proof (cases "chosen d")
  case None
  then show ?thesis using assms by (simp add: feed_def)
next
  case (Some l)
  show ?thesis
  proof (cases l)
    case (LayerV1 c)
    then obtain c' where "v1_handle cr c b = (c', Some x)" "out = None"
      using assms(1) Some by (auto simp: feed_def split: prod.splits)
    then show ?thesis
      using LayerV1 Some v1_handle_delivers v1_handle_sys unfolding opened_v1_def by metis
  next
    case (LayerV2 c)
    then obtain c' where h: "s_handle nz rnd c b = (c', Some x, out)"
      using assms(1) Some by (auto simp: feed_def split: prod.splits)
    have "sid c = s" "\<not> initiator c" using inv Some LayerV2 by (auto simp: dual_inv_def daemon_inv_def)
    then have "(\<exists>f. unmarshal_strs s_fields b = Some f \<and> f ''sys'' \<noteq> [] \<and> x = b) \<or> opened_v2 nz s d x" "out = None"
      using s_handle_delivers [OF h] Some LayerV2 unfolding opened_v2_def by auto
    then show ?thesis by (auto simp: s_fields_def intro: clear_sysI)
  qed
qed

lemma fresh_layer: "chosen d = None \<Longrightarrow> \<not> opened_v1 cr (dual_choose nz rnd v d) x \<and> \<not> opened_v2 nz s (dual_choose nz rnd v d) x"
  by (auto simp: dual_choose_def opened_v1_def opened_v2_def WrapDaemon_def NewDaemon_def split: option.splits)

lemma dual_delivers:
  assumes "dual_handle cr nz rnd d b = (d', Some x, out)" and inv: "dual_inv nz s k as d"
  shows "out = None \<and> ((x = b \<and> clear_sys b) \<or> opened_v1 cr d x \<or> opened_v2 nz s d x)"
proof -
  obtain p where p: "unmarshal_strs probe_fields b = Some p"
    using assms by (cases "unmarshal_strs probe_fields b") (auto simp: dual_handle_def)
  show ?thesis
  proof (cases "chosen d")
    case None
    have f: "out = None \<and> x = b \<and> clear_sys b" if "feed cr nz rnd (dual_choose nz rnd v d) b = (d', Some x, out)" "v = 1 \<or> v = 2" for v
      using feed_delivers [OF that(1) dual_choose_inv [OF inv that(2)]] fresh_layer [OF None] by blast
    consider "p ''nx'' = ''1''" | "p ''nx'' \<noteq> ''1''" "p ''kx'' = ''hello''" | "p ''nx'' \<noteq> ''1''" "p ''kx'' \<noteq> ''hello''" by blast
    then show ?thesis
      using assms(1) p None f by cases (auto simp: dual_handle_def probe_fields_def intro: clear_sysI split: if_splits)
  next
    case (Some l)
    then show ?thesis using assms(1) p feed_delivers [OF _ inv] by (simp add: dual_handle_def)
  qed
qed

text \<open>
  C31: The version of a connection is settled once, by the first handshake frame, and the hub
  cannot move it. In every state reached from a fresh connection, whatever is received and
  sent, the reported version is that of the layer in use and stays the same for ever after;
  before the choice nothing can be sent. A frame handed to the node is a system frame in
  the clear, a frame opened with a version 1 key, or, under version 2, the decryption of a
  frame from a vault on the list of authorised ones when there is such a list.
\<close>

theorem dual_settles_once:
  assumes "dual_reach cr nz (NewDual pair s k as) d"
  shows "version d = version_of d \<and>
    (version d \<noteq> 0 \<longrightarrow> (\<forall>d'. dual_reach cr nz d d' \<longrightarrow> version d' = version d)) \<and>
    (version d = 0 \<longrightarrow> (\<forall>nonce b. dual_Send cr nz nonce d b = (d, None))) \<and>
    (\<forall>rnd b d' x out. dual_handle cr nz rnd d b = (d', Some x, out) \<longrightarrow> out = None \<and>
       ((x = b \<and> clear_sys b) \<or> (version d = 1 \<and> opened_v1 cr d x) \<or>
        (version d = 2 \<and> opened_v2 nz s d x \<and> (as \<noteq> [] \<longrightarrow> (\<exists>c. chosen d = Some (LayerV2 c) \<and> peerPub c \<in> set as)))))"
proof -
  have inv: "dual_inv nz s k as d" by (rule dual_reach_inv [OF assms NewDual_inv])
  then have v: "version d = version_of d" by (simp add: dual_inv_def)
  have stay: "version d' = version d" if "version d \<noteq> 0" "dual_reach cr nz d d'" for d'
  proof -
    have "version d' = version_of d'" using dual_reach_inv [OF that(2) inv] by (simp add: dual_inv_def)
    then show ?thesis using dual_reach_version [OF that(2)] that(1) v by simp
  qed
  have v1: "version d = 1" if "opened_v1 cr d x" for x
    using that v by (auto simp: opened_v1_def version_of_def)
  have v2: "version d = 2 \<and> (as \<noteq> [] \<longrightarrow> (\<exists>c. chosen d = Some (LayerV2 c) \<and> peerPub c \<in> set as))" if "opened_v2 nz s d x" for x
    using that v inv by (auto simp: opened_v2_def version_of_def dual_inv_def daemon_inv_def)
  show ?thesis
  proof (intro conjI allI impI)
    show "dual_Send cr nz nonce d b = (d, None)" if "version d = 0" for nonce b
      using that v version_of_0 [of d] by (simp add: dual_Send_def)
    fix rnd b d' x out assume h: "dual_handle cr nz rnd d b = (d', Some x, out)"
    note c = dual_delivers [OF h inv]
    show "out = None" using c by blast
    show "(x = b \<and> clear_sys b) \<or> (version d = 1 \<and> opened_v1 cr d x) \<or>
        (version d = 2 \<and> opened_v2 nz s d x \<and> (as \<noteq> [] \<longrightarrow> (\<exists>c. chosen d = Some (LayerV2 c) \<and> peerPub c \<in> set as)))"
      using c v1 [of x] v2 [of x] by blast
  qed (use v stay in auto)
qed

definition demo_dual :: "bytes list \<Rightarrow> (demo_hs, nat) dual" where
  "demo_dual as = NewDual \<lparr>Priv = ''d'', Pub = ''D''\<rparr> ''s'' \<lparr>Private = ''d'', Public = ''D''\<rparr> as"

theorem dual_settles_once_witness:
  "\<exists>d d' x. dual_reach demo_crypto demo_noise (demo_dual [''V'']) d \<and> version d = 2 \<and>
     dual_handle demo_crypto demo_noise [] d (str_frame [(''n'', std_encode ''!hi'')]) = (d', Some ''hi'', None) \<and> opened_v2 demo_noise ''s'' d ''hi''"
proof -
  let ?d = "fst (dual_handle demo_crypto demo_noise [] (demo_dual [''V'']) (demo_nx1 ''V''))"
  have r: "dual_reach demo_crypto demo_noise (demo_dual [''V'']) ?d" by (intro dual_reach_frame dual_reach_start)
  have v: "version ?d = 2" "snd (dual_handle demo_crypto demo_noise [] ?d (str_frame [(''n'', std_encode ''!hi'')])) = (Some ''hi'', None)"
    by code_simp+
  then obtain d' where h: "dual_handle demo_crypto demo_noise [] ?d (str_frame [(''n'', std_encode ''!hi'')]) = (d', Some ''hi'', None)"
    by (metis prod.collapse)
  have "''hi'' \<noteq> str_frame [(''n'', std_encode ''!hi'')]" by code_simp
  moreover have "(''hi'' = str_frame [(''n'', std_encode ''!hi'')] \<and> clear_sys (str_frame [(''n'', std_encode ''!hi'')])) \<or>
      (version ?d = 1 \<and> opened_v1 demo_crypto ?d ''hi'') \<or> (version ?d = 2 \<and> opened_v2 demo_noise ''s'' ?d ''hi'')"
    using dual_settles_once [OF r [unfolded demo_dual_def], folded demo_dual_def] h by blast
  ultimately have "opened_v2 demo_noise ''s'' ?d ''hi''" using v(1) by simp
  then show ?thesis using r v h by blast
qed

text \<open>
  A list of authorised vaults does not bind a version 1 controller. Whatever vaults the
  daemon was told to accept, anybody who knows its version 1 public key, which the hub hands
  out, gets a working channel by opening with a version 1 hello, and the frames sent over it
  reach the node.
\<close>

theorem v1_ignores_authorised:
  assumes cr: "crypto_laws cr" and d: "Generate cr dk = Some dkp" and c: "Generate cr ck = Some ckp"
    and nonce: "length nonce = nonceSize"
  shows "\<exists>cc hello f d1. WrapController cr ckp (key_PubB64 dkp) = Some cc \<and> v1_Start cc = Some hello \<and>
    v1_Send cr cc nonce b = Some f \<and>
    dual_handle cr nz rnd (NewDual dkp s k as) hello = (d1, None, None) \<and> version d1 = 1 \<and>
    dual_handle cr nz rnd d1 f = (d1, Some b, None)"
proof -
  let ?hello = "str_frame [(''kx'', ''hello''), (''pub'', key_PubB64 ckp)]"
  obtain cc dc where v: "WrapController cr ckp (key_PubB64 dkp) = Some cc" "v1_Start cc = Some ?hello"
    "v1_handle cr (WrapDaemon dkp) ?hello = (dc, None)"
    "\<exists>s. ascii s \<and> s \<noteq> [] \<and> v1_Send cr cc nonce b = Some (str_frame [(''enc'', s)]) \<and> v1_handle cr dc (str_frame [(''enc'', s)]) = (dc, Some b)"
    by (rule v1_pairs [OF cr d c nonce, where b = b])
  then obtain e where e: "ascii e" "e \<noteq> []" "v1_Send cr cc nonce b = Some (str_frame [(''enc'', e)])"
    "v1_handle cr dc (str_frame [(''enc'', e)]) = (dc, Some b)" by blast
  let ?d1 = "(NewDual dkp s k as)\<lparr>chosen := Some (LayerV1 dc), version := 1\<rparr>"
  have "unmarshal_strs probe_fields (str_frame [(''enc'', e)]) = Some (\<lambda>n. get_str n (JObj [(''enc'', JStr e)]))"
    using e by (subst unmarshal_str_frame) auto
  then have "dual_handle cr nz rnd ?d1 (str_frame [(''enc'', e)]) = (?d1, Some b, None)"
    using e by (simp add: dual_handle_def feed_def)
  moreover have "unmarshal_strs probe_fields ?hello =
      Some (\<lambda>n. get_str n (JObj ((''kx'', JStr ''hello'') # (if Pub ckp = [] then [] else [(''pub'', JStr (key_PubB64 ckp))]))))"
    by (subst unmarshal_str_frame) (auto simp: key_PubB64_def)
  then have "dual_handle cr nz rnd (NewDual dkp s k as) ?hello = (?d1, None, None)"
    using v(3) by (simp add: dual_handle_def feed_def dual_choose_def NewDual_def get_str_def)
  ultimately show ?thesis using v e by fastforce
qed

theorem v1_ignores_authorised_witness:
  "\<exists>dkp cc hello f d1. Generate demo_crypto ''d'' = Some dkp \<and> v1_Start cc = Some hello \<and>
     v1_Send demo_crypto cc (replicate 12 (CHR ''n'')) ''hi'' = Some f \<and>
     dual_handle demo_crypto demo_noise [] (NewDual dkp ''s'' \<lparr>Private = ''d'', Public = ''D''\<rparr> [''V'']) hello = (d1, None, None) \<and>
     dual_handle demo_crypto demo_noise [] d1 f = (d1, Some ''hi'', None)"
proof -
  obtain dkp ckp where k: "Generate demo_crypto ''d'' = Some dkp" "Generate demo_crypto ''c'' = Some ckp"
    by (simp add: Generate_def demo_crypto_def)
  have n: "length (replicate 12 (CHR ''n'')) = nonceSize" by (simp add: nonceSize_def)
  from v1_ignores_authorised [OF demo_crypto_laws k n, of "''hi''" demo_noise "[]" "''s''" "\<lparr>Private = ''d'', Public = ''D''\<rparr>" "[''V'']"] k
  show ?thesis by blast
qed

end
