(* ===== verification/Hub.thy ===== *)
theory Hub
  imports Daemon
begin

text \<open>
  The session hub of \<open>internal/hub\<close>. Sessions are objects that the table of sessions and the
  goroutines of open connections point to: \<open>store\<close> holds them by address, \<open>sessions\<close> maps an
  identifier to an address, and \<open>live\<close> has, per open connection, the address and the role its
  goroutine keeps in local variables. Connections are numbered; what an event makes the hub
  write is a list of connections and frames. Random bytes are arguments of the events that
  draw them and SHA-256 is a parameter.
\<close>

definition roleDaemon :: string where "roleDaemon = ''daemon''"
definition roleVault :: string where "roleVault = ''vault''"

record hsession =
  h_id :: string
  daemonTok :: string
  vaultTok :: string
  h_daemonPub :: string
  h_conns :: "(string, nat) gomap"
  h_versions :: "int list option"
  claimHash :: string
  h_daemonPubV2 :: string

definition other :: "string \<Rightarrow> string" where
  "other role = (if role = roleDaemon then roleVault else roleDaemon)"

record hub =
  sessions :: "(string, nat) gomap"
  store :: "hsession list"
  live :: "(nat, nat \<times> string) gomap"

definition hub_New :: hub where
  "hub_New = \<lparr>sessions = [], store = [], live = []\<rparr>"

definition randomHex :: "bytes \<Rightarrow> string" where
  "randomHex b = hex_encode b"

text \<open>A slice of integers, \<open>nil\<close> until an array has been decoded into it.\<close>

definition get_ints_opt :: "string \<Rightarrow> json \<Rightarrow> int list option" where
  "get_ints_opt name j =
     (if foldl (\<lambda>a v. case v of JArr _ \<Rightarrow> False | JNull \<Rightarrow> True | _ \<Rightarrow> a) True (field_vals name j)
      then None else Some (get_ints name j))"

definition ints_json :: "int list option \<Rightarrow> json" where
  "ints_json v = (case v of None \<Rightarrow> JNull | Some xs \<Rightarrow> JArr (map (\<lambda>n. JNum (itoa n)) xs))"

text \<open>\<open>handleCreate\<close>; a body that does not parse leaves the zero struct, so the role is missing.\<close>

definition handleCreate :: "(bytes \<Rightarrow> bytes) \<Rightarrow> bytes \<Rightarrow> bytes \<Rightarrow> bytes \<Rightarrow> hub \<Rightarrow> hub \<times> http_resp" where
  "handleCreate sha rid rtok req s =
     (let j = (case parse_first req of None \<Rightarrow> JNull | Some j \<Rightarrow> j)
      in if get_str ''role'' j \<noteq> roleDaemon then (s, reply_error 400 ''role must be daemon'')
         else let secret = get_str ''claim_secret'' j;
                  x = \<lparr>h_id = randomHex rid, daemonTok = randomHex rtok, vaultTok = [], h_daemonPub = get_str ''pub'' j,
                       h_conns = [], h_versions = get_ints_opt ''versions'' j,
                       claimHash = (if secret \<noteq> [] then hex_encode (sha secret) else []),
                       h_daemonPubV2 = get_str ''pub_v2'' j\<rparr>
              in (s\<lparr>store := store s @ [x], sessions := AList.update (h_id x) (length (store s)) (sessions s)\<rparr>,
                  reply_json 200 [(''session_id'', JStr (h_id x)), (''daemon_token'', JStr (daemonTok x))]))"

definition handleClaim :: "(bytes \<Rightarrow> bytes) \<Rightarrow> bytes \<Rightarrow> string \<Rightarrow> string \<Rightarrow> hub \<Rightarrow> hub \<times> http_resp" where
  "handleClaim sha rtok path secret s =
     (case map_of (sessions s) (trim_suffix (trim_prefix path ''/ws/sessions/'') ''/claim'') of
        None \<Rightarrow> (s, reply_error 404 ''no such session'')
      | Some a \<Rightarrow>
          let x = store s ! a
          in if claimHash x \<noteq> [] \<and> hex_encode (sha secret) \<noteq> claimHash x then (s, reply_error 403 ''forbidden'')
             else let first = (vaultTok x = []);
                      x' = (if first then x\<lparr>vaultTok := randomHex rtok\<rparr> else x)
                  in (s\<lparr>store := (store s)[a := x']\<rparr>,
                      reply_json 200 [(''controller_token'', JStr (vaultTok x')), (''daemon_pub'', JStr (h_daemonPub x)),
                        (''daemon_pub_v2'', JStr (h_daemonPubV2 x)), (''versions'', ints_json (h_versions x)),
                        (''first_claim'', JBool first)]))"

definition presence :: "string \<Rightarrow> string \<Rightarrow> bytes" where
  "presence sys role = marshal (JObj [(''sys'', JStr sys), (''role'', JStr role)])"

text \<open>
  \<open>isSystemFrame\<close> decodes into a map, so the key is compared byte for byte; \<open>isKeepalive\<close>
  decodes into a struct.
\<close>

definition isSystemFrame :: "bytes \<Rightarrow> bool" where
  "isSystemFrame b =
     (case parse_json b of Some (JObj kvs) \<Rightarrow> ''sys'' \<in> set (map fst kvs) | _ \<Rightarrow> False)"

definition isKeepalive :: "bytes \<Rightarrow> bool" where
  "isKeepalive b =
     (case parse_json b of
        None \<Rightarrow> False
      | Some j \<Rightarrow> obj_ok j \<and> str_ok ''sys'' j \<and> get_str ''sys'' j = ''ka'')"

definition ka_ack :: bytes where
  "ka_ack = CHR ''{'' # CHR 0x22 # ''sys'' @ CHR 0x22 # CHR '':'' # CHR 0x22 # ''ka_ack'' @ [CHR 0x22, CHR ''}'']"

text \<open>\<open>handleWS\<close>: up to the loop, one round of the loop, and the deferred function.\<close>

definition ws_open :: "nat \<Rightarrow> string \<Rightarrow> string \<Rightarrow> string \<Rightarrow> hub \<Rightarrow> hub \<times> (nat \<times> bytes) list" where
  "ws_open c sessID role tok s =
     (case map_of (sessions s) sessID of
        None \<Rightarrow> (s, [])
      | Some a \<Rightarrow>
          let x = store s ! a; want = (if role = roleVault then vaultTok x else daemonTok x)
          in if role \<noteq> roleDaemon \<and> role \<noteq> roleVault then (s, [])
             else if want = [] \<or> tok \<noteq> want then (s, [])
             else (s\<lparr>store := (store s)[a := x\<lparr>h_conns := AList.update role c (h_conns x)\<rparr>],
                     live := AList.update c (a, role) (live s)\<rparr>,
                   case map_of (h_conns x) (other role) of
                     None \<Rightarrow> []
                   | Some p \<Rightarrow> [(p, presence ''peer_online'' role), (c, presence ''peer_online'' (other role))]))"

definition ws_frame :: "nat \<Rightarrow> bytes \<Rightarrow> hub \<Rightarrow> (nat \<times> bytes) list" where
  "ws_frame c data s =
     (case map_of (live s) c of
        None \<Rightarrow> []
      | Some (a, role) \<Rightarrow>
          if isSystemFrame data then (if isKeepalive data then [(c, ka_ack)] else [])
          else case map_of (h_conns (store s ! a)) (other role) of
                 None \<Rightarrow> []
               | Some p \<Rightarrow> [(p, data)])"

definition ws_close :: "nat \<Rightarrow> hub \<Rightarrow> hub \<times> (nat \<times> bytes) list" where
  "ws_close c s =
     (case map_of (live s) c of
        None \<Rightarrow> (s, [])
      | Some (a, role) \<Rightarrow>
          let x = store s ! a;
              x' = (if map_of (h_conns x) role = Some c then x\<lparr>h_conns := AList.delete role (h_conns x)\<rparr> else x)
          in (s\<lparr>store := (store s)[a := x'], live := AList.delete c (live s)\<rparr>,
              case map_of (h_conns x') (other role) of
                None \<Rightarrow> []
              | Some p \<Rightarrow> [(p, presence ''peer_offline'' role)]))"

text \<open>
  The routes of \<open>ServeHTTP\<close>. A request for \<open>/ws/connect\<close> becomes a connection, whose life is
  \<open>ws_open\<close>, \<open>ws_frame\<close> and \<open>ws_close\<close>.
\<close>

datatype hub_answer = Answer http_resp | Upgrade

definition hub_ServeHTTP ::
  "(bytes \<Rightarrow> bytes) \<Rightarrow> bytes \<Rightarrow> bytes \<Rightarrow> string \<Rightarrow> string \<Rightarrow> string \<Rightarrow> bytes \<Rightarrow> hub \<Rightarrow> hub \<times> hub_answer" where
  "hub_ServeHTTP sha r1 r2 path meth secret req s =
     (if path = ''/ws/sessions'' \<and> meth = ''POST'' then map_prod id Answer (handleCreate sha r1 r2 req s)
      else if has_prefix path ''/ws/sessions/'' \<and> has_suffix path ''/claim'' \<and> meth = ''POST''
      then map_prod id Answer (handleClaim sha r1 path secret s)
      else if path = ''/ws/connect'' then (s, Upgrade)
      else (s, Answer \<lparr>code = 404, rbody_out = BRaw (''404 page not found'' @ [CHR 0x0A])\<rparr>))"

section \<open>Runs\<close>

text \<open>
  Everything that happens to a hub. A connection gets a number of its own when it opens.
\<close>

datatype hub_event =
    EHttp bytes bytes string string string bytes
  | EOpen nat string string string
  | EFrame nat bytes
  | EClose nat

fun hub_step :: "(bytes \<Rightarrow> bytes) \<Rightarrow> hub_event \<Rightarrow> hub \<Rightarrow> hub \<times> (nat \<times> bytes) list" where
  "hub_step sha (EHttp r1 r2 path meth secret req) s = (fst (hub_ServeHTTP sha r1 r2 path meth secret req s), [])"
| "hub_step sha (EOpen c sessID role tok) s =
     (if map_of (live s) c \<noteq> None then (s, []) else ws_open c sessID role tok s)"
| "hub_step sha (EFrame c data) s = (s, ws_frame c data s)"
| "hub_step sha (EClose c) s = ws_close c s"

fun hub_run :: "(bytes \<Rightarrow> bytes) \<Rightarrow> hub_event list \<Rightarrow> hub" where
  "hub_run sha [] = hub_New"
| "hub_run sha (e # es) = fst (hub_step sha e (hub_run sha es))"

section \<open>Who is admitted\<close>

definition role_token :: "string \<Rightarrow> hsession \<Rightarrow> string" where
  "role_token role x = (if role = roleVault then vaultTok x else daemonTok x)"

definition claimed :: "(bytes \<Rightarrow> bytes) \<Rightarrow> hub_event list \<Rightarrow> string \<Rightarrow> bool" where
  "claimed sha es h \<longleftrightarrow>
     list_ex (\<lambda>ev. case ev of
         EHttp r1 r2 path meth secret req \<Rightarrow> has_suffix path ''/claim'' \<and> meth = ''POST'' \<and> hex_encode (sha secret) = h
       | _ \<Rightarrow> False) es"

text \<open>
  Addresses are in range; a connection in the table of a session is open with that session
  and role; an open connection presented the token of its role; and a vault token exists
  only after a claim that proved the secret, where there is one.
\<close>

definition addr_ok :: "hub \<Rightarrow> bool" where
  "addr_ok s \<longleftrightarrow> (\<forall>i a. map_of (sessions s) i = Some a \<longrightarrow> a < length (store s)) \<and>
     (\<forall>c a role. map_of (live s) c = Some (a, role) \<longrightarrow> a < length (store s))"

definition conns_ok :: "hub \<Rightarrow> bool" where
  "conns_ok s \<longleftrightarrow> (\<forall>a role c. a < length (store s) \<longrightarrow> map_of (h_conns (store s ! a)) role = Some c \<longrightarrow>
     map_of (live s) c = Some (a, role))"

definition live_ok :: "hub_event list \<Rightarrow> hub \<Rightarrow> bool" where
  "live_ok es s \<longleftrightarrow> (\<forall>c a role. map_of (live s) c = Some (a, role) \<longrightarrow>
     (role = roleDaemon \<or> role = roleVault) \<and> role_token role (store s ! a) \<noteq> [] \<and>
     (\<exists>sessID. EOpen c sessID role (role_token role (store s ! a)) \<in> set es))"

definition claims_ok :: "(bytes \<Rightarrow> bytes) \<Rightarrow> hub_event list \<Rightarrow> hub \<Rightarrow> bool" where
  "claims_ok sha es s \<longleftrightarrow>
     (\<forall>x \<in> set (store s). vaultTok x \<noteq> [] \<longrightarrow> claimHash x \<noteq> [] \<longrightarrow> claimed sha es (claimHash x))"

definition hub_inv :: "(bytes \<Rightarrow> bytes) \<Rightarrow> hub_event list \<Rightarrow> hub \<Rightarrow> bool" where
  "hub_inv sha es s \<longleftrightarrow> addr_ok s \<and> conns_ok s \<and> live_ok es s \<and> claims_ok sha es s"

lemma roles_differ [simp]: "roleDaemon \<noteq> roleVault" "roleVault \<noteq> roleDaemon" "other role \<noteq> role" "role \<noteq> other role"
  by (auto simp: roleDaemon_def roleVault_def other_def)

lemma handleCreate_inv:
  assumes "hub_inv sha es s"
  shows "hub_inv sha (e # es) (fst (handleCreate sha r1 r2 b s))"
proof (cases "get_str ''role'' (case parse_first b of None \<Rightarrow> JNull | Some j \<Rightarrow> j) = roleDaemon")
  case False
  then show ?thesis using assms
    by (fastforce simp: handleCreate_def Let_def hub_inv_def live_ok_def claims_ok_def claimed_def)
next
  case True
  define x where "x = hd (drop (length (store s)) (store (fst (handleCreate sha r1 r2 b s))))"
  have e: "store (fst (handleCreate sha r1 r2 b s)) = store s @ [x]" "live (fst (handleCreate sha r1 r2 b s)) = live s"
    "sessions (fst (handleCreate sha r1 r2 b s)) = AList.update (h_id x) (length (store s)) (sessions s)"
    "h_conns x = []" "vaultTok x = []"
    using True by (simp_all add: x_def handleCreate_def Let_def)
  have a: "addr_ok s" using assms by (simp add: hub_inv_def)
  then have "addr_ok (fst (handleCreate sha r1 r2 b s))"
    using e by (fastforce simp: addr_ok_def intro: less_SucI)
  moreover have "conns_ok (fst (handleCreate sha r1 r2 b s))"
    using assms e by (auto simp: hub_inv_def conns_ok_def nth_append less_Suc_eq)
  moreover have "live_ok (e # es) (fst (handleCreate sha r1 r2 b s))"
    using assms e a by (fastforce simp: hub_inv_def live_ok_def addr_ok_def nth_append)
  moreover have "claims_ok sha (e # es) (fst (handleCreate sha r1 r2 b s))"
    using assms e by (fastforce simp: hub_inv_def claims_ok_def claimed_def)
  ultimately show ?thesis by (simp add: hub_inv_def)
qed

lemma claimed_mono: "claimed sha es h \<Longrightarrow> claimed sha (e # es) h"
  by (simp add: claimed_def)

text \<open>Changing one session, for the operations that change no other.\<close>

lemma hub_inv_update:
  assumes inv: "hub_inv sha es s" and a: "a < length (store s)"
    and tok: "daemonTok x = daemonTok (store s ! a)" "vaultTok (store s ! a) \<noteq> [] \<Longrightarrow> vaultTok x = vaultTok (store s ! a)"
    and hash: "claimHash x = claimHash (store s ! a)"
    and claim: "vaultTok x \<noteq> [] \<Longrightarrow> claimHash x \<noteq> [] \<Longrightarrow> claimed sha (e # es) (claimHash x)"
    and conns: "\<And>role c. map_of (h_conns x) role = Some c \<Longrightarrow> map_of l c = Some (a, role)"
    and other: "\<And>b role c. b \<noteq> a \<Longrightarrow> map_of (live s) c = Some (b, role) \<Longrightarrow> map_of l c = Some (b, role)"
    and live: "\<And>c b role. map_of l c = Some (b, role) \<Longrightarrow> map_of (live s) c = Some (b, role) \<or>
      (b = a \<and> (role = roleDaemon \<or> role = roleVault) \<and> role_token role x \<noteq> [] \<and> (\<exists>sessID. e = EOpen c sessID role (role_token role x)))"
  shows "hub_inv sha (e # es) (s\<lparr>store := (store s)[a := x], live := l\<rparr>)"
proof -
  have i: "addr_ok s" "conns_ok s" "live_ok es s" "claims_ok sha es s" using inv by (simp_all add: hub_inv_def)
  have rt: "role_token role (store s ! a) \<noteq> [] \<Longrightarrow> role_token role x = role_token role (store s ! a)" for role
    using tok by (auto simp: role_token_def)
  let ?s = "s\<lparr>store := (store s)[a := x], live := l\<rparr>"
  have "addr_ok ?s"
    using i(1) a live unfolding addr_ok_def by fastforce
  moreover have "conns_ok ?s"
    unfolding conns_ok_def
  proof (intro allI impI)
    fix b role c assume "b < length (store ?s)" "map_of (h_conns (store ?s ! b)) role = Some c"
    then show "map_of (live ?s) c = Some (b, role)"
      using i(2) conns other unfolding conns_ok_def by (cases "b = a") auto
  qed
  moreover have "live_ok (e # es) ?s"
    unfolding live_ok_def
  proof (intro allI impI)
    fix c b role assume "map_of (live ?s) c = Some (b, role)"
    then consider "map_of (live s) c = Some (b, role)" | "b = a" "role = roleDaemon \<or> role = roleVault" "role_token role x \<noteq> []"
        "\<exists>sessID. e = EOpen c sessID role (role_token role x)"
      using live by auto
    then show "(role = roleDaemon \<or> role = roleVault) \<and> role_token role (store ?s ! b) \<noteq> [] \<and>
        (\<exists>sessID. EOpen c sessID role (role_token role (store ?s ! b)) \<in> set (e # es))"
    proof cases
      case 1
      then have "(role = roleDaemon \<or> role = roleVault) \<and> role_token role (store s ! b) \<noteq> [] \<and>
        (\<exists>sessID. EOpen c sessID role (role_token role (store s ! b)) \<in> set es)" using i(3) unfolding live_ok_def by blast
      then show ?thesis using rt a by (cases "b = a") auto
    next
      case 2
      then show ?thesis using a by auto
    qed
  qed
  moreover have "claims_ok sha (e # es) ?s"
    using i(4) claim claimed_mono unfolding claims_ok_def
    by (auto dest!: subsetD [OF set_update_subset_insert])
  ultimately show ?thesis by (simp add: hub_inv_def)
qed

lemma hub_inv_Cons: "hub_inv sha es s \<Longrightarrow> hub_inv sha (e # es) s"
  using claimed_mono by (fastforce simp: hub_inv_def live_ok_def claims_ok_def)

lemma hub_inv_addr: "hub_inv sha es s \<Longrightarrow> map_of (sessions s) i = Some a \<Longrightarrow> a < length (store s)"
  "hub_inv sha es s \<Longrightarrow> map_of (live s) c = Some (a, role) \<Longrightarrow> a < length (store s)"
  unfolding hub_inv_def addr_ok_def by blast+

lemma hub_inv_conn:
  "hub_inv sha es s \<Longrightarrow> a < length (store s) \<Longrightarrow> map_of (h_conns (store s ! a)) role = Some c \<Longrightarrow> map_of (live s) c = Some (a, role)"
  by (auto simp: hub_inv_def conns_ok_def)

lemma hub_inv_claims:
  "hub_inv sha es s \<Longrightarrow> a < length (store s) \<Longrightarrow> vaultTok (store s ! a) \<noteq> [] \<Longrightarrow> claimHash (store s ! a) \<noteq> [] \<Longrightarrow>
     claimed sha es (claimHash (store s ! a))"
  by (auto simp: hub_inv_def claims_ok_def)

lemma handleClaim_inv:
  assumes inv: "hub_inv sha es s" and e: "e = EHttp r1 r2 path ''POST'' secret req" "has_suffix path ''/claim''"
  shows "hub_inv sha (e # es) (fst (handleClaim sha r1 path secret s))"
proof (cases "map_of (sessions s) (trim_suffix (trim_prefix path ''/ws/sessions/'') ''/claim'')")
  case None
  then show ?thesis using hub_inv_Cons [OF inv] by (simp add: handleClaim_def)
next
  case (Some a)
  note a = hub_inv_addr(1) [OF inv Some]
  let ?x = "store s ! a"
  show ?thesis
  proof (cases "claimHash ?x \<noteq> [] \<and> hex_encode (sha secret) \<noteq> claimHash ?x")
    case True
    then show ?thesis using hub_inv_Cons [OF inv] Some by (simp add: handleClaim_def)
  next
    case False
    let ?y = "if vaultTok ?x = [] then ?x\<lparr>vaultTok := randomHex r1\<rparr> else ?x"
    have y: "claimHash ?y = claimHash ?x" "h_conns ?y = h_conns ?x" "daemonTok ?y = daemonTok ?x" by simp_all
    have "hub_inv sha (e # es) (s\<lparr>store := (store s)[a := ?y], live := live s\<rparr>)"
    proof (rule hub_inv_update [OF inv a])
      show "claimed sha (e # es) (claimHash ?y)" if "claimHash ?y \<noteq> []"
        using that False e y(1) unfolding claimed_def by auto
    qed (use hub_inv_conn [OF inv a] y in auto)
    then show ?thesis using False Some by (auto simp: handleClaim_def Let_def)
  qed
qed

lemma hub_ServeHTTP_inv:
  assumes "hub_inv sha es s"
  shows "hub_inv sha (EHttp r1 r2 path meth secret req # es) (fst (hub_ServeHTTP sha r1 r2 path meth secret req s))"
  using handleCreate_inv [OF assms] handleClaim_inv [OF assms refl] hub_inv_Cons [OF assms]
  by (simp add: hub_ServeHTTP_def)

lemma ws_open_inv:
  assumes inv: "hub_inv sha es s" and fresh: "map_of (live s) c = None"
  shows "hub_inv sha (EOpen c sessID role tok # es) (fst (ws_open c sessID role tok s))"
proof (cases "fst (ws_open c sessID role tok s) = s")
  case True
  then show ?thesis using hub_inv_Cons [OF inv] by simp
next
  case False
  then obtain a where i: "map_of (sessions s) sessID = Some a" by (auto simp: ws_open_def split: option.splits)
  note a = hub_inv_addr(1) [OF inv i]
  let ?x = "store s ! a"
  let ?y = "?x\<lparr>h_conns := AList.update role c (h_conns ?x)\<rparr>"
  have g: "role = roleDaemon \<or> role = roleVault" "role_token role ?x \<noteq> []" "tok = role_token role ?x"
    using False i by (auto simp: ws_open_def Let_def role_token_def split: if_splits)
  have "fst (ws_open c sessID role tok s) = s\<lparr>store := (store s)[a := ?y], live := AList.update c (a, role) (live s)\<rparr>"
    using g i by (auto simp: ws_open_def Let_def role_token_def)
  moreover have "hub_inv sha (EOpen c sessID role tok # es) (s\<lparr>store := (store s)[a := ?y], live := AList.update c (a, role) (live s)\<rparr>)"
  proof (rule hub_inv_update [OF inv a])
    show "claimed sha (EOpen c sessID role tok # es) (claimHash ?y)" if "vaultTok ?y \<noteq> []" "claimHash ?y \<noteq> []"
      using claimed_mono [OF hub_inv_claims [OF inv a]] that by simp
    show "map_of (AList.update c (a, role) (live s)) c' = Some (a, role')" if "map_of (h_conns ?y) role' = Some c'" for role' c'
      using that fresh hub_inv_conn [OF inv a, of role' c'] by (auto split: if_splits)
    show "map_of (live s) c' = Some (b, role') \<or> (b = a \<and> (role' = roleDaemon \<or> role' = roleVault) \<and> role_token role' ?y \<noteq> [] \<and>
        (\<exists>i. EOpen c sessID role tok = EOpen c' i role' (role_token role' ?y)))"
      if "map_of (AList.update c (a, role) (live s)) c' = Some (b, role')" for c' b role'
      using that g by (auto simp: role_token_def split: if_splits)
  qed (use fresh in auto)
  ultimately show ?thesis by simp
qed

lemma ws_close_inv:
  assumes inv: "hub_inv sha es s"
  shows "hub_inv sha (EClose c # es) (fst (ws_close c s))"
proof (cases "map_of (live s) c")
  case None
  then show ?thesis using hub_inv_Cons [OF inv] by (simp add: ws_close_def)
next
  case (Some p)
  obtain a role where p: "p = (a, role)" by (cases p)
  note a = hub_inv_addr(2) [OF inv Some [unfolded p]]
  let ?x = "store s ! a"
  let ?y = "if map_of (h_conns ?x) role = Some c then ?x\<lparr>h_conns := AList.delete role (h_conns ?x)\<rparr> else ?x"
  have y: "vaultTok ?y = vaultTok ?x" "claimHash ?y = claimHash ?x" by simp_all
  have "hub_inv sha (EClose c # es) (s\<lparr>store := (store s)[a := ?y], live := AList.delete c (live s)\<rparr>)"
  proof (rule hub_inv_update [OF inv a])
    show "claimed sha (EClose c # es) (claimHash ?y)" if "vaultTok ?y \<noteq> []" "claimHash ?y \<noteq> []"
      using claimed_mono [OF hub_inv_claims [OF inv a]] that y by simp
    show "map_of (AList.delete c (live s)) c' = Some (a, role')" if "map_of (h_conns ?y) role' = Some c'" for role' c'
      using that hub_inv_conn [OF inv a, of role' c'] Some p by (auto split: if_splits)
    show "map_of (AList.delete c (live s)) c' = Some (b, role')" if "b \<noteq> a" "map_of (live s) c' = Some (b, role')" for b role' c'
      using that Some p by auto
  qed (auto split: if_splits)
  then show ?thesis using Some p by (simp add: ws_close_def Let_def)
qed

lemma hub_run_inv: "hub_inv sha es (hub_run sha es)"
proof (induction es)
  case Nil
  then show ?case by (simp add: hub_inv_def addr_ok_def conns_ok_def live_ok_def claims_ok_def hub_New_def)
next
  case (Cons e es)
  then show ?case
    using hub_ServeHTTP_inv [OF Cons] ws_open_inv [OF Cons] ws_close_inv [OF Cons] hub_inv_Cons [OF Cons]
    by (cases e) (auto simp: not_Some_eq [symmetric] simp del: not_Some_eq)
qed

text \<open>A session with a claim secret, its daemon, and a vault that connects twice.\<close>

definition demo_events :: "hub_event list" where
  "demo_events =
     [EOpen 2 ''69'' ''vault'' ''76'', EOpen 1 ''69'' ''vault'' ''76'', EOpen 0 ''69'' ''daemon'' ''64'',
      EHttp ''v'' [] ''/ws/sessions/69/claim'' ''POST'' ''secret'' [],
      EHttp ''i'' ''d'' ''/ws/sessions'' ''POST'' [] (marshal (JObj [(''role'', JStr ''daemon''), (''claim_secret'', JStr ''secret'')]))]"

definition demo_hub :: hub where
  "demo_hub = hub_run (\<lambda>b. b) demo_events"

lemma demo_hub_conns:
  "map_of (live demo_hub) 1 = Some (0, roleVault)" "map_of (h_conns (store demo_hub ! 0)) roleVault = Some 2"
  "map_of (h_conns (store demo_hub ! 0)) (other roleVault) = Some 0" "claimHash (store demo_hub ! 0) = ''736563726574''"
  by code_simp+

text \<open>
  C11: Nobody joins a session without its credentials. Whatever requests and connections a
  hub has seen, every open connection presented, when it opened, the non-empty token of its
  role in its session; and where the session was created with a claim secret, a vault
  connection is open only after a claim that presented a secret with the stored hash.
\<close>

theorem hub_admission:
  assumes "map_of (live (hub_run sha es)) c = Some (a, role)"
  shows "\<exists>x sessID tok. x = store (hub_run sha es) ! a \<and> a < length (store (hub_run sha es)) \<and>
    EOpen c sessID role tok \<in> set es \<and> tok \<noteq> [] \<and>
    ((role = roleDaemon \<and> tok = daemonTok x) \<or>
     (role = roleVault \<and> tok = vaultTok x \<and> (claimHash x \<noteq> [] \<longrightarrow> claimed sha es (claimHash x))))"
proof -
  let ?x = "store (hub_run sha es) ! a"
  note inv = hub_run_inv [of sha es]
  note a = hub_inv_addr(2) [OF inv assms]
  obtain sessID where l: "role = roleDaemon \<or> role = roleVault" "role_token role ?x \<noteq> []" "EOpen c sessID role (role_token role ?x) \<in> set es"
    using inv assms unfolding hub_inv_def live_ok_def by blast
  show ?thesis
    by (rule exI [of _ ?x], rule exI [of _ sessID], rule exI [of _ "role_token role ?x"])
      (use l a hub_inv_claims [OF inv a] in \<open>auto simp: role_token_def\<close>)
qed

theorem hub_admission_witness:
  "\<exists>sessID tok. EOpen 1 sessID roleVault tok \<in> set demo_events \<and> tok = vaultTok (store demo_hub ! 0) \<and>
     claimed (\<lambda>b. b) demo_events ''736563726574''"
  using hub_admission [OF demo_hub_conns(1) [unfolded demo_hub_def]] demo_hub_conns(4) unfolding demo_hub_def by auto


text \<open>A connection that has been replaced still reports its role as gone when it closes.\<close>

lemma stale_close:
  assumes "map_of (live (hub_run sha es)) c = Some (a, role)"
    and "map_of (h_conns (store (hub_run sha es) ! a)) role = Some c'" and "c' \<noteq> c"
    and "map_of (h_conns (store (hub_run sha es) ! a)) (other role) = Some p"
  shows "\<exists>s'. hub_step sha (EClose c) (hub_run sha es) = (s', [(p, presence ''peer_offline'' role)]) \<and>
    map_of (live s') c' = Some (a, role) \<and> map_of (h_conns (store s' ! a)) role = Some c'"
proof -
  let ?s = "hub_run sha es"
  note a = hub_inv_addr(2) [OF hub_run_inv assms(1)]
  have "map_of (live ?s) c' = Some (a, role)" by (rule hub_inv_conn [OF hub_run_inv a assms(2)])
  then show ?thesis using assms a by (simp add: ws_close_def Let_def)
qed

end
