(* ===== verification/Endpoint.thy ===== *)
theory Endpoint
  imports Serve Dual Hub
begin

text \<open>
  The daemon's end of the control plane as \<open>attach\<close> in \<open>cmd/valetfs/main.go\<close> builds it: frames
  from the hub go through the version dispatcher into the node, and the node's replies go back
  through the dispatcher.
\<close>

record ('hs, 'cs) endpoint =
  link :: "('hs, 'cs) dual"
  nd :: "daemon memory_node"

text \<open>\<open>attach\<close>: a new connection starts with a dispatcher that has chosen nothing; the node stays.
  \<open>joined\<close> is \<open>joinAuthorized\<close> and \<open>listed\<close> the keys of the authorised vaults file.\<close>

definition attach ::
  "KeyPair \<Rightarrow> string \<Rightarrow> DHKey \<Rightarrow> bytes list option \<Rightarrow> bytes list \<Rightarrow> ('hs, 'cs) endpoint \<Rightarrow> ('hs, 'cs) endpoint" where
  "attach pair sessID key joined listed ep =
     ep\<lparr>link := NewDual pair sessID key (case joined of None \<Rightarrow> listed | Some as \<Rightarrow> as)\<rparr>"

text \<open>A frame arrives: the new state and the frames sent to the hub.\<close>

definition endpoint_frame ::
  "v1_crypto \<Rightarrow> ('hs, 'cs) noise \<Rightarrow> env \<Rightarrow> outside \<Rightarrow> time \<Rightarrow> bytes \<Rightarrow> bytes \<Rightarrow> ('hs, 'cs) endpoint \<Rightarrow> bytes \<Rightarrow>
     ('hs, 'cs) endpoint \<times> bytes list" where
  "endpoint_frame cr nz en ou now rnd nonce ep b =
     (case dual_handle cr nz rnd (link ep) b of
        (l, None, out) \<Rightarrow> (ep\<lparr>link := l\<rparr>, case out of None \<Rightarrow> [] | Some f \<Rightarrow> [f])
      | (l, Some x, out) \<Rightarrow>
          (case serve_frame en ou now (nd ep) x of
             (n, None) \<Rightarrow> (ep\<lparr>link := l, nd := n\<rparr>, [])
           | (n, Some r) \<Rightarrow>
               (case dual_Send cr nz nonce l r of
                  (l', None) \<Rightarrow> (ep\<lparr>link := l', nd := n\<rparr>, [])
                | (l', Some f) \<Rightarrow> (ep\<lparr>link := l', nd := n\<rparr>, [f]))))"

lemma endpoint_frame_nd:
  "nd (fst (endpoint_frame cr nz en ou now rnd nonce ep b)) =
     (case fst (snd (dual_handle cr nz rnd (link ep) b)) of None \<Rightarrow> nd ep | Some x \<Rightarrow> fst (serve_frame en ou now (nd ep) x))"
  by (auto simp: endpoint_frame_def split: prod.split option.split)


section \<open>The fourth way\<close>

text \<open>A request dressed up as a system frame: \<open>SYS\<close> in capitals, and a role that is no string.\<close>

definition spoof_json :: "string \<Rightarrow> (string \<times> json) list \<Rightarrow> json" where
  "spoof_json meth ps =
     JObj [(''SYS'', JStr ''x''), (''role'', JNum ''1''), (''type'', JStr TypeReq), (''method'', JStr meth), (''params'', JObj ps)]"

definition spoof_delete :: "string \<Rightarrow> bytes" where
  "spoof_delete p = marshal (spoof_json MethodDelete [(''path'', JStr p)])"

lemma parse_spoof:
  assumes "utf8_valid p"
  shows "parse_json (spoof_delete p) = Some (spoof_json MethodDelete [(''path'', JStr p)])"
  unfolding spoof_delete_def
proof (rule reparse)
  have "num_ok ''1''" by code_simp
  then show "clean (spoof_json MethodDelete [(''path'', JStr p)])"
    using assms by (simp add: spoof_json_def TypeReq_def MethodDelete_def utf8_valid_ascii)
qed

lemma spoof_names [simp]: "fold_name ''SYS'' = ''SYS''" "fold_name ''path'' = ''PATH''"
  by code_simp+

lemma spoof_fields:
  "field_vals ''sys'' (spoof_json m ps) = [JStr ''x'']" "field_vals ''role'' (spoof_json m ps) = [JNum ''1'']"
  "field_vals ''kx'' (spoof_json m ps) = []" "field_vals ''nx'' (spoof_json m ps) = []"
  "field_vals ''n'' (spoof_json m ps) = []" "field_vals ''m'' (spoof_json m ps) = []" "obj_ok (spoof_json m ps)"
  by (simp_all add: spoof_json_def field_vals_def members_def obj_ok_def)

lemma spoof_passes:
  assumes "utf8_valid p"
  shows "isSystemFrame (spoof_delete p) = False" "sys_frame (spoof_delete p) = None"
    "unmarshal_strs probe_fields (spoof_delete p) \<noteq> None" "unmarshal_strs s_fields (spoof_delete p) \<noteq> None"
    "unmarshal_strs v1_fields (spoof_delete p) = None"
proof -
  note p = parse_spoof [OF assms] and f = spoof_fields [of MethodDelete "[(''path'', JStr p)]"]
  show "isSystemFrame (spoof_delete p) = False" using p by (simp add: isSystemFrame_def spoof_json_def)
  show "sys_frame (spoof_delete p) = None" "unmarshal_strs probe_fields (spoof_delete p) \<noteq> None"
    "unmarshal_strs s_fields (spoof_delete p) \<noteq> None" "unmarshal_strs v1_fields (spoof_delete p) = None"
    using p f by (simp_all add: sys_frame_def unmarshal_strs_def probe_fields_def s_fields_def v1_fields_def str_ok_def)
qed

lemma spoof_strs:
  assumes "utf8_valid p" and "unmarshal_strs names (spoof_delete p) = Some f"
  shows "f ''sys'' = ''x''" "f ''nx'' = []" "f ''kx'' = []"
  using assms(2) parse_spoof [OF assms(1)] spoof_fields [of MethodDelete "[(''path'', JStr p)]"]
  by (auto simp: unmarshal_strs_def get_str_def split: if_splits)

lemma spoof_delivered:
  assumes "utf8_valid p" and "version_of d \<noteq> 1"
  shows "dual_handle cr nz rnd d (spoof_delete p) = (d, Some (spoof_delete p), None)"
proof -
  obtain f g where f: "unmarshal_strs probe_fields (spoof_delete p) = Some f" "unmarshal_strs s_fields (spoof_delete p) = Some g"
    using spoof_passes(3,4) [OF assms(1)] by auto
  note fs = spoof_strs [OF assms(1) f(1)] and gs = spoof_strs(1) [OF assms(1) f(2)]
  show ?thesis
  proof (cases "chosen d")
    case None
    then show ?thesis using f fs by (simp add: dual_handle_def)
  next
    case (Some l)
    then obtain c where c: "l = LayerV2 c" using assms(2) by (cases l) (auto simp: version_of_def)
    have "s_handle nz rnd c (spoof_delete p) = (c, Some (spoof_delete p), None)"
      using f gs by (simp add: s_handle_def)
    then have "feed cr nz rnd d (spoof_delete p) = (d, Some (spoof_delete p), None)"
      using Some c by (simp add: feed_def)
    then show ?thesis using Some f by (simp add: dual_handle_def)
  qed
qed

lemma spoof_decodes:
  assumes "utf8_valid p"
  shows "Decode (spoof_delete p) = (zero_message\<lparr>Type := TypeReq, Method := MethodDelete, Params := [(''path'', JStr p)]\<rparr>, True)"
  using parse_spoof [OF assms]
  by (simp add: Decode_def msg_of_json_def msg_json_ok_def spoof_json_def zero_message_def get_int_def get_str_def get_map_def get_bool_def
      obj_ok_def int_ok_def str_ok_def map_ok_def bool_ok_def TypeReq_def)

text \<open>
  The fourth way in is real. For every path, a \<open>DELETE\<close> request with \<open>SYS\<close> set and a
  number as its role passes the hub, which looks for the exact key \<open>sys\<close>; is handed up in
  the clear by a connection that has not chosen a version or runs version 2, whoever is
  authorised; and is executed by the node, whose stricter struct takes it for a request: the
  file is removed and the countdown cancelled, with no key involved. Only version 1 drops it.
\<close>

theorem spoofed_request_runs:
  assumes "utf8_valid p" and "p \<noteq> []" and "version_of (link ep) \<noteq> 1"
  shows "isSystemFrame (spoof_delete p) = False \<and>
    (let ep' = fst (endpoint_frame cr nz en ou now rnd nonce ep (spoof_delete p))
     in dfs (host (nd ep')) = fst (Remove now (dfs (host (nd ep))) p) \<and> grace (nd ep') = None \<and> graceEnd (nd ep') = None)"
proof -
  let ?m = "zero_message\<lparr>Type := TypeReq, Method := MethodDelete, Params := [(''path'', JStr p)]\<rparr>"
  have m: "str_param ''path'' ?m = p" "Type ?m = TypeReq" "Method ?m = MethodDelete"
    by (simp_all add: str_param_def lookup_last_def)
  obtain n r where h: "handle_delete (serve_config ou now) now ?m (cancelGrace (nd ep)) = (n, r)" by fastforce
  then have n: "dfs (host n) = fst (Remove now (dfs (host (nd ep))) p)" "grace n = None" "graceEnd n = None"
    using m(1) assms(2)
    by (auto simp: handle_delete_def serve_config_def node_fs_def cancelGrace_def Let_def case_prod_unfold split: option.splits if_splits)
  have "fst (serve_frame en ou now (nd ep) (spoof_delete p)) = n"
    using spoof_passes(2) [OF assms(1)] spoof_decodes [OF assms(1)] h m(2,3)
    by (cases r) (simp_all add: serve_frame_def node_onData_def Dispatch_def register_lookup)
  then show ?thesis
    using n spoof_passes(1) [OF assms(1)] spoof_delivered [OF assms(1,3), of cr nz rnd] by (simp add: endpoint_frame_nd Let_def)
qed

definition demo_endpoint :: "(demo_hs, nat) endpoint" where
  "demo_endpoint = \<lparr>link = demo_dual [''V''], nd = demo_served\<rparr>"

theorem spoofed_request_runs_witness:
  "isSystemFrame (spoof_delete ''/a/b'') = False \<and>
   (let ep' = fst (endpoint_frame demo_crypto demo_noise demo_env demo_outside 9 [] [] demo_endpoint (spoof_delete ''/a/b''))
    in dfs (host (nd ep')) = fst (Remove 9 (dfs (host demo_served)) ''/a/b'') \<and> grace (nd ep') = None)"
proof -
  have "utf8_valid ''/a/b''" "''/a/b'' \<noteq> []" "version_of (link demo_endpoint) \<noteq> 1" by code_simp+
  from spoofed_request_runs [OF this, of demo_crypto demo_noise demo_env demo_outside 9 "[]" "[]"] show ?thesis
    by (simp add: demo_endpoint_def Let_def)
qed


section \<open>Presence across the hub\<close>

lemma presence_offline: "presence ''peer_offline'' roleVault = peer_offline_frame"
  by (simp add: presence_def peer_offline_frame_def roleVault_def)

text \<open>Presence reaches the node whatever version is in use.\<close>

lemma dual_passes_offline: "dual_handle cr nz rnd d peer_offline_frame = (d, Some peer_offline_frame, None)"
proof -
  have p: "parse_json peer_offline_frame = Some (JObj [(''sys'', JStr ''peer_offline''), (''role'', JStr ''vault'')])" by code_simp
  have u: "\<exists>f. unmarshal_strs names peer_offline_frame = Some f \<and> f ''sys'' = ''peer_offline'' \<and> f ''nx'' = [] \<and> f ''kx'' = []" for names
  proof -
    have "str_ok n (JObj [(''sys'', JStr ''peer_offline''), (''role'', JStr ''vault'')])" for n
      using str_ok_strs [of n "[(''sys'', ''peer_offline''), (''role'', ''vault'')]"] by simp
    then show ?thesis by (simp add: unmarshal_strs_def p obj_ok_def list_all_iff get_str_def)
  qed
  obtain f g h where "unmarshal_strs probe_fields peer_offline_frame = Some f" "f ''sys'' = ''peer_offline''" "f ''nx'' = []" "f ''kx'' = []"
    "unmarshal_strs s_fields peer_offline_frame = Some g" "g ''sys'' = ''peer_offline''"
    "unmarshal_strs v1_fields peer_offline_frame = Some h" "h ''sys'' = ''peer_offline''"
    using u [of probe_fields] u [of s_fields] u [of v1_fields] by blast
  then show ?thesis
    by (cases "chosen d"; cases "the (chosen d)") (simp_all add: dual_handle_def feed_def s_handle_def v1_handle_def)
qed

text \<open>
  A vault that has reconnected can still lock its daemon by accident. When an old socket
  of the vault closes after a new one has taken its place, the hub keeps the new connection
  but reports \<open>peer_offline\<close>, and the daemon, whatever version its connection runs, starts the
  countdown with the vault online.
\<close>

theorem stale_close_arms_countdown:
  assumes "map_of (live (hub_run sha es)) c = Some (a, roleVault)"
    and "map_of (h_conns (store (hub_run sha es) ! a)) roleVault = Some c'" and "c' \<noteq> c"
    and "map_of (h_conns (store (hub_run sha es) ! a)) roleDaemon = Some p" and "0 < Grace (nd ep)"
  shows "\<exists>s' f. hub_step sha (EClose c) (hub_run sha es) = (s', [(p, f)]) \<and> map_of (live s') c' = Some (a, roleVault) \<and>
    map_of (h_conns (store s' ! a)) roleVault = Some c' \<and>
    grace (nd (fst (endpoint_frame cr nz en ou now rnd nonce ep f))) = Some \<lparr>deadline = now + Grace (nd ep), expired = False\<rparr>"
proof -
  have o: "other roleVault = roleDaemon" by (simp add: other_def)
  obtain s' where s': "hub_step sha (EClose c) (hub_run sha es) = (s', [(p, peer_offline_frame)])" "map_of (live s') c' = Some (a, roleVault)"
    "map_of (h_conns (store s' ! a)) roleVault = Some c'"
    using stale_close [OF assms(1-3)] assms(4) by (auto simp: o presence_offline)
  have "grace (nd (fst (endpoint_frame cr nz en ou now rnd nonce ep peer_offline_frame))) = Some \<lparr>deadline = now + Grace (nd ep), expired = False\<rparr>"
    using assms(5) by (simp add: endpoint_frame_nd dual_passes_offline serve_frame_def node_onData_def peer_offline_sys startGrace_def Let_def)
  with s' show ?thesis by blast
qed

theorem stale_close_arms_countdown_witness:
  "\<exists>s' f. hub_step (\<lambda>b. b) (EClose 1) demo_hub = (s', [(0, f)]) \<and> map_of (live s') 2 = Some (0, roleVault) \<and>
     grace (nd (fst (endpoint_frame demo_crypto demo_noise demo_env demo_outside 9 [] [] demo_endpoint f))) \<noteq> None"
proof -
  have g: "0 < Grace (nd demo_endpoint)" "map_of (h_conns (store demo_hub ! 0)) roleDaemon = Some 0" by code_simp+
  from stale_close_arms_countdown [OF demo_hub_conns(1,2) [unfolded demo_hub_def] _ g(2) [unfolded demo_hub_def] g(1),
      of demo_crypto demo_noise demo_env demo_outside 9 "[]" "[]"]
  show ?thesis unfolding demo_hub_def by auto
qed

end
