(* ===== verification/Cli.thy ===== *)
theory Cli
  imports Daemon
begin

text \<open>
  The command line of \<open>cmd/valetfs/main.go\<close> that talks to a running daemon: the arguments, the
  runtime file, and the file commands as sequences of control API requests. The daemon at the
  other end is the one of \<open>Daemon\<close>, reached when the address is its own; the host's file
  system is a state with the operations of \<open>host_os\<close>. A command is a function from the state of
  both to the new state and an error or a value; what is printed is appended to \<open>cout\<close>.
  \<open>net/http\<close> and \<open>net/url\<close> carry method, query and body unchanged. Host paths are written with
  slashes, as on the systems the front ends run on.
\<close>

section \<open>State, errors and sequencing\<close>

record 'h host_os =
  h_stat :: "'h \<Rightarrow> string \<Rightarrow> bool option"
  h_read :: "'h \<Rightarrow> string \<Rightarrow> bytes option"
  h_write :: "'h \<Rightarrow> string \<Rightarrow> bytes \<Rightarrow> 'h \<times> bool"
  h_remove_all :: "'h \<Rightarrow> string \<Rightarrow> 'h \<times> bool"
  h_walk :: "'h \<Rightarrow> string \<Rightarrow> (string \<times> bool) list option"

record 'h cli =
  cdaemon :: daemon
  chost :: 'h
  cout :: "bytes list"

datatype cli_error =
    Usage | BadFlag | NoDaemon | ApiFailed string string string | BadReply | HostPath string string bool
  | DestinationExists string | OmittingDirectory string | IsDirectory string | NeedsFsPath | HostFailed | Unsupported

record api =
  a_addr :: string
  a_token :: string
  a_hmac :: "bytes \<Rightarrow> bytes \<Rightarrow> bytes"
  a_env :: env
  a_outside :: outside
  a_now :: time

type_synonym ('h, 'a) act = "'h cli \<Rightarrow> 'h cli \<times> (cli_error + 'a)"

definition ret :: "'a \<Rightarrow> ('h, 'a) act" where
  "ret x s = (s, Inr x)"

definition fail :: "cli_error \<Rightarrow> ('h, 'a) act" where
  "fail e s = (s, Inl e)"

definition andThen :: "('h, 'a) act \<Rightarrow> ('a \<Rightarrow> ('h, 'b) act) \<Rightarrow> ('h, 'b) act" where
  "andThen a f s = (case a s of (s1, Inl e) \<Rightarrow> (s1, Inl e) | (s1, Inr x) \<Rightarrow> f x s1)"

definition print_out :: "bytes \<Rightarrow> ('h, unit) act" where
  "print_out b s = (s\<lparr>cout := cout s @ [b]\<rparr>, Inr ())"

fun each :: "('a \<Rightarrow> ('h, unit) act) \<Rightarrow> 'a list \<Rightarrow> ('h, unit) act" where
  "each f [] = ret ()"
| "each f (x # xs) = andThen (f x) (\<lambda>_. each f xs)"

section \<open>Arguments\<close>

definition nl :: bytes where "nl = [CHR 0x0A]"

definition parseGlobalCLIOptions :: "string list \<Rightarrow> bool \<times> string \<times> string list" where
  "parseGlobalCLIOptions args =
     (case args of
        [] \<Rightarrow> (False, [], [])
      | cmd # rest \<Rightarrow>
          (''-v'' \<in> set rest,
           foldl (\<lambda>acc a. if has_prefix a ''--daemon-addr='' then trim_prefix a ''--daemon-addr='' else acc) [] rest,
           cmd # filter (\<lambda>a. a \<noteq> ''-v'' \<and> \<not> has_prefix a ''--daemon-addr='') rest))"

fun wantsHelp :: "string list \<Rightarrow> bool" where
  "wantsHelp [] = False"
| "wantsHelp (a # as) = (if a = ''--'' then False else if a = ''-h'' \<or> a = ''--help'' then True else wantsHelp as)"

text \<open>A letter is allowed when its rune occurs in the (ASCII) list of letters.\<close>

definition expandCombinedFlags :: "string list \<Rightarrow> string \<Rightarrow> string list" where
  "expandCombinedFlags args allowed =
     concat (map (\<lambda>a.
       if length a \<ge> 3 \<and> has_prefix a ''-'' \<and> \<not> has_prefix a ''--'' \<and> list_all (\<lambda>c. c \<in> set allowed) (tl a)
       then map (\<lambda>c. [CHR ''-'', c]) (tl a) else [a]) args)"

text \<open>Package \<open>flag\<close>, for flags that are all boolean: the values set, and the remaining arguments.\<close>

definition parse_bool :: "string \<Rightarrow> bool option" where
  "parse_bool v =
     (if v \<in> {''1'', ''t'', ''T'', ''true'', ''TRUE'', ''True''} then Some True
      else if v \<in> {''0'', ''f'', ''F'', ''false'', ''FALSE'', ''False''} then Some False
      else None)"

fun parse_flags :: "string list \<Rightarrow> string list \<Rightarrow> (string \<times> bool) list \<Rightarrow> ((string \<times> bool) list \<times> string list) option" where
  "parse_flags names [] vals = Some (vals, [])"
| "parse_flags names (s # args) vals =
     (if length s < 2 \<or> hd s \<noteq> CHR ''-'' then Some (vals, s # args)
      else if s = ''--'' then Some (vals, args)
      else let name = drop (if s ! 1 = CHR ''-'' then 2 else 1) s
           in if name = [] \<or> hd name = CHR ''-'' \<or> hd name = CHR ''='' then None
              else let nm = takeWhile (\<lambda>c. c \<noteq> CHR ''='') name;
                       v = (if nm = name then Some True else parse_bool (drop (Suc (length nm)) name))
                   in if nm \<notin> set names then None
                      else (case v of None \<Rightarrow> None | Some b \<Rightarrow> parse_flags names args (vals @ [(nm, b)])))"

definition flag_set :: "string list \<Rightarrow> (string \<times> bool) list \<Rightarrow> bool" where
  "flag_set names vals = foldl (\<lambda>acc (n, b). if n \<in> set names then b else acc) False vals"

definition isHostPath :: "string \<Rightarrow> bool" where
  "isHostPath p = (if has_prefix p ''fs:'' then False else has_prefix p ''/'' \<or> has_prefix p ''./'' \<or> has_prefix p ''../'')"

definition looksLikeVaultPath :: "'h host_os \<Rightarrow> 'h \<Rightarrow> string \<Rightarrow> bool" where
  "looksLikeVaultPath os h p = (has_prefix p ''/'' \<and> h_stat os h p = None)"

definition hintVaultPath :: "'h host_os \<Rightarrow> string \<Rightarrow> string \<Rightarrow> ('h, 'a) act" where
  "hintVaultPath os cmd p s = fail (HostPath cmd p (looksLikeVaultPath os (chost s) p)) s"

definition toFSPathArg :: "string \<Rightarrow> string" where
  "toFSPathArg p0 =
     (let p = trim_space (trim_prefix (trim_space p0) ''fs:'')
      in if p = [] \<or> p = ''/'' then ''/'' else trim_prefix p ''/'')"

definition loadRuntimeState :: "bytes option \<Rightarrow> (string \<times> string) option" where
  "loadRuntimeState file =
     (case file of
        None \<Rightarrow> None
      | Some b \<Rightarrow>
          (case parse_json b of
             None \<Rightarrow> None
           | Some j \<Rightarrow>
               if \<not> (obj_ok j \<and> str_ok ''control_addr'' j \<and> str_ok ''control_token'' j) then None
               else if get_str ''control_addr'' j = [] \<or> get_str ''control_token'' j = [] then None
               else Some (get_str ''control_addr'' j, get_str ''control_token'' j)))"

section \<open>Requests\<close>

fun body_bytes :: "http_body \<Rightarrow> bytes" where
  "body_bytes (BJson j) = marshal j @ nl"
| "body_bytes (BRaw b) = b"
| "body_bytes BEmpty = []"

definition apiReq :: "api \<Rightarrow> string \<Rightarrow> string \<Rightarrow> (string \<times> string) list \<Rightarrow> bytes \<Rightarrow> ('h, bytes) act" where
  "apiReq a meth path q bd s =
     (if a_addr a \<noteq> devAddr (cdaemon s) then (s, Inl NoDaemon)
      else let (d, r) = control_api (a_hmac a) (a_env a) (a_outside a) (a_now a) path
                 \<lparr>rmethod = meth, rquery = q, rtoken = a_token a, rbody = bd\<rparr> (cdaemon s);
               s' = s\<lparr>cdaemon := d\<rparr>; out = body_bytes (rbody_out r)
           in if code r \<ge> 300 then (s', Inl (ApiFailed meth path (trim_space out))) else (s', Inr out))"

definition fsPathIsDirWithErr :: "api \<Rightarrow> string \<Rightarrow> ('h, bool) act" where
  "fsPathIsDirWithErr a p =
     andThen (apiReq a ''GET'' ''/files'' [(''path'', p), (''meta'', ''1'')] [])
       (\<lambda>b. case parse_first b of
              None \<Rightarrow> fail BadReply
            | Some j \<Rightarrow> if obj_ok j \<and> bool_ok ''is_dir'' j then ret (get_bool ''is_dir'' j) else fail BadReply)"

definition succeeded :: "('h, 'a) act \<Rightarrow> ('a \<Rightarrow> bool) \<Rightarrow> ('h, bool) act" where
  "succeeded act P s = (case act s of (s1, Inl _) \<Rightarrow> (s1, Inr False) | (s1, Inr x) \<Rightarrow> (s1, Inr (P x)))"

definition fsPathIsDir :: "api \<Rightarrow> string \<Rightarrow> ('h, bool) act" where
  "fsPathIsDir a p = succeeded (fsPathIsDirWithErr a p) (\<lambda>b. b)"

definition fsPathIsFile :: "api \<Rightarrow> string \<Rightarrow> ('h, bool) act" where
  "fsPathIsFile a p = andThen (fsPathIsDirWithErr a p) (\<lambda>b. ret (\<not> b))"

definition fsPathExists :: "api \<Rightarrow> string \<Rightarrow> ('h, bool) act" where
  "fsPathExists a p = succeeded (fsPathIsDirWithErr a p) (\<lambda>_. True)"

definition writeHostFileToFS :: "'h host_os \<Rightarrow> api \<Rightarrow> string \<Rightarrow> string \<Rightarrow> ('h, unit) act" where
  "writeHostFileToFS os a src dst s =
     (case h_read os (chost s) src of
        None \<Rightarrow> fail HostFailed s
      | Some data \<Rightarrow>
          andThen (apiReq a ''POST'' ''/files'' [(''path'', dst)] (marshal (JObj [(''content'', JStr data)]))) (\<lambda>_. ret ()) s)"

definition copy_from :: "api \<Rightarrow> string \<Rightarrow> string \<Rightarrow> ('h, unit) act" where
  "copy_from a src dst =
     andThen (apiReq a ''POST'' ''/files'' [(''path'', dst)] (marshal (JObj [(''from'', JStr src)]))) (\<lambda>_. ret ())"

text \<open>The answer \<open>items\<close> as a list of strings, and as the entries of a detailed listing.\<close>

definition items :: "json \<Rightarrow> json list option" where
  "items j = (if obj_ok j \<and> list_all (\<lambda>v. case v of JArr _ \<Rightarrow> True | JNull \<Rightarrow> True | _ \<Rightarrow> False) (field_vals ''items'' j)
     then Some (foldl (\<lambda>acc v. case v of JArr xs \<Rightarrow> xs | _ \<Rightarrow> []) [] (field_vals ''items'' j)) else None)"

definition item_names :: "bytes \<Rightarrow> ('h, string list) act" where
  "item_names b =
     (case Option.bind (parse_first b) items of
        None \<Rightarrow> fail BadReply
      | Some xs \<Rightarrow>
          if list_all (\<lambda>x. case x of JStr _ \<Rightarrow> True | JNull \<Rightarrow> True | _ \<Rightarrow> False) xs
          then ret (map (\<lambda>x. case x of JStr s \<Rightarrow> s | _ \<Rightarrow> []) xs) else fail BadReply)"

definition item_ok :: "json \<Rightarrow> bool" where
  "item_ok x \<longleftrightarrow> x = JNull \<or> obj_ok x \<and> str_ok ''name'' x \<and> bool_ok ''is_dir'' x \<and> str_ok ''mode'' x \<and> int_ok ''size'' x \<and> str_ok ''mod_time'' x"

definition item_list :: "(json \<Rightarrow> bool) \<Rightarrow> bytes \<Rightarrow> ('h, json list) act" where
  "item_list ok b =
     (case Option.bind (parse_first b) items of
        None \<Rightarrow> fail BadReply
      | Some xs \<Rightarrow> if list_all ok xs then ret xs else fail BadReply)"

section \<open>Commands\<close>

definition pad_left :: "nat \<Rightarrow> string \<Rightarrow> string" where
  "pad_left n s = replicate (n - length s) CHR '' '' @ s"

definition long_line :: "json \<Rightarrow> bytes" where
  "long_line it =
     (let t = get_str ''mod_time'' it
      in get_str ''mode'' it @ '' '' @ pad_left 8 (itoa (get_int ''size'' it)) @ '' '' @ take 19 t @ '' '' @
         get_str ''name'' it @ (if get_bool ''is_dir'' it then ''/'' else []) @ nl)"

definition ls_list :: "api \<Rightarrow> bool \<Rightarrow> bool \<Rightarrow> string \<Rightarrow> ('h, unit) act" where
  "ls_list a showAll long p =
     andThen (apiReq a ''GET'' ''/files''
         ([(''path'', p), (''list'', ''1'')] @ (if showAll then [(''all'', ''1'')] else []) @ (if long then [(''detail'', ''1'')] else [])) [])
       (\<lambda>b. if long then andThen (item_list item_ok b) (each (\<lambda>it. print_out (long_line it)))
            else andThen (item_names b) (each (\<lambda>n. print_out (n @ nl))))"

definition runLS :: "'h host_os \<Rightarrow> api \<Rightarrow> string list \<Rightarrow> ('h, unit) act" where
  "runLS os a args =
     (case parse_flags [''a'', ''l''] (expandCombinedFlags args ''al'') [] of
        None \<Rightarrow> fail BadFlag
      | Some (vals, rest) \<Rightarrow>
          if rest \<noteq> [] \<and> isHostPath (hd rest) then hintVaultPath os ''ls'' (hd rest)
          else let p = (if rest = [] then ''/'' else toFSPathArg (hd rest))
               in andThen (succeeded (fsPathIsFile a p) (\<lambda>b. b))
                    (\<lambda>isFile. if isFile then print_out (path_base p @ nl)
                              else ls_list a (flag_set [''a''] vals) (flag_set [''l''] vals) p))"

definition runCat :: "'h host_os \<Rightarrow> api \<Rightarrow> string list \<Rightarrow> ('h, unit) act" where
  "runCat os a args =
     (case args of
        [] \<Rightarrow> fail Usage
      | p # _ \<Rightarrow>
          if isHostPath p then hintVaultPath os ''cat'' p
          else andThen (apiReq a ''GET'' ''/files'' [(''path'', toFSPathArg p)] []) print_out)"

definition cp_tree :: "'h host_os \<Rightarrow> api \<Rightarrow> string \<Rightarrow> string \<Rightarrow> ('h, unit) act" where
  "cp_tree os a src dst s =
     (case h_walk os (chost s) src of
        None \<Rightarrow> fail HostFailed s
      | Some entries \<Rightarrow>
          each (\<lambda>(rel, isD). if rel = ''.'' \<or> isD then ret ()
                 else writeHostFileToFS os a (path_join [src, rel]) (path_join [toFSPathArg dst, path_base src, rel])) entries s)"

definition cp_host_file :: "'h host_os \<Rightarrow> api \<Rightarrow> string \<Rightarrow> string \<Rightarrow> ('h, unit) act" where
  "cp_host_file os a src dst =
     (let t0 = toFSPathArg dst
      in andThen (if has_suffix t0 ''/'' \<or> t0 = ''/'' then ret True else fsPathIsDir a t0)
           (\<lambda>intoDir.
              let t = (if intoDir then path_join [t0, path_base src] else t0)
              in andThen (fsPathExists a t)
                   (\<lambda>ex. if ex then fail (DestinationExists t) else writeHostFileToFS os a src t)))"

definition cp_to_host :: "'h host_os \<Rightarrow> api \<Rightarrow> string \<Rightarrow> string \<Rightarrow> ('h, unit) act" where
  "cp_to_host os a src dst0 s =
     (let sp = toFSPathArg src;
          dst = (if h_stat os (chost s) dst0 = Some True then path_join [dst0, path_base sp] else dst0)
      in if h_stat os (chost s) dst \<noteq> None then fail (DestinationExists dst) s
         else andThen (apiReq a ''GET'' ''/files'' [(''path'', sp)] [])
                (\<lambda>data s1. case h_write os (chost s1) dst data of
                   (h, ok) \<Rightarrow> (s1\<lparr>chost := h\<rparr>, if ok then Inr () else Inl HostFailed)) s)"

definition runCP :: "'h host_os \<Rightarrow> api \<Rightarrow> string list \<Rightarrow> ('h, unit) act" where
  "runCP os a args s =
     (case parse_flags [''r'', ''R''] (expandCombinedFlags args ''rR'') [] of
        Some (vals, [src, dst]) \<Rightarrow>
          if \<not> isHostPath src \<and> \<not> isHostPath dst then
            andThen (fsPathExists a (toFSPathArg dst))
              (\<lambda>ex. if ex then fail (DestinationExists dst) else copy_from a (toFSPathArg src) (toFSPathArg dst)) s
          else if isHostPath src \<and> \<not> isHostPath dst then
            (case h_stat os (chost s) src of
               None \<Rightarrow> fail HostFailed s
             | Some True \<Rightarrow>
                 if \<not> flag_set [''r'', ''R''] vals then fail (OmittingDirectory src) s else cp_tree os a src dst s
             | Some False \<Rightarrow> cp_host_file os a src dst s)
          else if \<not> isHostPath src \<and> isHostPath dst then cp_to_host os a src dst s
          else fail NeedsFsPath s
      | Some _ \<Rightarrow> fail Usage s
      | None \<Rightarrow> fail BadFlag s)"

definition runRM :: "'h host_os \<Rightarrow> api \<Rightarrow> string list \<Rightarrow> ('h, unit) act" where
  "runRM os a args =
     (case parse_flags [''r'', ''R''] (expandCombinedFlags args ''rR'') [] of
        Some (vals, [p]) \<Rightarrow>
          if isHostPath p then hintVaultPath os ''rm'' p
          else let recursive = flag_set [''r'', ''R''] vals
               in andThen (if recursive then ret False else fsPathIsDirWithErr a (toFSPathArg p))
                    (\<lambda>isD. if isD then fail (IsDirectory p)
                           else andThen (apiReq a ''DELETE'' ''/files''
                                  ([(''path'', toFSPathArg p)] @ (if recursive then [(''recursive'', ''1'')] else [])) []) (\<lambda>_. ret ()))
      | Some _ \<Rightarrow> fail Usage
      | None \<Rightarrow> fail BadFlag)"

definition runMkdir :: "api \<Rightarrow> string list \<Rightarrow> ('h, unit) act" where
  "runMkdir a args =
     (case parse_flags [''p''] (expandCombinedFlags args ''p'') [] of
        Some (vals, [p]) \<Rightarrow>
          if isHostPath p then fail Unsupported
          else andThen (apiReq a ''POST'' ''/mkdir''
                 ([(''path'', toFSPathArg p)] @ (if flag_set [''p''] vals then [(''parents'', ''1'')] else [])) []) (\<lambda>_. ret ())
      | Some _ \<Rightarrow> fail Usage
      | None \<Rightarrow> fail BadFlag)"

definition runRmdir :: "api \<Rightarrow> string list \<Rightarrow> ('h, unit) act" where
  "runRmdir a args =
     (case args of
        [p] \<Rightarrow> if isHostPath p then fail Unsupported
               else andThen (apiReq a ''POST'' ''/rmdir'' [(''path'', toFSPathArg p)] []) (\<lambda>_. ret ())
      | _ \<Rightarrow> fail Usage)"

text \<open>\<open>fsCopy\<close>; the fuel bounds the depth of the recursion, \<open>None\<close> is not having come to an end.\<close>

fun fsCopy :: "nat \<Rightarrow> api \<Rightarrow> string \<Rightarrow> string \<Rightarrow> 'h cli \<Rightarrow> ('h cli \<times> (cli_error + unit)) option"
  and fsCopyAll :: "nat \<Rightarrow> api \<Rightarrow> string \<Rightarrow> string \<Rightarrow> string list \<Rightarrow> 'h cli \<Rightarrow> ('h cli \<times> (cli_error + unit)) option" where
  "fsCopy 0 a src dst s = None"
| "fsCopy (Suc k) a src dst s =
     (case fsPathIsDirWithErr a src s of
        (s1, Inl e) \<Rightarrow> Some (s1, Inl e)
      | (s1, Inr isD) \<Rightarrow>
          if \<not> isD then Some (copy_from a src dst s1)
          else (case apiReq a ''POST'' ''/mkdir'' [(''path'', dst), (''parents'', ''1'')] [] s1 of
                  (s2, Inl e) \<Rightarrow> Some (s2, Inl e)
                | (s2, Inr _) \<Rightarrow>
                    (case andThen (apiReq a ''GET'' ''/files'' [(''path'', src), (''list'', ''1''), (''all'', ''1'')] []) item_names s2 of
                       (s3, Inl e) \<Rightarrow> Some (s3, Inl e)
                     | (s3, Inr ns) \<Rightarrow> fsCopyAll k a src dst ns s3)))"
| "fsCopyAll k a src dst [] s = Some (s, Inr ())"
| "fsCopyAll k a src dst (n # ns) s =
     (case fsCopy k a (path_join [src, n]) (path_join [dst, n]) s of
        None \<Rightarrow> None
      | Some (s1, Inl e) \<Rightarrow> Some (s1, Inl e)
      | Some (s1, Inr _) \<Rightarrow> fsCopyAll k a src dst ns s1)"

definition delete_all :: "api \<Rightarrow> string \<Rightarrow> ('h, unit) act" where
  "delete_all a p = andThen (apiReq a ''DELETE'' ''/files'' [(''path'', p), (''recursive'', ''1'')] []) (\<lambda>_. ret ())"

definition runMV :: "nat \<Rightarrow> 'h host_os \<Rightarrow> api \<Rightarrow> string list \<Rightarrow> 'h cli \<Rightarrow> ('h cli \<times> (cli_error + unit)) option" where
  "runMV k os a args s =
     (case args of
        [src, dst] \<Rightarrow>
          if \<not> isHostPath src \<and> \<not> isHostPath dst then
            (case fsPathExists a (toFSPathArg dst) s of
               (s1, Inl e) \<Rightarrow> Some (s1, Inl e)
             | (s1, Inr ex) \<Rightarrow>
                 if ex then Some (fail (DestinationExists dst) s1)
                 else (case fsCopy k a (toFSPathArg src) (toFSPathArg dst) s1 of
                         None \<Rightarrow> None
                       | Some (s2, Inl e) \<Rightarrow> Some (s2, Inl e)
                       | Some (s2, Inr _) \<Rightarrow> Some (delete_all a (toFSPathArg src) s2)))
          else if isHostPath src \<and> \<not> isHostPath dst then
            Some (andThen (runCP os a [src, dst])
              (\<lambda>_ s1. case h_remove_all os (chost s1) src of (h, ok) \<Rightarrow> (s1\<lparr>chost := h\<rparr>, if ok then Inr () else Inl HostFailed)) s)
          else if \<not> isHostPath src \<and> isHostPath dst then
            Some (andThen (runCP os a [src, dst]) (\<lambda>_. delete_all a (toFSPathArg src)) s)
          else Some (fail NeedsFsPath s)
      | _ \<Rightarrow> Some (fail Usage s))"

section \<open>Completion\<close>

text \<open>The last slash of a word separates the directory from what has been typed of the name.\<close>

definition split_last :: "string \<Rightarrow> string \<times> string" where
  "split_last cur =
     (if slash \<notin> set cur then ([], cur)
      else let pre = length (dropWhile (\<lambda>c. c \<noteq> slash) (rev cur)) - 1 in (take pre cur, drop (Suc pre) cur))"

definition comp_ok :: "json \<Rightarrow> bool" where
  "comp_ok x \<longleftrightarrow> x = JNull \<or> obj_ok x \<and> str_ok ''name'' x \<and> bool_ok ''is_dir'' x"

definition completeFSPath :: "api \<Rightarrow> string \<Rightarrow> ('h, string list) act" where
  "completeFSPath a cur0 s =
     (let prefixOut = (if has_prefix cur0 ''fs:'' then ''fs:'' else []);
          (parent, pfx) = split_last (trim_prefix cur0 ''fs:'')
      in (case andThen (apiReq a ''GET'' ''/files''
                 [(''path'', toFSPathArg parent), (''list'', ''1''), (''all'', ''1''), (''detail'', ''1'')] []) (item_list comp_ok) s of
            (s1, Inl _) \<Rightarrow> (s1, Inr [])
          | (s1, Inr its) \<Rightarrow>
              (s1, Inr (map (\<lambda>it. prefixOut @ trim_prefix (path_join [parent, get_str ''name'' it]) ''/'' @
                                   (if get_bool ''is_dir'' it then ''/'' else []))
                          (filter (\<lambda>it. has_prefix (get_str ''name'' it) pfx) its)))))"

section \<open>Requests against a connected daemon\<close>

definition connected :: "api \<Rightarrow> 'h cli \<Rightarrow> bool" where
  "connected a s \<longleftrightarrow> a_addr a = devAddr (cdaemon s) \<and> a_token a = ControlToken (dcfg (cdaemon s)) \<and> ControlToken (dcfg (cdaemon s)) \<noteq> []"

abbreviation cfs :: "'h cli \<Rightarrow> memfs" where
  "cfs s \<equiv> dfs (cdaemon s)"

lemma connected_auth: "connected a s \<Longrightarrow> auth \<lparr>rmethod = meth, rquery = q, rtoken = a_token a, rbody = b\<rparr> (cdaemon s)"
  by (auto simp: auth_def connected_def Let_def)

lemma files_route:
  assumes "connected a s" and "p \<noteq> []"
  shows "control_api (a_hmac a) (a_env a) (a_outside a) (a_now a) ''/files''
      \<lparr>rmethod = meth, rquery = (''path'', p) # q, rtoken = a_token a, rbody = b\<rparr> (cdaemon s) =
    (let r = \<lparr>rmethod = meth, rquery = (''path'', p) # q, rtoken = a_token a, rbody = b\<rparr>
     in if meth = ''GET'' then (cdaemon s, files_get (a_env a) p r (cdaemon s))
        else if meth = ''POST'' \<or> meth = ''PUT'' then files_put (a_env a) (a_now a) p r (cdaemon s)
        else if meth = ''DELETE'' then files_delete (a_now a) p r (cdaemon s)
        else (cdaemon s, method_not_allowed))"
  using connected_auth [OF assms(1)] assms(2) by (simp add: control_api_def handleFiles_def qget_def Let_def)

lemma parse_first_line: "nums_ok j \<Longrightarrow> parse_first (marshal j @ nl) = Some (coerce_json j)"
  using reads_backD [OF pval_print, of j nl "2 * length (marshal j @ nl) + 2"] by (simp add: parse_first_def delim_def nl_def)

lemma cli_field_names [simp]:
  "fold_name ''name'' = ''NAME''" "fold_name ''is_dir'' = ''IS_DIR''" "fold_name ''mode'' = ''MODE''" "fold_name ''size'' = ''SIZE''"
  "fold_name ''mod_time'' = ''MOD_TIME''" "fold_name ''items'' = ''ITEMS''"
  by code_simp+

lemma stat_reply:
  "parse_first (body_bytes (rbody_out (reply_json 200 (stat_fields en m p nm n)))) =
     Some (coerce_json (jmap (stat_fields en m p nm n)))"
proof -
  have "nums_ok (jmap (stat_fields en m p nm n))" by (rule jmap_ok) (simp add: stat_fields_def)
  then show ?thesis by (simp add: reply_json_def parse_first_line)
qed

lemma stat_is_dir:
  "field_vals ''is_dir'' (coerce_json (jmap (stat_fields en m p nm n))) = [JBool (isDir n)]"
  "obj_ok (coerce_json (jmap (stat_fields en m p nm n)))"
  by (simp_all add: stat_fields_def jmap_def lookup_last_def obj_ok_def to_valid_ascii)

lemma api_meta:
  assumes c: "connected a s" and p: "normalize_fs p = Inr parts"
  shows "fs_view (cfs s) parts = Some EDir \<Longrightarrow> fsPathIsDirWithErr a p s = (s, Inr True)"
    and "fs_view (cfs s) parts = Some (EFile b) \<Longrightarrow> fsPathIsDirWithErr a p s = (s, Inr False)"
    and "fs_view (cfs s) parts = None \<Longrightarrow> \<exists>e. fsPathIsDirWithErr a p s = (s, Inl e)"
proof -
  have ne: "p \<noteq> []" using p by (auto simp: normalize_fs_def)
  note r = files_route [OF c ne, of "''GET''" "[(''meta'', ''1'')]" "[]"]
  have dir: "fsPathIsDirWithErr a p s = (s, Inr (isDir n))" if n: "Stat (cfs s) p = Inr n" for n
    using c n r stat_reply [of "a_env a" "cfs s" p "nname n" n] stat_is_dir [of "a_env a" "cfs s" p "nname n" n]
    by (simp add: fsPathIsDirWithErr_def andThen_def apiReq_def connected_def files_get_def qget_def ret_def bool_ok_def get_bool_def
        reply_json_def)
  show "fsPathIsDirWithErr a p s = (s, Inr True)" if "fs_view (cfs s) parts = Some EDir"
    using dir Stat_view(1) [OF p] that by fastforce
  show "fsPathIsDirWithErr a p s = (s, Inr False)" if "fs_view (cfs s) parts = Some (EFile b)"
    using dir Stat_view(2) [OF p] that by fastforce
  show "\<exists>e. fsPathIsDirWithErr a p s = (s, Inl e)" if v: "fs_view (cfs s) parts = None"
  proof -
    obtain e where "Stat (cfs s) p = Inl e" using v Stat_view(1,2) [OF p, of "cfs s"] by (cases "Stat (cfs s) p") auto
    then show ?thesis using c r
      by (simp add: fsPathIsDirWithErr_def andThen_def apiReq_def connected_def files_get_def qget_def reply_error_def reply_json_def)
  qed
qed

text \<open>\<open>MkdirAll\<close> succeeds when nothing on the way is a file.\<close>

lemma mkdir_all_ok:
  "isDir cur \<Longrightarrow> (\<And>qs b. prefix qs parts \<Longrightarrow> view cur qs \<noteq> Some (EFile b)) \<Longrightarrow> snd (mkdir_all_node now md parts cur) = None"
proof (induction parts arbitrary: cur)
  case (Cons p ps)
  show ?case
  proof (cases "map_of (children cur) p")
    case None
    have "snd (mkdir_all_node now md ps (new_dir p md now)) = None"
      by (rule Cons.IH) (auto simp: view_new_dir split: if_splits)
    then show ?thesis using None by (simp add: case_prod_unfold Let_def)
  next
    case (Some child)
    have v: "view child qs = view cur (p # qs)" for qs using Some Cons.prems(1) by simp
    have "view child [] \<noteq> Some (EFile b)" for b using Cons.prems(2) [of "[p]"] v [of "[]"] by simp
    then have "isDir child" by (cases "isDir child") auto
    moreover have "snd (mkdir_all_node now md ps child) = None"
    proof (rule Cons.IH [OF \<open>isDir child\<close>])
      show "view child qs \<noteq> Some (EFile b)" if "prefix qs ps" for qs b
        using Cons.prems(2) [of "p # qs" b] v [of qs] that by (simp del: view.simps)
    qed
    ultimately show ?thesis using Some by (simp add: case_prod_unfold Let_def)
  qed
qed simp

lemma MkdirAll_under:
  assumes m: "fs_inv m" and p: "normalize_fs p = Inr (parts @ [c])" and v: "fs_view m parts = Some EDir" "fs_view m (parts @ [c]) = None"
  obtains m' where "MkdirAll now m p md = (m', None)" and "fs_inv m'" and "fs_view m' = (fs_view m)(parts @ [c] \<mapsto> EDir)"
proof -
  have dirs: "fs_view m qs = Some EDir" if pre: "prefix qs parts" for qs
  proof -
    obtain zs where zs: "parts = qs @ zs" using pre by (rule prefixE)
    obtain n where n: "walk_node (root m) qs = Inr n" "zs \<noteq> [] \<longrightarrow> isDir n" "zs = [] \<longrightarrow> isDir n"
      using v(1) unfolding fs_view_def view_walk zs
      by (cases zs) (auto simp: walk_node_append split: sum.splits if_splits)
    then show ?thesis by (cases zs) (auto simp: fs_view_def view_walk)
  qed
  have nofile: "view (root m) qs \<noteq> Some (EFile b)" if "prefix qs (parts @ [c])" for qs b
    using dirs [of qs] that v(2) by (auto simp: fs_view_def prefix_snoc)
  have "snd (mkdir_all_node now md (parts @ [c]) (root m)) = None"
    using m by (intro mkdir_all_ok nofile) (simp_all add: fs_inv_def)
  then obtain m' where m': "MkdirAll now m p md = (m', None)"
    using p by (cases "mkdir_all_node now md (parts @ [c]) (root m)") (auto simp: MkdirAll_def)
  have "fs_view m' = (fs_view m)(parts @ [c] \<mapsto> EDir)"
    using MkdirAll_view [OF m m'] p dirs by (auto simp: fun_eq_iff prefix_snoc)
  moreover have "fs_inv m'" using fs_inv_MkdirAll [OF m, of now p md] m' by simp
  ultimately show thesis using that m' by blast
qed

lemma api_mkdir:
  assumes c: "connected a s" and p: "p \<noteq> []" and ok: "MkdirAll (a_now a) (cfs s) p 0x1ED = (m', None)"
  shows "\<exists>b. apiReq a ''POST'' ''/mkdir'' [(''path'', p), (''parents'', ''1'')] [] s = (s\<lparr>cdaemon := (cdaemon s)\<lparr>dfs := m'\<rparr>\<rparr>, Inr b)"
  using c p ok connected_auth [OF c, of "''POST''" "[(''path'', p), (''parents'', ''1'')]" "[]"]
  by (simp add: apiReq_def control_api_def handleMkdir_def qget_def connected_def reply_ok_def reply_json_def)

lemma api_names:
  assumes c: "connected a s" and p: "p \<noteq> []" and l: "List_fs (cfs s) p = Inr cs" and u: "\<And>x. x \<in> set cs \<Longrightarrow> utf8_valid x"
  shows "andThen (apiReq a ''GET'' ''/files'' [(''path'', p), (''list'', ''1''), (''all'', ''1'')] []) item_names s = (s, Inr cs)"
proof -
  let ?r = "reply_json 200 [(''items'', JArr (map JStr cs))]"
  have req: "apiReq a ''GET'' ''/files'' [(''path'', p), (''list'', ''1''), (''all'', ''1'')] [] s = (s, Inr (body_bytes (rbody_out ?r)))"
    using c l files_route [OF c p, of "''GET''" "[(''list'', ''1''), (''all'', ''1'')]" "[]"]
    by (simp add: apiReq_def connected_def files_get_def qget_def reply_json_def)
  have j: "jmap [(''items'', JArr (map JStr cs))] = JObj [(''items'', JArr (map JStr cs))]" by (simp add: jmap_def lookup_last_def)
  have "map (coerce_json \<circ> JStr) cs = map JStr cs" using u by (auto simp: to_valid_id)
  then have "parse_first (body_bytes (rbody_out ?r)) = Some (JObj [(''items'', JArr (map JStr cs))])"
    using parse_first_line [of "JObj [(''items'', JArr (map JStr cs))]"]
    by (simp add: reply_json_def j list_all_iff to_valid_ascii)
  moreover have "map (\<lambda>x. case x of JStr s \<Rightarrow> s | _ \<Rightarrow> []) (map JStr cs) = cs" by (simp add: comp_def)
  ultimately show ?thesis
    by (simp add: andThen_def req item_names_def items_def obj_ok_def ret_def list_all_iff)
qed

section \<open>Moving a directory into itself\<close>

text \<open>One more level for every unit of fuel: the copy finds the directory it has just made.\<close>

lemma fsCopy_into_itself:
  assumes "connected a s" and "fs_inv (cfs s)" and "normalize_fs src = Inr parts" and "normalize_fs dst = Inr (parts @ [c])"
    and "fs_view (cfs s) parts = Some EDir" and "\<forall>x. fs_view (cfs s) (parts @ [x]) = None" and "utf8_valid c"
  shows "fsCopy k a src dst s = None"
  using assms
proof (induction k arbitrary: s src dst parts)
  case (Suc k)
  note c = Suc.prems(1) and inv = Suc.prems(2) and src = Suc.prems(3) and dst = Suc.prems(4) and empty = Suc.prems(6)
  have ne: "src \<noteq> []" "dst \<noteq> []" using src dst by (auto simp: normalize_fs_def)
  have "good_name c" using normalize_good [OF dst] by simp
  obtain m' where m': "MkdirAll (a_now a) (cfs s) dst 0x1ED = (m', None)" "fs_inv m'" "fs_view m' = (fs_view (cfs s))(parts @ [c] \<mapsto> EDir)"
    using MkdirAll_under [OF inv dst Suc.prems(5)] empty by blast
  define s' where "s' = s\<lparr>cdaemon := (cdaemon s)\<lparr>dfs := m'\<rparr>\<rparr>"
  obtain b where mk: "apiReq a ''POST'' ''/mkdir'' [(''path'', dst), (''parents'', ''1'')] [] s = (s', Inr b)"
    using api_mkdir [OF c ne(2) m'(1)] unfolding s'_def by blast
  have c': "connected a s'" and fs': "cfs s' = m'" using c by (simp_all add: s'_def connected_def)
  have v': "fs_view m' parts = Some EDir" "\<And>x. fs_view m' (parts @ [x]) = (if x = c then Some EDir else None)"
    using Suc.prems(5,6) m'(3) by auto
  obtain cs where cs: "List_fs m' src = Inr cs" "distinct cs" "set cs = {x. fs_view m' (parts @ [x]) \<noteq> None}"
    by (rule List_view [OF m'(2) src v'(1)])
  have "set cs = {c}" using cs(3) v'(2) by auto
  then have "cs = [c]" using cs(2) by (cases cs; cases "tl cs") auto
  then have ls: "andThen (apiReq a ''GET'' ''/files'' [(''path'', src), (''list'', ''1''), (''all'', ''1'')] []) item_names s' = (s', Inr [c])"
    using api_names [OF c' ne(1)] cs(1) fs' Suc.prems(7) by simp
  have leaf: "fs_view m' ((parts @ [c]) @ [x]) = None" for x
  proof (rule ccontr)
    assume "fs_view m' ((parts @ [c]) @ [x]) \<noteq> None"
    then have "fs_view (cfs s) ((parts @ [c]) @ [x]) \<noteq> None" using m'(3) by simp
    then have "fs_view (cfs s) (parts @ [c]) \<noteq> None" unfolding fs_view_def by (rule view_parent)
    then show False using empty by simp
  qed
  have "fsCopy k a (path_join [src, c]) (path_join [dst, c]) s' = None"
  proof (rule Suc.IH [OF c'])
    show "fs_inv (cfs s')" by (simp add: fs' m'(2))
    show "normalize_fs (path_join [src, c]) = Inr (parts @ [c])" by (rule normalize_join [OF src \<open>good_name c\<close>])
    show "normalize_fs (path_join [dst, c]) = Inr ((parts @ [c]) @ [c])" by (rule normalize_join [OF dst \<open>good_name c\<close>])
    show "fs_view (cfs s') (parts @ [c]) = Some EDir" using v'(2) fs' by simp
    show "\<forall>x. fs_view (cfs s') ((parts @ [c]) @ [x]) = None" using leaf fs' by simp
  qed (rule Suc.prems(7))
  then show ?case using api_meta(1) [OF c src Suc.prems(5)] mk ls by simp
qed simp

lemma api_exists_not:
  assumes "connected a s" and "normalize_fs p = Inr parts" and "fs_view (cfs s) parts = None"
  shows "fsPathExists a p s = (s, Inr False)"
  using api_meta(3) [OF assms] by (auto simp: fsPathExists_def succeeded_def)

text \<open>
  \<open>mv\<close> of an empty directory of the vault to a new name inside itself never returns: whatever
  the number of steps it is given, it has not come to an end, because every copied level is
  a new directory to copy.
\<close>

theorem mv_into_itself_diverges:
  assumes c: "connected a s" and inv: "fs_inv (cfs s)" and fs: "\<not> isHostPath src" "\<not> isHostPath dst"
    and src: "normalize_fs (toFSPathArg src) = Inr parts" and dst: "normalize_fs (toFSPathArg dst) = Inr (parts @ [c1])"
    and dir: "fs_view (cfs s) parts = Some EDir" "\<forall>x. fs_view (cfs s) (parts @ [x]) = None" and c1: "utf8_valid c1"
  shows "runMV k os a [src, dst] s = None"
  using fsCopy_into_itself [OF c inv src dst dir c1, of k] api_exists_not [OF c dst] dir(2) fs by (simp add: runMV_def)

definition demo_host :: "(string \<rightharpoonup> bytes) host_os" where
  "demo_host = \<lparr>h_stat = \<lambda>h p. map_option (\<lambda>_. False) (h p), h_read = \<lambda>h p. h p, h_write = \<lambda>h p b. (h(p \<mapsto> b), True),
     h_remove_all = \<lambda>h p. (h(p := None), True), h_walk = \<lambda>h p. None\<rparr>"

definition demo_api :: api where
  "demo_api = \<lparr>a_addr = ''127.0.0.1:7'', a_token = ''t'', a_hmac = \<lambda>_ _. [], a_env = demo_env,
     a_outside = \<lparr>o_ferr = None, o_werr = None, o_git = Inr None, o_key = [], o_grace = None\<rparr>, a_now = 9\<rparr>"

definition demo_cli :: "(string \<rightharpoonup> bytes) cli" where
  "demo_cli = \<lparr>cdaemon = demo_daemon\<lparr>devAddr := ''127.0.0.1:7'', dfs := fst (Mkdir 5 (dfs demo_daemon) ''/keys'' 0x1ED)\<rparr>,
     chost = [''./f'' \<mapsto> ''s3cret''], cout = []\<rparr>"

lemma demo_cli_inv: "connected demo_api demo_cli" "fs_inv (cfs demo_cli)"
  using fs_inv_Mkdir [OF demo_daemon_inv] by (simp_all add: connected_def demo_api_def demo_cli_def demo_daemon_def new_daemon_def)

lemma demo_cli_view: "fs_view (cfs demo_cli) = [[] \<mapsto> EDir, [''keys''] \<mapsto> EDir]"
proof -
  have mk: "Mkdir 5 (dfs demo_daemon) ''/keys'' 0x1ED = (cfs demo_cli, None)"
    unfolding demo_cli_def by (simp add: prod_eq_iff) code_simp
  have "fs_view (dfs demo_daemon) = [[] \<mapsto> EDir]"
    by (rule ext) (simp add: demo_daemon_def new_daemon_def New_def fs_view_def view_new_dir)
  moreover have "normalize_fs ''/keys'' = Inr [''keys'']" by code_simp
  ultimately show ?thesis using Mkdir_view [OF mk] by auto
qed

theorem mv_into_itself_diverges_witness:
  "runMV 1000 demo_host demo_api [''fs:keys'', ''fs:keys/old''] demo_cli = None"
proof (rule mv_into_itself_diverges [OF demo_cli_inv])
  show "\<not> isHostPath ''fs:keys''" "\<not> isHostPath ''fs:keys/old''" "normalize_fs (toFSPathArg ''fs:keys'') = Inr [''keys'']"
    "normalize_fs (toFSPathArg ''fs:keys/old'') = Inr ([''keys''] @ [''old''])" "utf8_valid ''old''" by code_simp+
  show "fs_view (cfs demo_cli) [''keys''] = Some EDir" "\<forall>x. fs_view (cfs demo_cli) ([''keys''] @ [x]) = None"
    by (simp_all add: demo_cli_view)
qed

section \<open>Copying in and reading back\<close>

lemma runtime_names [simp]:
  "fold_name ''control_url'' = ''CONTROL_URL''" "fold_name ''control_addr'' = ''CONTROL_ADDR''" "fold_name ''control_token'' = ''CONTROL_TOKEN''"
  "fold_name ''webdav_addr'' = ''WEBDAV_ADDR''" "fold_name ''mountpoint'' = ''MOUNTPOINT''"
  by code_simp+

text \<open>The runtime file the daemon writes is read back by the command line.\<close>

lemma runtime_loads:
  "loadRuntimeState (Some (writeRuntimeState d)) =
     (if to_valid (devAddr d) = [] \<or> to_valid (ControlToken (dcfg d)) = [] then None
      else Some (to_valid (devAddr d), to_valid (ControlToken (dcfg d))))"
  unfolding loadRuntimeState_def writeRuntimeState_def option.case
  by (subst parse_marshal) (simp_all add: obj_ok_def str_ok_def get_str_def to_valid_ascii)

lemma host_path_hd: "isHostPath src \<Longrightarrow> src \<noteq> [] \<and> hd src \<noteq> CHR ''-''"
  unfolding isHostPath_def by (auto split: if_split_asm elim!: prefixE)

lemma host_path_flags:
  assumes "isHostPath src" and "\<not> has_prefix dst ''-''"
  shows "parse_flags names (expandCombinedFlags [src, dst] allowed) [] = Some ([], [src, dst])"
proof -
  have "\<not> has_prefix src ''-''" "hd src \<noteq> CHR ''-''" using host_path_hd [OF assms(1)] by (auto elim!: prefixE)
  then show ?thesis using assms(2) by (simp add: expandCombinedFlags_def)
qed

lemma api_is_not_dir:
  assumes c: "connected a s" and p: "normalize_fs p = Inr parts" and v: "fs_view (cfs s) parts \<noteq> Some EDir"
  shows "fsPathIsDir a p s = (s, Inr False) \<and> fsPathExists a p s = (s, Inr (fs_view (cfs s) parts \<noteq> None))"
proof (cases "fs_view (cfs s) parts")
  case None
  obtain e where "fsPathIsDirWithErr a p s = (s, Inl e)" using api_meta(3) [OF c p None] by blast
  then show ?thesis using None by (simp add: fsPathIsDir_def fsPathExists_def succeeded_def)
next
  case (Some x)
  then obtain b where b: "fs_view (cfs s) parts = Some (EFile b)" using v by (cases x) simp_all
  show ?thesis using api_meta(2) [OF c p b] b by (simp add: fsPathIsDir_def fsPathExists_def succeeded_def)
qed

lemma api_write:
  assumes c: "connected a s" and inv: "fs_inv (cfs s)" and p: "p \<noteq> []"
    and w: "apiReq a ''POST'' ''/files'' [(''path'', p)] (marshal (JObj [(''content'', JStr data)])) s = (s1, Inr b)"
  shows "Read (cfs s1) p = Inr (to_valid data) \<and> connected a s1 \<and> cout s1 = cout s \<and> chost s1 = chost s \<and> fs_inv (cfs s1)"
proof -
  obtain m err where wf: "write_file (a_now a) p (to_valid data) (cfs s) = (m, err)" by (rule prod.exhaust)
  have route: "control_api (a_hmac a) (a_env a) (a_outside a) (a_now a) ''/files''
      \<lparr>rmethod = ''POST'', rquery = [(''path'', p)], rtoken = a_token a, rbody = marshal (JObj [(''content'', JStr data)])\<rparr> (cdaemon s) =
    ((cdaemon s)\<lparr>dfs := m\<rparr>, case err of Some e \<Rightarrow> reply_error 500 (fs_error_text e) | None \<Rightarrow> reply_ok)"
    using files_route [OF c p, of "''POST''" "[]" "marshal (JObj [(''content'', JStr data)])"] wf
      files_put_content [of "\<lparr>rmethod = ''POST'', rquery = [(''path'', p)], rtoken = a_token a, rbody = marshal (JObj [(''content'', JStr data)])\<rparr>" data
        "a_env a" "a_now a" p "cdaemon s"]
    by (simp add: Let_def del: marshal.simps)
  have "err = None" using w c route
    by (cases err) (simp_all add: apiReq_def connected_def reply_error_def reply_json_def)
  then have "s1 = s\<lparr>cdaemon := (cdaemon s)\<lparr>dfs := m\<rparr>\<rparr>" using w c route by (simp add: apiReq_def connected_def reply_ok_def reply_json_def)
  moreover have "Read m p = Inr (to_valid data)" using write_file_reads [OF inv] wf \<open>err = None\<close> by simp
  moreover have "fs_inv m" using fs_inv_write_file [OF inv, of "a_now a" p "to_valid data"] wf by simp
  ultimately show ?thesis using c by (simp add: connected_def)
qed

lemma api_read:
  assumes c: "connected a s" and p: "p \<noteq> []" and r: "Read (cfs s) p = Inr b"
  shows "apiReq a ''GET'' ''/files'' [(''path'', p)] [] s = (s, Inr b)"
  using files_route [OF c p, of "''GET''" "[]" "[]"] c r by (simp add: apiReq_def connected_def files_get_def qget_def)

text \<open>
  C30: A host file copied into the vault by \<open>valetfs cp\<close> is what \<open>valetfs cat\<close> of the same name
  prints, up to the replacement of bytes that are not UTF-8, when both find the daemon
  through the runtime file it wrote. A successful copy to a name that is no directory has not
  overwritten anything.
\<close>

theorem cli_copy_cat:
  assumes inv: "fs_inv (cfs s)" and rt: "loadRuntimeState (Some (writeRuntimeState (cdaemon s))) = Some (a_addr a, a_token a)"
    and u: "utf8_valid (devAddr (cdaemon s))" "utf8_valid (ControlToken (dcfg (cdaemon s)))"
    and src: "isHostPath src" "h_stat os (chost s) src = Some False" "h_read os (chost s) src = Some data"
    and dst: "\<not> isHostPath dst" "\<not> has_prefix dst ''-''" "\<not> has_suffix (toFSPathArg dst) ''/''"
      "normalize_fs (toFSPathArg dst) = Inr parts" "fs_view (cfs s) parts \<noteq> Some EDir"
    and cp: "runCP os a [src, dst] s = (s1, Inr ())"
  shows "fs_view (cfs s) parts = None \<and> cout s1 = cout s \<and>
    runCat os a [dst] s1 = (s1\<lparr>cout := cout s1 @ [to_valid data]\<rparr>, Inr ())"
proof -
  let ?t = "toFSPathArg dst"
  have c: "connected a s" using rt u by (auto simp: runtime_loads to_valid_id connected_def split: if_splits)
  have ne: "?t \<noteq> []" using dst(4) by (auto simp: normalize_fs_def)
  have t: "?t \<noteq> ''/''" using dst(3) by auto
  have host: "cp_host_file os a src dst s = (s1, Inr ())"
    using cp src dst(1) host_path_flags [OF src(1) dst(2), of "[''r'', ''R'']" "''rR''"] by (simp add: runCP_def)
  have "fs_view (cfs s) parts = None" and w: "writeHostFileToFS os a src ?t s = (s1, Inr ())"
    using host t dst(3) api_is_not_dir [OF c dst(4,5)]
    by (auto simp: cp_host_file_def Let_def andThen_def fail_def split: if_splits)
  obtain b where post: "apiReq a ''POST'' ''/files'' [(''path'', ?t)] (marshal (JObj [(''content'', JStr data)])) s = (s1, Inr b)"
    using w src(3) by (auto simp: writeHostFileToFS_def andThen_def ret_def split: prod.splits sum.splits)
  note r = api_write [OF c inv ne post]
  have "apiReq a ''GET'' ''/files'' [(''path'', ?t)] [] s1 = (s1, Inr (to_valid data))" using api_read [OF _ ne] r by blast
  then show ?thesis using \<open>fs_view (cfs s) parts = None\<close> dst(1) r
    by (simp add: runCat_def andThen_def print_out_def)
qed

theorem cli_copy_cat_witness:
  "\<exists>s1. runCP demo_host demo_api [''./f'', ''fs:keys/f''] demo_cli = (s1, Inr ()) \<and>
     runCat demo_host demo_api [''fs:keys/f''] s1 = (s1\<lparr>cout := cout s1 @ [''s3cret'']\<rparr>, Inr ())"
proof -
  define s1 where "s1 = fst (runCP demo_host demo_api [''./f'', ''fs:keys/f''] demo_cli)"
  have "snd (runCP demo_host demo_api [''./f'', ''fs:keys/f''] demo_cli) = Inr ()" by code_simp
  then have cp: "runCP demo_host demo_api [''./f'', ''fs:keys/f''] demo_cli = (s1, Inr ())" unfolding s1_def by (simp add: prod_eq_iff)
  have st: "loadRuntimeState (Some (writeRuntimeState (cdaemon demo_cli))) = Some (a_addr demo_api, a_token demo_api)"
    "utf8_valid (devAddr (cdaemon demo_cli))" "utf8_valid (ControlToken (dcfg (cdaemon demo_cli)))"
    "isHostPath ''./f''" "\<not> isHostPath ''fs:keys/f''" "\<not> has_prefix ''fs:keys/f'' ''-''" "\<not> has_suffix (toFSPathArg ''fs:keys/f'') ''/''"
    "normalize_fs (toFSPathArg ''fs:keys/f'') = Inr [''keys'', ''f'']" "to_valid ''s3cret'' = ''s3cret''" by code_simp+
  have h: "h_stat demo_host (chost demo_cli) ''./f'' = Some False" "h_read demo_host (chost demo_cli) ''./f'' = Some ''s3cret''"
    by (simp_all add: demo_host_def demo_cli_def)
  have "fs_view (cfs demo_cli) [''keys'', ''f''] \<noteq> Some EDir" by (simp add: demo_cli_view)
  from cli_copy_cat [OF demo_cli_inv(2) st(1-4) h st(5-8) this cp] show ?thesis using cp st(9) by simp
qed

end
