(* ===== verification/WsConn.thy ===== *)
theory WsConn
  imports Hub Cli
begin

text \<open>
  The web socket transport of \<open>internal/transport/ws\<close>: reaching the hub, and the life of one
  connection. The hub at the other end is the one of \<open>Hub\<close>, at the address a \<open>site\<close> gives it;
  \<open>net/url\<close> and \<open>net.ParseIP\<close> are parameters in \<open>net_lib\<close>. \<open>net/http\<close> carries method, path, header
  and body unchanged, and the query string of a web socket URL is unescaped to what was escaped.
  Connections are numbered as in \<open>Hub\<close>; the number of a new one is an argument.
\<close>

section \<open>Addresses\<close>

record url =
  Scheme :: string
  Host :: string
  Hostname :: string
  UPath :: string

record net_lib =
  url_Parse :: "string \<Rightarrow> url option"
  ip_loopback :: "string \<Rightarrow> bool"

datatype hub_error = BadURL string | BadScheme string string | PlainHub string | Unreachable | HubStatus int bytes | BadAnswer

definition checkHubURL :: "net_lib \<Rightarrow> bool \<Rightarrow> string \<Rightarrow> hub_error option" where
  "checkHubURL lib allowInsecure hubURL =
     (case url_Parse lib hubURL of
        None \<Rightarrow> Some (BadURL hubURL)
      | Some u \<Rightarrow>
          if Scheme u = ''https'' \<or> Scheme u = ''wss'' then None
          else if Scheme u = ''http'' \<or> Scheme u = ''ws'' then
            (if Hostname u = ''localhost'' then None
             else if ip_loopback lib (Hostname u) then None
             else if allowInsecure then None
             else Some (PlainHub hubURL))
          else Some (BadScheme hubURL (Scheme u)))"

definition toWSScheme :: "string \<Rightarrow> string" where
  "toWSScheme u =
     (if has_prefix u ''https://'' then ''wss://'' @ trim_prefix u ''https://'' else ''ws://'' @ trim_prefix u ''http://'')"

section \<open>Requests to the hub\<close>

record site =
  s_tls :: bool
  s_addr :: string
  s_hub :: hub

definition reaches :: "site \<Rightarrow> string \<Rightarrow> string \<Rightarrow> url \<Rightarrow> bool" where
  "reaches s plain secure u \<longleftrightarrow> Host u = s_addr s \<and> Scheme u = (if s_tls s then secure else plain)"

definition http_post ::
  "net_lib \<Rightarrow> (bytes \<Rightarrow> bytes) \<Rightarrow> bytes \<Rightarrow> bytes \<Rightarrow> string \<Rightarrow> string \<Rightarrow> bytes \<Rightarrow> site \<Rightarrow> site \<times> (hub_error + http_resp)" where
  "http_post lib sha r1 r2 endpoint secret bd s =
     (case url_Parse lib endpoint of
        None \<Rightarrow> (s, Inl (BadURL endpoint))
      | Some u \<Rightarrow>
          if \<not> reaches s ''http'' ''https'' u then (s, Inl Unreachable)
          else (case hub_ServeHTTP sha r1 r2 (UPath u) ''POST'' secret bd (s_hub s) of
                  (h, Answer r) \<Rightarrow> (s\<lparr>s_hub := h\<rparr>, Inr r)
                | (h, Upgrade) \<Rightarrow> (s\<lparr>s_hub := h\<rparr>, Inr \<lparr>code = 405, rbody_out = BEmpty\<rparr>)))"

text \<open>The headers but the claim secret play no part in the hub; an empty value sets no header.\<close>

definition postJSONWithHeader ::
  "net_lib \<Rightarrow> (bytes \<Rightarrow> bytes) \<Rightarrow> bytes \<Rightarrow> bytes \<Rightarrow> string \<Rightarrow> string \<Rightarrow> json option \<Rightarrow> site \<Rightarrow> site \<times> (hub_error + json)" where
  "postJSONWithHeader lib sha r1 r2 endpoint secret bd s =
     (case http_post lib sha r1 r2 endpoint secret (case bd of None \<Rightarrow> [] | Some j \<Rightarrow> marshal j) s of
        (s1, Inl e) \<Rightarrow> (s1, Inl e)
      | (s1, Inr r) \<Rightarrow>
          if code r \<noteq> 200 then (s1, Inl (HubStatus (code r) (body_bytes (rbody_out r))))
          else (case parse_first (body_bytes (rbody_out r)) of None \<Rightarrow> (s1, Inl BadAnswer) | Some j \<Rightarrow> (s1, Inr j)))"

record wsref =
  c_num :: nat
  c_sid :: string
  c_token :: string

text \<open>
  \<open>dialWS\<close>. The hub completes the handshake before it looks at the session, the role and the
  token, so reaching it is all that dialling asks; a refused connection is closed at once, which
  here is not being in \<open>live\<close>.
\<close>

definition dialWS :: "net_lib \<Rightarrow> nat \<Rightarrow> string \<Rightarrow> string \<Rightarrow> string \<Rightarrow> string \<Rightarrow> site \<Rightarrow> site \<times> (hub_error + wsref)" where
  "dialWS lib c hubURL sessID role tok s =
     (case url_Parse lib (toWSScheme hubURL @ ''/ws/connect'') of
        None \<Rightarrow> (s, Inl (BadURL hubURL))
      | Some u \<Rightarrow>
          if \<not> reaches s ''ws'' ''wss'' u \<or> UPath u \<noteq> ''/ws/connect'' then (s, Inl Unreachable)
          else (s\<lparr>s_hub := fst (ws_open c sessID role tok (s_hub s))\<rparr>, Inr \<lparr>c_num = c, c_sid = [], c_token = []\<rparr>))"

definition NewClaimSecret :: "bytes \<Rightarrow> string" where
  "NewClaimSecret rnd = rawurl_encode rnd"

definition versions_json :: json where
  "versions_json = JArr (map (\<lambda>v. JNum (itoa v)) Supported)"

definition create_body :: "string \<Rightarrow> string \<Rightarrow> string \<Rightarrow> params" where
  "create_body pub pubV2 secret =
     opt_field (secret \<noteq> []) ''claim_secret'' (JStr secret) @ [(''init'', JBool True)] @
     opt_field (pub \<noteq> []) ''pub'' (JStr pub) @ opt_field (pubV2 \<noteq> []) ''pub_v2'' (JStr pubV2) @
     [(''role'', JStr ''daemon''), (''versions'', versions_json)]"

definition DialDaemon ::
  "net_lib \<Rightarrow> (bytes \<Rightarrow> bytes) \<Rightarrow> bool \<Rightarrow> bytes \<Rightarrow> bytes \<Rightarrow> nat \<Rightarrow> string \<Rightarrow> string \<Rightarrow> string \<Rightarrow> string \<Rightarrow> site \<Rightarrow> site \<times> (hub_error + wsref)" where
  "DialDaemon lib sha allowInsecure rid rtok c hubURL pub pubV2 secret s =
     (case checkHubURL lib allowInsecure hubURL of
        Some e \<Rightarrow> (s, Inl e)
      | None \<Rightarrow>
          (case postJSONWithHeader lib sha rid rtok (hubURL @ ''/ws/sessions'') [] (Some (jmap (create_body pub pubV2 secret))) s of
             (s1, Inl e) \<Rightarrow> (s1, Inl e)
           | (s1, Inr j) \<Rightarrow>
               if \<not> (obj_ok j \<and> str_ok ''session_id'' j \<and> str_ok ''daemon_token'' j) then (s1, Inl BadAnswer)
               else (case dialWS lib c hubURL (get_str ''session_id'' j) ''daemon'' (get_str ''daemon_token'' j) s1 of
                       (s2, Inl e) \<Rightarrow> (s2, Inl e)
                     | (s2, Inr r) \<Rightarrow>
                         (s2, Inr (r\<lparr>c_sid := get_str ''session_id'' j, c_token := get_str ''daemon_token'' j\<rparr>)))))"

definition ReconnectDaemon :: "net_lib \<Rightarrow> bool \<Rightarrow> nat \<Rightarrow> string \<Rightarrow> string \<Rightarrow> string \<Rightarrow> site \<Rightarrow> site \<times> (hub_error + wsref)" where
  "ReconnectDaemon lib allowInsecure c hubURL sessID tok s =
     (case checkHubURL lib allowInsecure hubURL of
        Some e \<Rightarrow> (s, Inl e)
      | None \<Rightarrow>
          (case dialWS lib c hubURL sessID ''daemon'' tok s of
             (s1, Inl e) \<Rightarrow> (s1, Inl e)
           | (s1, Inr r) \<Rightarrow> (s1, Inr (r\<lparr>c_sid := sessID, c_token := tok\<rparr>))))"

definition JoinDaemon :: "net_lib \<Rightarrow> bool \<Rightarrow> nat \<Rightarrow> string \<Rightarrow> string \<Rightarrow> string \<Rightarrow> site \<Rightarrow> site \<times> (hub_error + wsref)" where
  "JoinDaemon = ReconnectDaemon"

definition PublishPub ::
  "net_lib \<Rightarrow> (bytes \<Rightarrow> bytes) \<Rightarrow> bool \<Rightarrow> string \<Rightarrow> string \<Rightarrow> string \<Rightarrow> string \<Rightarrow> site \<Rightarrow> site \<times> hub_error option" where
  "PublishPub lib sha allowInsecure hubURL sessID pub pubV2 s =
     (case checkHubURL lib allowInsecure hubURL of
        Some e \<Rightarrow> (s, Some e)
      | None \<Rightarrow>
          (case http_post lib sha [] [] (hubURL @ ''/ws/sessions/'' @ sessID @ ''/pub'') []
                  (marshal (jmap [(''pub'', JStr pub), (''pub_v2'', JStr pubV2), (''versions'', versions_json)])) s of
             (s1, Inl e) \<Rightarrow> (s1, Some e)
           | (s1, Inr r) \<Rightarrow> (s1, if code r \<noteq> 204 then Some (HubStatus (code r) []) else None)))"

definition ints_ok :: "string \<Rightarrow> json \<Rightarrow> bool" where
  "ints_ok name j =
     list_all (\<lambda>v. case v of
         JArr vs \<Rightarrow> list_all (\<lambda>x. case x of JNum l \<Rightarrow> int_of_num l \<noteq> None | JNull \<Rightarrow> True | _ \<Rightarrow> False) vs
       | JNull \<Rightarrow> True | _ \<Rightarrow> False) (field_vals name j)"

definition DialController ::
  "net_lib \<Rightarrow> (bytes \<Rightarrow> bytes) \<Rightarrow> bool \<Rightarrow> bytes \<Rightarrow> nat \<Rightarrow> string \<Rightarrow> string \<Rightarrow> string \<Rightarrow> site \<Rightarrow>
     site \<times> (hub_error + wsref \<times> string \<times> int list)" where
  "DialController lib sha allowInsecure rtok c hubURL sessID secret s =
     (case checkHubURL lib allowInsecure hubURL of
        Some e \<Rightarrow> (s, Inl e)
      | None \<Rightarrow>
          (case postJSONWithHeader lib sha rtok [] (hubURL @ ''/ws/sessions/'' @ sessID @ ''/claim'') secret None s of
             (s1, Inl e) \<Rightarrow> (s1, Inl e)
           | (s1, Inr j) \<Rightarrow>
               if \<not> (obj_ok j \<and> str_ok ''controller_token'' j \<and> str_ok ''daemon_pub'' j \<and> str_ok ''daemon_pub_v2'' j \<and> ints_ok ''versions'' j)
               then (s1, Inl BadAnswer)
               else (case dialWS lib c hubURL sessID ''vault'' (get_str ''controller_token'' j) s1 of
                       (s2, Inl e) \<Rightarrow> (s2, Inl e)
                     | (s2, Inr r) \<Rightarrow> (s2, Inr (r, get_str ''daemon_pub'' j, get_ints ''versions'' j)))))"

section \<open>One connection\<close>

text \<open>
  The calls a connection makes upwards, in order. \<open>reader\<close> and \<open>keeper\<close> say that the goroutines
  \<open>readLoop\<close> and \<open>keepalive\<close> run.
\<close>

datatype conn_call = COpen | CData bytes | CClose

record wsconn =
  onData :: bool
  onOpen :: bool
  onClose :: bool
  started :: bool
  done_closed :: bool
  lastRead :: time
  sock_open :: bool
  reader :: bool
  keeper :: bool
  calls :: "conn_call list"

definition new_conn :: wsconn where
  "new_conn = \<lparr>onData = False, onOpen = False, onClose = False, started = False, done_closed = False, lastRead = 0,
     sock_open = True, reader = False, keeper = False, calls = []\<rparr>"

definition readSilenceLimit :: int where
  "readSilenceLimit = 90 * Second"

definition keepalive_period :: int where
  "keepalive_period = 25 * Second"

definition keepalive_frame :: bytes where
  "keepalive_frame = CHR ''{'' # CHR 0x22 # ''sys'' @ CHR 0x22 # CHR '':'' # CHR 0x22 # ''ka'' @ [CHR 0x22, CHR ''}'']"

definition conn_stop :: "wsconn \<Rightarrow> wsconn" where
  "conn_stop c = c\<lparr>done_closed := True\<rparr>"

definition conn_Close :: "wsconn \<Rightarrow> wsconn" where
  "conn_Close c = (conn_stop c)\<lparr>sock_open := False\<rparr>"

definition conn_Start :: "time \<Rightarrow> wsconn \<Rightarrow> wsconn" where
  "conn_Start now c =
     (if started c then c
      else c\<lparr>started := True, lastRead := now, calls := calls c @ (if onOpen c then [COpen] else []), reader := True, keeper := True\<rparr>)"

text \<open>A round of \<open>readLoop\<close>, by what \<open>Receive\<close> returned, and a round of \<open>keepalive\<close>, by whether the write succeeded.\<close>

definition read_frame :: "time \<Rightarrow> bytes \<Rightarrow> wsconn \<Rightarrow> wsconn" where
  "read_frame now b c = c\<lparr>lastRead := now, calls := calls c @ (if onData c then [CData b] else [])\<rparr>"

definition read_error :: "wsconn \<Rightarrow> wsconn" where
  "read_error c = (conn_stop c)\<lparr>calls := calls c @ (if onClose c then [CClose] else []), reader := False\<rparr>"

definition keepalive_tick :: "time \<Rightarrow> bool \<Rightarrow> wsconn \<Rightarrow> wsconn" where
  "keepalive_tick now sent c =
     (if \<not> sent then c\<lparr>keeper := False\<rparr>
      else if now - lastRead c > readSilenceLimit then c\<lparr>sock_open := False, keeper := False\<rparr>
      else c)"

inductive ws_step :: "wsconn \<Rightarrow> wsconn \<Rightarrow> bool" where
  Handlers: "ws_step c (c\<lparr>onData := a, onOpen := b, onClose := e\<rparr>)"
| Starts: "ws_step c (conn_Start now c)"
| Reads: "reader c \<Longrightarrow> sock_open c \<Longrightarrow> ws_step c (read_frame now b c)"
| Fails: "reader c \<Longrightarrow> ws_step c (read_error c)"
| Ticks: "keeper c \<Longrightarrow> ws_step c (keepalive_tick now sent c)"
| Done: "keeper c \<Longrightarrow> done_closed c \<Longrightarrow> ws_step c (c\<lparr>keeper := False\<rparr>)"
| Closes: "ws_step c (conn_Close c)"

inductive ws_reach :: "wsconn \<Rightarrow> bool" where
  New: "ws_reach new_conn"
| Step: "ws_reach c \<Longrightarrow> ws_step c c' \<Longrightarrow> ws_reach c'"

inductive_cases ws_stepE: "ws_step c c'"


section \<open>The life of a connection\<close>

text \<open>
  Calls come in the order a user can rely on: at most one \<open>COpen\<close>, before everything else, and
  at most one \<open>CClose\<close>, after everything else and with both goroutines told to end.
\<close>

definition calls_ok :: "conn_call list \<Rightarrow> bool" where
  "calls_ok cs \<longleftrightarrow> COpen \<notin> set (tl cs) \<and> CClose \<notin> set (butlast cs)"

definition ws_inv :: "wsconn \<Rightarrow> bool" where
  "ws_inv c \<longleftrightarrow> calls_ok (calls c) \<and> (started c \<or> calls c = [] \<and> \<not> reader c \<and> \<not> keeper c) \<and>
     (CClose \<in> set (calls c) \<longrightarrow> \<not> reader c \<and> done_closed c) \<and> (started c \<and> \<not> reader c \<longrightarrow> done_closed c)"

lemma calls_ok_snoc:
  "calls_ok cs \<Longrightarrow> CClose \<notin> set cs \<Longrightarrow> x \<noteq> COpen \<Longrightarrow> calls_ok (cs @ [x])"
  by (cases cs) (auto simp: calls_ok_def)

lemma ws_step_inv: "ws_step c c' \<Longrightarrow> ws_inv c \<Longrightarrow> ws_inv c'"
proof (erule ws_stepE, goal_cases)
  case (3 now b)
  then show ?case by (auto simp: ws_inv_def read_frame_def calls_ok_snoc)
next
  case 4
  then show ?case by (auto simp: ws_inv_def read_error_def conn_stop_def calls_ok_snoc)
qed (auto simp: ws_inv_def conn_Start_def keepalive_tick_def conn_Close_def conn_stop_def calls_ok_def)

lemma ws_reach_inv: "ws_reach c \<Longrightarrow> ws_inv c"
proof (induction rule: ws_reach.induct)
  case New
  show ?case by (simp add: ws_inv_def new_conn_def calls_ok_def)
next
  case (Step c c')
  then show ?case using ws_step_inv by blast
qed

text \<open>
  C17: In every run of a connection \<open>OnOpen\<close> is called at most once and before any other call,
  \<open>OnClose\<close> at most once and after every other call, and once the reading goroutine has ended or
  \<open>OnClose\<close> has run the channel that stops the keepalive is closed.
\<close>

theorem conn_lifecycle:
  assumes "ws_reach c"
  shows "COpen \<notin> set (tl (calls c)) \<and> CClose \<notin> set (butlast (calls c)) \<and>
    (CClose \<in> set (calls c) \<longrightarrow> \<not> reader c \<and> done_closed c) \<and> (started c \<and> \<not> reader c \<longrightarrow> done_closed c)"
  using ws_reach_inv [OF assms] by (simp add: ws_inv_def calls_ok_def)

definition demo_conn :: wsconn where
  "demo_conn = read_error (read_frame 5 ''x'' (conn_Start 3 (new_conn\<lparr>onData := True, onOpen := True, onClose := True\<rparr>)))"

lemma demo_conn_reach: "ws_reach demo_conn"
proof -
  let ?h = "new_conn\<lparr>onData := True, onOpen := True, onClose := True\<rparr>"
  have "ws_reach ?h" by (rule ws_reach.Step [OF ws_reach.New ws_step.Handlers])
  then have 1: "ws_reach (conn_Start 3 ?h)" by (rule ws_reach.Step [OF _ ws_step.Starts])
  then have 2: "ws_reach (read_frame 5 ''x'' (conn_Start 3 ?h))"
    by (rule ws_reach.Step [OF _ ws_step.Reads]) (simp_all add: conn_Start_def new_conn_def)
  show ?thesis
    unfolding demo_conn_def by (rule ws_reach.Step [OF 2 ws_step.Fails]) (simp add: read_frame_def conn_Start_def new_conn_def)
qed

theorem conn_lifecycle_witness:
  "calls demo_conn = [COpen, CData ''x'', CClose] \<and> ws_reach demo_conn \<and> CClose \<notin> set (butlast (calls demo_conn)) \<and> done_closed demo_conn"
proof -
  have "calls demo_conn = [COpen, CData ''x'', CClose]" by code_simp
  then show ?thesis using conn_lifecycle [OF demo_conn_reach] demo_conn_reach by auto
qed

section \<open>Half-open connections\<close>

definition silent_ticks :: "time list \<Rightarrow> wsconn \<Rightarrow> wsconn" where
  "silent_ticks ts c = foldl (\<lambda>c t. if keeper c then keepalive_tick t True c else c) c ts"

lemma silent_ticks_closed: "\<not> keeper c \<Longrightarrow> silent_ticks ts c = c"
  by (induction ts) (simp_all add: silent_ticks_def)

lemma silent_ticks_Cons:
  "keeper c \<Longrightarrow> silent_ticks (t # ts) c =
     (if t - lastRead c > readSilenceLimit then c\<lparr>sock_open := False, keeper := False\<rparr> else silent_ticks ts c)"
  using silent_ticks_closed [of "c\<lparr>sock_open := False, keeper := False\<rparr>" ts]
  by (simp add: silent_ticks_def keepalive_tick_def)

lemma silent_ticks_eq:
  "keeper c \<Longrightarrow> silent_ticks ts c =
     (if \<exists>t \<in> set ts. t - lastRead c > readSilenceLimit then c\<lparr>sock_open := False, keeper := False\<rparr> else c)"
  by (induction ts) (auto simp: silent_ticks_Cons, simp add: silent_ticks_def)

definition tick_times :: "time \<Rightarrow> nat \<Rightarrow> time list" where
  "tick_times t0 n = map (\<lambda>i. t0 + keepalive_period * int i) [1..<Suc n]"

text \<open>
  C18: A half-open connection is given up. The hub answers every keepalive frame on the
  connection it came from. When instead nothing arrives, the writes still succeeding, the ticks
  of the 25 second timer leave the socket alone as long as the last frame is no more than 90
  seconds old, and have closed it 115 seconds after it; the pending read then fails, which calls
  \<open>OnClose\<close> and ends both goroutines.
\<close>

theorem half_open_detected:
  assumes "keeper c" and "sock_open c" and "reader c" and "onClose c" and "t0 \<le> lastRead c"
    and "map_of (live h) k \<noteq> None"
  shows "ws_frame k keepalive_frame h = [(k, ka_ack)] \<and>
    (t0 + keepalive_period * int n \<le> lastRead c + readSilenceLimit \<longrightarrow> silent_ticks (tick_times t0 n) c = c) \<and>
    (lastRead c + 115 * Second \<le> t0 + keepalive_period * int n \<longrightarrow>
       (let c' = silent_ticks (tick_times t0 n) c
        in \<not> sock_open c' \<and> \<not> keeper c' \<and> calls (read_error c') = calls c @ [CClose] \<and>
           \<not> reader (read_error c') \<and> done_closed (read_error c')))"
proof (intro conjI impI)
  have "isSystemFrame keepalive_frame" "isKeepalive keepalive_frame" by code_simp+
  then show "ws_frame k keepalive_frame h = [(k, ka_ack)]" using assms(6) by (auto simp: ws_frame_def split: prod.split)
next
  assume n: "t0 + keepalive_period * int n \<le> lastRead c + readSilenceLimit"
  have "t \<le> t0 + keepalive_period * int n" if "t \<in> set (tick_times t0 n)" for t
    using that by (auto simp: tick_times_def keepalive_period_def Second_def)
  then show "silent_ticks (tick_times t0 n) c = c"
    using n by (fastforce simp: silent_ticks_eq [OF assms(1)])
next
  assume n: "lastRead c + 115 * Second \<le> t0 + keepalive_period * int n"
  define i where "i = nat ((lastRead c - t0 + readSilenceLimit) div keepalive_period) + 1"
  have i: "int i = (lastRead c - t0 + readSilenceLimit) div keepalive_period + 1"
    using assms(5) by (simp add: i_def readSilenceLimit_def keepalive_period_def Second_def pos_imp_zdiv_nonneg_iff)
  have b: "keepalive_period * int i > lastRead c - t0 + readSilenceLimit"
    "keepalive_period * int i \<le> lastRead c - t0 + readSilenceLimit + keepalive_period"
    unfolding i by (simp_all add: keepalive_period_def Second_def)
  have "i \<le> n"
  proof -
    have "keepalive_period * int i \<le> keepalive_period * int n"
      using b(2) n by (simp add: readSilenceLimit_def keepalive_period_def Second_def)
    then show ?thesis by (simp add: keepalive_period_def Second_def)
  qed
  then have "i \<in> set [1..<Suc n]" by (auto simp: i_def)
  then have "t0 + keepalive_period * int i \<in> set (tick_times t0 n)"
    unfolding tick_times_def set_map by (rule imageI)
  moreover have "t0 + keepalive_period * int i - lastRead c > readSilenceLimit" using b(1) by simp
  ultimately have "silent_ticks (tick_times t0 n) c = c\<lparr>sock_open := False, keeper := False\<rparr>"
    using silent_ticks_eq [OF assms(1)] by auto
  then show "let c' = silent_ticks (tick_times t0 n) c
        in \<not> sock_open c' \<and> \<not> keeper c' \<and> calls (read_error c') = calls c @ [CClose] \<and>
           \<not> reader (read_error c') \<and> done_closed (read_error c')"
    using assms(4) by (simp add: Let_def read_error_def conn_stop_def)
qed


theorem half_open_detected_witness:
  "\<exists>c h k. keeper c \<and> sock_open c \<and> ws_frame k keepalive_frame h = [(k, ka_ack)] \<and>
     silent_ticks (tick_times 0 3) c = c \<and> \<not> sock_open (silent_ticks (tick_times 0 5) c) \<and>
     calls (read_error (silent_ticks (tick_times 0 5) c)) = calls c @ [CClose]"
proof -
  let ?c = "(conn_Start 0 new_conn)\<lparr>onClose := True\<rparr>" and ?h = "hub_New\<lparr>live := [(1, (0, roleDaemon))]\<rparr>"
  have c: "keeper ?c" "sock_open ?c" "reader ?c" "onClose ?c" "0 \<le> lastRead ?c" "lastRead ?c = 0"
    by (simp_all add: conn_Start_def new_conn_def)
  have "map_of (live ?h) 1 \<noteq> None" by simp
  note t = half_open_detected [OF c(1-5) this]
  have "ws_frame 1 keepalive_frame ?h = [(1, ka_ack)] \<and> silent_ticks (tick_times 0 3) ?c = ?c \<and>
     \<not> sock_open (silent_ticks (tick_times 0 5) ?c) \<and> calls (read_error (silent_ticks (tick_times 0 5) ?c)) = calls ?c @ [CClose]"
    using t [of 3] t [of 5] c(6) by (simp add: Let_def keepalive_period_def readSilenceLimit_def Second_def)
  then show ?thesis using c by blast
qed

section \<open>No token in the clear\<close>

text \<open>
  A hub address that is not https and not on this host is refused before anything is sent:
  unless insecure hubs were allowed, no way of dialling reaches a hub, not even to create or
  claim a session. With the option, or over https, or to the host itself, the check passes.
\<close>

theorem plain_hub_refused:
  assumes "url_Parse lib hubURL = Some u"
  shows "(checkHubURL lib allowInsecure hubURL = None \<longleftrightarrow>
      Scheme u \<in> {''https'', ''wss''} \<or>
      Scheme u \<in> {''http'', ''ws''} \<and> (Hostname u = ''localhost'' \<or> ip_loopback lib (Hostname u) \<or> allowInsecure)) \<and>
    (checkHubURL lib allowInsecure hubURL \<noteq> None \<longrightarrow>
      (\<exists>e. DialDaemon lib sha allowInsecure rid rtok c hubURL pub pubV2 secret s = (s, Inl e) \<and>
        ReconnectDaemon lib allowInsecure c hubURL sessID tok s = (s, Inl e) \<and>
        JoinDaemon lib allowInsecure c hubURL sessID tok s = (s, Inl e) \<and>
        PublishPub lib sha allowInsecure hubURL sessID pub pubV2 s = (s, Some e) \<and>
        DialController lib sha allowInsecure rtok c hubURL sessID secret s = (s, Inl e)))"
proof
  show "checkHubURL lib allowInsecure hubURL = None \<longleftrightarrow>
      Scheme u \<in> {''https'', ''wss''} \<or>
      Scheme u \<in> {''http'', ''ws''} \<and> (Hostname u = ''localhost'' \<or> ip_loopback lib (Hostname u) \<or> allowInsecure)"
    using assms by (auto simp: checkHubURL_def)
qed (auto simp: DialDaemon_def ReconnectDaemon_def JoinDaemon_def PublishPub_def DialController_def)

section \<open>Dialling the hub\<close>

text \<open>
  What the transport relies on in \<open>net/url\<close>: an address of a scheme, a plain host with an optional
  port and a plain path is taken apart into these.
\<close>

definition name_char :: "char \<Rightarrow> bool" where
  "name_char c \<longleftrightarrow> is_digit c \<or> 97 \<le> ord c \<and> ord c \<le> 122 \<or> c = CHR ''-'' \<or> c = CHR ''_''"

definition plain_host :: "string \<Rightarrow> bool" where
  "plain_host h \<longleftrightarrow> h \<noteq> [] \<and>
     list_all (\<lambda>c. name_char c \<or> c = CHR ''.'') (takeWhile (\<lambda>c. c \<noteq> CHR '':'') h) \<and>
     list_all is_digit (tl (dropWhile (\<lambda>c. c \<noteq> CHR '':'') h))"

definition plain_path :: "string \<Rightarrow> bool" where
  "plain_path p \<longleftrightarrow> (p = [] \<or> hd p = slash) \<and> list_all (\<lambda>c. name_char c \<or> c = slash) p"

definition url_laws :: "net_lib \<Rightarrow> bool" where
  "url_laws lib \<longleftrightarrow> (\<forall>sch host p. sch \<in> {''http'', ''https'', ''ws'', ''wss''} \<longrightarrow> plain_host host \<longrightarrow> plain_path p \<longrightarrow>
     url_Parse lib (sch @ ''://'' @ host @ p) =
       Some \<lparr>Scheme = sch, Host = host, Hostname = takeWhile (\<lambda>c. c \<noteq> CHR '':'') host, UPath = p\<rparr>)"

definition site_url :: "site \<Rightarrow> string" where
  "site_url s = (if s_tls s then ''https'' else ''http'') @ ''://'' @ s_addr s"

lemma site_reached:
  assumes "url_laws lib" and "plain_host (s_addr s)" and "plain_path p"
  shows "\<exists>u. url_Parse lib (site_url s @ p) = Some u \<and> reaches s ''http'' ''https'' u \<and> UPath u = p"
    and "\<exists>u. url_Parse lib (toWSScheme (site_url s) @ p) = Some u \<and> reaches s ''ws'' ''wss'' u \<and> UPath u = p"
proof -
  have law: "url_Parse lib (sch @ ''://'' @ s_addr s @ p) =
      Some \<lparr>Scheme = sch, Host = s_addr s, Hostname = takeWhile (\<lambda>c. c \<noteq> CHR '':'') (s_addr s), UPath = p\<rparr>"
    if "sch \<in> {''http'', ''https'', ''ws'', ''wss''}" for sch
    using assms that unfolding url_laws_def by blast
  have "site_url s @ p = (if s_tls s then ''https'' else ''http'') @ ''://'' @ s_addr s @ p" by (simp add: site_url_def)
  then show "\<exists>u. url_Parse lib (site_url s @ p) = Some u \<and> reaches s ''http'' ''https'' u \<and> UPath u = p"
    using law [of "if s_tls s then ''https'' else ''http''"] by (auto simp: reaches_def)
  have "toWSScheme (site_url s) @ p = (if s_tls s then ''wss'' else ''ws'') @ ''://'' @ s_addr s @ p"
    by (simp add: toWSScheme_def site_url_def trim_prefix_def)
  then show "\<exists>u. url_Parse lib (toWSScheme (site_url s) @ p) = Some u \<and> reaches s ''ws'' ''wss'' u \<and> UPath u = p"
    using law [of "if s_tls s then ''wss'' else ''ws''"] by (auto simp: reaches_def)
qed


lemma dialWS_reaches:
  assumes "url_laws lib" and "plain_host (s_addr s)"
  shows "dialWS lib c (site_url s) sessID role tok s =
    (s\<lparr>s_hub := fst (ws_open c sessID role tok (s_hub s))\<rparr>, Inr \<lparr>c_num = c, c_sid = [], c_token = []\<rparr>)"
proof -
  have "plain_path ''/ws/connect''" by code_simp
  from site_reached(2) [OF assms this] show ?thesis by (auto simp: dialWS_def)
qed

lemma post_reaches:
  assumes "url_laws lib" and "plain_host (s_addr s)" and "plain_path p" and "p \<noteq> ''/ws/connect''"
  shows "http_post lib sha r1 r2 (site_url s @ p) secret bd s =
    (case hub_ServeHTTP sha r1 r2 p ''POST'' secret bd (s_hub s) of
       (h, Answer r) \<Rightarrow> (s\<lparr>s_hub := h\<rparr>, Inr r)
     | (h, Upgrade) \<Rightarrow> (s\<lparr>s_hub := h\<rparr>, Inr \<lparr>code = 405, rbody_out = BEmpty\<rparr>))"
  using site_reached(1) [OF assms(1-3)] by (auto simp: http_post_def)


lemma create_names [simp]:
  "fold_name ''claim_secret'' = ''CLAIM_SECRET''" "fold_name ''init'' = ''INIT''" "fold_name ''pub_v2'' = ''PUB_V2''"
  "fold_name ''versions'' = ''VERSIONS''" "fold_name ''session_id'' = ''SESSION_ID''" "fold_name ''daemon_token'' = ''DAEMON_TOKEN''"
  "fold_name ''controller_token'' = ''CONTROLLER_TOKEN''" "fold_name ''daemon_pub'' = ''DAEMON_PUB''"
  "fold_name ''daemon_pub_v2'' = ''DAEMON_PUB_V2''" "fold_name ''first_claim'' = ''FIRST_CLAIM''"
  "fold_name ''role'' = ''ROLE''" "fold_name ''pub'' = ''PUB''"
  by code_simp+

lemma versions_clean: "clean versions_json" "nums_ok versions_json" "any_ok versions_json"
  by code_simp+

lemma create_body_wire:
  assumes "utf8_valid pub" and "utf8_valid pubV2" and "utf8_valid secret"
  shows "wire_map (create_body pub pubV2 secret)"
proof -
  have "sorted [''claim_secret'', ''init'', ''pub'', ''pub_v2'', ''role'', ''versions'']"
    "sorted [''init'', ''pub'', ''pub_v2'', ''role'', ''versions'']" "sorted [''claim_secret'', ''init'', ''pub_v2'', ''role'', ''versions'']"
    "sorted [''init'', ''pub_v2'', ''role'', ''versions'']" "sorted [''claim_secret'', ''init'', ''pub'', ''role'', ''versions'']"
    "sorted [''init'', ''pub'', ''role'', ''versions'']" "sorted [''claim_secret'', ''init'', ''role'', ''versions'']"
    "sorted [''init'', ''role'', ''versions'']"
    by code_simp+
  then show ?thesis
    using assms versions_clean by (simp add: wire_map_def create_body_def opt_field_def utf8_valid_ascii)
qed


lemma parse_wire:
  assumes "wire_map kvs"
  shows "parse_first (marshal (jmap kvs)) = Some (JObj kvs)" and "parse_first (body_bytes (rbody_out (reply_json c kvs))) = Some (JObj kvs)"
proof -
  have c: "clean (JObj kvs)" "jmap kvs = JObj kvs" using assms jmap_wire by (simp_all add: wire_map_def)
  then show "parse_first (marshal (jmap kvs)) = Some (JObj kvs)" "parse_first (body_bytes (rbody_out (reply_json c kvs))) = Some (JObj kvs)"
    using parse_first_marshal [of "JObj kvs"] parse_first_line [of "JObj kvs"] clean_coerce [of "JObj kvs"] clean_nums_ok [of "JObj kvs"]
    by (simp_all add: reply_json_def)
qed

lemma handleCreate_wire:
  assumes "utf8_valid pub" and "utf8_valid pubV2" and "utf8_valid secret"
  shows "handleCreate sha rid rtok (marshal (jmap (create_body pub pubV2 secret))) h =
    (let x = \<lparr>h_id = randomHex rid, daemonTok = randomHex rtok, vaultTok = [], h_daemonPub = pub, h_conns = [],
              h_versions = Some Supported, claimHash = (if secret \<noteq> [] then hex_encode (sha secret) else []), h_daemonPubV2 = pubV2\<rparr>
     in (h\<lparr>store := store h @ [x], sessions := AList.update (h_id x) (length (store h)) (sessions h)\<rparr>,
         reply_json 200 [(''session_id'', JStr (randomHex rid)), (''daemon_token'', JStr (randomHex rtok))]))"
proof -
  let ?b = "JObj (create_body pub pubV2 secret)"
  have i: "int_of_num (itoa 1) = Some 1" "int_of_num (itoa 2) = Some 2" by code_simp+
  have v: "field_vals ''versions'' ?b = [versions_json]" "field_vals ''pub'' ?b = (if pub = [] then [] else [JStr pub])"
    "field_vals ''pub_v2'' ?b = (if pubV2 = [] then [] else [JStr pubV2])"
    "field_vals ''claim_secret'' ?b = (if secret = [] then [] else [JStr secret])" "field_vals ''role'' ?b = [JStr ''daemon'']"
    by (simp_all add: create_body_def opt_field_def field_vals_def members_def)
  then have "get_str ''pub'' ?b = pub" "get_str ''pub_v2'' ?b = pubV2" "get_str ''claim_secret'' ?b = secret"
    "get_str ''role'' ?b = roleDaemon" "get_ints_opt ''versions'' ?b = Some Supported"
    using i by (simp_all add: get_str_def roleDaemon_def get_ints_opt_def get_ints_def versions_json_def Supported_def V1_def V2_def)
  then show ?thesis
    using parse_wire(1) [OF create_body_wire [OF assms]] by (simp add: handleCreate_def Let_def)
qed


lemma jmap_perm:
  assumes "mset kvs = mset kvs'" and "sorted (keys kvs')" and "distinct (keys kvs')"
  shows "jmap kvs = JObj kvs'"
proof -
  have d: "distinct (keys kvs)" using assms(1,3) by (metis mset_eq_imp_distinct_iff mset_map)
  then have look: "lookup_last k kvs = Some v" if "(k, v) \<in> set kvs'" for k v
    using that mset_eq_setD [OF assms(1)] by (intro lookup_last_distinct) simp_all
  have "sort (remdups (keys kvs)) = keys kvs'"
    using d assms by (metis distinct_remdups_id mset_map properties_for_sort)
  then show ?thesis
    using look by (auto simp: jmap_def intro!: map_idI)
qed

lemma parse_reply:
  assumes "mset kvs = mset kvs'" and "wire_map kvs'"
  shows "parse_first (body_bytes (rbody_out (reply_json c kvs))) = Some (JObj kvs')" and "code (reply_json c kvs) = c"
proof -
  have s: "sorted (keys kvs')" "distinct (keys kvs')" using assms(2) by (simp_all add: wire_map_def)
  have "jmap kvs = jmap kvs'" using jmap_perm [OF assms(1) s] jmap_perm [OF refl s] by simp
  then show "parse_first (body_bytes (rbody_out (reply_json c kvs))) = Some (JObj kvs')" "code (reply_json c kvs) = c"
    using parse_wire(2) [OF assms(2), of c] by (simp_all add: reply_json_def)
qed

lemma hex_valid [simp]: "utf8_valid (randomHex b)"
  unfolding randomHex_def by (rule hex_encode_valid)

lemma name_char_hex: "0 \<le> n \<Longrightarrow> n < 16 \<Longrightarrow> name_char (hex_char n)"
  by (auto simp: hex_char_def name_char_def is_digit_def)

lemma plain_hex: "list_all name_char (randomHex b)"
proof -
  have "name_char (hex_char (ord y div 16))" "name_char (hex_char (ord y mod 16))" for y
    using div_16 [of y] ord_bounds(1) [of y] by (auto intro!: name_char_hex simp: pos_imp_zdiv_nonneg_iff)
  then show ?thesis by (auto simp: randomHex_def hex_encode_def list_all_iff)
qed


text \<open>The session a daemon leaves on the hub, with connection \<open>c\<close> open.\<close>

definition daemon_session :: "(bytes \<Rightarrow> bytes) \<Rightarrow> bytes \<Rightarrow> bytes \<Rightarrow> string \<Rightarrow> string \<Rightarrow> string \<Rightarrow> nat \<Rightarrow> hsession" where
  "daemon_session sha rid rtok pub pubV2 secret c =
     \<lparr>h_id = randomHex rid, daemonTok = randomHex rtok, vaultTok = [], h_daemonPub = pub, h_conns = [(roleDaemon, c)],
      h_versions = Some Supported, claimHash = (if secret \<noteq> [] then hex_encode (sha secret) else []), h_daemonPubV2 = pubV2\<rparr>"

lemma dial_daemon:
  assumes net: "url_laws lib" "plain_host (s_addr s)" and check: "checkHubURL lib allowInsecure (site_url s) = None"
    and utf: "utf8_valid pub" "utf8_valid pubV2" "utf8_valid secret" and rnd: "rtok \<noteq> []"
    and x: "x = daemon_session sha rid rtok pub pubV2 secret c"
  shows "DialDaemon lib sha allowInsecure rid rtok c (site_url s) pub pubV2 secret s =
    (s\<lparr>s_hub := (s_hub s)\<lparr>store := store (s_hub s) @ [x], sessions := AList.update (randomHex rid) (length (store (s_hub s))) (sessions (s_hub s)),
        live := AList.update c (length (store (s_hub s)), roleDaemon) (live (s_hub s))\<rparr>\<rparr>,
     Inr \<lparr>c_num = c, c_sid = randomHex rid, c_token = randomHex rtok\<rparr>)"
proof -
  let ?rep = "[(''session_id'', JStr (randomHex rid)), (''daemon_token'', JStr (randomHex rtok))]"
  let ?kvs = "[(''daemon_token'', JStr (randomHex rtok)), (''session_id'', JStr (randomHex rid))]"
  have p: "plain_path ''/ws/sessions''" by code_simp
  have "sorted [''daemon_token'', ''session_id'']" by code_simp
  then have w: "wire_map ?kvs" by (simp add: wire_map_def utf8_valid_ascii)
  have m: "mset ?rep = mset ?kvs" by simp
  note r = parse_reply [OF m w, of 200]
  have f: "obj_ok (JObj ?kvs)" "str_ok ''session_id'' (JObj ?kvs)" "str_ok ''daemon_token'' (JObj ?kvs)"
    "get_str ''session_id'' (JObj ?kvs) = randomHex rid" "get_str ''daemon_token'' (JObj ?kvs) = randomHex rtok"
    by (simp_all add: obj_ok_def str_ok_def get_str_def field_vals_def members_def)
  have tok: "randomHex rtok \<noteq> []" using rnd by (simp add: randomHex_def hex_encode_def)
  let ?h = "(s_hub s)\<lparr>store := store (s_hub s) @ [x\<lparr>h_conns := []\<rparr>], sessions := AList.update (randomHex rid) (length (store (s_hub s))) (sessions (s_hub s))\<rparr>"
  have post: "postJSONWithHeader lib sha rid rtok (site_url s @ ''/ws/sessions'') [] (Some (jmap (create_body pub pubV2 secret))) s =
      (s\<lparr>s_hub := ?h\<rparr>, Inr (JObj ?kvs))"
    using handleCreate_wire [OF utf, of sha rid rtok "s_hub s"] r post_reaches [OF net p]
    by (simp add: postJSONWithHeader_def hub_ServeHTTP_def Let_def x daemon_session_def)
  have net': "plain_host (s_addr (s\<lparr>s_hub := ?h\<rparr>))" "site_url s = site_url (s\<lparr>s_hub := ?h\<rparr>)" using net(2) by (simp_all add: site_url_def)
  have op: "fst (ws_open c (randomHex rid) ''daemon'' (randomHex rtok) ?h) =
      (s_hub s)\<lparr>store := store (s_hub s) @ [x], sessions := AList.update (randomHex rid) (length (store (s_hub s))) (sessions (s_hub s)),
        live := AList.update c (length (store (s_hub s)), roleDaemon) (live (s_hub s))\<rparr>"
    using tok by (simp add: ws_open_def x daemon_session_def roleDaemon_def roleVault_def)
  show ?thesis
    unfolding DialDaemon_def
    using post f check op dialWS_reaches [OF net(1) net'(1), of c "randomHex rid" "''daemon''" "randomHex rtok"]
    by (simp add: net'(2) [symmetric])
qed


lemma claim_path:
  assumes "list_all name_char i"
  shows "plain_path (''/ws/sessions/'' @ i @ ''/claim'')" "''/ws/sessions/'' @ i @ ''/claim'' \<noteq> ''/ws/connect''"
    "hub_ServeHTTP sha r1 r2 (''/ws/sessions/'' @ i @ ''/claim'') ''POST'' secret bd h =
       map_prod id Answer (handleClaim sha r1 (''/ws/sessions/'' @ i @ ''/claim'') secret h)"
    "trim_suffix (trim_prefix (''/ws/sessions/'' @ i @ ''/claim'') ''/ws/sessions/'') ''/claim'' = i"
proof -
  have "list_all (\<lambda>c. name_char c \<or> c = slash) i" using assms by (auto simp: list_all_iff)
  moreover have "list_all (\<lambda>c. name_char c \<or> c = slash) ''/ws/sessions/''" "list_all (\<lambda>c. name_char c \<or> c = slash) ''/claim''"
    by code_simp+
  ultimately show "plain_path (''/ws/sessions/'' @ i @ ''/claim'')" by (simp add: plain_path_def)
  show ne: "''/ws/sessions/'' @ i @ ''/claim'' \<noteq> ''/ws/connect''" by simp
  have "has_suffix (''/ws/sessions/'' @ i @ ''/claim'') ''/claim''" by (rule suffixI [of _ "''/ws/sessions/'' @ i"]) simp
  moreover have "has_prefix (''/ws/sessions/'' @ i @ ''/claim'') ''/ws/sessions/''" by (rule prefixI) simp
  ultimately show "hub_ServeHTTP sha r1 r2 (''/ws/sessions/'' @ i @ ''/claim'') ''POST'' secret bd h =
       map_prod id Answer (handleClaim sha r1 (''/ws/sessions/'' @ i @ ''/claim'') secret h)"
    by (simp add: hub_ServeHTTP_def)
  show "trim_suffix (trim_prefix (''/ws/sessions/'' @ i @ ''/claim'') ''/ws/sessions/'') ''/claim'' = i"
    by (simp only: trim_prefix_append trim_suffix_append)
qed

text \<open>Claiming and connecting to a session nobody has claimed, and being refused.\<close>

lemma dial_controller:
  assumes net: "url_laws lib" "plain_host (s_addr s)" and check: "checkHubURL lib allowInsecure (site_url s) = None"
    and i: "list_all name_char i" "map_of (sessions (s_hub s)) i = Some a" "a < length (store (s_hub s))" "store (s_hub s) ! a = x"
    and x: "vaultTok x = []" "utf8_valid (h_daemonPub x)" "utf8_valid (h_daemonPubV2 x)" "h_versions x = Some Supported"
    and secret: "claimHash x = [] \<or> hex_encode (sha secret) = claimHash x" and rnd: "rtok \<noteq> []"
  shows "DialController lib sha allowInsecure rtok c (site_url s) i secret s =
    (s\<lparr>s_hub := (s_hub s)\<lparr>store := (store (s_hub s))[a := x\<lparr>vaultTok := randomHex rtok, h_conns := AList.update roleVault c (h_conns x)\<rparr>],
        live := AList.update c (a, roleVault) (live (s_hub s))\<rparr>\<rparr>,
     Inr (\<lparr>c_num = c, c_sid = [], c_token = []\<rparr>, h_daemonPub x, Supported))"
proof -
  let ?tok = "randomHex rtok"
  let ?rep = "[(''controller_token'', JStr ?tok), (''daemon_pub'', JStr (h_daemonPub x)), (''daemon_pub_v2'', JStr (h_daemonPubV2 x)),
     (''versions'', versions_json), (''first_claim'', JBool True)]"
  let ?kvs = "[(''controller_token'', JStr ?tok), (''daemon_pub'', JStr (h_daemonPub x)), (''daemon_pub_v2'', JStr (h_daemonPubV2 x)),
     (''first_claim'', JBool True), (''versions'', versions_json)]"
  have "sorted [''controller_token'', ''daemon_pub'', ''daemon_pub_v2'', ''first_claim'', ''versions'']" by code_simp
  then have w: "wire_map ?kvs" using x versions_clean by (simp add: wire_map_def utf8_valid_ascii)
  have m: "mset ?rep = mset ?kvs" by simp
  note r = parse_reply [OF m w, of 200]
  have v: "ints_json (Some Supported) = versions_json" by (simp add: ints_json_def versions_json_def)
  have vs: "ints_ok ''versions'' (JObj [(''versions'', versions_json)])" "get_ints ''versions'' (JObj [(''versions'', versions_json)]) = Supported"
    by code_simp+
  have f: "obj_ok (JObj ?kvs)" "str_ok ''controller_token'' (JObj ?kvs)" "str_ok ''daemon_pub'' (JObj ?kvs)" "str_ok ''daemon_pub_v2'' (JObj ?kvs)"
    "get_str ''controller_token'' (JObj ?kvs) = ?tok" "get_str ''daemon_pub'' (JObj ?kvs) = h_daemonPub x"
    "field_vals ''versions'' (JObj ?kvs) = field_vals ''versions'' (JObj [(''versions'', versions_json)])"
    by (simp_all add: obj_ok_def str_ok_def get_str_def field_vals_def members_def)
  have fv: "ints_ok ''versions'' (JObj ?kvs)" "get_ints ''versions'' (JObj ?kvs) = Supported"
    using vs f(7) by (simp_all add: ints_ok_def get_ints_def)
  let ?h = "(s_hub s)\<lparr>store := (store (s_hub s))[a := x\<lparr>vaultTok := ?tok\<rparr>]\<rparr>"
  note cp = claim_path [OF i(1)]
  have post: "postJSONWithHeader lib sha rtok [] (site_url s @ ''/ws/sessions/'' @ i @ ''/claim'') secret None s = (s\<lparr>s_hub := ?h\<rparr>, Inr (JObj ?kvs))"
    unfolding postJSONWithHeader_def post_reaches [OF net cp(1,2)] cp(3) handleClaim_def cp(4)
    using i secret x r v by (auto simp: Let_def)
  have net': "plain_host (s_addr (s\<lparr>s_hub := ?h\<rparr>))" "site_url s = site_url (s\<lparr>s_hub := ?h\<rparr>)" using net(2) by (simp_all add: site_url_def)
  have tok: "?tok \<noteq> []" using rnd by (simp add: randomHex_def hex_encode_def)
  have op: "fst (ws_open c i ''vault'' ?tok ?h) =
      (s_hub s)\<lparr>store := (store (s_hub s))[a := x\<lparr>vaultTok := ?tok, h_conns := AList.update roleVault c (h_conns x)\<rparr>],
        live := AList.update c (a, roleVault) (live (s_hub s))\<rparr>"
    using tok i by (simp add: ws_open_def roleDaemon_def roleVault_def)
  show ?thesis
    unfolding DialController_def post
    using f fv check op dialWS_reaches [OF net(1) net'(1), of c i "''vault''" ?tok]
    by (simp add: net'(2) [symmetric])
qed

lemma dial_controller_refused:
  assumes net: "url_laws lib" "plain_host (s_addr s)" and check: "checkHubURL lib allowInsecure (site_url s) = None"
    and i: "list_all name_char i" "map_of (sessions (s_hub s)) i = Some a" "store (s_hub s) ! a = x"
    and secret: "claimHash x \<noteq> []" "hex_encode (sha secret) \<noteq> claimHash x"
  shows "\<exists>b. DialController lib sha allowInsecure rtok c (site_url s) i secret s = (s, Inl (HubStatus 403 b))"
proof -
  note cp = claim_path [OF i(1)]
  have "\<exists>b. postJSONWithHeader lib sha rtok [] (site_url s @ ''/ws/sessions/'' @ i @ ''/claim'') secret None s = (s, Inl (HubStatus 403 b))"
    unfolding postJSONWithHeader_def post_reaches [OF net cp(1,2)] cp(3) handleClaim_def cp(4)
    using i secret by (simp add: Let_def reply_error_def reply_json_def)
  then show ?thesis using check by (auto simp: DialController_def)
qed


text \<open>What a controller that dials a session the daemon has just made finds.\<close>

lemma dialled:
  assumes net: "url_laws lib" "plain_host (s_addr s)" and check: "checkHubURL lib allowInsecure (site_url s) = None"
    and utf: "utf8_valid pub" "utf8_valid pubV2" "utf8_valid secret" and rnd: "rtok \<noteq> []" "vtok \<noteq> []" and conns: "c \<noteq> d"
    and dial: "DialDaemon lib sha allowInsecure rid rtok d (site_url s) pub pubV2 secret s = (s1, r)"
  shows "r = Inr \<lparr>c_num = d, c_sid = randomHex rid, c_token = randomHex rtok\<rparr> \<and>
    (\<exists>s2. DialController lib sha allowInsecure vtok c (site_url s) (randomHex rid) secret s1 = (s2, Inr (\<lparr>c_num = c, c_sid = [], c_token = []\<rparr>, pub, Supported)) \<and>
       (\<forall>b. \<not> isSystemFrame b \<longrightarrow> ws_frame c b (s_hub s2) = [(d, b)] \<and> ws_frame d b (s_hub s2) = [(c, b)])) \<and>
    (secret \<noteq> [] \<and> hex_encode (sha secret') \<noteq> hex_encode (sha secret) \<and> hex_encode (sha secret) \<noteq> [] \<longrightarrow>
       (\<exists>b. DialController lib sha allowInsecure vtok c (site_url s) (randomHex rid) secret' s1 = (s1, Inl (HubStatus 403 b))))"
proof -
  define x where "x = daemon_session sha rid rtok pub pubV2 secret d"
  let ?a = "length (store (s_hub s))"
  have s1: "s1 = s\<lparr>s_hub := (s_hub s)\<lparr>store := store (s_hub s) @ [x], sessions := AList.update (randomHex rid) ?a (sessions (s_hub s)),
        live := AList.update d (?a, roleDaemon) (live (s_hub s))\<rparr>\<rparr>"
    and r: "r = Inr \<lparr>c_num = d, c_sid = randomHex rid, c_token = randomHex rtok\<rparr>"
    using dial dial_daemon [OF net check utf rnd(1) x_def] by simp_all
  have net1: "plain_host (s_addr s1)" and url1: "site_url s1 = site_url s" and check1: "checkHubURL lib allowInsecure (site_url s1) = None"
    using net(2) check by (simp_all add: s1 site_url_def)
  have i: "map_of (sessions (s_hub s1)) (randomHex rid) = Some ?a" "?a < length (store (s_hub s1))" "store (s_hub s1) ! ?a = x"
    by (simp_all add: s1)
  have x: "vaultTok x = []" "utf8_valid (h_daemonPub x)" "utf8_valid (h_daemonPubV2 x)" "h_versions x = Some Supported"
    "claimHash x = [] \<or> hex_encode (sha secret) = claimHash x" "h_daemonPub x = pub" "h_conns x = [(roleDaemon, d)]"
    using utf by (simp_all add: x_def daemon_session_def)
  note c = dial_controller [where sha = sha and secret = secret and c = c, OF net(1) net1 check1 plain_hex i x(1-5) rnd(2), unfolded url1]
  have relay: "ws_frame c b (s_hub (fst (DialController lib sha allowInsecure vtok c (site_url s) (randomHex rid) secret s1))) = [(d, b)] \<and>
      ws_frame d b (s_hub (fst (DialController lib sha allowInsecure vtok c (site_url s) (randomHex rid) secret s1))) = [(c, b)]"
    if "\<not> isSystemFrame b" for b
    unfolding c using that conns x(7) by (simp add: s1 ws_frame_def other_def)
  have "\<exists>b. DialController lib sha allowInsecure vtok c (site_url s) (randomHex rid) secret' s1 = (s1, Inl (HubStatus 403 b))"
    if "secret \<noteq> []" "hex_encode (sha secret') \<noteq> hex_encode (sha secret)" "hex_encode (sha secret) \<noteq> []"
  proof -
    have "claimHash x \<noteq> []" "hex_encode (sha secret') \<noteq> claimHash x" using that by (simp_all add: x_def daemon_session_def)
    from dial_controller_refused [where sha = sha and secret = secret', OF net(1) net1 check1 plain_hex i(1,3) this, unfolded url1] show ?thesis .
  qed
  then show ?thesis using r c relay x(6) by auto
qed

text \<open>
  C19: Dialling establishes a session. A daemon that dials a hub gets a session of its own and is
  connected to it; a controller that then dials with the session's identifier and the daemon's
  claim secret is connected to the same session, learns the daemon's key and the versions it
  supports, and every frame either sends that is no system frame is relayed to the other and to
  nobody else. Without a secret of the same digest it is refused and the hub stays as it was.
\<close>

theorem dial_pairs:
  assumes net: "url_laws lib" "plain_host (s_addr s)" and check: "checkHubURL lib allowInsecure (site_url s) = None"
    and utf: "utf8_valid pub" "utf8_valid pubV2" "utf8_valid secret" and rnd: "rtok \<noteq> []" "vtok \<noteq> []" and conns: "c \<noteq> d"
    and dial: "DialDaemon lib sha allowInsecure rid rtok d (site_url s) pub pubV2 secret s = (s1, r)"
  shows "r = Inr \<lparr>c_num = d, c_sid = randomHex rid, c_token = randomHex rtok\<rparr> \<and>
    (\<exists>s2 ref. DialController lib sha allowInsecure vtok c (site_url s) (randomHex rid) secret s1 = (s2, Inr (ref, pub, Supported)) \<and>
       c_num ref = c \<and> (\<forall>b. \<not> isSystemFrame b \<longrightarrow> ws_frame c b (s_hub s2) = [(d, b)] \<and> ws_frame d b (s_hub s2) = [(c, b)])) \<and>
    (secret \<noteq> [] \<and> hex_encode (sha secret') \<noteq> hex_encode (sha secret) \<and> hex_encode (sha secret) \<noteq> [] \<longrightarrow>
       (\<exists>b. DialController lib sha allowInsecure vtok c (site_url s) (randomHex rid) secret' s1 = (s1, Inl (HubStatus 403 b))))"
proof -
  note d = dialled [OF assms, of secret']
  then show ?thesis by (auto intro!: exI [of _ "\<lparr>c_num = c, c_sid = [], c_token = []\<rparr>"])
qed

section \<open>Reconnecting\<close>

text \<open>
  \<open>ReconnectDaemon\<close> cannot tell that a session is gone from a self-hosted hub: whenever the
  hub is reached, whatever the session and the token, it returns a connection. When the hub knows
  no such session or the token is not the session's, that connection is in no session and the
  hub is unchanged.
\<close>

theorem reconnect_never_fails:
  assumes net: "url_laws lib" "plain_host (s_addr s)" and check: "checkHubURL lib allowInsecure (site_url s) = None"
  shows "\<exists>s1 ref. ReconnectDaemon lib allowInsecure c (site_url s) sessID tok s = (s1, Inr ref) \<and>
    (map_of (sessions (s_hub s)) sessID = None \<or> tok = [] \<or>
       (\<exists>a. map_of (sessions (s_hub s)) sessID = Some a \<and> tok \<noteq> daemonTok (store (s_hub s) ! a)) \<longrightarrow> s1 = s)"
proof -
  let ?h = "fst (ws_open c sessID ''daemon'' tok (s_hub s))"
  have "?h = s_hub s" if "map_of (sessions (s_hub s)) sessID = None \<or> tok = [] \<or>
       (\<exists>a. map_of (sessions (s_hub s)) sessID = Some a \<and> tok \<noteq> daemonTok (store (s_hub s) ! a))"
    using that by (auto simp: ws_open_def roleDaemon_def roleVault_def Let_def split: option.split)
  then show ?thesis
    using dialWS_reaches [OF net, of c sessID "''daemon''" tok] check by (auto simp: ReconnectDaemon_def)
qed

text \<open>
  Publishing keys to an existing session, the first step of a daemon started with a
  connection key, fails on every self-hosted hub with status 404: the hub has no such route.
\<close>

lemma publish_pub_unserved:
  assumes net: "url_laws lib" "plain_host (s_addr s)" and check: "checkHubURL lib allowInsecure (site_url s) = None"
    and "list_all name_char sessID"
  shows "PublishPub lib sha allowInsecure (site_url s) sessID pub pubV2 s = (s, Some (HubStatus 404 []))"
proof -
  let ?p = "''/ws/sessions/'' @ sessID @ ''/pub''"
  have "list_all (\<lambda>c. name_char c \<or> c = slash) sessID" using assms(4) by (auto simp: list_all_iff)
  moreover have "list_all (\<lambda>c. name_char c \<or> c = slash) ''/ws/sessions/''" "list_all (\<lambda>c. name_char c \<or> c = slash) ''/pub''"
    by code_simp+
  ultimately have p: "plain_path ?p" by (simp add: plain_path_def)
  have "\<not> has_suffix ?p ''/claim''"
  proof
    assume "has_suffix ?p ''/claim''"
    then have "last ?p = CHR ''m''" by (auto simp: suffix_def dest: arg_cong [where f = last])
    then show False by simp
  qed
  then have "hub_ServeHTTP sha [] [] ?p ''POST'' [] bd h = (h, Answer \<lparr>code = 404, rbody_out = BRaw (''404 page not found'' @ [CHR 0x0A])\<rparr>)" for bd h
    by (simp add: hub_ServeHTTP_def)
  then show ?thesis
    unfolding PublishPub_def check using post_reaches [OF net p, of sha "[]" "[]" "[]"] by simp
qed


section \<open>An example\<close>

text \<open>A reader of plain addresses, and a hub on the host itself.\<close>

definition demo_url :: "string \<Rightarrow> url option" where
  "demo_url s =
     (let sch = takeWhile (\<lambda>c. c \<noteq> CHR '':'') s; r = drop (length sch + 3) s; host = takeWhile (\<lambda>c. c \<noteq> slash) r
      in Some \<lparr>Scheme = sch, Host = host, Hostname = takeWhile (\<lambda>c. c \<noteq> CHR '':'') host, UPath = dropWhile (\<lambda>c. c \<noteq> slash) r\<rparr>)"

definition demo_net :: net_lib where
  "demo_net = \<lparr>url_Parse = demo_url, ip_loopback = \<lambda>h. h = ''127.0.0.1''\<rparr>"

definition demo_site :: site where
  "demo_site = \<lparr>s_tls = False, s_addr = ''127.0.0.1:8787'', s_hub = hub_New\<rparr>"

lemma plain_host_slash:
  assumes "plain_host h"
  shows "slash \<notin> set h"
proof
  assume s: "slash \<in> set h"
  let ?t = "takeWhile (\<lambda>c. c \<noteq> CHR '':'') h" and ?d = "dropWhile (\<lambda>c. c \<noteq> CHR '':'') h"
  have "slash \<in> set (?t @ ?d)" using s by simp
  then consider "slash \<in> set ?t" | "?d \<noteq> []" "slash \<in> set (tl ?d)"
    using hd_dropWhile [of "\<lambda>c. c \<noteq> CHR '':''" h] by (cases ?d) auto
  then show False
    using assms by cases (auto simp: plain_host_def list_all_iff name_char_def is_digit_def)
qed

lemma demo_net_laws: "url_laws demo_net"
  unfolding url_laws_def
proof (intro allI impI)
  fix sch host p assume sch: "sch \<in> {''http'', ''https'', ''ws'', ''wss''}" and h: "plain_host host" and p: "plain_path p"
  have 1: "takeWhile (\<lambda>c. c \<noteq> CHR '':'') (sch @ ''://'' @ host @ p) = sch" using sch by auto
  have 2: "drop (length sch + 3) (sch @ ''://'' @ host @ p) = host @ p" by simp
  have "\<forall>c \<in> set host. c \<noteq> slash" using plain_host_slash [OF h] by auto
  moreover have "takeWhile (\<lambda>c. c \<noteq> slash) p = []" "dropWhile (\<lambda>c. c \<noteq> slash) p = p"
    using p by (cases p; simp add: plain_path_def)+
  ultimately have 3: "takeWhile (\<lambda>c. c \<noteq> slash) (host @ p) = host" "dropWhile (\<lambda>c. c \<noteq> slash) (host @ p) = p"
    by (simp_all add: takeWhile_append2 dropWhile_append2)
  show "url_Parse demo_net (sch @ ''://'' @ host @ p) =
       Some \<lparr>Scheme = sch, Host = host, Hostname = takeWhile (\<lambda>c. c \<noteq> CHR '':'') host, UPath = p\<rparr>"
    unfolding demo_net_def demo_url_def Let_def by (simp only: net_lib.simps 1 2 3)
qed

lemma demo_site_ok: "plain_host (s_addr demo_site)" "checkHubURL demo_net False (site_url demo_site) = None"
  by code_simp+

theorem plain_hub_refused_witness:
  "checkHubURL demo_net False ''http://hub.example/x'' = Some (PlainHub ''http://hub.example/x'') \<and>
   (\<exists>e. DialController demo_net (\<lambda>x. x) False ''r'' 1 ''http://hub.example/x'' ''i'' ''s'' demo_site = (demo_site, Inl e))"
proof -
  have u: "url_Parse demo_net ''http://hub.example/x'' = Some \<lparr>Scheme = ''http'', Host = ''hub.example'', Hostname = ''hub.example'', UPath = ''/x''\<rparr>"
    and c: "checkHubURL demo_net False ''http://hub.example/x'' = Some (PlainHub ''http://hub.example/x'')"
    by code_simp+
  show ?thesis using plain_hub_refused [OF u, of False "\<lambda>x. x" "[]" "''r''" 1 "[]" "[]" "''s''" demo_site "''i''" "[]"] c by auto
qed

theorem dial_pairs_witness:
  "\<exists>s1 s2 ref. DialDaemon demo_net (\<lambda>x. x) False ''i'' ''t'' 1 (site_url demo_site) ''cHVi'' [] ''secret'' demo_site =
       (s1, Inr \<lparr>c_num = 1, c_sid = randomHex ''i'', c_token = randomHex ''t''\<rparr>) \<and>
     DialController demo_net (\<lambda>x. x) False ''v'' 2 (site_url demo_site) (randomHex ''i'') ''secret'' s1 = (s2, Inr (ref, ''cHVi'', Supported)) \<and>
     ws_frame 2 ''hello'' (s_hub s2) = [(1, ''hello'')] \<and>
     (\<exists>b. DialController demo_net (\<lambda>x. x) False ''v'' 2 (site_url demo_site) (randomHex ''i'') ''guess'' s1 = (s1, Inl (HubStatus 403 b)))"
proof -
  have p: "utf8_valid ''cHVi''" "utf8_valid []" "utf8_valid ''secret''" "''t'' \<noteq> []" "''v'' \<noteq> []" "(2::nat) \<noteq> 1"
    by (simp_all add: utf8_valid_ascii)
  have h: "\<not> isSystemFrame ''hello''" "hex_encode ''guess'' \<noteq> hex_encode ''secret''" "hex_encode ''secret'' \<noteq> []" by code_simp+
  obtain s1 r where d: "DialDaemon demo_net (\<lambda>x. x) False ''i'' ''t'' 1 (site_url demo_site) ''cHVi'' [] ''secret'' demo_site = (s1, r)"
    by (rule prod.exhaust)
  from dial_pairs [OF demo_net_laws demo_site_ok p d, of "''guess''"] d h show ?thesis by auto
qed

theorem reconnect_never_fails_witness:
  "\<exists>ref. ReconnectDaemon demo_net False 1 (site_url demo_site) ''gone'' ''tok'' demo_site = (demo_site, Inr ref)"
proof -
  have "map_of (sessions (s_hub demo_site)) ''gone'' = None" by (simp add: demo_site_def hub_New_def)
  then show ?thesis using reconnect_never_fails [OF demo_net_laws demo_site_ok, of 1 "''gone''" "''tok''"] by auto
qed

end
