(* ===== verification/JsonIndent.thy ===== *)
theory JsonIndent
  imports GoJson
begin

text \<open>
  \<open>json.MarshalIndent(v, "", "  ")\<close>: the text of a value with one member or element per line,
  indented by two spaces per level, and the proof that the parser reads it back.
\<close>

definition nl_ind :: "nat \<Rightarrow> string" where
  "nl_ind d = CHR 0x0A # replicate (2 * d) (CHR '' '')"

fun pretty :: "nat \<Rightarrow> json \<Rightarrow> string" where
  "pretty d (JArr xs) =
     (if xs = [] then ''[]''
      else ''['' @ nl_ind (Suc d) @ sep_with ('','' @ nl_ind (Suc d)) (map (pretty (Suc d)) xs) @ nl_ind d @ '']'')"
| "pretty d (JObj kvs) =
     (if kvs = [] then ''{}''
      else ''{'' @ nl_ind (Suc d) @
           sep_with ('','' @ nl_ind (Suc d)) (map (\<lambda>(k, v). json_quote k @ '': '' @ pretty (Suc d) v) kvs) @ nl_ind d @ ''}'')"
| "pretty d j = marshal j"

definition marshal_indent :: "json \<Rightarrow> bytes" where
  "marshal_indent j = pretty 0 j"

lemma skip_nl [simp]: "skip_ws (nl_ind d @ s) = skip_ws s"
proof -
  have "dropWhile json_ws (replicate n (CHR '' '') @ s) = dropWhile json_ws s" for n
    by (induction n) (auto simp: json_ws_def)
  then show ?thesis by (simp add: nl_ind_def json_ws_def)
qed

lemma delim_nl [simp]: "delim (nl_ind d @ s)"
  by (simp add: delim_def nl_ind_def is_digit_def)

definition reads_pretty :: "nat \<Rightarrow> json \<Rightarrow> bool" where
  "reads_pretty d j \<longleftrightarrow> (\<forall>t k. delim t \<longrightarrow> 2 * length (pretty d j) \<le> k \<longrightarrow>
      pval k (pretty d j @ t) = Some (coerce_json j, t))"

lemma reads_prettyD:
  "reads_pretty d j \<Longrightarrow> delim t \<Longrightarrow> 2 * length (pretty d j) \<le> k \<Longrightarrow> pval k (pretty d j @ t) = Some (coerce_json j, t)"
  by (simp add: reads_pretty_def)

lemma pval_skip: "pval k (nl_ind d @ s) = pval k s"
  by (cases k) (simp_all add: pval.simps)

lemma pmembers_skip: "pmembers k (nl_ind d @ s) = pmembers k s"
  by (cases k) (simp_all add: pmembers.simps)

lemma pelems_skip: "pelems k (nl_ind d @ s) = pelems k s"
  by (cases k) (simp_all add: pelems.simps pval_skip)

lemma length_nl [simp]: "length (nl_ind d) = Suc (2 * d)"
  by (simp add: nl_ind_def)

lemma pelems_pretty:
  "xs \<noteq> [] \<Longrightarrow> list_all (reads_pretty d) xs \<Longrightarrow> 2 * length (sep_with ('','' @ nl_ind d) (map (pretty d) xs)) + 3 \<le> k \<Longrightarrow>
     pelems k (sep_with ('','' @ nl_ind d) (map (pretty d) xs) @ nl_ind e @ CHR '']'' # t) = Some (map coerce_json xs, t)"
proof (induction xs arbitrary: k)
  case (Cons x xs)
  obtain k' where k: "k = Suc k'" using Cons.prems by (cases k) auto
  show ?case
  proof (cases "xs = []")
    case True
    then show ?thesis
      using reads_prettyD [of d x "nl_ind e @ CHR '']'' # t" k'] Cons.prems by (simp add: k pelems.simps)
  next
    case False
    have "pelems k' (sep_with ('','' @ nl_ind d) (map (pretty d) xs) @ nl_ind e @ CHR '']'' # t) = Some (map coerce_json xs, t)"
      using Cons.IH [of k'] Cons.prems k False by (simp add: sep_with_Cons)
    then show ?thesis
      using False reads_prettyD [of d x _ k'] Cons.prems by (simp add: k sep_with_Cons pelems.simps pelems_skip)
  qed
qed simp

definition pretty_member :: "nat \<Rightarrow> string \<times> json \<Rightarrow> string" where
  "pretty_member d kv = json_quote (fst kv) @ '': '' @ pretty d (snd kv)"

lemma pval_space: "pval k (CHR '' '' # s) = pval k s"
  by (cases k) (simp_all add: pval.simps json_ws_def)

lemma pmembers_pretty_step:
  assumes "reads_pretty d v" and "delim t" and "2 * length (pretty_member d (key, v)) \<le> Suc k"
  shows "pmembers (Suc k) (pretty_member d (key, v) @ t) =
     (case skip_ws t of
        [] \<Rightarrow> None
      | c # r \<Rightarrow> if c = CHR '','' then map_option (apfst (Cons (to_valid key, coerce_json v))) (pmembers k r)
                 else if c = CHR ''}'' then Some ([(to_valid key, coerce_json v)], r) else None)"
proof -
  have "pval k (pretty d v @ t) = Some (coerce_json v, t)"
    using assms by (intro reads_prettyD) (simp_all add: pretty_member_def json_quote_def)
  then show ?thesis by (simp add: pretty_member_def json_quote_def pchars_quote pmembers.simps pval_space)
qed

lemma pmembers_pretty:
  "kvs \<noteq> [] \<Longrightarrow> list_all (\<lambda>kv. reads_pretty d (snd kv)) kvs \<Longrightarrow>
     2 * length (sep_with ('','' @ nl_ind d) (map (pretty_member d) kvs)) + 3 \<le> k \<Longrightarrow>
     pmembers k (sep_with ('','' @ nl_ind d) (map (pretty_member d) kvs) @ nl_ind e @ CHR ''}'' # t) =
       Some (map (\<lambda>(k, v). (to_valid k, coerce_json v)) kvs, t)"
proof (induction kvs arbitrary: k)
  case (Cons kv kvs)
  obtain key v where kv: "kv = (key, v)" by (cases kv)
  obtain k' where k: "k = Suc k'" using Cons.prems by (cases k) auto
  show ?case
  proof (cases "kvs = []")
    case True
    then show ?thesis
      using pmembers_pretty_step [of d v "nl_ind e @ CHR ''}'' # t" key k'] Cons.prems by (simp add: k kv)
  next
    case False
    have "pmembers k' (sep_with ('','' @ nl_ind d) (map (pretty_member d) kvs) @ nl_ind e @ CHR ''}'' # t) =
        Some (map (\<lambda>(k, v). (to_valid k, coerce_json v)) kvs, t)"
      using Cons.IH [of k'] Cons.prems k False by (simp add: sep_with_Cons)
    then show ?thesis
      using False pmembers_pretty_step [of d v _ key k'] Cons.prems by (simp add: k kv sep_with_Cons pmembers_skip)
  qed
qed simp

lemma pretty_obj:
  "kvs \<noteq> [] \<Longrightarrow> pretty d (JObj kvs) = ''{'' @ nl_ind (Suc d) @ sep_with ('','' @ nl_ind (Suc d)) (map (pretty_member (Suc d)) kvs) @ nl_ind d @ ''}''"
proof -
  have "(\<lambda>(k, v). json_quote k @ '': '' @ pretty (Suc d) v) = pretty_member (Suc d)" by (auto simp: pretty_member_def)
  then show "kvs \<noteq> [] \<Longrightarrow> ?thesis" by simp
qed

lemma pretty_hd:
  assumes "nums_ok j"
  obtains c s where "pretty d j = c # s" "\<not> json_ws c" "c \<noteq> CHR '']''" "c \<noteq> CHR ''}''"
proof (cases j)
  case (JArr xs)
  then show thesis using that [of "CHR ''[''"] by (cases "xs = []") (auto simp: json_ws_def)
next
  case (JObj kvs)
  then show thesis using that [of "CHR ''{''"] by (cases "kvs = []") (auto simp: json_ws_def)
qed (use that marshal_hd [OF assms] in auto)

lemma reads_prettyI:
  assumes "\<And>t k. delim t \<Longrightarrow> 2 * length (pretty d j) \<le> Suc k \<Longrightarrow> pval (Suc k) (pretty d j @ t) = Some (coerce_json j, t)"
    and "pretty d j \<noteq> []"
  shows "reads_pretty d j"
  unfolding reads_pretty_def
proof (intro allI impI)
  fix t k assume "delim t" "2 * length (pretty d j) \<le> k"
  then show "pval k (pretty d j @ t) = Some (coerce_json j, t)" using assms by (cases k) auto
qed

lemma reads_pretty_arr:
  assumes "list_all nums_ok xs" and ok: "list_all (reads_pretty (Suc d)) xs"
  shows "reads_pretty d (JArr xs)"
proof (rule reads_prettyI)
  fix t k assume le: "2 * length (pretty d (JArr xs)) \<le> Suc k"
  show "pval (Suc k) (pretty d (JArr xs) @ t) = Some (coerce_json (JArr xs), t)"
  proof (cases xs)
    case (Cons x xs')
    have "nums_ok x" using assms Cons by simp
    then have "take 1 (skip_ws (sep_with ('','' @ nl_ind (Suc d)) (map (pretty (Suc d)) xs) @ nl_ind d @ CHR '']'' # t)) \<noteq> '']''"
      by (rule pretty_hd [of x "Suc d"]) (simp add: Cons sep_with_Cons)
    then show ?thesis
      using pelems_pretty [OF _ ok, of k d t] Cons le by (simp add: pval.simps pelems_skip)
  qed (simp add: pval.simps)
qed simp

lemma reads_pretty_obj:
  assumes ok: "list_all (\<lambda>kv. reads_pretty (Suc d) (snd kv)) kvs"
  shows "reads_pretty d (JObj kvs)"
proof (rule reads_prettyI)
  fix t k assume le: "2 * length (pretty d (JObj kvs)) \<le> Suc k"
  show "pval (Suc k) (pretty d (JObj kvs) @ t) = Some (coerce_json (JObj kvs), t)"
  proof (cases "kvs = []")
    case False
    have "take 1 (skip_ws (sep_with ('','' @ nl_ind (Suc d)) (map (pretty_member (Suc d)) kvs) @ nl_ind d @ CHR ''}'' # t)) \<noteq> ''}''"
      using False by (cases kvs) (simp_all add: sep_with_Cons pretty_member_def json_quote_def)
    then show ?thesis
      using pmembers_pretty [OF False ok, of k d t] False le unfolding pretty_obj [OF False] by (simp add: pval.simps pmembers_skip)
  qed (simp add: pval.simps)
qed (cases kvs, simp_all)

lemma pval_pretty: "nums_ok j \<Longrightarrow> reads_pretty d j"
proof (induction j arbitrary: d)
  case (JArr xs)
  then show ?case by (intro reads_pretty_arr) (auto simp: list_all_iff)
next
  case (JObj kvs)
  then show ?case by (intro reads_pretty_obj) (fastforce simp: list_all_iff)
next
  case JNull
  then show ?case using pval_print [of JNull] by (simp add: reads_pretty_def reads_back_def)
next
  case (JBool b)
  then show ?case using pval_print [of "JBool b"] by (simp add: reads_pretty_def reads_back_def)
next
  case (JNum l)
  then show ?case using pval_print [of "JNum l"] by (simp add: reads_pretty_def reads_back_def)
next
  case (JStr s)
  then show ?case using pval_print [of "JStr s"] by (simp add: reads_pretty_def reads_back_def)
qed

lemma parse_indent: "nums_ok j \<Longrightarrow> parse_json (marshal_indent j) = Some (coerce_json j)"
  using reads_prettyD [OF pval_pretty, of j "[]" 0 "2 * length (pretty 0 j) + 2"]
  by (simp add: parse_json_def delim_def marshal_indent_def)

lemma reparse_indent: "clean j \<Longrightarrow> parse_json (marshal_indent j) = Some j"
  by (simp add: parse_indent clean_nums_ok clean_coerce)

end
