(* ===== verification/Vault.thy ===== *)
theory Vault
  imports JsonIndent
begin

text \<open>
  The controller's encrypted vault of \<open>internal/vault\<close>. A vault is a directory with a salt, a
  manifest and a blob per content; the directory is the record \<open>vdisk\<close> and \<open>Vault\<close>, the open
  handle, the record \<open>vault\<close>. Argon2id, AES-GCM, SHA-256 and the text form of a time are
  parameters in \<open>vault_lib\<close>; a salt or nonce that an operation may draw is an argument. File
  operations succeed, except that files may be missing; \<open>Rekey\<close> is the list of its writes, so
  that it can also be cut short.
\<close>

record vault_lib =
  argon2 :: "bytes \<Rightarrow> bytes \<Rightarrow> bytes"
  gcm_seal :: "bytes \<Rightarrow> bytes \<Rightarrow> bytes \<Rightarrow> bytes"
  gcm_open :: "bytes \<Rightarrow> bytes \<Rightarrow> bytes \<Rightarrow> bytes option"
  sha_256 :: "bytes \<Rightarrow> bytes"
  time_text :: "int \<Rightarrow> string"
  time_read :: "string \<Rightarrow> int option"
  time_zero :: int

definition LegacyDefaultPassphrase :: string where
  "LegacyDefaultPassphrase = ''valetfs-default-dev-passphrase''"

record ventry =
  vpath :: string
  BlobSHA :: string
  vsize :: int
  vmode :: int
  vmodified :: int

record vault =
  mf :: "(string, ventry) gomap"
  vpass :: string
  vlegacy :: bool
  vunprotected :: bool
  saltOverride :: "bytes option"

record vdisk =
  salt_bin :: "bytes option"
  manifest_file :: "bytes option"
  blobs :: "(string, bytes) gomap"

definition normalizeFSPath :: "string \<Rightarrow> string" where
  "normalizeFSPath p =
     (let q = trim_space (trim_prefix p ''fs:'')
      in if q = [] \<or> q = ''/'' then ''/'' else CHR ''/'' # trim_prefix q ''/'')"

section \<open>Keys\<close>

definition v_deriveKey :: "vault_lib \<Rightarrow> bytes \<Rightarrow> vault \<Rightarrow> vdisk \<Rightarrow> bytes \<times> vdisk" where
  "v_deriveKey lib fresh v d =
     (case saltOverride v of
        Some s \<Rightarrow> (argon2 lib (vpass v) s, d)
      | None \<Rightarrow>
          (case salt_bin d of
             Some s \<Rightarrow> (argon2 lib (vpass v) s, d)
           | None \<Rightarrow> (argon2 lib (vpass v) fresh, d\<lparr>salt_bin := Some fresh\<rparr>)))"

definition gcm_nonce :: nat where
  "gcm_nonce = 12"

definition v_encrypt :: "vault_lib \<Rightarrow> bytes \<Rightarrow> bytes \<Rightarrow> vault \<Rightarrow> bytes \<Rightarrow> vdisk \<Rightarrow> bytes \<times> vdisk" where
  "v_encrypt lib fresh nonce v plain d =
     (let (key, d') = v_deriveKey lib fresh v d in (nonce @ gcm_seal lib key nonce plain, d'))"

definition v_decrypt :: "vault_lib \<Rightarrow> bytes \<Rightarrow> vault \<Rightarrow> bytes \<Rightarrow> vdisk \<Rightarrow> bytes option \<times> vdisk" where
  "v_decrypt lib fresh v enc d =
     (let (key, d') = v_deriveKey lib fresh v d
      in (if length enc < gcm_nonce then None else gcm_open lib key (take gcm_nonce enc) (drop gcm_nonce enc), d'))"

section \<open>The manifest\<close>

definition entry_json :: "vault_lib \<Rightarrow> ventry \<Rightarrow> json" where
  "entry_json lib e =
     JObj [(''path'', JStr (vpath e)), (''blob_sha'', JStr (BlobSHA e)), (''size'', JNum (itoa (vsize e))),
           (''mode'', JNum (itoa (vmode e))), (''modified'', JStr (time_text lib (vmodified e)))]"

definition mf_json :: "vault_lib \<Rightarrow> (string, ventry) gomap \<Rightarrow> json" where
  "mf_json lib m = JObj [(''entries'', JObj (map (\<lambda>k. (k, entry_json lib (the (map_of m k)))) (sort (keys m))))]"

text \<open>A \<open>uint32\<close> and a time, as \<open>Unmarshal\<close> reads them into a struct field.\<close>

definition uint32_of_num :: "string \<Rightarrow> int option" where
  "uint32_of_num l = (if l \<noteq> [] \<and> list_all is_digit l \<and> dec_val l < 2 ^ 32 then Some (dec_val l) else None)"

definition uint32_ok :: "json \<Rightarrow> bool" where
  "uint32_ok v = (case v of JNum l \<Rightarrow> uint32_of_num l \<noteq> None | JNull \<Rightarrow> True | _ \<Rightarrow> False)"

definition time_ok :: "vault_lib \<Rightarrow> json \<Rightarrow> bool" where
  "time_ok lib v = (case v of JStr s \<Rightarrow> time_read lib s \<noteq> None | JNull \<Rightarrow> True | _ \<Rightarrow> False)"

definition entry_of_json :: "vault_lib \<Rightarrow> json \<Rightarrow> ventry option" where
  "entry_of_json lib j =
     (if obj_ok j \<and> str_ok ''path'' j \<and> str_ok ''blob_sha'' j \<and> int_ok ''size'' j \<and>
         list_all uint32_ok (field_vals ''mode'' j) \<and> list_all (time_ok lib) (field_vals ''modified'' j)
      then Some \<lparr>vpath = get_str ''path'' j, BlobSHA = get_str ''blob_sha'' j, vsize = get_int ''size'' j,
                 vmode = foldl (\<lambda>a v. case v of JNum l \<Rightarrow> the (uint32_of_num l) | _ \<Rightarrow> a) 0 (field_vals ''mode'' j),
                 vmodified = foldl (\<lambda>a v. case v of JStr s \<Rightarrow> the (time_read lib s) | _ \<Rightarrow> a) (time_zero lib) (field_vals ''modified'' j)\<rparr>
      else None)"

definition entries_ok :: "vault_lib \<Rightarrow> json \<Rightarrow> bool" where
  "entries_ok lib v =
     (case v of JObj kvs \<Rightarrow> list_all (\<lambda>(k, e). entry_of_json lib e \<noteq> None) kvs | JNull \<Rightarrow> True | _ \<Rightarrow> False)"

definition manifest_of_json :: "vault_lib \<Rightarrow> json \<Rightarrow> (string, ventry) gomap option" where
  "manifest_of_json lib j =
     (if obj_ok j \<and> list_all (entries_ok lib) (field_vals ''entries'' j)
      then Some (foldl (\<lambda>m (k, e). AList.update k (the (entry_of_json lib e)) m) [] (get_map ''entries'' j))
      else None)"

definition v_loadManifest :: "vault_lib \<Rightarrow> bytes \<Rightarrow> vault \<Rightarrow> vdisk \<Rightarrow> vault option \<times> vdisk" where
  "v_loadManifest lib fresh v d =
     (case manifest_file d of
        None \<Rightarrow> (Some v, d)
      | Some b \<Rightarrow>
          if b = [] then (Some v, d)
          else let (plain, d') = (if hd b \<noteq> CHR ''{'' then v_decrypt lib fresh v b d else (Some b, d))
               in (case plain of
                     None \<Rightarrow> None
                   | Some pl \<Rightarrow>
                       (case parse_json pl of
                          None \<Rightarrow> None
                        | Some j \<Rightarrow> map_option (\<lambda>m. v\<lparr>mf := m\<rparr>) (manifest_of_json lib j)), d'))"

definition v_saveManifest :: "vault_lib \<Rightarrow> bytes \<Rightarrow> bytes \<Rightarrow> vault \<Rightarrow> vdisk \<Rightarrow> vdisk" where
  "v_saveManifest lib fresh nonce v d =
     (let (enc, d') = v_encrypt lib fresh nonce v (marshal_indent (mf_json lib (mf v))) d
      in d'\<lparr>manifest_file := Some enc\<rparr>)"

section \<open>Operations\<close>

datatype vopen = Opened vault | NoPassphrase | WrongPassphrase

definition handle_for :: "string \<Rightarrow> vault" where
  "handle_for pass = \<lparr>mf = [], vpass = pass, vlegacy = False, vunprotected = False, saltOverride = None\<rparr>"

definition v_Open :: "vault_lib \<Rightarrow> bytes \<Rightarrow> string \<Rightarrow> vdisk \<Rightarrow> vopen \<times> vdisk" where
  "v_Open lib fresh pass d =
     (case v_loadManifest lib fresh (handle_for pass) d of
        (Some v, d1) \<Rightarrow> (Opened (v\<lparr>vlegacy := (pass = LegacyDefaultPassphrase), vunprotected := (pass = [])\<rparr>), d1)
      | (None, d1) \<Rightarrow>
          (case v_loadManifest lib fresh (handle_for LegacyDefaultPassphrase) d1 of
             (None, d2) \<Rightarrow> (if pass = [] then NoPassphrase else WrongPassphrase, d2)
           | (Some v, d2) \<Rightarrow> (Opened (v\<lparr>vlegacy := True, vunprotected := False\<rparr>), d2)))"

text \<open>\<open>Add\<close>: \<open>host\<close> is the content and the permission bits of the host file, if it can be read.\<close>

definition v_Add ::
  "vault_lib \<Rightarrow> bytes \<Rightarrow> bytes \<Rightarrow> bytes \<Rightarrow> int \<Rightarrow> (bytes \<times> int) option \<Rightarrow> string \<Rightarrow> vault \<Rightarrow> vdisk \<Rightarrow> vault \<times> vdisk \<times> bool" where
  "v_Add lib fresh n1 n2 now host fsPath v d =
     (case host of
        None \<Rightarrow> (v, d, False)
      | Some (b, md) \<Rightarrow>
          let sha = hex_encode (sha_256 lib b);
              (enc, d1) = v_encrypt lib fresh n1 v b d;
              d2 = d1\<lparr>blobs := AList.update sha enc (blobs d1)\<rparr>;
              p = normalizeFSPath fsPath;
              v' = v\<lparr>mf := AList.update p \<lparr>vpath = p, BlobSHA = sha, vsize = int (length b), vmode = md, vmodified = now\<rparr> (mf v)\<rparr>
          in (v', v_saveManifest lib fresh n2 v' d2, True))"

definition v_Remove :: "vault_lib \<Rightarrow> bytes \<Rightarrow> bytes \<Rightarrow> string \<Rightarrow> vault \<Rightarrow> vdisk \<Rightarrow> vault \<times> vdisk" where
  "v_Remove lib fresh nonce fsPath v d =
     (let v' = v\<lparr>mf := AList.delete (normalizeFSPath fsPath) (mf v)\<rparr> in (v', v_saveManifest lib fresh nonce v' d))"

definition v_List :: "string \<Rightarrow> vault \<Rightarrow> ventry list" where
  "v_List pfx v =
     (let p = normalizeFSPath pfx
      in sort_key vpath (map snd (filter (\<lambda>kv. p = ''/'' \<or> has_prefix (fst kv) p) (mf v))))"

definition v_Read :: "vault_lib \<Rightarrow> bytes \<Rightarrow> string \<Rightarrow> vault \<Rightarrow> vdisk \<Rightarrow> bytes option \<times> vdisk" where
  "v_Read lib fresh fsPath v d =
     (case map_of (mf v) (normalizeFSPath fsPath) of
        None \<Rightarrow> (None, d)
      | Some e \<Rightarrow>
          (case map_of (blobs d) (BlobSHA e) of
             None \<Rightarrow> (None, d)
           | Some b \<Rightarrow> v_decrypt lib fresh v b d))"

section \<open>Changing the passphrase\<close>

datatype disk_write = WBlob string bytes | WSalt bytes | WManifest bytes

fun apply_write :: "disk_write \<Rightarrow> vdisk \<Rightarrow> vdisk" where
  "apply_write (WBlob n b) d = d\<lparr>blobs := AList.update n b (blobs d)\<rparr>"
| "apply_write (WSalt s) d = d\<lparr>salt_bin := Some s\<rparr>"
| "apply_write (WManifest b) d = d\<lparr>manifest_file := Some b\<rparr>"

text \<open>The loop that reads every entry under the current key.\<close>

fun read_all :: "vault_lib \<Rightarrow> bytes \<Rightarrow> vault \<Rightarrow> string list \<Rightarrow> vdisk \<Rightarrow> (string \<times> bytes) list option \<times> vdisk" where
  "read_all lib fresh v [] d = (Some [], d)"
| "read_all lib fresh v (p # ps) d =
     (case v_Read lib fresh p v d of
        (None, d1) \<Rightarrow> (None, d1)
      | (Some b, d1) \<Rightarrow> (case read_all lib fresh v ps d1 of (r, d2) \<Rightarrow> (map_option (Cons (p, b)) r, d2)))"

text \<open>
  \<open>Rekey\<close>: the writes in their order, \<open>None\<close> when it refuses or a read fails. \<open>nonces\<close> gives
  the nonce drawn for each path.
\<close>

definition rekey_writes ::
  "vault_lib \<Rightarrow> bytes \<Rightarrow> (string \<Rightarrow> bytes) \<Rightarrow> bytes \<Rightarrow> bytes \<Rightarrow> string \<Rightarrow> vault \<Rightarrow> vdisk \<Rightarrow> disk_write list option" where
  "rekey_writes lib fresh nonces mnonce newSalt newPass v d =
     (if newPass = [] \<or> newPass = LegacyDefaultPassphrase then None
      else let key = argon2 lib newPass newSalt
           in map_option (\<lambda>plain.
                map (\<lambda>(p, b). WBlob (BlobSHA (the (map_of (mf v) p))) (nonces p @ gcm_seal lib key (nonces p) b)) plain @
                [WSalt newSalt, WManifest (mnonce @ gcm_seal lib key mnonce (marshal_indent (mf_json lib (mf v))))])
                (fst (read_all lib fresh v (keys (mf v)) d)))"

definition rekeyed :: "bytes \<Rightarrow> string \<Rightarrow> vault \<Rightarrow> vault" where
  "rekeyed newSalt newPass v = v\<lparr>vpass := newPass, vlegacy := False, vunprotected := False, saltOverride := Some newSalt\<rparr>"

section \<open>Normal paths\<close>

lemma rune_len_append: "rune_len a \<noteq> 0 \<Longrightarrow> rune_len (a @ t) = rune_len a"
  using rune_len_take [of a "drop (rune_len a) a @ t"] unfolding append_assoc [symmetric] append_take_drop_id by simp

lemma runes_prefix: "runes s = xs @ ys \<Longrightarrow> runes (flat xs) = xs"
proof (induction s arbitrary: xs rule: runes.induct)
  case 1
  then show ?case by simp
next
  case (2 c r)
  let ?n = "rune_len (c # r)"
  show ?case
  proof (cases xs)
    case (Cons x xs')
    show ?thesis
    proof (cases "?n = 0")
      case True
      then have x: "x = BadByte c" "runes r = xs' @ ys" using 2(3) Cons by simp_all
      have "r = flat xs' @ flat ys" using flat_runes [of r] x(2) by simp
      then have "rune_len (c # flat xs') = 0" using True rune_len_append [of "c # flat xs'" "flat ys"] by auto
      then show ?thesis using x Cons 2(1) [OF refl True] by simp
    next
      case False
      then have x: "x = Rune (take ?n (c # r))" "runes (drop ?n (c # r)) = xs' @ ys" using 2(3) Cons by (simp_all add: Let_def)
      have "rune_len (take ?n (c # r)) = length (take ?n (c # r))" "take ?n (c # r) \<noteq> []"
        using rune_len_take [OF False, of "[]"] rune_len_le [of "c # r"] False by auto
      then show ?thesis using x Cons 2(2) [OF refl False] runes_rune by simp
    qed
  qed simp
qed

lemma runes_suffix: "runes s = xs @ ys \<Longrightarrow> runes (flat ys) = ys"
proof (induction s arbitrary: xs rule: runes.induct)
  case (2 c r)
  have "runes (flat (runes (c # r))) = runes (c # r)" unfolding flat_runes ..
  then show ?case using 2 by (cases xs) (auto simp: Let_def split: if_splits)
qed simp

lemma trim_runes_split:
  obtains a b where "rs = a @ trim_runes rs @ b" and "trim_runes rs = [] \<or> (\<not> is_space (hd (trim_runes rs)) \<and> \<not> is_space (last (trim_runes rs)))"
proof
  let ?m = "dropWhile is_space rs"
  have m: "?m = trim_runes rs @ rev (takeWhile is_space (rev ?m))"
    using takeWhile_dropWhile_id [of is_space "rev ?m"] unfolding trim_runes_def by (metis rev_append rev_rev_ident)
  show "rs = takeWhile is_space rs @ trim_runes rs @ rev (takeWhile is_space (rev ?m))"
    using m takeWhile_dropWhile_id [of is_space rs] by metis
  show "trim_runes rs = [] \<or> (\<not> is_space (hd (trim_runes rs)) \<and> \<not> is_space (last (trim_runes rs)))"
  proof (cases "trim_runes rs = []")
    case False
    then have "\<not> is_space (last (trim_runes rs))"
      unfolding trim_runes_def by (metis hd_dropWhile last_rev rev_is_Nil_conv)
    moreover have "?m \<noteq> []" using False m by force
    then have "\<not> is_space (hd ?m)" by (rule hd_dropWhile)
    then have "\<not> is_space (hd (trim_runes rs))" using m False by (metis hd_append2)
    ultimately show ?thesis by simp
  qed simp
qed

lemma trim_runes_id: "rs \<noteq> [] \<Longrightarrow> \<not> is_space (hd rs) \<Longrightarrow> \<not> is_space (last rs) \<Longrightarrow> trim_runes rs = rs"
proof -
  assume "rs \<noteq> []" "\<not> is_space (hd rs)" "\<not> is_space (last rs)"
  then have "dropWhile is_space rs = rs" "dropWhile is_space (rev rs) = rev rs"
    by (cases rs, simp_all, cases rs rule: rev_cases, simp_all)
  then show ?thesis by (simp add: trim_runes_def)
qed

lemma runes_trim_space: "runes (trim_space s) = trim_runes (runes s)"
proof -
  obtain a b where "runes s = a @ trim_runes (runes s) @ b" by (rule trim_runes_split)
  then have "runes (flat (trim_runes (runes s) @ b)) = trim_runes (runes s) @ b" by (rule runes_suffix)
  then show ?thesis unfolding trim_space_def by (rule runes_prefix)
qed

text \<open>A string that starts with a slash and ends in no space is not trimmed.\<close>

lemma trim_slash:
  assumes "q = trim_space x" and "q \<noteq> []"
  shows "trim_space (CHR ''/'' # trim_prefix q ''/'') = CHR ''/'' # trim_prefix q ''/''"
proof -
  have sl: "rune_len (CHR ''/'' # t) = 1" for t by (simp add: rune_len_ascii)
  then have cons: "runes (CHR ''/'' # t) = Rune ''/'' # runes t" for t by simp
  have nsp: "\<not> is_space (Rune ''/'')" by code_simp
  obtain a b where tr: "trim_runes (runes x) = [] \<or> (\<not> is_space (hd (trim_runes (runes x))) \<and> \<not> is_space (last (trim_runes (runes x))))"
    by (rule trim_runes_split [of "runes x"])
  have last_ok: "runes q \<noteq> []" "\<not> is_space (last (runes q))"
    using tr assms runes_trim_space [of x] by (auto simp: trim_space_def)
  have "\<not> is_space (last (runes (CHR ''/'' # trim_prefix q ''/'')))"
  proof (cases "has_prefix q ''/''")
    case True
    then obtain t where "q = CHR ''/'' # t" by (auto simp: prefix_def)
    then show ?thesis using last_ok cons [of t] by (simp add: trim_prefix_def)
  next
    case False
    then show ?thesis using last_ok cons [of q] by (simp add: trim_prefix_def)
  qed
  then have "trim_runes (runes (CHR ''/'' # trim_prefix q ''/'')) = runes (CHR ''/'' # trim_prefix q ''/'')"
    using nsp by (intro trim_runes_id) (simp_all only: cons list.sel list.distinct(2) not_False_eq_True simp_thms)
  then show ?thesis by (simp only: trim_space_def flat_runes)
qed

lemma normalizeFSPath_idem: "normalizeFSPath (normalizeFSPath p) = normalizeFSPath p"
proof -
  let ?q = "trim_space (trim_prefix p ''fs:'')"
  show ?thesis
  proof (cases "?q = [] \<or> ?q = ''/''")
    case True
    have "normalizeFSPath ''/'' = ''/''" by code_simp
    then show ?thesis using True by (simp add: normalizeFSPath_def)
  next
    case False
    let ?r = "CHR ''/'' # trim_prefix ?q ''/''"
    have "trim_prefix ?q ''/'' \<noteq> []" using False by (auto simp: trim_prefix_def prefix_def)
    then have "normalizeFSPath ?r = ?r"
      using trim_slash [OF refl, of "trim_prefix p ''fs:''"] False by (simp add: normalizeFSPath_def trim_prefix_def)
    then show ?thesis using False by (simp add: normalizeFSPath_def)
  qed
qed

section \<open>A vault as a map from paths to contents\<close>

text \<open>What the layer relies on: opening undoes sealing, and a time survives its text form.\<close>

definition vault_laws :: "vault_lib \<Rightarrow> bool" where
  "vault_laws lib \<longleftrightarrow> (\<forall>k n m. length n = gcm_nonce \<longrightarrow> gcm_open lib k n (gcm_seal lib k n m) = Some m) \<and>
     (\<forall>t. time_read lib (time_text lib t) = Some t \<and> utf8_valid (time_text lib t))"

text \<open>The salt in force, and the content of a path under the key it gives.\<close>

definition salt_of :: "vault \<Rightarrow> vdisk \<Rightarrow> bytes option" where
  "salt_of v d = (case saltOverride v of Some s \<Rightarrow> Some s | None \<Rightarrow> salt_bin d)"

definition open_with :: "vault_lib \<Rightarrow> bytes \<Rightarrow> bytes \<Rightarrow> bytes option" where
  "open_with lib key enc =
     (if length enc < gcm_nonce then None else gcm_open lib key (take gcm_nonce enc) (drop gcm_nonce enc))"

definition vault_view :: "vault_lib \<Rightarrow> vault \<Rightarrow> vdisk \<Rightarrow> string \<Rightarrow> bytes option" where
  "vault_view lib v d p =
     (case (map_of (mf v) p, salt_of v d) of
        (Some e, Some s) \<Rightarrow> (case map_of (blobs d) (BlobSHA e) of None \<Rightarrow> None | Some enc \<Rightarrow> open_with lib (argon2 lib (vpass v) s) enc)
      | _ \<Rightarrow> None)"

definition ventry_ok :: "vault_lib \<Rightarrow> string \<Rightarrow> ventry \<Rightarrow> bool" where
  "ventry_ok lib p e \<longleftrightarrow> vpath e = p \<and> normalizeFSPath p = p \<and> utf8_valid p \<and> utf8_valid (BlobSHA e) \<and>
     0 \<le> vsize e \<and> vsize e < 2 ^ 63 \<and> 0 \<le> vmode e \<and> vmode e < 2 ^ 32"

text \<open>Every entry has a blob that decrypts, named after its content.\<close>

definition vault_ok :: "vault_lib \<Rightarrow> vault \<Rightarrow> vdisk \<Rightarrow> bool" where
  "vault_ok lib v d \<longleftrightarrow> distinct (keys (mf v)) \<and>
     (\<forall>p e. map_of (mf v) p = Some e \<longrightarrow> ventry_ok lib p e \<and>
        (\<exists>x. vault_view lib v d p = Some x \<and> BlobSHA e = hex_encode (sha_256 lib x) \<and> vsize e = int (length x)))"

lemma open_seal: "vault_laws lib \<Longrightarrow> length n = gcm_nonce \<Longrightarrow> open_with lib k (n @ gcm_seal lib k n m) = Some m"
  by (simp add: vault_laws_def open_with_def)

lemma v_deriveKey_salt:
  "salt_of v d = Some s \<Longrightarrow> v_deriveKey lib fresh v d = (argon2 lib (vpass v) s, d)"
  "salt_of v d = None \<Longrightarrow> v_deriveKey lib fresh v d = (argon2 lib (vpass v) fresh, d\<lparr>salt_bin := Some fresh\<rparr>)"
  by (auto simp: salt_of_def v_deriveKey_def split: option.splits)

lemma salt_of_update [simp]: "salt_of v (d\<lparr>blobs := z\<rparr>) = salt_of v d" "salt_of v (d\<lparr>manifest_file := m\<rparr>) = salt_of v d"
  "salt_of (v\<lparr>mf := e\<rparr>) d = salt_of v d"
  by (auto simp: salt_of_def split: option.split)

lemma v_saveManifest_salt:
  "salt_of v d = Some s \<Longrightarrow>
     v_saveManifest lib fresh nonce v d =
       d\<lparr>manifest_file := Some (nonce @ gcm_seal lib (argon2 lib (vpass v) s) nonce (marshal_indent (mf_json lib (mf v))))\<rparr>"
  by (simp add: v_saveManifest_def v_encrypt_def v_deriveKey_salt(1))

lemma v_Read_view:
  assumes "vault_ok lib v d" and "normalizeFSPath p = p"
  shows "v_Read lib fresh p v d = (vault_view lib v d p, d)"
proof (cases "map_of (mf v) p")
  case None
  then show ?thesis using assms(2) by (simp add: v_Read_def vault_view_def)
next
  case (Some e)
  then obtain x where "vault_view lib v d p = Some x" using assms(1) unfolding vault_ok_def by blast
  then show ?thesis
    using Some assms(2)
    by (auto simp: v_Read_def vault_view_def v_decrypt_def open_with_def v_deriveKey_salt(1) split: option.splits)
qed

text \<open>Writing a blob under the key in force, then an entry for it.\<close>

lemma vAdd_view:
  assumes lib: "vault_laws lib" and ok: "vault_ok lib v d" and n: "length n1 = gcm_nonce"
    and coll: "\<And>p x. vault_view lib v d p = Some x \<Longrightarrow> hex_encode (sha_256 lib x) = hex_encode (sha_256 lib b) \<Longrightarrow> x = b"
    and add: "v_Add lib fresh n1 n2 now (Some (b, md)) fsPath v d = (v', d', r)"
  shows "vault_view lib v' d' = (vault_view lib v d)(normalizeFSPath fsPath \<mapsto> b)"
proof -
  let ?p = "normalizeFSPath fsPath" and ?sha = "hex_encode (sha_256 lib b)"
  define s where "s = (case salt_of v d of Some s \<Rightarrow> s | None \<Rightarrow> fresh)"
  define d1 where "d1 = snd (v_deriveKey lib fresh v d)"
  let ?key = "argon2 lib (vpass v) s"
  have k: "v_deriveKey lib fresh v d = (?key, d1)" and s1: "salt_of v d1 = Some s" and b1: "blobs d1 = blobs d"
    by (auto simp: s_def d1_def v_deriveKey_def salt_of_def split: option.splits)
  have v': "v' = v\<lparr>mf := AList.update ?p \<lparr>vpath = ?p, BlobSHA = ?sha, vsize = int (length b), vmode = md, vmodified = now\<rparr> (mf v)\<rparr>"
    using add by (simp add: v_Add_def Let_def v_encrypt_def k)
  have sd: "salt_of v' x = salt_of v x" for x by (simp add: v' salt_of_def)
  have pass: "vpass v' = vpass v" by (simp add: v')
  have "d' = v_saveManifest lib fresh n2 v' (d1\<lparr>blobs := AList.update ?sha (n1 @ gcm_seal lib ?key n1 b) (blobs d)\<rparr>)"
    using add by (auto simp: v_Add_def Let_def v_encrypt_def k b1)
  moreover have "salt_of v' (d1\<lparr>blobs := z\<rparr>) = Some s" for z using s1 by (simp add: sd)
  ultimately have d': "blobs d' = AList.update ?sha (n1 @ gcm_seal lib ?key n1 b) (blobs d)" "salt_of v' d' = Some s"
    by (simp_all add: v_saveManifest_salt)
  have old: "vault_view lib v d q = Some x \<Longrightarrow> salt_of v d = Some s" for q x
    by (auto simp: vault_view_def s_def split: option.splits)
  show ?thesis
  proof
    fix q
    show "vault_view lib v' d' q = ((vault_view lib v d)(?p \<mapsto> b)) q"
    proof (cases "q = ?p")
      case True
      then show ?thesis
        using d' open_seal [OF lib n] by (simp add: vault_view_def v' pass)
    next
      case False
      show ?thesis
      proof (cases "map_of (mf v) q")
        case None
        then show ?thesis using False by (simp add: vault_view_def v')
      next
        case (Some e)
        then obtain x where x: "vault_view lib v d q = Some x" "BlobSHA e = hex_encode (sha_256 lib x)"
          using ok unfolding vault_ok_def by blast
        have "vault_view lib v' d' q = Some x"
        proof (cases "BlobSHA e = ?sha")
          case True
          then have "x = b" using coll [OF x(1)] x(2) by simp
          then show ?thesis using True False Some d' open_seal [OF lib n] by (simp add: vault_view_def v')
        next
          case ne: False
          then show ?thesis using False Some d' x(1) old [OF x(1)] by (simp add: vault_view_def v' split: option.splits)
        qed
        then show ?thesis using False x by simp
      qed
    qed
  qed
qed

lemma vault_okD:
  assumes "vault_ok lib v d" and "map_of (mf v) p = Some e"
  obtains x where "ventry_ok lib p e" "vault_view lib v d p = Some x" "BlobSHA e = hex_encode (sha_256 lib x)" "vsize e = int (length x)"
  using assms unfolding vault_ok_def by blast

lemma vAdd_ok:
  assumes lib: "vault_laws lib" and ok: "vault_ok lib v d" and n: "length n1 = gcm_nonce"
    and coll: "\<And>p x. vault_view lib v d p = Some x \<Longrightarrow> hex_encode (sha_256 lib x) = hex_encode (sha_256 lib b) \<Longrightarrow> x = b"
    and bounds: "utf8_valid (normalizeFSPath fsPath)" "int (length b) < 2 ^ 63" "0 \<le> md" "md < 2 ^ 32"
    and add: "v_Add lib fresh n1 n2 now (Some (b, md)) fsPath v d = (v', d', r)"
  shows "vault_ok lib v' d'"
proof -
  note view = vAdd_view [OF lib ok n coll add]
  let ?p = "normalizeFSPath fsPath"
  let ?e = "\<lparr>vpath = ?p, BlobSHA = hex_encode (sha_256 lib b), vsize = int (length b), vmode = md, vmodified = now\<rparr>"
  have v': "mf v' = AList.update ?p ?e (mf v)"
    using add by (auto simp: v_Add_def Let_def case_prod_unfold)
  have new: "ventry_ok lib ?p ?e"
    using bounds by (simp add: ventry_ok_def normalizeFSPath_idem hex_encode_valid)
  show ?thesis
    unfolding vault_ok_def
  proof (intro conjI allI impI)
    show "distinct (keys (mf v'))" using ok v' by (simp add: vault_ok_def distinct_update)
    fix q e assume e: "map_of (mf v') q = Some e"
    show "ventry_ok lib q e"
      using e v' new vault_okD [OF ok, of q e] by (cases "q = ?p") auto
    show "\<exists>x. vault_view lib v' d' q = Some x \<and> BlobSHA e = hex_encode (sha_256 lib x) \<and> vsize e = int (length x)"
      using e v' view vault_okD [OF ok, of q e] by (cases "q = ?p") auto
  qed
qed

lemma vRemove_view:
  assumes ok: "vault_ok lib v d" and rm: "v_Remove lib fresh nonce fsPath v d = (v', d')"
  shows "vault_view lib v' d' = (vault_view lib v d)(normalizeFSPath fsPath := None)" "vault_ok lib v' d'"
proof -
  let ?p = "normalizeFSPath fsPath"
  have v': "v' = v\<lparr>mf := AList.delete ?p (mf v)\<rparr>" and d': "d' = v_saveManifest lib fresh nonce v' d"
    using rm by (auto simp: v_Remove_def Let_def)
  have s: "salt_of v' d' = salt_of v d \<and> blobs d' = blobs d" if "salt_of v d = Some s" for s
    using that d' v' by (simp add: v_saveManifest_salt)
  have some: "\<exists>s. salt_of v d = Some s" if q: "map_of (mf v) q = Some e" for q e
  proof -
    obtain x where "vault_view lib v d q = Some x" by (rule vault_okD [OF ok q])
    then show ?thesis using q by (cases "salt_of v d") (simp_all add: vault_view_def)
  qed
  show view: "vault_view lib v' d' = (vault_view lib v d)(?p := None)"
  proof
    fix q show "vault_view lib v' d' q = ((vault_view lib v d)(?p := None)) q"
    proof (cases "map_of (mf v) q")
      case None
      then show ?thesis by (simp add: vault_view_def v')
    next
      case (Some e)
      then obtain s where s1: "salt_of v d = Some s" using some by blast
      from s [OF this] show ?thesis using Some s1 by (simp add: vault_view_def v' split: option.split)
    qed
  qed
  show "vault_ok lib v' d'"
    unfolding vault_ok_def
  proof (intro conjI allI impI)
    show "distinct (keys (mf v'))" using ok v' by (simp add: vault_ok_def distinct_delete)
    fix q e assume "map_of (mf v') q = Some e"
    then have e: "map_of (mf v) q = Some e" "q \<noteq> ?p" using v' by (auto split: if_splits)
    show "ventry_ok lib q e" using vault_okD [OF ok e(1)] by blast
    show "\<exists>x. vault_view lib v' d' q = Some x \<and> BlobSHA e = hex_encode (sha_256 lib x) \<and> vsize e = int (length x)"
      using vault_okD [OF ok e(1)] view e(2) by auto
  qed
qed

section \<open>Reopening\<close>

lemma entry_names [simp]:
  "fold_name ''blob_sha'' = ''BLOB_SHA''" "fold_name ''size'' = ''SIZE''" "fold_name ''mode'' = ''MODE''"
  "fold_name ''modified'' = ''MODIFIED''" "fold_name ''path'' = ''PATH''" "fold_name ''entries'' = ''ENTRIES''"
  by code_simp+

lemma uint32_itoa: "0 \<le> n \<Longrightarrow> n < 2 ^ 32 \<Longrightarrow> uint32_of_num (itoa n) = Some n"
  by (simp add: uint32_of_num_def itoa_def dec_digits_digits dec_val_digits dec_digits_not_Nil)

lemma entry_read_back:
  assumes "vault_laws lib" and "ventry_ok lib p e"
  shows "entry_of_json lib (entry_json lib e) = Some e"
  using assms int_of_itoa [of "vsize e"] uint32_itoa [of "vmode e"]
  by (simp add: entry_of_json_def entry_json_def field_vals_def members_def obj_ok_def str_ok_def int_ok_def get_str_def get_int_def
      uint32_ok_def time_ok_def vault_laws_def ventry_ok_def)

lemma clean_mf_json:
  assumes lib: "vault_laws lib" and ok: "\<And>p e. map_of m p = Some e \<Longrightarrow> ventry_ok lib p e"
  shows "clean (mf_json lib m)"
proof -
  have "clean (entry_json lib e) \<and> utf8_valid p" if "map_of m p = Some e" for p e
    using ok [OF that] lib
    by (simp add: entry_json_def ventry_ok_def vault_laws_def num_ok_itoa utf8_valid_ascii)
  then show ?thesis
    by (fastforce simp: mf_json_def list_all_iff utf8_valid_ascii map_of_eq_None_iff dest: weak_map_of_SomeI)
qed

lemma foldl_update_map: "distinct (keys kvs) \<Longrightarrow> set (keys kvs) \<inter> set (keys m) = {} \<Longrightarrow>
    foldl (\<lambda>m (k, e). AList.update k (f e) m) m kvs = m @ map (\<lambda>(k, e). (k, f e)) kvs"
proof (induction kvs arbitrary: m)
  case (Cons kv kvs)
  have upd: "AList.update k v m = m @ [(k, v)]" if "k \<notin> set (keys m)" for k v
    using that by (induction m) auto
  show ?case using Cons upd [of "fst kv" "f (snd kv)"] by (cases kv) auto
qed simp

lemma manifest_read_back:
  assumes lib: "vault_laws lib" and dist: "distinct (keys m)" and ok: "\<And>p e. map_of m p = Some e \<Longrightarrow> ventry_ok lib p e"
  obtains m' where "manifest_of_json lib (mf_json lib m) = Some m'" "map_of m' = map_of m" "distinct (keys m')"
proof -
  let ?kvs = "map (\<lambda>k. (k, entry_json lib (the (map_of m k)))) (sort (keys m))"
  have e: "entry_of_json lib (entry_json lib (the (map_of m k))) = Some (the (map_of m k))" if k: "k \<in> set (keys m)" for k
  proof -
    obtain x where x: "map_of m k = Some x" using k map_of_eq_None_iff [of m k] by (cases "map_of m k") auto
    then show ?thesis using entry_read_back [OF lib ok [OF x]] by simp
  qed
  have kvs: "get_map ''entries'' (mf_json lib m) = ?kvs" "field_vals ''entries'' (mf_json lib m) = [JObj ?kvs]"
    by (simp_all add: get_map_def mf_json_def field_vals_def members_def)
  have oks: "entries_ok lib (JObj ?kvs)" using e by (auto simp: entries_ok_def list_all_iff)
  let ?m = "map (\<lambda>k. (k, the (map_of m k))) (sort (keys m))"
  have "manifest_of_json lib (mf_json lib m) = Some ?m"
  proof -
    have "distinct (keys ?kvs)" using dist by (simp add: comp_def)
    from foldl_update_map [OF this, of "[]" "\<lambda>e. the (entry_of_json lib e)"]
    have "foldl (\<lambda>m (k, e). AList.update k (the (entry_of_json lib e)) m) [] ?kvs = map (\<lambda>(k, e). (k, the (entry_of_json lib e))) ?kvs"
      by simp
    also have "\<dots> = ?m" using e by simp
    finally show ?thesis
      unfolding manifest_of_json_def kvs using oks by (simp add: obj_ok_def mf_json_def)
  qed
  moreover have "map_of ?m = map_of m"
  proof
    fix k show "map_of ?m k = map_of m k"
    proof (cases "k \<in> set (keys m)")
      case False
      then have "map_of m k = None" by (simp add: map_of_eq_None_iff)
      then show ?thesis using False by (auto simp: map_of_map_restrict restrict_map_def)
    qed (auto simp: map_of_map_restrict restrict_map_def dest: weak_map_of_SomeI)
  qed
  moreover have "distinct (keys ?m)" using dist by (simp add: comp_def)
  ultimately show thesis using that by blast
qed

text \<open>A manifest that was sealed under the key in force is found again by \<open>Open\<close>.\<close>

lemma load_sealed:
  assumes lib: "vault_laws lib" and dist: "distinct (keys m)" and ok: "\<And>p e. map_of m p = Some e \<Longrightarrow> ventry_ok lib p e"
    and d: "salt_bin d = Some s" "manifest_file d = Some (n @ gcm_seal lib (argon2 lib pass s) n (marshal_indent (mf_json lib m)))"
    and n: "length n = gcm_nonce" "hd n \<noteq> CHR ''{''"
  obtains m' where "v_loadManifest lib fresh (handle_for pass) d = (Some ((handle_for pass)\<lparr>mf := m'\<rparr>), d)" "map_of m' = map_of m" "distinct (keys m')"
proof -
  obtain m' where m': "manifest_of_json lib (mf_json lib m) = Some m'" "map_of m' = map_of m" "distinct (keys m')"
    by (rule manifest_read_back [OF lib dist ok])
  have ne: "n \<noteq> []" using n(1) by (auto simp: gcm_nonce_def)
  have "salt_of (handle_for pass) d = Some s" using d(1) by (simp add: salt_of_def handle_for_def)
  then have "v_decrypt lib fresh (handle_for pass) (n @ gcm_seal lib (argon2 lib pass s) n (marshal_indent (mf_json lib m))) d =
      (Some (marshal_indent (mf_json lib m)), d)"
    using open_seal [OF lib n(1)] by (simp add: v_decrypt_def v_deriveKey_salt(1) open_with_def handle_for_def)
  moreover have "parse_json (marshal_indent (mf_json lib m)) = Some (mf_json lib m)"
    by (rule reparse_indent [OF clean_mf_json [OF lib ok]])
  ultimately have "v_loadManifest lib fresh (handle_for pass) d = (Some ((handle_for pass)\<lparr>mf := m'\<rparr>), d)"
    using d(2) n(2) ne m'(1) by (simp add: v_loadManifest_def)
  then show thesis using that m' by blast
qed

lemma view_same_map: "map_of m = map_of (mf v) \<Longrightarrow> vpass w = vpass v \<Longrightarrow> salt_of w d = salt_of v d \<Longrightarrow>
    mf w = m \<Longrightarrow> vault_view lib w d = vault_view lib v d"
  unfolding vault_view_def by (rule ext) (simp split: option.split)

lemma Open_sealed:
  assumes lib: "vault_laws lib" and ok: "vault_ok lib v d" and d: "salt_of v d = Some s" "salt_bin d = Some s"
    and m: "manifest_file d = Some (n @ gcm_seal lib (argon2 lib (vpass v) s) n (marshal_indent (mf_json lib (mf v))))"
    and n: "length n = gcm_nonce" "hd n \<noteq> CHR ''{''"
  shows "\<exists>w. v_Open lib fresh (vpass v) d = (Opened w, d) \<and> map_of (mf w) = map_of (mf v) \<and> vault_view lib w d = vault_view lib v d \<and>
    (vlegacy w \<longleftrightarrow> vpass v = LegacyDefaultPassphrase) \<and> (vunprotected w \<longleftrightarrow> vpass v = [])"
proof -
  have dist: "distinct (keys (mf v))" and ent: "\<And>p e. map_of (mf v) p = Some e \<Longrightarrow> ventry_ok lib p e"
    using ok unfolding vault_ok_def by blast+
  obtain m' where m': "v_loadManifest lib fresh (handle_for (vpass v)) d = (Some ((handle_for (vpass v))\<lparr>mf := m'\<rparr>), d)" "map_of m' = map_of (mf v)"
    by (rule load_sealed [OF lib dist ent d(2) m n])
  let ?w = "(handle_for (vpass v))\<lparr>mf := m', vlegacy := (vpass v = LegacyDefaultPassphrase), vunprotected := (vpass v = [])\<rparr>"
  have "vpass ?w = vpass v" "salt_of ?w d = salt_of v d" using d by (simp_all add: handle_for_def salt_of_def)
  from view_same_map [OF m'(2) this] have "vault_view lib ?w d = vault_view lib v d" by simp
  then show ?thesis using m' by (simp add: v_Open_def)
qed

text \<open>A sealed manifest whose first byte happens to be a brace is taken for the old plain format.\<close>

lemma Open_brace:
  assumes "manifest_file d = Some b" and "b \<noteq> []" and "hd b = CHR ''{''" and "parse_json b = None"
  shows "v_Open lib fresh pass d = (if pass = [] then NoPassphrase else WrongPassphrase, d)"
proof -
  have "v_loadManifest lib fresh v d = (None, d)" for v using assms by (simp add: v_loadManifest_def)
  then show ?thesis by (simp add: v_Open_def)
qed

section \<open>Changing the passphrase, completed or cut short\<close>

lemma read_all_view:
  assumes "vault_ok lib v d" and "set ps \<subseteq> set (keys (mf v))"
  shows "read_all lib fresh v ps d = (Some (map (\<lambda>p. (p, the (vault_view lib v d p))) ps), d)"
  using assms(2)
proof (induction ps)
  case (Cons p ps)
  obtain e where e: "map_of (mf v) p = Some e"
    using Cons.prems map_of_eq_None_iff [of "mf v" p] by (cases "map_of (mf v) p") auto
  obtain x where x: "ventry_ok lib p e" "vault_view lib v d p = Some x" by (rule vault_okD [OF assms(1) e])
  then have "v_Read lib fresh p v d = (Some x, d)" using v_Read_view [OF assms(1)] by (simp add: ventry_ok_def)
  then show ?case using Cons x by simp
qed simp

definition blob_writes :: "vault_lib \<Rightarrow> bytes \<Rightarrow> (string \<Rightarrow> bytes) \<Rightarrow> vault \<Rightarrow> vdisk \<Rightarrow> string list \<Rightarrow> disk_write list" where
  "blob_writes lib key nonces v d ps =
     map (\<lambda>p. WBlob (BlobSHA (the (map_of (mf v) p))) (nonces p @ gcm_seal lib key (nonces p) (the (vault_view lib v d p)))) ps"

lemma rekey_writes_ok:
  assumes "vault_ok lib v d" and "newPass \<noteq> []" and "newPass \<noteq> LegacyDefaultPassphrase"
  shows "rekey_writes lib fresh nonces mnonce newSalt newPass v d =
    Some (blob_writes lib (argon2 lib newPass newSalt) nonces v d (keys (mf v)) @
      [WSalt newSalt, WManifest (mnonce @ gcm_seal lib (argon2 lib newPass newSalt) mnonce (marshal_indent (mf_json lib (mf v))))])"
  using assms read_all_view [OF assms(1), of "keys (mf v)" fresh]
  by (simp add: rekey_writes_def blob_writes_def Let_def comp_def)

lemma fold_blobs:
  "fold apply_write (blob_writes lib key nonces v d ps) d0 =
     d0\<lparr>blobs := fold (\<lambda>p. AList.update (BlobSHA (the (map_of (mf v) p))) (nonces p @ gcm_seal lib key (nonces p) (the (vault_view lib v d p)))) ps (blobs d0)\<rparr>"
  by (induction ps arbitrary: d0) (simp_all add: blob_writes_def)

lemma fold_update_lookup:
  "(\<exists>p \<in> set ps. f p = k \<and> map_of (fold (\<lambda>p. AList.update (f p) (g p)) ps m) k = Some (g p)) \<or>
   (k \<notin> f ` set ps \<and> map_of (fold (\<lambda>p. AList.update (f p) (g p)) ps m) k = map_of m k)"
proof (induction ps arbitrary: m)
  case (Cons p ps)
  show ?case using Cons [of "AList.update (f p) (g p) m"] by (auto split: if_splits)
qed simp

text \<open>After the blobs in \<open>ps\<close> have been written, the blob of a path in \<open>ps\<close> is sealed under the new key.\<close>

lemma blob_after:
  assumes ok: "vault_ok lib v d" and ps: "set ps \<subseteq> set (keys (mf v))" "p \<in> set ps"
    and coll: "\<And>p q x. vault_view lib v d p = Some x \<Longrightarrow> BlobSHA (the (map_of (mf v) p)) = BlobSHA (the (map_of (mf v) q)) \<Longrightarrow>
      q \<in> set (keys (mf v)) \<Longrightarrow> vault_view lib v d q = Some x"
  obtains e q where "map_of (mf v) p = Some e" "q \<in> set ps"
    "map_of (blobs (fold apply_write (blob_writes lib key nonces v d ps) d)) (BlobSHA e) =
       Some (nonces q @ gcm_seal lib key (nonces q) (the (vault_view lib v d p)))"
proof -
  have "p \<in> set (keys (mf v))" using ps by blast
  then obtain e where e: "map_of (mf v) p = Some e" using map_of_eq_None_iff [of "mf v" p] by (cases "map_of (mf v) p") auto
  obtain x where x: "vault_view lib v d p = Some x" by (rule vault_okD [OF ok e])
  let ?f = "\<lambda>p. BlobSHA (the (map_of (mf v) p))"
  let ?g = "\<lambda>p. nonces p @ gcm_seal lib key (nonces p) (the (vault_view lib v d p))"
  have "?f p \<in> ?f ` set ps" using ps(2) by blast
  then obtain q where q: "q \<in> set ps" "?f q = ?f p" "map_of (fold (\<lambda>p. AList.update (?f p) (?g p)) ps (blobs d)) (?f p) = Some (?g q)"
    using fold_update_lookup [of ps ?f "?f p" ?g "blobs d"] by auto
  moreover have "vault_view lib v d q = Some x" using coll [OF x, of q] q ps(1) by auto
  ultimately show thesis using that [OF e, of q] e x by (simp add: fold_blobs)
qed

text \<open>Two contents of the vault with the same name are the same: SHA-256 has not collided here.\<close>

definition no_collision :: "vault_lib \<Rightarrow> vault \<Rightarrow> vdisk \<Rightarrow> bool" where
  "no_collision lib v d \<longleftrightarrow>
     (\<forall>p q x y. vault_view lib v d p = Some x \<longrightarrow> vault_view lib v d q = Some y \<longrightarrow>
        hex_encode (sha_256 lib x) = hex_encode (sha_256 lib y) \<longrightarrow> x = y)"

text \<open>Opening under a key other than the one used for sealing fails.\<close>

definition gcm_auth :: "vault_lib \<Rightarrow> bool" where
  "gcm_auth lib \<longleftrightarrow> (\<forall>k k' n m. k \<noteq> k' \<longrightarrow> gcm_open lib k' n (gcm_seal lib k n m) = None)"

lemma same_blob:
  assumes "vault_ok lib v d" and "no_collision lib v d" and "vault_view lib v d p = Some x"
    and "BlobSHA (the (map_of (mf v) p)) = BlobSHA (the (map_of (mf v) q))" and q: "q \<in> set (keys (mf v))"
  shows "vault_view lib v d q = Some x"
proof -
  obtain e where e: "map_of (mf v) p = Some e" using assms(3) by (cases "map_of (mf v) p") (simp_all add: vault_view_def)
  obtain e' where e': "map_of (mf v) q = Some e'" using q map_of_eq_None_iff [of "mf v" q] by (cases "map_of (mf v) q") auto
  obtain y where y: "vault_view lib v d q = Some y" "BlobSHA e' = hex_encode (sha_256 lib y)" by (rule vault_okD [OF assms(1) e'])
  obtain x' where "vault_view lib v d p = Some x'" "BlobSHA e = hex_encode (sha_256 lib x')" by (rule vault_okD [OF assms(1) e])
  then have "hex_encode (sha_256 lib x) = hex_encode (sha_256 lib y)" using assms(3,4) e e' y by simp
  then show ?thesis using assms(2,3) y(1) unfolding no_collision_def by blast
qed

lemma rekeyed_view:
  assumes lib: "vault_laws lib" and ok: "vault_ok lib v d" and nc: "no_collision lib v d" and n: "\<And>p. length (nonces p) = gcm_nonce"
    and d': "blobs d' = blobs (fold apply_write (blob_writes lib (argon2 lib newPass newSalt) nonces v d (keys (mf v))) d)"
  shows "vault_view lib (rekeyed newSalt newPass v) d' = vault_view lib v d"
proof
  fix p
  have s: "salt_of (rekeyed newSalt newPass v) d' = Some newSalt" "mf (rekeyed newSalt newPass v) = mf v" "vpass (rekeyed newSalt newPass v) = newPass"
    by (simp_all add: rekeyed_def salt_of_def)
  show "vault_view lib (rekeyed newSalt newPass v) d' p = vault_view lib v d p"
  proof (cases "p \<in> set (keys (mf v))")
    case False
    then have "map_of (mf v) p = None" by (simp add: map_of_eq_None_iff)
    then show ?thesis using s by (simp add: vault_view_def)
  next
    case True
    obtain e q where e: "map_of (mf v) p = Some e"
      "map_of (blobs d') (BlobSHA e) = Some (nonces q @ gcm_seal lib (argon2 lib newPass newSalt) (nonces q) (the (vault_view lib v d p)))"
      unfolding d' by (rule blob_after [OF ok subset_refl True same_blob [OF ok nc], where key = "argon2 lib newPass newSalt" and nonces = nonces])
    obtain x where x: "vault_view lib v d p = Some x" by (rule vault_okD [OF ok e(1)])
    have "vault_view lib (rekeyed newSalt newPass v) d' p =
        open_with lib (argon2 lib newPass newSalt) (nonces q @ gcm_seal lib (argon2 lib newPass newSalt) (nonces q) x)"
      using s e x by (simp add: vault_view_def)
    then show ?thesis using open_seal [OF lib n] x by simp
  qed
qed

text \<open>
  A completed change of passphrase keeps every secret: after all the writes of \<open>Rekey\<close> the
  handle, and every later \<open>Open\<close> with the new passphrase, shows exactly the paths and contents
  of before.
\<close>

theorem rekey_preserves:
  assumes lib: "vault_laws lib" and ok: "vault_ok lib v d" and nc: "no_collision lib v d"
    and nonces: "\<forall>p. length (nonces p) = gcm_nonce" "length mnonce = gcm_nonce" "hd mnonce \<noteq> CHR ''{''"
    and ws: "rekey_writes lib fresh nonces mnonce newSalt newPass v d = Some ws"
  shows "let d' = fold apply_write ws d
    in vault_view lib (rekeyed newSalt newPass v) d' = vault_view lib v d \<and>
       (\<exists>w. v_Open lib fresh' newPass d' = (Opened w, d') \<and> vault_view lib w d' = vault_view lib v d \<and> \<not> vlegacy w \<and> \<not> vunprotected w)"
proof -
  let ?k = "argon2 lib newPass newSalt" and ?w = "rekeyed newSalt newPass v" and ?d = "fold apply_write ws d"
  have np: "newPass \<noteq> []" "newPass \<noteq> LegacyDefaultPassphrase" using ws by (auto simp: rekey_writes_def split: if_splits)
  have "ws = blob_writes lib ?k nonces v d (keys (mf v)) @
      [WSalt newSalt, WManifest (mnonce @ gcm_seal lib ?k mnonce (marshal_indent (mf_json lib (mf v))))]"
    using ws rekey_writes_ok [OF ok np] by simp
  then have d': "blobs ?d = blobs (fold apply_write (blob_writes lib ?k nonces v d (keys (mf v))) d)" "salt_bin ?d = Some newSalt"
    "manifest_file ?d = Some (mnonce @ gcm_seal lib ?k mnonce (marshal_indent (mf_json lib (mf ?w))))"
    by (simp_all add: rekeyed_def)
  have view: "vault_view lib ?w ?d = vault_view lib v d" by (rule rekeyed_view [OF lib ok nc _ d'(1)]) (use nonces in blast)
  have okw: "vault_ok lib ?w ?d" using ok view by (simp add: vault_ok_def) (simp add: rekeyed_def)
  have "salt_of ?w ?d = Some newSalt" "vpass ?w = newPass" by (simp_all add: rekeyed_def salt_of_def)
  then show ?thesis
    using Open_sealed [OF lib okw _ d'(2), of mnonce fresh'] d'(3) nonces view np by (auto simp: Let_def)
qed

text \<open>
  An interrupted change of passphrase loses secrets. The new blobs are written over the
  old ones, so once the process stops after the first \<open>k\<close> of them, before the salt, these
  paths cannot be read under the old passphrase any more; and when it stops between the salt
  and the manifest, the directory opens under no passphrase, old, new or legacy.
\<close>

theorem rekey_interrupted:
  assumes ok: "vault_ok lib v d" and nc: "no_collision lib v d" and auth: "gcm_auth lib"
    and salt: "salt_of v d = Some s" and diff: "argon2 lib (vpass v) s \<noteq> argon2 lib newPass newSalt"
    and nonces: "\<forall>p. length (nonces p) = gcm_nonce"
    and man: "manifest_file d = Some (n @ gcm_seal lib (argon2 lib (vpass v) s) n plain)" "length n = gcm_nonce" "hd n \<noteq> CHR ''{''"
    and ws: "rekey_writes lib fresh nonces mnonce newSalt newPass v d = Some ws"
  shows "(\<forall>k \<le> length (mf v). \<forall>p \<in> set (take k (keys (mf v))). vault_view lib v (fold apply_write (take k ws) d) p = None) \<and>
    (\<forall>pass. argon2 lib pass newSalt \<noteq> argon2 lib (vpass v) s \<longrightarrow> argon2 lib LegacyDefaultPassphrase newSalt \<noteq> argon2 lib (vpass v) s \<longrightarrow>
       fst (v_Open lib fresh' pass (fold apply_write (butlast ws) d)) \<in> {NoPassphrase, WrongPassphrase})"
proof -
  let ?k = "argon2 lib newPass newSalt" and ?o = "argon2 lib (vpass v) s"
  let ?bw = "blob_writes lib ?k nonces v d"
  have np: "newPass \<noteq> []" "newPass \<noteq> LegacyDefaultPassphrase" using ws by (auto simp: rekey_writes_def split: if_splits)
  have w: "ws = ?bw (keys (mf v)) @ [WSalt newSalt, WManifest (mnonce @ gcm_seal lib ?k mnonce (marshal_indent (mf_json lib (mf v))))]"
    using ws rekey_writes_ok [OF ok np] by simp
  have one: "vault_view lib v (fold apply_write (take k ws) d) p = None"
    if k: "k \<le> length (mf v)" and p: "p \<in> set (take k (keys (mf v)))" for k p
  proof -
    have t: "take k ws = ?bw (take k (keys (mf v)))" using k by (simp add: w blob_writes_def take_map)
    have sub: "set (take k (keys (mf v))) \<subseteq> set (keys (mf v))" by (rule set_take_subset)
    obtain e q where e: "map_of (mf v) p = Some e"
      "map_of (blobs (fold apply_write (?bw (take k (keys (mf v)))) d)) (BlobSHA e) = Some (nonces q @ gcm_seal lib ?k (nonces q) (the (vault_view lib v d p)))"
      by (rule blob_after [OF ok sub p same_blob [OF ok nc], where key = ?k and nonces = nonces])
    have "salt_of v (fold apply_write (?bw (take k (keys (mf v)))) d) = Some s" using salt by (simp add: fold_blobs)
    then show ?thesis using e auth diff nonces unfolding t by (simp add: vault_view_def open_with_def gcm_auth_def)
  qed
  let ?d = "fold apply_write (butlast ws) d"
  have d': "salt_bin ?d = Some newSalt" "manifest_file ?d = manifest_file d" by (simp_all add: w butlast_append fold_blobs)
  have ne: "n \<noteq> []" using man(2) by (auto simp: gcm_nonce_def)
  have fails: "v_loadManifest lib fresh' (handle_for pass) ?d = (None, ?d)" if "argon2 lib pass newSalt \<noteq> ?o" for pass
  proof -
    have "salt_of (handle_for pass) ?d = Some newSalt" "vpass (handle_for pass) = pass" using d' by (simp_all add: salt_of_def handle_for_def)
    then have "v_decrypt lib fresh' (handle_for pass) (n @ gcm_seal lib ?o n plain) ?d = (None, ?d)"
      using auth that man(2) by (auto simp: v_decrypt_def v_deriveKey_salt(1) gcm_auth_def)
    then show ?thesis using man ne d'(2) by (simp add: v_loadManifest_def)
  qed
  show ?thesis using one fails by (simp add: v_Open_def)
qed

section \<open>Adding, removing, reading and listing\<close>

text \<open>\<open>Read\<close> shows the map.\<close>

lemma v_Read_norm:
  "vault_ok lib v d \<Longrightarrow> v_Read lib fresh p v d = (vault_view lib v d (normalizeFSPath p), d)"
  using v_Read_view [of lib v d "normalizeFSPath p" fresh] normalizeFSPath_idem [of p] by (simp add: v_Read_def)

lemma view_domain: "vault_ok lib v d \<Longrightarrow> vault_view lib v d p \<noteq> None \<longleftrightarrow> p \<in> set (keys (mf v))"
proof
  assume "vault_view lib v d p \<noteq> None"
  then have "map_of (mf v) p \<noteq> None" by (cases "map_of (mf v) p") (simp_all add: vault_view_def)
  then show "p \<in> set (keys (mf v))" by (simp add: map_of_eq_None_iff)
next
  assume ok: "vault_ok lib v d" and "p \<in> set (keys (mf v))"
  then obtain e where "map_of (mf v) p = Some e" using map_of_eq_None_iff [of "mf v" p] by (cases "map_of (mf v) p") auto
  then show "vault_view lib v d p \<noteq> None" using ok vault_okD [of lib v d p e] by auto
qed

lemma List_paths:
  assumes "vault_ok lib v d"
  shows "map vpath (v_List pfx v) =
    sort (filter (\<lambda>p. normalizeFSPath pfx = ''/'' \<or> has_prefix p (normalizeFSPath pfx)) (keys (mf v)))"
proof -
  let ?P = "\<lambda>p. normalizeFSPath pfx = ''/'' \<or> has_prefix p (normalizeFSPath pfx)"
  have path: "vpath (snd kv) = fst kv" if "kv \<in> set (mf v)" for kv
  proof -
    have "distinct (keys (mf v))" using assms unfolding vault_ok_def by blast
    then have "map_of (mf v) (fst kv) = Some (snd kv)" using that by simp
    then show ?thesis using vault_okD [OF assms] by (auto simp: ventry_ok_def)
  qed
  have "map vpath (v_List pfx v) = sort (map vpath (map snd (filter (\<lambda>kv. ?P (fst kv)) (mf v))))"
    unfolding v_List_def Let_def by (rule properties_for_sort [symmetric]) (simp_all add: image_mset.compositionality comp_def)
  also have "map vpath (map snd (filter (\<lambda>kv. ?P (fst kv)) (mf v))) = map fst (filter (\<lambda>kv. ?P (fst kv)) (mf v))"
    using path by simp
  also have "\<dots> = filter ?P (keys (mf v))" by (simp add: filter_map comp_def)
  finally show ?thesis .
qed


text \<open>
  What \<open>Add\<close> saved is found again: the next \<open>Open\<close> with the same passphrase shows the same
  contents, unless the nonce drawn for the manifest starts with the byte of an opening brace.
  Then the sealed file is taken for an old plain manifest, and unless its bytes happen to parse
  as JSON the vault opens under no passphrase.
\<close>

theorem vault_reopen:
  assumes lib: "vault_laws lib" and ok: "vault_ok lib v d" and n: "length n1 = gcm_nonce" "length n2 = gcm_nonce"
    and coll: "\<forall>p x. vault_view lib v d p = Some x \<longrightarrow> hex_encode (sha_256 lib x) = hex_encode (sha_256 lib b) \<longrightarrow> x = b"
    and bounds: "utf8_valid (normalizeFSPath fsPath)" "int (length b) < 2 ^ 63" "0 \<le> md" "md < 2 ^ 32"
    and salt: "saltOverride v = None \<or> saltOverride v = salt_bin d"
    and add: "v_Add lib fresh n1 n2 now (Some (b, md)) fsPath v d = (v', d', r)"
  shows "if hd n2 \<noteq> CHR ''{''
    then \<exists>w. v_Open lib fresh' (vpass v) d' = (Opened w, d') \<and> vault_view lib w d' = (vault_view lib v d)(normalizeFSPath fsPath \<mapsto> b)
    else parse_json (the (manifest_file d')) = None \<longrightarrow>
      v_Open lib fresh' pass d' = (if pass = [] then NoPassphrase else WrongPassphrase, d')"
proof -
  have view: "vault_view lib v' d' = (vault_view lib v d)(normalizeFSPath fsPath \<mapsto> b)"
    by (rule vAdd_view [OF lib ok n(1) _ add]) (use coll in blast)
  have ok': "vault_ok lib v' d'" by (rule vAdd_ok [OF lib ok n(1) _ bounds add]) (use coll in blast)
  obtain s where s: "salt_of v' d' = Some s" "salt_bin d' = Some s" "vpass v' = vpass v"
    "manifest_file d' = Some (n2 @ gcm_seal lib (argon2 lib (vpass v') s) n2 (marshal_indent (mf_json lib (mf v'))))"
    using add salt
    by (cases "saltOverride v"; cases "salt_bin d")
       (auto simp: v_Add_def Let_def v_encrypt_def v_saveManifest_def v_deriveKey_def salt_of_def)
  have ne: "n2 \<noteq> []" using n(2) by (auto simp: gcm_nonce_def)
  show ?thesis
  proof (cases "hd n2 = CHR ''{''")
    case True
    then show ?thesis using Open_brace [OF s(4)] s(4) ne by simp
  next
    case False
    then show ?thesis using Open_sealed [OF lib ok' s(1,2,4) n(2)] view s(3) by auto
  qed
qed

section \<open>An example\<close>

text \<open>
  A library in which a box shows its key, each byte behind an \<open>x\<close> and the end marked by a
  \<open>y\<close>, and a directory that holds one secret.
\<close>

definition demo_box :: "bytes \<Rightarrow> bytes" where
  "demo_box k = concat (map (\<lambda>c. [CHR ''x'', c]) k) @ ''y''"

definition demo_time :: "string \<Rightarrow> int option" where
  "demo_time s = Some (if take 1 s = ''-'' then - dec_val (tl s) else dec_val s)"

definition demo_lib :: vault_lib where
  "demo_lib = \<lparr>argon2 = \<lambda>p s. p @ CHR ''.'' # s, gcm_seal = \<lambda>k n m. demo_box k @ m,
     gcm_open = \<lambda>k n c. if has_prefix c (demo_box k) then Some (drop (length (demo_box k)) c) else None,
     sha_256 = \<lambda>x. x, time_text = itoa, time_read = demo_time, time_zero = 0\<rparr>"

definition demo_nonce :: bytes where
  "demo_nonce = replicate 12 CHR ''n''"

definition demo_disk :: vdisk where
  "demo_disk = \<lparr>salt_bin = None, manifest_file = None, blobs = []\<rparr>"

definition demo_added :: "vault \<times> vdisk \<times> bool" where
  "demo_added = v_Add demo_lib ''salt'' demo_nonce demo_nonce 7 (Some (''s3cret'', 384)) ''fs:env'' (handle_for ''old'') demo_disk"

lemma demo_box_inj: "demo_box k @ m = demo_box k' @ m' \<Longrightarrow> k = k'"
proof (induction k arbitrary: k')
  case Nil
  then show ?case by (cases k') (simp_all add: demo_box_def)
next
  case (Cons c k)
  then show ?case by (cases k') (simp_all add: demo_box_def)
qed

lemma demo_time_itoa: "demo_time (itoa n) = Some n"
  using dec_digits_digits [of "\<bar>n\<bar>"] dec_digits_not_Nil [of "\<bar>n\<bar>"] dec_val_digits [of "\<bar>n\<bar>"]
  by (cases "dec_digits \<bar>n\<bar>") (auto simp: demo_time_def itoa_def is_digit_def)

lemma itoa_ascii: "list_all (\<lambda>c. ord c < 128) (itoa n)"
  using dec_digits_digits [of "\<bar>n\<bar>"] by (cases "n < 0") (fastforce simp: itoa_def list_all_iff is_digit_def)+

lemma vault_demo_laws: "vault_laws demo_lib" "gcm_auth demo_lib"
proof -
  show "vault_laws demo_lib"
    by (simp add: vault_laws_def demo_lib_def demo_time_itoa utf8_valid_ascii [OF itoa_ascii])
  have "\<not> has_prefix (demo_box k @ m) (demo_box k')" if "k \<noteq> k'" for k k' m
  proof
    assume "has_prefix (demo_box k @ m) (demo_box k')"
    then obtain t where "demo_box k @ m = demo_box k' @ t" by (auto simp: prefix_def)
    then show False using demo_box_inj that by blast
  qed
  then show "gcm_auth demo_lib" by (simp add: gcm_auth_def demo_lib_def)
qed

lemma demo_start:
  "vault_ok demo_lib (handle_for ''old'') demo_disk" "vault_view demo_lib (handle_for ''old'') demo_disk = Map.empty"
proof -
  show v: "vault_view demo_lib (handle_for ''old'') demo_disk = Map.empty" by (rule ext) (simp add: vault_view_def handle_for_def)
  show "vault_ok demo_lib (handle_for ''old'') demo_disk" by (simp add: vault_ok_def handle_for_def)
qed

lemma demo_env: "normalizeFSPath ''fs:env'' = ''/env''" "utf8_valid (normalizeFSPath ''fs:env'')" "length demo_nonce = gcm_nonce"
  "hd demo_nonce \<noteq> CHR ''{''" "normalizeFSPath ''/'' = ''/''"
  by code_simp+

lemma demo_no_collision:
  "\<forall>p x. vault_view demo_lib (handle_for ''old'') demo_disk p = Some x \<longrightarrow> hex_encode (sha_256 demo_lib x) = hex_encode (sha_256 demo_lib b) \<longrightarrow> x = b"
  by (simp add: demo_start)

lemma demo_filled:
  obtains v d where "demo_added = (v, d, True)" "vault_ok demo_lib v d" "vault_view demo_lib v d = [''/env'' \<mapsto> ''s3cret'']"
    "no_collision demo_lib v d" "mf v = [(''/env'', \<lparr>vpath = ''/env'', BlobSHA = hex_encode ''s3cret'', vsize = 6, vmode = 384, vmodified = 7\<rparr>)]"
    "vpass v = ''old''" "salt_of v d = Some ''salt''"
    "\<exists>plain. manifest_file d = Some (demo_nonce @ gcm_seal demo_lib (argon2 demo_lib ''old'' ''salt'') demo_nonce plain)"
proof -
  obtain v d r where a: "demo_added = (v, d, r)" by (rule prod_cases3)
  note a' = a [unfolded demo_added_def]
  have view: "vault_view demo_lib v d = [''/env'' \<mapsto> ''s3cret'']"
    using vAdd_view [OF vault_demo_laws(1) demo_start(1) demo_env(3) _ a'] demo_start(2) demo_env(1) by simp
  have ok: "vault_ok demo_lib v d"
    by (rule vAdd_ok [OF vault_demo_laws(1) demo_start(1) demo_env(3) _ demo_env(2) _ _ _ a']) (simp_all add: demo_start(2))
  have nc: "no_collision demo_lib v d" by (simp add: no_collision_def view)
  have "r" "mf v = [(''/env'', \<lparr>vpath = ''/env'', BlobSHA = hex_encode ''s3cret'', vsize = 6, vmode = 384, vmodified = 7\<rparr>)]"
    "vpass v = ''old''" "salt_of v d = Some ''salt''"
    "\<exists>plain. manifest_file d = Some (demo_nonce @ gcm_seal demo_lib (argon2 demo_lib ''old'' ''salt'') demo_nonce plain)"
    using a' demo_env(1)
    by (auto simp: v_Add_def Let_def v_encrypt_def v_saveManifest_def v_deriveKey_def salt_of_def handle_for_def demo_disk_def
        demo_lib_def)
  then show thesis using that a view ok nc by simp
qed


theorem vault_reopen_witness:
  "\<exists>v d w. demo_added = (v, d, True) \<and> v_Open demo_lib ''fresh'' ''old'' d = (Opened w, d) \<and>
     vault_view demo_lib w d = [''/env'' \<mapsto> ''s3cret'']"
proof -
  obtain v d where a: "demo_added = (v, d, True)" by (rule demo_filled)
  have "saltOverride (handle_for ''old'') = None" "vpass (handle_for ''old'') = ''old''" by (simp_all add: handle_for_def)
  then show ?thesis
    using vault_reopen [OF vault_demo_laws(1) demo_start(1) demo_env(3) demo_env(3) demo_no_collision demo_env(2) _ _ _ _ a [unfolded demo_added_def],
        of "''fresh''"] a
    by (auto simp: demo_env demo_start(2))
qed

theorem rekey_preserves_witness:
  "\<exists>v d ws w. demo_added = (v, d, True) \<and>
     rekey_writes demo_lib ''f'' (\<lambda>p. demo_nonce) demo_nonce ''pepper'' ''new'' v d = Some ws \<and>
     v_Open demo_lib ''f'' ''new'' (fold apply_write ws d) = (Opened w, fold apply_write ws d) \<and>
     vault_view demo_lib w (fold apply_write ws d) = [''/env'' \<mapsto> ''s3cret'']"
proof -
  obtain v d where a: "demo_added = (v, d, True)" "vault_ok demo_lib v d" "vault_view demo_lib v d = [''/env'' \<mapsto> ''s3cret'']" "no_collision demo_lib v d"
    by (rule demo_filled)
  obtain ws where ws: "rekey_writes demo_lib ''f'' (\<lambda>p. demo_nonce) demo_nonce ''pepper'' ''new'' v d = Some ws"
    using rekey_writes_ok [OF a(2)] by (simp add: LegacyDefaultPassphrase_def)
  from rekey_preserves [OF vault_demo_laws(1) a(2,4) _ demo_env(3,4) ws, of "''f''"] obtain w where
    "v_Open demo_lib ''f'' ''new'' (fold apply_write ws d) = (Opened w, fold apply_write ws d)"
    "vault_view demo_lib w (fold apply_write ws d) = [''/env'' \<mapsto> ''s3cret'']"
    using a(3) demo_env(3) by (auto simp: Let_def)
  then show ?thesis using a(1) ws by blast
qed

theorem rekey_interrupted_witness:
  "\<exists>v d ws. demo_added = (v, d, True) \<and> vault_view demo_lib v d ''/env'' = Some ''s3cret'' \<and>
     rekey_writes demo_lib ''f'' (\<lambda>p. demo_nonce) demo_nonce ''pepper'' ''new'' v d = Some ws \<and>
     vault_view demo_lib v (fold apply_write (take 1 ws) d) ''/env'' = None \<and>
     fst (v_Open demo_lib ''f'' ''old'' (fold apply_write (butlast ws) d)) = WrongPassphrase"
proof -
  obtain v d where a: "demo_added = (v, d, True)" "vault_ok demo_lib v d" "vault_view demo_lib v d = [''/env'' \<mapsto> ''s3cret'']" "no_collision demo_lib v d"
    "mf v = [(''/env'', \<lparr>vpath = ''/env'', BlobSHA = hex_encode ''s3cret'', vsize = 6, vmode = 384, vmodified = 7\<rparr>)]"
    "vpass v = ''old''" "salt_of v d = Some ''salt''"
    "\<exists>plain. manifest_file d = Some (demo_nonce @ gcm_seal demo_lib (argon2 demo_lib ''old'' ''salt'') demo_nonce plain)"
    by (rule demo_filled)
  obtain plain where m: "manifest_file d = Some (demo_nonce @ gcm_seal demo_lib (argon2 demo_lib (vpass v) ''salt'') demo_nonce plain)"
    using a(6,8) by auto
  obtain ws where ws: "rekey_writes demo_lib ''f'' (\<lambda>p. demo_nonce) demo_nonce ''pepper'' ''new'' v d = Some ws"
    using rekey_writes_ok [OF a(2)] by (simp add: LegacyDefaultPassphrase_def)
  have diff: "argon2 demo_lib (vpass v) ''salt'' \<noteq> argon2 demo_lib ''new'' ''pepper''"
    "argon2 demo_lib ''old'' ''pepper'' \<noteq> argon2 demo_lib (vpass v) ''salt''"
    "argon2 demo_lib LegacyDefaultPassphrase ''pepper'' \<noteq> argon2 demo_lib (vpass v) ''salt''"
    by (simp_all add: a(6) demo_lib_def LegacyDefaultPassphrase_def)
  note i = rekey_interrupted [OF a(2,4) vault_demo_laws(2) a(7) diff(1) _ m demo_env(3,4) ws, of "''f''"]
  have "\<forall>p. length ((\<lambda>p::string. demo_nonce) p) = gcm_nonce" by (simp add: demo_env(3))
  note i = i [OF this]
  have "vault_view demo_lib v (fold apply_write (take 1 ws) d) ''/env'' = None" using i a(5) by auto
  moreover have "fst (v_Open demo_lib ''f'' ''old'' (fold apply_write (butlast ws) d)) \<in> {NoPassphrase, WrongPassphrase}"
    using i diff by blast
  then have "fst (v_Open demo_lib ''f'' ''old'' (fold apply_write (butlast ws) d)) = WrongPassphrase"
    by (auto simp: v_Open_def split: option.splits prod.splits)
  moreover have "vault_view demo_lib v d ''/env'' = Some ''s3cret''" by (simp add: a(3))
  ultimately show ?thesis using a(1) ws by blast
qed

end
