(* ===== verification/Pairings.thy ===== *)
theory Pairings
  imports Vault GoPath
begin

text \<open>
  The pairings a controller remembers, of \<open>internal/vault/session.go\<close>: one JSON file per session
  in the directory \<open>sessions\<close> of the vault. The files of the host are a map from cleaned paths to
  contents; a directory lists what lies directly under its path, sorted by name, and is missing
  exactly when nothing does. Paths are written with slashes. Writing succeeds.
\<close>

record SessionRecord =
  SessionID :: string
  SignalingURL :: string
  ControllerToken :: string
  PairedAt :: int
  LastSeen :: int

type_synonym files = "(string, bytes) gomap"

definition sessions_dir :: "string \<Rightarrow> string" where
  "sessions_dir vdir = path_join [vdir, ''sessions'']"

definition session_file :: "string \<Rightarrow> string \<Rightarrow> string" where
  "session_file vdir i = path_join [vdir, ''sessions'', i @ ''.json'']"

definition session_json :: "vault_lib \<Rightarrow> SessionRecord \<Rightarrow> json" where
  "session_json lib r =
     JObj ([(''session_id'', JStr (SessionID r)), (''signaling_url'', JStr (SignalingURL r))] @
           (if ControllerToken r = [] then [] else [(''controller_token'', JStr (ControllerToken r))]) @
           [(''paired_at'', JStr (time_text lib (PairedAt r))), (''last_seen'', JStr (time_text lib (LastSeen r)))])"

definition get_time :: "vault_lib \<Rightarrow> string \<Rightarrow> json \<Rightarrow> int" where
  "get_time lib name j =
     foldl (\<lambda>a v. case v of JStr s \<Rightarrow> the (time_read lib s) | _ \<Rightarrow> a) (time_zero lib) (field_vals name j)"

definition session_of_json :: "vault_lib \<Rightarrow> json \<Rightarrow> SessionRecord option" where
  "session_of_json lib j =
     (if obj_ok j \<and> str_ok ''session_id'' j \<and> str_ok ''signaling_url'' j \<and> str_ok ''controller_token'' j \<and>
         list_all (time_ok lib) (field_vals ''paired_at'' j) \<and> list_all (time_ok lib) (field_vals ''last_seen'' j)
      then Some \<lparr>SessionID = get_str ''session_id'' j, SignalingURL = get_str ''signaling_url'' j,
                 ControllerToken = get_str ''controller_token'' j,
                 PairedAt = get_time lib ''paired_at'' j, LastSeen = get_time lib ''last_seen'' j\<rparr>
      else None)"

definition SaveSession :: "vault_lib \<Rightarrow> string \<Rightarrow> SessionRecord \<Rightarrow> files \<Rightarrow> files" where
  "SaveSession lib vdir r fs = AList.update (session_file vdir (SessionID r)) (marshal_indent (session_json lib r)) fs"

definition LoadSession :: "vault_lib \<Rightarrow> string \<Rightarrow> string \<Rightarrow> files \<Rightarrow> SessionRecord option" where
  "LoadSession lib vdir i fs =
     (case map_of fs (session_file vdir i) of
        None \<Rightarrow> None
      | Some b \<Rightarrow> (case parse_json b of None \<Rightarrow> None | Some j \<Rightarrow> session_of_json lib j))"

text \<open>\<open>os.ReadDir\<close> without the directories among the entries, and a name without its extension.\<close>

definition dir_files :: "string \<Rightarrow> files \<Rightarrow> string list" where
  "dir_files dir fs =
     sort (filter (\<lambda>n. n \<noteq> [] \<and> slash \<notin> set n)
             (map (\<lambda>p. drop (Suc (length dir)) p) (filter (\<lambda>p. has_prefix p (dir @ [slash])) (keys fs))))"

definition file_ext :: "string \<Rightarrow> string" where
  "file_ext n = (if CHR ''.'' \<in> set n then CHR ''.'' # rev (takeWhile (\<lambda>c. c \<noteq> CHR ''.'') (rev n)) else [])"

definition ListSessions :: "vault_lib \<Rightarrow> string \<Rightarrow> files \<Rightarrow> SessionRecord list" where
  "ListSessions lib vdir fs =
     sort_key SessionID
       (List.map_filter (\<lambda>n. LoadSession lib vdir (take (length n - length (file_ext n)) n) fs)
          (dir_files (sessions_dir vdir) fs))"

section \<open>Where the files are\<close>

lemma path_clean_snoc:
  assumes "p \<noteq> []" and "plain_comp c" and "clean_comps (hd p = slash) (split_on slash p) \<noteq> []"
  shows "path_clean (p @ slash # c) = path_clean p @ slash # c"
proof -
  have c: "slash \<notin> set c" using assms(2) by (simp add: plain_comp_def)
  let ?cs = "clean_comps (hd p = slash) (split_on slash p)"
  have j: "join_on slash ?cs \<noteq> []"
  proof
    assume "join_on slash ?cs = []"
    then have "?cs = [[]]" using assms(3) by (cases ?cs) (auto simp: join_on_Cons split: if_splits)
    then show False using clean_comps_no_slash [of "[]" "hd p = slash" p] by simp
  qed
  have "clean_comps (hd p = slash) (split_on slash (p @ slash # c)) = ?cs @ [c]"
    using assms(2) c by (simp add: split_on_last clean_comps_snoc)
  then show ?thesis using assms j by (cases "hd p = slash") (simp_all add: path_clean_def Let_def join_on_snoc)
qed

lemma session_file_name:
  assumes "plain_comp n"
  shows "path_join [vdir, ''sessions'', n] = sessions_dir vdir @ slash # n"
proof -
  let ?p = "if vdir = [] then ''sessions'' else vdir @ slash # ''sessions''"
  have s: "plain_comp ''sessions''" by code_simp
  then have sp: "split_on slash ''sessions'' = [''sessions'']" by (intro split_on_plain) (simp add: plain_comp_def)
  have ne: "n \<noteq> []" using assms by (simp add: plain_comp_def)
  have "split_on slash ?p = (if vdir = [] then [] else split_on slash vdir) @ [''sessions'']"
    using s sp by (simp add: split_on_last plain_comp_def)
  then have "clean_comps (hd ?p = slash) (split_on slash ?p) \<noteq> []"
    using clean_comps_snoc [OF s] by simp
  from path_clean_snoc [OF _ assms this] show ?thesis
    using ne by (cases "vdir = []") (simp_all add: path_join_def sessions_dir_def)
qed

definition id_ok :: "string \<Rightarrow> bool" where
  "id_ok i \<longleftrightarrow> slash \<notin> set i \<and> utf8_valid i"

lemma plain_json: "slash \<notin> set i \<Longrightarrow> plain_comp (i @ ''.json'')"
proof -
  have "i @ ''.json'' \<noteq> ''.''" "i @ ''.json'' \<noteq> ''..''"
    by (auto dest: arg_cong [where f = length])
  then show "slash \<notin> set i \<Longrightarrow> plain_comp (i @ ''.json'')" by (simp add: plain_comp_def)
qed

lemma session_file_eq: "slash \<notin> set i \<Longrightarrow> session_file vdir i = sessions_dir vdir @ slash # i @ ''.json''"
  using session_file_name [OF plain_json] by (simp add: session_file_def)

lemma file_ext_json: "file_ext (i @ ''.json'') = ''.json''"
  by (simp add: file_ext_def)

section \<open>Saved pairings are found again\<close>

lemma session_names [simp]:
  "fold_name ''session_id'' = ''SESSION_ID''" "fold_name ''signaling_url'' = ''SIGNALING_URL''"
  "fold_name ''controller_token'' = ''CONTROLLER_TOKEN''" "fold_name ''paired_at'' = ''PAIRED_AT''"
  "fold_name ''last_seen'' = ''LAST_SEEN''"
  by code_simp+

definition record_ok :: "SessionRecord \<Rightarrow> bool" where
  "record_ok r \<longleftrightarrow> id_ok (SessionID r) \<and> utf8_valid (SignalingURL r) \<and> utf8_valid (ControllerToken r)"

lemma session_read_back: "vault_laws lib \<Longrightarrow> session_of_json lib (session_json lib r) = Some r"
  by (cases "ControllerToken r = []")
     (simp_all add: session_of_json_def session_json_def field_vals_def members_def obj_ok_def str_ok_def get_str_def
       get_time_def time_ok_def vault_laws_def)

lemma clean_session_json: "vault_laws lib \<Longrightarrow> record_ok r \<Longrightarrow> clean (session_json lib r)"
  by (simp add: session_json_def record_ok_def id_ok_def vault_laws_def utf8_valid_ascii)

lemma load_saved:
  assumes "vault_laws lib" and "record_ok r" and "map_of fs (session_file vdir (SessionID r)) = Some (marshal_indent (session_json lib r))"
  shows "LoadSession lib vdir (SessionID r) fs = Some r"
  using assms reparse_indent [OF clean_session_json [OF assms(1,2)]] session_read_back [OF assms(1)]
  by (simp add: LoadSession_def)

definition save_all :: "vault_lib \<Rightarrow> string \<Rightarrow> SessionRecord list \<Rightarrow> files" where
  "save_all lib vdir rs = foldl (\<lambda>fs r. SaveSession lib vdir r fs) [] rs"

lemma update_fresh: "k \<notin> fst ` set m \<Longrightarrow> AList.update k v m = m @ [(k, v)]"
  by (induction m) auto

lemma map_filter_inverse: "(\<And>x. x \<in> set xs \<Longrightarrow> f (g x) = Some x) \<Longrightarrow> List.map_filter f (map g xs) = xs"
  by (induction xs) (simp_all add: List.map_filter_simps)

lemma save_all_files:
  assumes "list_all record_ok rs" and "distinct (map SessionID rs)"
  shows "save_all lib vdir rs = map (\<lambda>r. (session_file vdir (SessionID r), marshal_indent (session_json lib r))) rs"
  using assms
proof (induction rs rule: rev_induct)
  case (snoc r rs)
  have "session_file vdir (SessionID r) \<notin> set (keys (map (\<lambda>r. (session_file vdir (SessionID r), marshal_indent (session_json lib r))) rs))"
    using snoc.prems by (auto simp: session_file_eq record_ok_def id_ok_def list_all_iff)
  then show ?case using snoc by (simp add: save_all_def SaveSession_def update_fresh image_image)
qed (simp add: save_all_def)

lemma dir_files_saved:
  assumes "list_all record_ok rs" and "distinct (map SessionID rs)"
  shows "mset (dir_files (sessions_dir vdir) (save_all lib vdir rs)) = mset (map (\<lambda>r. SessionID r @ ''.json'') rs)"
proof -
  have "keys (save_all lib vdir rs) = map (\<lambda>r. sessions_dir vdir @ slash # SessionID r @ ''.json'') rs"
    using assms by (auto simp: save_all_files session_file_eq record_ok_def id_ok_def list_all_iff)
  then have "map (\<lambda>p. drop (Suc (length (sessions_dir vdir))) p)
        (filter (\<lambda>p. has_prefix p (sessions_dir vdir @ [slash])) (keys (save_all lib vdir rs))) =
      map (\<lambda>r. SessionID r @ ''.json'') rs"
    by (simp add: filter_map comp_def)
  moreover have "filter (\<lambda>n. n \<noteq> [] \<and> slash \<notin> set n) (map (\<lambda>r. SessionID r @ ''.json'') rs) = map (\<lambda>r. SessionID r @ ''.json'') rs"
    using assms(1) by (intro filter_True) (auto simp: record_ok_def id_ok_def list_all_iff)
  ultimately show ?thesis by (simp add: dir_files_def)
qed

text \<open>
  Pairings survive: after any records with different identifiers have been saved,
  \<open>LoadSession\<close> gives each of them back, field by field, and \<open>ListSessions\<close> gives exactly them,
  sorted by identifier.
\<close>

theorem sessions_roundtrip:
  assumes "vault_laws lib" and "list_all record_ok rs" and "distinct (map SessionID rs)"
  shows "ListSessions lib vdir (save_all lib vdir rs) = sort_key SessionID rs \<and>
    list_all (\<lambda>r. LoadSession lib vdir (SessionID r) (save_all lib vdir rs) = Some r) rs"
proof -
  let ?fs = "save_all lib vdir rs"
  have load: "LoadSession lib vdir (SessionID r) ?fs = Some r" if "r \<in> set rs" for r
  proof (rule load_saved [OF assms(1)])
    show "record_ok r" using assms(2) that by (simp add: list_all_iff)
    have "distinct (keys ?fs)"
      using assms(2,3) by (auto simp: save_all_files session_file_eq record_ok_def id_ok_def list_all_iff distinct_map inj_on_def)
    moreover have "(session_file vdir (SessionID r), marshal_indent (session_json lib r)) \<in> set ?fs"
      using that assms(2,3) by (simp add: save_all_files)
    ultimately show "map_of ?fs (session_file vdir (SessionID r)) = Some (marshal_indent (session_json lib r))"
      by (rule map_of_SomeI)
  qed
  let ?f = "\<lambda>n. LoadSession lib vdir (take (length n - length (file_ext n)) n) ?fs"
  have f: "?f (SessionID r @ ''.json'') = Some r" if "r \<in> set rs" for r
    using load [OF that] by (simp add: file_ext_json)
  have "mset (List.map_filter ?f ns) = image_mset (the \<circ> ?f) (filter_mset (\<lambda>n. ?f n \<noteq> None) (mset ns))" for ns
    by (simp add: List.map_filter_def mset_map [symmetric] mset_filter [symmetric] del: mset_map mset_filter)
  then have "mset (List.map_filter ?f (dir_files (sessions_dir vdir) ?fs)) =
      mset (List.map_filter ?f (map (\<lambda>r. SessionID r @ ''.json'') rs))"
    using dir_files_saved [OF assms(2,3), of vdir lib] by simp
  also have "List.map_filter ?f (map (\<lambda>r. SessionID r @ ''.json'') rs) = rs"
    by (rule map_filter_inverse) (rule f)
  finally have m: "mset (List.map_filter ?f (dir_files (sessions_dir vdir) ?fs)) = mset rs" .
  have "inj_on SessionID (set (List.map_filter ?f (dir_files (sessions_dir vdir) ?fs)))"
    using assms(3) mset_eq_setD [OF m] by (simp add: distinct_map)
  then have "sort_key SessionID (List.map_filter ?f (dir_files (sessions_dir vdir) ?fs)) = sort_key SessionID rs"
    using m by (intro sort_key_inj_key_eq) simp_all
  then show ?thesis using load by (simp add: ListSessions_def list_all_iff)
qed

definition demo_pairing :: "string \<Rightarrow> SessionRecord" where
  "demo_pairing i = \<lparr>SessionID = i, SignalingURL = ''https://hub'', ControllerToken = [], PairedAt = 7, LastSeen = 9\<rparr>"

theorem sessions_roundtrip_witness:
  "map SessionID (ListSessions demo_lib ''/v'' (save_all demo_lib ''/v'' [demo_pairing ''b'', demo_pairing ''a''])) = [''a'', ''b''] \<and>
   LoadSession demo_lib ''/v'' ''b'' (save_all demo_lib ''/v'' [demo_pairing ''b'', demo_pairing ''a'']) = Some (demo_pairing ''b'')"
proof -
  have "list_all record_ok [demo_pairing ''b'', demo_pairing ''a'']" "distinct (map SessionID [demo_pairing ''b'', demo_pairing ''a''])"
    "map SessionID (sort_key SessionID [demo_pairing ''b'', demo_pairing ''a'']) = [''a'', ''b'']"
    by code_simp+
  then show ?thesis
    using sessions_roundtrip [OF vault_demo_laws(1), of "[demo_pairing ''b'', demo_pairing ''a'']" "''/v''"]
    by (simp add: demo_pairing_def)
qed

end
