(* ===== verification/Controller.thy ===== *)
theory Controller
  imports Endpoint WsConn Pairings
begin

text \<open>
  The controller's side of the control plane, \<open>cmd/valetfs/vault_ws.go\<close>: claiming a session,
  checking the protocol, pushing the vault. What is sent travels through the hub of \<open>Hub\<close> to the
  daemon of \<open>Endpoint\<close> and back, all of it one state, the record \<open>world\<close>. An exchange is the sending of
  one frame together with the frames that arrive before the caller's deadline; \<open>None\<close> is a send
  that failed. The identifier a request draws is a function of what is requested, the nonce of a
  sealed frame a function of its content. The presence frames the hub sends when the controller
  connects are left out: both ends ignore them.
\<close>

type_synonym 'r exchange = "bytes \<Rightarrow> 'r \<Rightarrow> 'r \<times> bytes list option"

datatype call_failure = SendFailed | TimedOut | Remote string

datatype ctl_error =
    CtlConnect hub_error | CtlNoVersion "int list" | CtlKeygen | CtlHandshake | CtlProtocol call_failure
  | CtlDowngrade "int list" "int list" | CtlUnread string | CtlPush string call_failure | CtlCall call_failure

definition Call :: "'r exchange \<Rightarrow> string \<Rightarrow> string \<Rightarrow> params \<Rightarrow> client \<times> 'r \<Rightarrow> (client \<times> 'r) \<times> (call_failure + message)" where
  "Call ex u meth ps st =
     (let (c1, n, frame) = call_begin (fst st) u meth ps
      in (case ex frame (snd st) of
            (r1, None) \<Rightarrow> ((call_abandon c1 u, r1), Inl SendFailed)
          | (r1, Some fs) \<Rightarrow>
              let c2 = foldl client_onData c1 fs
              in (case call_receive c2 n of
                    None \<Rightarrow> ((call_abandon c2 u, r1), Inl TimedOut)
                  | Some (c3, m) \<Rightarrow> ((c3, r1), case call_error meth m of Some e \<Rightarrow> Inl (Remote e) | None \<Rightarrow> Inr m))))"

section \<open>Versions\<close>

definition bump :: "int \<Rightarrow> (int, int) gomap \<Rightarrow> int \<Rightarrow> (int, int) gomap" where
  "bump d m v = AList.update v ((case map_of m v of None \<Rightarrow> 0 | Some n \<Rightarrow> n) + d) m"

definition sameVersions :: "int list \<Rightarrow> int list \<Rightarrow> bool" where
  "sameVersions a b =
     (length a = length b \<and> list_all (\<lambda>(v, n). n = 0) (foldl (bump (- 1)) (foldl (bump 1) [] a) b))"

definition reported_versions :: "env \<Rightarrow> message \<Rightarrow> int list option" where
  "reported_versions en m =
     (case lookup_last ''protocol_versions'' (Result m) of
        Some (JArr vs) \<Rightarrow> Some (List.map_filter (toFloat_int en) vs)
      | _ \<Rightarrow> None)"

definition verifyProtocol :: "'r exchange \<Rightarrow> env \<Rightarrow> string \<Rightarrow> int list \<Rightarrow> client \<times> 'r \<Rightarrow> (client \<times> 'r) \<times> ctl_error option" where
  "verifyProtocol ex en u hubVersions st =
     (case Call ex u MethodStatus [] st of
        (st1, Inl e) \<Rightarrow> (st1, Some (CtlProtocol e))
      | (st1, Inr m) \<Rightarrow>
          (st1,
           case reported_versions en m of
             None \<Rightarrow> None
           | Some actual \<Rightarrow>
               if hubVersions \<noteq> [] \<and> \<not> sameVersions hubVersions actual then Some (CtlDowngrade hubVersions actual)
               else if Negotiate actual 0 = 0 then Some (CtlNoVersion actual) else None))"

section \<open>The network between controller and daemon\<close>

text \<open>\<open>w_seen\<close> collects the frames the hub received from the controller.\<close>

record ('hs, 'cs) world =
  w_site :: site
  w_ep :: "('hs, 'cs) endpoint"
  w_dnum :: nat
  w_seen :: "bytes list"

record ('hs, 'cs) outer =
  k_net :: net_lib
  k_sha :: "bytes \<Rightarrow> bytes"
  k_insecure :: bool
  k_cr :: v1_crypto
  k_nz :: "('hs, 'cs) noise"
  k_en :: env
  k_ou :: outside
  k_now :: time
  k_rnd :: bytes
  k_nonce :: "bytes \<Rightarrow> bytes"

definition through_hub :: "('hs, 'cs) outer \<Rightarrow> nat \<Rightarrow> bytes \<Rightarrow> ('hs, 'cs) world \<Rightarrow> ('hs, 'cs) world \<times> bytes list" where
  "through_hub k c f w =
     (let h = s_hub (w_site w); w1 = w\<lparr>w_seen := w_seen w @ [f]\<rparr>
      in (case ws_frame c f h of
            [(d, g)] \<Rightarrow>
              if d = c then (w1, [g])
              else if d = w_dnum w then
                (case endpoint_frame (k_cr k) (k_nz k) (k_en k) (k_ou k) (k_now k) (k_rnd k) (k_nonce k g) (w_ep w) g of
                   (ep, outs) \<Rightarrow> (w1\<lparr>w_ep := ep\<rparr>, concat (map (\<lambda>x. map snd (filter (\<lambda>(p, _). p = c) (ws_frame d x h))) outs)))
              else (w1, [])
          | _ \<Rightarrow> (w1, [])))"

datatype ctl_link = Sealed nat v1_conn | Clear nat

fun link_exchange :: "('hs, 'cs) outer \<Rightarrow> ctl_link \<Rightarrow> ('hs, 'cs) world exchange" where
  "link_exchange k (Clear c) b w = (case through_hub k c b w of (w1, fs) \<Rightarrow> (w1, Some fs))"
| "link_exchange k (Sealed c cc) b w =
     (case v1_Send (k_cr k) cc (k_nonce k b) b of
        None \<Rightarrow> (w, None)
      | Some f \<Rightarrow> (case through_hub k c f w of (w1, fs) \<Rightarrow> (w1, Some (List.map_filter (\<lambda>x. snd (v1_handle (k_cr k) cc x)) fs))))"

section \<open>The commands\<close>

text \<open>\<open>ec.Start\<close>: the hello goes out, and whatever comes back is no response to a call.\<close>

definition link_start :: "('hs, 'cs) outer \<Rightarrow> ctl_link \<Rightarrow> ('hs, 'cs) world \<Rightarrow> ('hs, 'cs) world" where
  "link_start k l w =
     (case l of
        Clear c \<Rightarrow> w
      | Sealed c cc \<Rightarrow> (case v1_Start cc of None \<Rightarrow> w | Some f \<Rightarrow> fst (through_hub k c f w)))"

definition vaultWSDial ::
  "('hs, 'cs) outer \<Rightarrow> (string \<Rightarrow> string) \<Rightarrow> bytes \<Rightarrow> bytes \<Rightarrow> nat \<Rightarrow> string \<Rightarrow> string \<Rightarrow> string \<Rightarrow> ('hs, 'cs) world \<Rightarrow>
     ('hs, 'cs) world \<times> (ctl_error + ctl_link \<times> client)" where
  "vaultWSDial k uu vtok priv c signaling sessID secret w =
     (case DialController (k_net k) (k_sha k) (k_insecure k) vtok c signaling sessID secret (w_site w) of
        (s1, Inl e) \<Rightarrow> (w\<lparr>w_site := s1\<rparr>, Inl (CtlConnect e))
      | (s1, Inr (ref, daemonPub, hubVersions)) \<Rightarrow>
          let w1 = w\<lparr>w_site := s1\<rparr>
          in if hubVersions \<noteq> [] \<and> Negotiate hubVersions 0 = 0 then (w1, Inl (CtlNoVersion hubVersions))
             else if daemonPub \<noteq> [] then
               (case Generate (k_cr k) priv of
                  None \<Rightarrow> (w1, Inl CtlKeygen)
                | Some pr \<Rightarrow>
                    (case WrapController (k_cr k) pr daemonPub of
                       None \<Rightarrow> (w1, Inl CtlHandshake)
                     | Some cc \<Rightarrow>
                         let l = Sealed (c_num ref) cc
                         in (case verifyProtocol (link_exchange k l) (k_en k) (uu MethodStatus) hubVersions (NewClient, link_start k l w1) of
                               ((cl, w2), Some e) \<Rightarrow> (w2, Inl e)
                             | ((cl, w2), None) \<Rightarrow> (w2, Inr (l, cl)))))
             else (w1, Inr (Clear (c_num ref), NewClient)))"

fun push_entries ::
  "'r exchange \<Rightarrow> vault_lib \<Rightarrow> bytes \<Rightarrow> (string \<Rightarrow> string) \<Rightarrow> vault \<Rightarrow> ventry list \<Rightarrow> client \<times> 'r \<Rightarrow> vdisk \<Rightarrow>
     (client \<times> 'r) \<times> vdisk \<times> ctl_error option" where
  "push_entries ex lib fresh uu v [] st d = (st, d, None)"
| "push_entries ex lib fresh uu v (e # es) st d =
     (case v_Read lib fresh (vpath e) v d of
        (None, d1) \<Rightarrow> (st, d1, Some (CtlUnread (vpath e)))
      | (Some b, d1) \<Rightarrow>
          (case Call ex (uu (vpath e)) MethodWrite (push_params (vpath e) b) st of
             (st1, Inl err) \<Rightarrow> (st1, d1, Some (CtlPush (vpath e) err))
           | (st1, Inr _) \<Rightarrow> push_entries ex lib fresh uu v es st1 d1))"

definition vaultWSPushAll ::
  "'r exchange \<Rightarrow> vault_lib \<Rightarrow> bytes \<Rightarrow> (string \<Rightarrow> string) \<Rightarrow> vault \<Rightarrow> client \<times> 'r \<Rightarrow> vdisk \<Rightarrow> (client \<times> 'r) \<times> vdisk \<times> ctl_error option" where
  "vaultWSPushAll ex lib fresh uu v st d = push_entries ex lib fresh uu v (v_List ''/'' v) st d"

text \<open>\<open>vaultWSSync\<close>, and \<open>vaultWSPair\<close>, which also records the pairing.\<close>

definition vaultWSSync ::
  "('hs, 'cs) outer \<Rightarrow> vault_lib \<Rightarrow> bytes \<Rightarrow> (string \<Rightarrow> string) \<Rightarrow> bytes \<Rightarrow> bytes \<Rightarrow> nat \<Rightarrow> vault \<Rightarrow> string \<Rightarrow> string \<Rightarrow> string \<Rightarrow>
     ('hs, 'cs) world \<Rightarrow> vdisk \<Rightarrow> ('hs, 'cs) world \<times> vdisk \<times> ctl_error option" where
  "vaultWSSync k lib fresh uu vtok priv c v signaling sessID secret w d =
     (case vaultWSDial k uu vtok priv c signaling sessID secret w of
        (w1, Inl e) \<Rightarrow> (w1, d, Some e)
      | (w1, Inr (l, cl)) \<Rightarrow>
          (case vaultWSPushAll (link_exchange k l) lib fresh uu v (cl, w1) d of ((_, w2), d1, r) \<Rightarrow> (w2, d1, r)))"

definition vaultWSPair ::
  "('hs, 'cs) outer \<Rightarrow> vault_lib \<Rightarrow> bytes \<Rightarrow> (string \<Rightarrow> string) \<Rightarrow> bytes \<Rightarrow> bytes \<Rightarrow> nat \<Rightarrow> int \<Rightarrow> vault \<Rightarrow> string \<Rightarrow> string \<Rightarrow> string \<Rightarrow> string \<Rightarrow>
     ('hs, 'cs) world \<Rightarrow> vdisk \<Rightarrow> files \<Rightarrow> ('hs, 'cs) world \<times> vdisk \<times> files \<times> ctl_error option" where
  "vaultWSPair k lib fresh uu vtok priv c now v vdir signaling sessID secret w d fs =
     (case vaultWSSync k lib fresh uu vtok priv c v signaling sessID secret w d of
        (w1, d1, Some e) \<Rightarrow> (w1, d1, fs, Some e)
      | (w1, d1, None) \<Rightarrow>
          (w1, d1, SaveSession lib vdir \<lparr>SessionID = sessID, SignalingURL = signaling, ControllerToken = [], PairedAt = now, LastSeen = now\<rparr> fs, None))"

text \<open>\<open>vaultWSStatus\<close> and \<open>vaultWSSimple\<close>: one request without parameters, and its result.\<close>

definition vaultWSOne ::
  "('hs, 'cs) outer \<Rightarrow> (string \<Rightarrow> string) \<Rightarrow> bytes \<Rightarrow> bytes \<Rightarrow> nat \<Rightarrow> string \<Rightarrow> string \<Rightarrow> string \<Rightarrow> string \<Rightarrow>
     ('hs, 'cs) world \<Rightarrow> ('hs, 'cs) world \<times> (ctl_error + params)" where
  "vaultWSOne k uu vtok priv c meth signaling sessID secret w =
     (case vaultWSDial k uu vtok priv c signaling sessID secret w of
        (w1, Inl e) \<Rightarrow> (w1, Inl e)
      | (w1, Inr (l, cl)) \<Rightarrow>
          (case Call (link_exchange k l) (uu (''call '' @ meth)) meth [] (cl, w1) of
             ((_, w2), Inl e) \<Rightarrow> (w2, Inl (CtlCall e))
           | ((_, w2), Inr m) \<Rightarrow> (w2, Inr (Result m))))"

definition vaultWSStatus ::
  "('hs, 'cs) outer \<Rightarrow> (string \<Rightarrow> string) \<Rightarrow> bytes \<Rightarrow> bytes \<Rightarrow> nat \<Rightarrow> string \<Rightarrow> string \<Rightarrow> string \<Rightarrow>
     ('hs, 'cs) world \<Rightarrow> ('hs, 'cs) world \<times> (ctl_error + params)" where
  "vaultWSStatus k uu vtok priv c = vaultWSOne k uu vtok priv c MethodStatus"

definition vaultWSSimple ::
  "('hs, 'cs) outer \<Rightarrow> (string \<Rightarrow> string) \<Rightarrow> bytes \<Rightarrow> bytes \<Rightarrow> nat \<Rightarrow> string \<Rightarrow> string \<Rightarrow> string \<Rightarrow> string \<Rightarrow>
     ('hs, 'cs) world \<Rightarrow> ('hs, 'cs) world \<times> ctl_error option" where
  "vaultWSSimple k uu vtok priv c signaling sessID meth secret w =
     (case vaultWSOne k uu vtok priv c meth signaling sessID secret w of (w1, Inl e) \<Rightarrow> (w1, Some e) | (w1, Inr _) \<Rightarrow> (w1, None))"

section \<open>Comparing version lists\<close>

lemma map_of_bump: "map_of (bump d m v) w = (if w = v then Some ((case map_of m v of None \<Rightarrow> 0 | Some n \<Rightarrow> n) + d) else map_of m w)"
  by (simp add: bump_def)

lemma distinct_bump: "distinct (keys m) \<Longrightarrow> distinct (keys (bump d m v))"
  by (simp add: bump_def distinct_keys_update)

definition tally :: "(int, int) gomap \<Rightarrow> int \<Rightarrow> int" where
  "tally m v = (case map_of m v of None \<Rightarrow> 0 | Some n \<Rightarrow> n)"

lemma tally_bumps: "tally (foldl (bump d) m vs) v = tally m v + d * int (count (mset vs) v)"
  by (induction vs arbitrary: m) (auto simp: tally_def map_of_bump algebra_simps)

lemma distinct_bumps: "distinct (keys m) \<Longrightarrow> distinct (keys (foldl (bump d) m vs))"
  by (induction vs arbitrary: m) (simp_all add: distinct_bump)

text \<open>
  C34: \<open>sameVersions\<close>, which counts up over one list and down over the other, decides exactly
  whether the two lists have the same elements with the same multiplicities.
\<close>

theorem sameVersions_multiset: "sameVersions a b \<longleftrightarrow> mset a = mset b"
proof -
  let ?m = "foldl (bump (- 1)) (foldl (bump 1) [] a) b"
  have t: "tally ?m v = int (count (mset a) v) - int (count (mset b) v)" for v
    by (simp add: tally_bumps) (simp add: tally_def)
  define z where "z = ?m"
  have "distinct (keys z)" by (simp add: z_def distinct_bumps)
  then have "list_all (\<lambda>(v, n). n = 0) z \<longleftrightarrow> (\<forall>v n. map_of z v = Some n \<longrightarrow> n = 0)"
    by (auto simp: list_all_iff map_of_eq_Some_iff)
  also have "\<dots> \<longleftrightarrow> (\<forall>v. tally z v = 0)" by (simp add: tally_def split: option.split)
  finally have "list_all (\<lambda>(v, n). n = 0) ?m \<longleftrightarrow> (\<forall>v. tally ?m v = 0)" by (simp only: z_def)
  also have "\<dots> \<longleftrightarrow> mset a = mset b" by (simp add: t multiset_eq_iff)
  finally show ?thesis by (auto simp: sameVersions_def dest: mset_eq_length)
qed


section \<open>Calls over a link\<close>

text \<open>
  What a command relies on in its link: a frame it sends is handled by the daemon's node, and
  the node's answer comes back. The laws hold in the states \<open>linv\<close>, which exchanges keep.
\<close>

locale control_link =
  fixes ex :: "'r exchange"
    and en :: env
    and ou :: outside
    and now :: time
    and node_of :: "'r \<Rightarrow> daemon memory_node"
    and linv :: "'r \<Rightarrow> bool"
  assumes link_fs: "linv r \<Longrightarrow> fs_inv (dfs (host (node_of r)))"
    and exchanged: "linv r \<Longrightarrow> \<exists>r'. linv r' \<and> node_of r' = fst (serve_frame en ou now (node_of r) b) \<and>
      ex b r = (r', Some (case snd (serve_frame en ou now (node_of r) b) of None \<Rightarrow> [] | Some x \<Rightarrow> [x]))"
begin

lemma call_served:
  assumes c: "client_inv c" and r: "linv r" and u: "utf8_valid u" and ps: "sendable ps"
  shows "\<exists>c' r' reply m. client_inv c' \<and> linv r' \<and>
    serve_frame en ou now (node_of r) (Encode (NewRequest u meth ps)) = (node_of r', Some reply) \<and> Decode reply = (m, True) \<and>
    Call ex u meth ps (c, r) = ((c', r'), if OK m then Inr m else Inl (Remote (''rpc '' @ meth @ '' failed: '' @ Err m)))"
proof -
  let ?f = "Encode (NewRequest u meth ps)"
  have n: "fs_inv (dfs (host (cancelGrace (node_of r))))" using link_fs [OF r] by (simp add: cancelGrace_def)
  obtain reply m where a: "snd (Dispatch (quote en) (register en (serve_config ou now) now) ?f (cancelGrace (node_of r))) = Some reply"
    "Decode reply = (m, True)" "Type m = TypeRes" "ID m = ID (request_as_read u meth ps)"
    by (rule served.svc.dispatch_answers [OF serve_request(2) [OF ps] _ n]) simp_all
  have i: "ID m = u" using a(4) u by (simp add: to_valid_id)
  obtain r' where r': "linv r'" "node_of r' = fst (serve_frame en ou now (node_of r) ?f)" "ex ?f r = (r', Some [reply])"
    using exchanged [OF r, of ?f] a(1) serve_request(1) [OF ps, of en ou now "node_of r" u meth] by auto
  let ?n = "next_chan c"
  define c1 where "c1 = fst (call_begin c u meth ps)"
  have b: "call_begin c u meth ps = (c1, ?n, ?f)" "map_of (pending c1) u = Some ?n" "chans c1 = chans c"
    by (simp_all add: c1_def call_begin_def Let_def)
  have empty: "chans c ?n = []" using c by (auto simp: client_inv_def chan_ok_def)
  let ?c2 = "client_onData c1 reply"
  have c2: "chans ?c2 ?n = [m]" using a(2,3) i b(2,3) empty by (simp add: client_onData_def Let_def)
  have inv2: "client_inv ?c2" unfolding c1_def by (rule client_inv_data [OF client_inv_begin [OF c]])
  obtain c3 where c3: "call_receive ?c2 ?n = Some (c3, m)" using c2 by (simp add: call_receive_def)
  have "client_inv c3" by (rule client_inv_receive [OF inv2 c3])
  moreover have "Call ex u meth ps (c, r) = ((c3, r'), if OK m then Inr m else Inl (Remote (''rpc '' @ meth @ '' failed: '' @ Err m)))"
    using b(1) r'(3) c3 by (simp add: Call_def call_error_def)
  moreover have "serve_frame en ou now (node_of r) ?f = (node_of r', Some reply)"
    using r'(2) a(1) serve_request(1) [OF ps, of en ou now "node_of r" u meth] by (simp add: prod_eq_iff)
  ultimately show ?thesis using r'(1) a(2) by blast
qed

end

lemma mkdir_no_file:
  "isDir cur \<Longrightarrow> mkdir_all_node now md parts cur = (r, None) \<Longrightarrow> prefix qs parts \<Longrightarrow> view cur qs \<noteq> Some (EFile b)"
proof (induction parts arbitrary: cur r qs)
  case (Cons p ps)
  show ?case
  proof (cases qs)
    case (Cons q qs')
    then show ?thesis
      using Cons.prems Cons.IH by (cases "map_of (children cur) p") (auto simp: Let_def case_prod_unfold prod_eq_iff split: if_splits)
  qed (use Cons.prems in simp)
qed simp

lemma file_body_MkdirAll:
  assumes "fs_inv m"
  shows "file_body (fst (MkdirAll now m p mode)) = file_body m"
proof (cases "snd (MkdirAll now m p mode)")
  case (Some e)
  then have "MkdirAll now m p mode = (fst (MkdirAll now m p mode), Some e)" by (simp add: prod_eq_iff)
  then show ?thesis using MkdirAll_err by metis
next
  case None
  then have ok: "MkdirAll now m p mode = (fst (MkdirAll now m p mode), None)" by (simp add: prod_eq_iff)
  then obtain parts where v: "normalize_fs p = Inr parts"
    "fs_view (fst (MkdirAll now m p mode)) = (\<lambda>qs. if prefix qs parts then Some EDir else fs_view m qs)"
    using MkdirAll_view [OF assms] by blast
  have "fs_view m qs \<noteq> Some (EFile b)" if "prefix qs parts" for qs b
    using that assms None v(1) mkdir_no_file [of "root m" now mode parts _ qs b]
    by (auto simp: MkdirAll_def fs_view_def fs_inv_def split: prod.splits option.splits)
  then show ?thesis by (intro ext) (auto simp: file_body_def v(2) split: option.split entry.split)
qed

lemma write_file_body:
  assumes "fs_inv m" and "write_file now p data m = (m', None)"
  shows "\<exists>ps. resolve_fs p = Some ps \<and> file_body m' = (file_body m)(ps \<mapsto> data)"
proof -
  let ?m = "if path_dir p \<noteq> [] \<and> path_dir p \<noteq> ''/'' then fst (MkdirAll now m (path_dir p) 0x1ED) else m"
  have "fs_inv ?m" "file_body ?m = file_body m" using assms(1) by (auto intro: fs_inv_MkdirAll simp: file_body_MkdirAll)
  moreover have "Write now ?m p data 0x180 = (m', None)" using assms(2) by (simp add: write_file_def Let_def)
  ultimately show ?thesis using mem.wr_ok [of ?m now p data "0x180" m'] by auto
qed


text \<open>What an accepted push does to the files of the node.\<close>

lemma push_body:
  assumes n: "fs_inv (dfs (host n))" and p: "utf8_valid p"
    and push: "serve_frame en ou now n (Encode (NewRequest u MethodWrite (push_params p data))) = (n1, Some reply)"
    and ok: "OK (fst (Decode reply))"
  shows "\<exists>ps. resolve_fs p = Some ps \<and> file_body (dfs (host n1)) = (file_body (dfs (host n)))(ps \<mapsto> data)"
proof -
  let ?req = "request_as_read u MethodWrite (push_params p data)"
  have w: "wire_map (push_params p data)" using push_params_wire p .
  have ps: "Params ?req = push_params p data" using received_wire [OF w] by simp
  have content: "decodeContent en (Params ?req) = Inr data" "str_param ''path'' ?req = p"
    using ps by (simp_all add: decodeContent_def str_param_def push_params_def lookup_last_def)
  obtain n' out where h: "handle_write en (serve_config ou now) now ?req (cancelGrace n) = (n', out)" by fastforce
  have "serve_frame en ou now n (Encode (NewRequest u MethodWrite (push_params p data))) =
      (case out of
         Inl e \<Rightarrow> (n', Some (Encode (Reply ?req False [] (Some e))))
       | Inr res \<Rightarrow> (n', Some (Encode (Reply ?req True res None))))"
    using serve_dispatch [OF sendable_wire [OF w], of en ou now MethodWrite] h by (simp add: register_lookup)
  with push ok obtain res where out: "out = Inr res" "n1 = n'"
    using Decode_Reply [OF utf8_valid_to_valid_id sendable_Nil] by (cases out) auto
  obtain m err where wf: "write_file now p data (dfs (host n)) = (m, err)" by (rule prod.exhaust)
  have "err = None \<and> dfs (host n1) = m"
    using h out content wf
    by (auto simp: handle_write_def Let_def run_cb_def serve_config_def node_fs_def cancelGrace_def split: if_splits option.splits)
  then show ?thesis using write_file_body [OF n] wf by auto
qed

definition entry_good :: "vault_lib \<Rightarrow> vault \<Rightarrow> vdisk \<Rightarrow> ventry \<Rightarrow> bool" where
  "entry_good lib v d e \<longleftrightarrow> utf8_valid (vpath e) \<and> (\<forall>fresh. v_Read lib fresh (vpath e) v d = (vault_view lib v d (vpath e), d))"

context control_link
begin

abbreviation body_of :: "'r \<Rightarrow> string list \<Rightarrow> bytes option" where
  "body_of r \<equiv> file_body (dfs (host (node_of r)))"

lemma push_one:
  assumes "client_inv c" and "linv r" and "utf8_valid u" and "utf8_valid p"
  obtains (refused) c' r' s where "Call ex u MethodWrite (push_params p b) (c, r) = ((c', r'), Inl (Remote s))" "client_inv c'" "linv r'"
    | (stored) c' r' m ps where "Call ex u MethodWrite (push_params p b) (c, r) = ((c', r'), Inr m)" "client_inv c'" "linv r'"
        "resolve_fs p = Some ps" "body_of r' = (body_of r)(ps \<mapsto> b)"
proof -
  have s: "sendable (push_params p b)" by (rule sendable_wire [OF push_params_wire [OF assms(4)]])
  obtain c' r' reply m where a: "client_inv c'" "linv r'"
    "serve_frame en ou now (node_of r) (Encode (NewRequest u MethodWrite (push_params p b))) = (node_of r', Some reply)" "Decode reply = (m, True)"
    "Call ex u MethodWrite (push_params p b) (c, r) = ((c', r'), if OK m then Inr m else Inl (Remote (''rpc '' @ MethodWrite @ '' failed: '' @ Err m)))"
    using call_served [OF assms(1-3) s, of MethodWrite] by auto
  show thesis
  proof (cases "OK m")
    case True
    then show ?thesis using push_body [OF link_fs [OF assms(2)] assms(4) a(3)] a by (auto intro: stored)
  next
    case False
    then show ?thesis using refused a by auto
  qed
qed

text \<open>
  Pushing stores the entries one after the other, stops at the first that the daemon refuses or
  that cannot be read, and never waits in vain.
\<close>

lemma push_entries_body:
  assumes uu: "\<And>x. utf8_valid (uu x)" and es: "\<forall>e \<in> set es. entry_good lib v d e" and c: "client_inv c" and r: "linv r"
  shows "\<exists>c' r' res. push_entries ex lib fresh uu v es (c, r) d = ((c', r'), d, res) \<and> linv r' \<and> client_inv c' \<and>
    (case res of
       Some err \<Rightarrow> (\<exists>e \<in> set es. err = CtlUnread (vpath e) \<and> vault_view lib v d (vpath e) = None) \<or> (\<exists>p s. err = CtlPush p (Remote s))
     | None \<Rightarrow> (\<forall>e \<in> set es. resolve_fs (vpath e) \<noteq> None \<and> vault_view lib v d (vpath e) \<noteq> None) \<and>
         body_of r' = foldl (\<lambda>m e. m(the (resolve_fs (vpath e)) := vault_view lib v d (vpath e))) (body_of r) es)"
  using es c r
proof (induction es arbitrary: c r)
  case (Cons e es)
  have rd: "v_Read lib fresh (vpath e) v d = (vault_view lib v d (vpath e), d)" and u8: "utf8_valid (vpath e)"
    using Cons.prems(1) by (simp_all add: entry_good_def)
  show ?case
  proof (cases "vault_view lib v d (vpath e)")
    case None
    then show ?thesis using rd Cons.prems by simp
  next
    case (Some b)
    from Cons.prems(2,3) uu [of "vpath e"] u8 show ?thesis
    proof (cases rule: push_one [where b = b])
      case (refused c' r' s)
      then show ?thesis using rd Some by simp
    next
      case (stored c' r' m ps)
      have es: "\<forall>e \<in> set es. entry_good lib v d e" using Cons.prems(1) by simp
      from Cons.IH [OF es stored(2,3)] obtain c2 r2 res where ih:
        "push_entries ex lib fresh uu v es (c', r') d = ((c2, r2), d, res)" "linv r2" "client_inv c2"
        "case res of Some err \<Rightarrow> (\<exists>e \<in> set es. err = CtlUnread (vpath e) \<and> vault_view lib v d (vpath e) = None) \<or> (\<exists>p s. err = CtlPush p (Remote s))
         | None \<Rightarrow> (\<forall>e \<in> set es. resolve_fs (vpath e) \<noteq> None \<and> vault_view lib v d (vpath e) \<noteq> None) \<and>
             body_of r2 = foldl (\<lambda>m e. m(the (resolve_fs (vpath e)) := vault_view lib v d (vpath e))) (body_of r') es"
        by blast
      have "push_entries ex lib fresh uu v (e # es) (c, r) d = ((c2, r2), d, res)" using rd Some stored(1) ih(1) by simp
      moreover have "body_of r' = (body_of r)(the (resolve_fs (vpath e)) := vault_view lib v d (vpath e))"
        using stored(4,5) Some by simp
      ultimately show ?thesis using ih(2-4) stored(4) Some by (cases res) auto
    qed
  qed
qed auto

end

section \<open>The sealed link\<close>

text \<open>The hub relays between the controller's connection and the daemon's.\<close>

definition relayed :: "hub \<Rightarrow> nat \<Rightarrow> nat \<Rightarrow> bool" where
  "relayed h c d \<longleftrightarrow> c \<noteq> d \<and> (\<forall>b. \<not> isSystemFrame b \<longrightarrow> ws_frame c b h = [(d, b)] \<and> ws_frame d b h = [(c, b)])"

definition crypto_ok :: "('hs, 'cs) outer \<Rightarrow> bool" where
  "crypto_ok k \<longleftrightarrow> crypto_laws (k_cr k) \<and> (\<forall>b. length (k_nonce k b) = nonceSize)"

text \<open>What the hub may see of the controller: its hello, and frames sealed under the session's key.\<close>

definition shown :: "('hs, 'cs) outer \<Rightarrow> bytes \<Rightarrow> bytes \<Rightarrow> bool" where
  "shown k key f \<longleftrightarrow>
     (\<exists>pub. f = str_frame [(''kx'', ''hello''), (''pub'', pub)]) \<or>
     (\<exists>b. f = str_frame [(''enc'', sess_seal (k_cr k) key (k_nonce k b) b)])"

definition sealed_ok :: "('hs, 'cs) outer \<Rightarrow> nat \<Rightarrow> v1_conn \<Rightarrow> ('hs, 'cs) world \<Rightarrow> bool" where
  "sealed_ok k c cc w \<longleftrightarrow>
     crypto_ok k \<and> relayed (s_hub (w_site w)) c (w_dnum w) \<and> fs_inv (dfs (host (nd (w_ep w)))) \<and>
     (\<exists>key dc. sess cc = Some key \<and> chosen (link (w_ep w)) = Some (LayerV1 dc) \<and> sess dc = Some key \<and> list_all (shown k key) (w_seen w))"

lemma str_frame_relayed: "\<forall>(k, v) \<in> set kvs. ascii k \<and> ascii v \<and> k \<noteq> ''sys'' \<Longrightarrow> \<not> isSystemFrame (str_frame kvs)"
  by (subst isSystemFrame_def, subst parse_str_frame) auto

lemma sealed_frame:
  assumes "crypto_laws cr" and "length nonce = nonceSize" and "sess cc = Some key"
  obtains f p where "v1_Send cr cc nonce b = Some f" "\<not> isSystemFrame f" "unmarshal_strs probe_fields f = Some p"
    "\<forall>dc. sess dc = Some key \<longrightarrow> v1_handle cr dc f = (dc, Some b)"
proof -
  let ?s = "sess_seal cr key nonce b" and ?f = "str_frame [(''enc'', sess_seal cr key nonce b)]"
  have s: "ascii ?s" "?s \<noteq> []" "sess_open cr key ?s = Some b"
    using assms(2) seal_open [OF assms(1,2)] by (auto simp: sess_seal_def nonceSize_def)
  have "v1_Send cr cc nonce b = Some ?f" using assms(3) by (simp add: v1_Send_def)
  moreover have "\<not> isSystemFrame ?f" by (rule str_frame_relayed) (use s in simp)
  moreover have "unmarshal_strs probe_fields ?f = Some (\<lambda>n. get_str n (JObj [(''enc'', JStr ?s)]))"
    using s by (subst unmarshal_str_frame) simp_all
  ultimately show thesis using that v1_deliver [OF _ s(3,1,2)] by blast
qed

lemma dual_v1_frame:
  assumes "chosen d = Some (LayerV1 dc)" and "unmarshal_strs probe_fields f = Some p" and "v1_handle cr dc f = (dc, Some b)"
  shows "dual_handle cr nz rnd d f = (d, Some b, None)"
proof -
  have "d\<lparr>chosen := Some (LayerV1 dc)\<rparr> = d" using assms(1) by (cases d) simp
  then show ?thesis using assms by (simp add: dual_handle_def feed_def)
qed

lemma sealed_exchange:
  assumes "sealed_ok k c cc w"
  shows "\<exists>w'. sealed_ok k c cc w' \<and> nd (w_ep w') = fst (serve_frame (k_en k) (k_ou k) (k_now k) (nd (w_ep w)) b) \<and>
    link_exchange k (Sealed c cc) b w =
      (w', Some (case snd (serve_frame (k_en k) (k_ou k) (k_now k) (nd (w_ep w)) b) of None \<Rightarrow> [] | Some x \<Rightarrow> [x]))"
proof -
  let ?h = "s_hub (w_site w)" and ?d = "w_dnum w"
  from assms obtain key dc where laws: "crypto_laws (k_cr k)" "\<And>b. length (k_nonce k b) = nonceSize"
    and hub: "c \<noteq> ?d" "\<And>b. \<not> isSystemFrame b \<Longrightarrow> ws_frame c b ?h = [(?d, b)]" "\<And>b. \<not> isSystemFrame b \<Longrightarrow> ws_frame ?d b ?h = [(c, b)]"
    and key: "sess cc = Some key" "chosen (link (w_ep w)) = Some (LayerV1 dc)" "sess dc = Some key" and seen: "list_all (shown k key) (w_seen w)"
    and fs: "fs_inv (dfs (host (nd (w_ep w))))"
    by (auto simp: sealed_ok_def crypto_ok_def relayed_def)
  obtain n out where sf: "serve_frame (k_en k) (k_ou k) (k_now k) (nd (w_ep w)) b = (n, out)" by (rule prod.exhaust)
  have n: "fs_inv (dfs (host n))" using served.node_onData_inv [OF fs] sf unfolding serve_frame_def by (metis fst_conv)
  obtain f p where f: "v1_Send (k_cr k) cc (k_nonce k b) b = Some f" "\<not> isSystemFrame f" "unmarshal_strs probe_fields f = Some p"
    "\<forall>dc. sess dc = Some key \<longrightarrow> v1_handle (k_cr k) dc f = (dc, Some b)"
    by (rule sealed_frame [where b = b and nonce = "k_nonce k b", OF laws key(1)])
  have h: "dual_handle (k_cr k) (k_nz k) rnd (link (w_ep w)) f = (link (w_ep w), Some b, None)" for rnd
    using dual_v1_frame [OF key(2) f(3)] f(4) key(3) by blast
  define w' where "w' = w\<lparr>w_seen := w_seen w @ [f], w_ep := (w_ep w)\<lparr>nd := n\<rparr>\<rparr>"
  have same: "(w_ep w)\<lparr>link := link (w_ep w), nd := n\<rparr> = (w_ep w)\<lparr>nd := n\<rparr>" by (cases "w_ep w") simp
  have ex: "link_exchange k (Sealed c cc) b w = (w', Some (case out of None \<Rightarrow> [] | Some x \<Rightarrow> [x]))"
  proof (cases out)
    case None
    then show ?thesis using f(1,2) h sf hub same by (simp add: through_hub_def endpoint_frame_def w'_def Let_def map_filter_simps)
  next
    case (Some x)
    obtain g p' where g: "v1_Send (k_cr k) dc (k_nonce k f) x = Some g" "\<not> isSystemFrame g" "unmarshal_strs probe_fields g = Some p'"
      "\<forall>cc. sess cc = Some key \<longrightarrow> v1_handle (k_cr k) cc g = (cc, Some x)"
      by (rule sealed_frame [where b = x and nonce = "k_nonce k f", OF laws key(3)])
    have "dual_Send (k_cr k) (k_nz k) (k_nonce k f) (link (w_ep w)) x = (link (w_ep w), Some g)"
      using key(2) g(1) by (simp add: dual_Send_def)
    then show ?thesis using Some f(1,2) g(2,4) key(1) h sf hub same
      by (simp add: through_hub_def endpoint_frame_def w'_def Let_def map_filter_simps)
  qed
  moreover have "shown k key f" using f(1) key(1) by (auto simp: shown_def v1_Send_def)
  then have "sealed_ok k c cc w'" using assms n key seen by (simp add: sealed_ok_def w'_def)
  ultimately show ?thesis using sf by (auto simp: w'_def intro!: exI [of _ w'])
qed

interpretation sealed: control_link "link_exchange k (Sealed c cc)" "k_en k" "k_ou k" "k_now k" "\<lambda>w. nd (w_ep w)" "sealed_ok k c cc"
  for k :: "('hs, 'cs) outer" and c :: nat and cc :: v1_conn
  by unfold_locales (simp add: sealed_ok_def, rule sealed_exchange)

text \<open>Where two entries name one file of the daemon, the later one in the order of the list stays.\<close>

definition last_entry :: "string list \<Rightarrow> ventry list \<Rightarrow> ventry option" where
  "last_entry q es = (case filter (\<lambda>e. resolve_fs (vpath e) = Some q) es of [] \<Rightarrow> None | xs \<Rightarrow> Some (last xs))"

lemma last_entry_snoc: "last_entry q (es @ [e]) = (if resolve_fs (vpath e) = Some q then Some e else last_entry q es)"
  by (cases "filter (\<lambda>e. resolve_fs (vpath e) = Some q) es") (simp_all add: last_entry_def)

lemma foldl_last_entry:
  "\<forall>e \<in> set es. resolve_fs (vpath e) \<noteq> None \<Longrightarrow>
     foldl (\<lambda>m e. m(the (resolve_fs (vpath e)) := g e)) m es q = (case last_entry q es of None \<Rightarrow> m q | Some e \<Rightarrow> g e)"
proof (induction es rule: rev_induct)
  case (snoc e es)
  then show ?case by (auto simp: last_entry_snoc)
qed (simp add: last_entry_def)

lemma set_v_List: "e \<in> set (v_List ''/'' v) \<Longrightarrow> \<exists>p. (p, e) \<in> set (mf v)"
  by (auto simp: v_List_def Let_def)

lemma vault_ok_entries:
  assumes "vault_ok lib v d" and "e \<in> set (v_List ''/'' v)"
  shows "entry_good lib v d e" "vault_view lib v d (vpath e) \<noteq> None"
proof -
  obtain p where "(p, e) \<in> set (mf v)" using set_v_List [OF assms(2)] ..
  then have "map_of (mf v) p = Some e" using assms(1) unfolding vault_ok_def by (blast intro: map_of_is_SomeI)
  then have p: "vpath e = p" "normalizeFSPath p = p" "utf8_valid p" "vault_view lib v d p \<noteq> None"
    using assms(1) unfolding vault_ok_def ventry_ok_def by blast+
  then show "entry_good lib v d e" "vault_view lib v d (vpath e) \<noteq> None" using v_Read_view [OF assms(1)] by (simp_all add: entry_good_def)
qed

context control_link
begin

text \<open>Pushing a sound vault: every entry arrives, or the daemon has refused one.\<close>

lemma push_vault:
  assumes "\<And>x. utf8_valid (uu x)" and v: "vault_ok lib v d" and "client_inv c" and "linv r"
  obtains (refused) c' r' p s where "vaultWSPushAll ex lib fresh uu v (c, r) d = ((c', r'), d, Some (CtlPush p (Remote s)))"
    "linv r'" "client_inv c'"
  | (stored) c' r' where "vaultWSPushAll ex lib fresh uu v (c, r) d = ((c', r'), d, None)" "linv r'" "client_inv c'"
    "\<And>q. body_of r' q = (case last_entry q (v_List ''/'' v) of None \<Rightarrow> body_of r q | Some e \<Rightarrow> vault_view lib v d (vpath e))"
proof -
  have es: "\<forall>e \<in> set (v_List ''/'' v). entry_good lib v d e" using vault_ok_entries(1) [OF v] by blast
  from push_entries_body [where fresh = fresh and uu = uu, OF assms(1) es assms(3,4)] obtain c' r' res where p:
    "push_entries ex lib fresh uu v (v_List ''/'' v) (c, r) d = ((c', r'), d, res)" "linv r'" "client_inv c'"
    "case res of Some err \<Rightarrow> (\<exists>e \<in> set (v_List ''/'' v). err = CtlUnread (vpath e) \<and> vault_view lib v d (vpath e) = None) \<or> (\<exists>p s. err = CtlPush p (Remote s))
     | None \<Rightarrow> (\<forall>e \<in> set (v_List ''/'' v). resolve_fs (vpath e) \<noteq> None \<and> vault_view lib v d (vpath e) \<noteq> None) \<and>
         body_of r' = foldl (\<lambda>m e. m(the (resolve_fs (vpath e)) := vault_view lib v d (vpath e))) (body_of r) (v_List ''/'' v)"
    by blast
  show thesis
  proof (cases res)
    case None
    then have "body_of r' q = (case last_entry q (v_List ''/'' v) of None \<Rightarrow> body_of r q | Some e \<Rightarrow> vault_view lib v d (vpath e))" for q
      using p(4) foldl_last_entry [of "v_List ''/'' v" "\<lambda>e. vault_view lib v d (vpath e)" "body_of r" q] by simp
    then show ?thesis using None stored p(1-3) by (simp add: vaultWSPushAll_def)
  next
    case (Some e)
    then show ?thesis using refused p vault_ok_entries(2) [OF v] by (auto simp: vaultWSPushAll_def)
  qed
qed

end

section \<open>The protocol check\<close>

lemma lookup_received:
  assumes "\<forall>k \<in> set (keys kvs). utf8_valid k"
  shows "lookup_last k (received kvs) = map_option coerce_json (lookup_last k kvs)"
proof -
  let ?ks = "sort (remdups (keys kvs))"
  have "received kvs = map (\<lambda>k. (k, coerce_json (the (lookup_last k kvs)))) ?ks"
    using assms by (simp add: received_def members_def jmap_def to_valid_id)
  then have "lookup_last k (received kvs) = ((Some \<circ> (\<lambda>k. coerce_json (the (lookup_last k kvs)))) |` set (keys kvs)) k"
    by (simp add: lookup_last_def rev_map map_of_map_restrict)
  moreover have "k \<notin> set (keys kvs) \<Longrightarrow> lookup_last k kvs = None" "k \<in> set (keys kvs) \<Longrightarrow> lookup_last k kvs \<noteq> None"
    by (auto simp: lookup_last_def map_of_eq_None_iff)
  ultimately show ?thesis by (cases "lookup_last k kvs") (auto simp: restrict_map_def)
qed

lemma status_reported:
  obtains res where "handle_status cfg now req n = (n, Inr res)"
    "lookup_last ''protocol_versions'' (received res) = Some (JArr (map int64_json Supported))"
proof -
  have "\<exists>res. handle_status cfg now req n = (n, Inr res)" by (cases "GraceState now n") (simp add: handle_status_def Let_def)
  then obtain res where res: "handle_status cfg now req n = (n, Inr res)" ..
  have k: "\<forall>k \<in> set (keys res). utf8_valid k"
    using res by (auto simp: handle_status_def Let_def utf8_valid_ascii split: prod.splits option.splits if_splits)
  have "lookup_last ''protocol_versions'' res = Some (JArr (map int64_json Supported))"
    using res by (auto simp: handle_status_def Let_def lookup_last_def split: prod.splits option.splits if_splits)
  then have "lookup_last ''protocol_versions'' (received res) = Some (JArr (map int64_json Supported))"
    unfolding lookup_received [OF k] by (simp add: int64_json_def)
  with res show thesis by (rule that)
qed

lemma negotiates: "Negotiate Supported 0 \<noteq> 0"
  by code_simp

lemma versions_read: "List.map_filter (toFloat_int en) (map int64_json Supported) = Supported"
  by code_simp

context control_link
begin

lemma verify_served:
  assumes "client_inv c" and "linv r" and "utf8_valid u"
  shows "\<exists>c' r'. verifyProtocol ex en u hv (c, r) =
      ((c', r'), if hv = [] \<or> mset hv = mset Supported then None else Some (CtlDowngrade hv Supported)) \<and>
    client_inv c' \<and> linv r' \<and> body_of r' = body_of r"
proof -
  obtain c' r' reply m where a: "client_inv c'" "linv r'"
    "serve_frame en ou now (node_of r) (Encode (NewRequest u MethodStatus [])) = (node_of r', Some reply)" "Decode reply = (m, True)"
    "Call ex u MethodStatus [] (c, r) = ((c', r'), if OK m then Inr m else Inl (Remote (''rpc '' @ MethodStatus @ '' failed: '' @ Err m)))"
    using call_served [OF assms sendable_Nil, of MethodStatus] by auto
  let ?req = "request_as_read u MethodStatus []"
  obtain res where res: "handle_status (serve_config ou now) now ?req (cancelGrace (node_of r)) = (cancelGrace (node_of r), Inr res)"
    "lookup_last ''protocol_versions'' (received res) = Some (JArr (map int64_json Supported))"
    by (rule status_reported)
  have l: "map_of (handlers (register en (serve_config ou now) now)) (to_upper (to_valid MethodStatus)) = Some (handle_status (serve_config ou now) now)"
    by (simp add: register_lookup)
  have s: "sendable res" using handlers_sendable [OF l] res(1) by (metis snd_conv)
  have "node_of r' = cancelGrace (node_of r)" "reply = Encode (Reply ?req True res None)"
    using a(3) serve_dispatch [OF sendable_Nil l, of "node_of r" u] res(1) by simp_all
  then have m: "OK m" "Result m = received res" "body_of r' = body_of r"
    using a(4) Decode_Reply [OF utf8_valid_to_valid_id s] by (auto simp: cancelGrace_def)
  have "reported_versions en m = Some Supported" using m(2) res(2) by (simp add: reported_versions_def versions_read)
  then show ?thesis using a(1,2,5) m negotiates by (auto simp: verifyProtocol_def sameVersions_multiset)
qed

end

section \<open>Establishing the link\<close>

text \<open>A dispatcher that will run, or runs, version 1 with the key pair.\<close>

definition v1_ready :: "KeyPair \<Rightarrow> ('hs, 'cs) dual \<Rightarrow> bool" where
  "v1_ready pair l \<longleftrightarrow> v1cfg l = pair \<and>
     (case chosen l of None \<Rightarrow> True | Some (LayerV1 dc) \<Rightarrow> kp dc = pair \<and> \<not> isController dc | Some (LayerV2 _) \<Rightarrow> False)"

lemma hello_keys:
  assumes cr: "crypto_laws cr" and d: "Generate cr dk = Some dkp" and c: "Generate cr ck = Some ckp"
  obtains key where "WrapController cr ckp (key_PubB64 dkp) = Some \<lparr>kp = ckp, isController = True, sess = Some key, rekeys = 0\<rparr>"
    "\<forall>dc. kp dc = dkp \<and> \<not> isController dc \<longrightarrow>
       (\<exists>dc'. v1_handle cr dc (str_frame [(''kx'', ''hello''), (''pub'', key_PubB64 ckp)]) = (dc', None) \<and> sess dc' = Some key)"
proof -
  obtain dp cp where k: "dkp = \<lparr>Priv = dk, Pub = dp\<rparr>" "ckp = \<lparr>Priv = ck, Pub = cp\<rparr>"
    "x25519 cr dk (basepoint cr) = Some dp" "x25519 cr ck (basepoint cr) = Some cp"
    using c d by (auto simp: Generate_def)
  have len: "length dp = 32" "length cp = 32" using crypto_laws_len [OF cr] k(3,4) by blast+
  obtain sh where sh: "x25519 cr ck dp = Some sh" "x25519 cr dk cp = Some sh"
    using crypto_laws_dh [OF cr k(3,4)] by auto
  let ?key = "hkdf cr sh hkdfInfo"
  have "WrapController cr ckp (key_PubB64 dkp) = Some \<lparr>kp = ckp, isController = True, sess = Some ?key, rekeys = 0\<rparr>"
    using len sh k decodePub_PubB64 [of dkp] by (simp add: WrapController_def deriveKey_def)
  moreover have "\<exists>dc'. v1_handle cr dc (str_frame [(''kx'', ''hello''), (''pub'', key_PubB64 ckp)]) = (dc', None) \<and> sess dc' = Some ?key"
    if "kp dc = dkp" "\<not> isController dc" for dc
  proof -
    have "sess (v1_hello cr dc (key_PubB64 ckp)) = Some ?key"
      using that len sh k decodePub_PubB64 [of ckp] by (simp add: v1_hello_def deriveKey_def)
    moreover have "Pub ckp \<noteq> []" using len k by auto
    ultimately show ?thesis using that(2) by (simp add: v1_handle_def v1_hello_frame get_str_def)
  qed
  ultimately show thesis using that by blast
qed

lemma hello_chooses:
  assumes "v1_ready pair l" and "unmarshal_strs probe_fields f = Some p" and "p ''nx'' = []" and "p ''kx'' = ''hello''"
    and h: "\<forall>dc. kp dc = pair \<and> \<not> isController dc \<longrightarrow> (\<exists>dc'. v1_handle cr dc f = (dc', None) \<and> sess dc' = Some key)"
  shows "\<exists>l' dc. dual_handle cr nz rnd l f = (l', None, None) \<and> chosen l' = Some (LayerV1 dc) \<and> sess dc = Some key"
proof (cases "chosen l")
  case None
  obtain dc' where "v1_handle cr (WrapDaemon pair) f = (dc', None)" "sess dc' = Some key"
    using h [rule_format, of "WrapDaemon pair"] by (auto simp: WrapDaemon_def)
  then show ?thesis
    using None assms(1-4) by (simp add: dual_handle_def dual_choose_def feed_def v1_ready_def)
next
  case (Some y)
  then obtain dc where dc: "y = LayerV1 dc" "kp dc = pair" "\<not> isController dc"
    using assms(1) by (cases y) (auto simp: v1_ready_def)
  then obtain dc' where "v1_handle cr dc f = (dc', None)" "sess dc' = Some key" using h by blast
  then show ?thesis using Some dc(1) assms(2) by (simp add: dual_handle_def feed_def)
qed

text \<open>The hello of the controller makes the two ends share a key.\<close>

lemma link_established:
  assumes k: "crypto_ok k" and d: "Generate (k_cr k) dk = Some dkp" and c: "Generate (k_cr k) ck = Some ckp"
    and hub: "relayed (s_hub (w_site w)) n (w_dnum w)" and ready: "v1_ready dkp (link (w_ep w))" and fs: "fs_inv (dfs (host (nd (w_ep w))))"
    and seen: "w_seen w = []"
  obtains cc where "WrapController (k_cr k) ckp (key_PubB64 dkp) = Some cc" "sealed_ok k n cc (link_start k (Sealed n cc) w)"
    "nd (w_ep (link_start k (Sealed n cc) w)) = nd (w_ep w)"
proof -
  let ?f = "str_frame [(''kx'', ''hello''), (''pub'', key_PubB64 ckp)]"
  have cr: "crypto_laws (k_cr k)" using k by (simp add: crypto_ok_def)
  obtain key where key: "WrapController (k_cr k) ckp (key_PubB64 dkp) = Some \<lparr>kp = ckp, isController = True, sess = Some key, rekeys = 0\<rparr>"
    "\<forall>dc. kp dc = dkp \<and> \<not> isController dc \<longrightarrow> (\<exists>dc'. v1_handle (k_cr k) dc ?f = (dc', None) \<and> sess dc' = Some key)"
    by (rule hello_keys [OF cr d c])
  define cc where "cc = \<lparr>kp = ckp, isController = True, sess = Some key, rekeys = 0\<rparr>"
  have start: "v1_Start cc = Some ?f" by (simp add: v1_Start_def cc_def)
  have "\<not> isSystemFrame ?f" by (rule str_frame_relayed) (simp add: key_PubB64_def)
  then have relay: "ws_frame n ?f (s_hub (w_site w)) = [(w_dnum w, ?f)]" "n \<noteq> w_dnum w" using hub by (simp_all add: relayed_def)
  obtain p where p: "unmarshal_strs probe_fields ?f = Some p" "p ''nx'' = []" "p ''kx'' = ''hello''"
    by (subst (asm) unmarshal_str_frame) (auto simp: key_PubB64_def get_str_def)
  obtain l' dc where l': "dual_handle (k_cr k) (k_nz k) (k_rnd k) (link (w_ep w)) ?f = (l', None, None)" "chosen l' = Some (LayerV1 dc)" "sess dc = Some key"
    using hello_chooses [OF ready p key(2)] by blast
  have w': "link_start k (Sealed n cc) w = w\<lparr>w_seen := [?f], w_ep := (w_ep w)\<lparr>link := l'\<rparr>\<rparr>"
    using start relay l'(1) seen by (simp add: link_start_def through_hub_def endpoint_frame_def Let_def)
  have "sealed_ok k n cc (link_start k (Sealed n cc) w)"
    unfolding w' using k hub fs l'(2,3) by (auto simp: sealed_ok_def cc_def shown_def)
  with key(1) show thesis using that w' by (simp add: cc_def)
qed

lemma client_inv_new: "client_inv NewClient"
  by (auto simp: client_inv_def NewClient_def chan_ok_def)

text \<open>Dialling a session whose daemon has published its key gives a sealed link to that daemon.\<close>

lemma vaultWSDial_sealed:
  assumes k: "crypto_ok k" and d: "Generate (k_cr k) dk = Some dkp" and c: "Generate (k_cr k) priv = Some ckp"
    and dial: "DialController (k_net k) (k_sha k) (k_insecure k) vtok c0 signaling i secret (w_site w) = (s2, Inr (ref, key_PubB64 dkp, hv))"
    and hub: "relayed (s_hub s2) (c_num ref) (w_dnum w)" and ready: "v1_ready dkp (link (w_ep w))"
    and fs: "fs_inv (dfs (host (nd (w_ep w))))" and seen: "w_seen w = []" and hv: "Negotiate hv 0 \<noteq> 0" and u: "utf8_valid (uu MethodStatus)"
  obtains cc cl w1 where "WrapController (k_cr k) ckp (key_PubB64 dkp) = Some cc" "sealed_ok k (c_num ref) cc w1" "client_inv cl"
    "file_body (dfs (host (nd (w_ep w1)))) = file_body (dfs (host (nd (w_ep w))))"
    "vaultWSDial k uu vtok priv c0 signaling i secret w =
       (w1, if hv = [] \<or> mset hv = mset Supported then Inr (Sealed (c_num ref) cc, cl) else Inl (CtlDowngrade hv Supported))"
proof -
  let ?w = "w\<lparr>w_site := s2\<rparr>"
  obtain cc where cc: "WrapController (k_cr k) ckp (key_PubB64 dkp) = Some cc" "sealed_ok k (c_num ref) cc (link_start k (Sealed (c_num ref) cc) ?w)"
    "nd (w_ep (link_start k (Sealed (c_num ref) cc) ?w)) = nd (w_ep ?w)"
    by (rule link_established [OF k d c, where w = ?w and n = "c_num ref"]) (use hub ready fs seen in simp_all)
  have "length (Pub dkp) = 32" using d k crypto_laws_len by (auto simp: Generate_def crypto_ok_def)
  then have pub: "key_PubB64 dkp \<noteq> []" by (auto simp: key_PubB64_def)
  from sealed.verify_served [OF client_inv_new cc(2) u, where hv = hv] obtain cl w1 where v:
    "verifyProtocol (link_exchange k (Sealed (c_num ref) cc)) (k_en k) (uu MethodStatus) hv (NewClient, link_start k (Sealed (c_num ref) cc) ?w) =
       ((cl, w1), if hv = [] \<or> mset hv = mset Supported then None else Some (CtlDowngrade hv Supported))"
    "client_inv cl" "sealed_ok k (c_num ref) cc w1" "file_body (dfs (host (nd (w_ep w1)))) = file_body (dfs (host (nd (w_ep ?w))))"
    using cc(3) by auto
  then show thesis using that [of cc w1 cl] dial c cc(1) hv pub by (simp add: vaultWSDial_def Let_def)
qed

text \<open>
  \<open>sync\<close> against a daemon that has dialled the hub and published its key: the vault is as before, and
  either the daemon refused an entry or its files are those of the vault.
\<close>

lemma sync_after_dial:
  assumes net: "url_laws (k_net k)" "plain_host (s_addr s)" "checkHubURL (k_net k) (k_insecure k) (site_url s) = None"
    and cr: "crypto_ok k" "Generate (k_cr k) dk = Some dkp" "Generate (k_cr k) priv = Some ckp"
    and utf: "utf8_valid pubV2" "utf8_valid secret" "\<forall>x. utf8_valid (uu x)" and rnd: "rtok \<noteq> []" "vtok \<noteq> []" "c \<noteq> d"
    and daemon: "DialDaemon (k_net k) (k_sha k) (k_insecure k) rid rtok d (site_url s) (key_PubB64 dkp) pubV2 secret s = (s1, Inr ref)"
      "v1_ready dkp (link ep)" "fs_inv (dfs (host (nd ep)))"
    and v: "vault_ok lib v disk"
    and sync: "vaultWSSync k lib fresh uu vtok priv c v (site_url s) (c_sid ref) secret
      \<lparr>w_site = s1, w_ep = ep, w_dnum = d, w_seen = []\<rparr> disk = (w', disk', res)"
  shows "disk' = disk \<and>
    (case res of
       None \<Rightarrow> \<forall>q. file_body (dfs (host (nd (w_ep w')))) q =
         (case last_entry q (v_List ''/'' v) of None \<Rightarrow> file_body (dfs (host (nd ep))) q | Some e \<Rightarrow> vault_view lib v disk (vpath e))
     | Some e \<Rightarrow> \<exists>p r. e = CtlPush p (Remote r)) \<and>
    (\<exists>cc key. WrapController (k_cr k) ckp (key_PubB64 dkp) = Some cc \<and> sess cc = Some key \<and> list_all (shown k key) (w_seen w'))"
proof -
  let ?w = "\<lparr>w_site = s1, w_ep = ep, w_dnum = d, w_seen = []\<rparr>" and ?ref = "\<lparr>c_num = c, c_sid = [], c_token = []\<rparr>"
  have pub: "utf8_valid (key_PubB64 dkp)" by (simp add: key_PubB64_def utf8_valid_ascii [OF ascii_std_encode [unfolded ascii_def]])
  note dl = dialled [OF net pub utf(1,2) rnd daemon(1), of secret]
  then have i: "c_sid ref = randomHex rid" by simp
  from dl obtain s2 where s2: "DialController (k_net k) (k_sha k) (k_insecure k) vtok c (site_url s) (c_sid ref) secret (w_site ?w) =
      (s2, Inr (?ref, key_PubB64 dkp, Supported))" "relayed (s_hub s2) (c_num ?ref) (w_dnum ?w)"
    using rnd(3) by (auto simp: relayed_def)
  have ok: "v1_ready dkp (link (w_ep ?w))" "fs_inv (dfs (host (nd (w_ep ?w))))" "w_seen ?w = []" "Negotiate Supported 0 \<noteq> 0" "utf8_valid (uu MethodStatus)"
    using daemon(2,3) utf(3) negotiates by simp_all
  obtain cc cl w1 where dd: "WrapController (k_cr k) ckp (key_PubB64 dkp) = Some cc" "sealed_ok k c cc w1" "client_inv cl"
    "file_body (dfs (host (nd (w_ep w1)))) = file_body (dfs (host (nd ep)))"
    "vaultWSDial k uu vtok priv c (site_url s) (c_sid ref) secret ?w = (w1, Inr (Sealed c cc, cl))"
    by (rule vaultWSDial_sealed [where w = ?w and uu = uu, OF cr s2 ok]) simp
  have u: "\<And>x. utf8_valid (uu x)" using utf(3) by blast
  have shows_key: "\<exists>key. sess cc = Some key \<and> list_all (shown k key) (w_seen z)" if "sealed_ok k c cc z" for z
    using that by (auto simp: sealed_ok_def)
  from u v dd(3,2) show ?thesis
  proof (cases rule: sealed.push_vault [where fresh = fresh and uu = uu])
    case (refused c' w2 p r)
    then show ?thesis using sync dd(1,5) shows_key [OF refused(2)] by (auto simp: vaultWSSync_def)
  next
    case (stored c' w2)
    have "w' = w2" "disk' = disk" "res = None" using sync dd(5) stored(1) by (simp_all add: vaultWSSync_def)
    then show ?thesis using dd(1) shows_key [OF stored(2)] stored(4) unfolding dd(4) by simp
  qed
qed

section \<open>A hub that withholds the key\<close>

lemma through_hub_seen: "w_seen (fst (through_hub k c f w)) = w_seen w @ [f]"
  by (simp add: through_hub_def Let_def case_prod_unfold split: list.split)

lemma clear_seen: "w_seen (fst (link_exchange k (Clear c) f w)) = w_seen w @ [f]"
  using through_hub_seen [of k c f w] by (simp add: case_prod_unfold)

lemma call_world: "snd (fst (Call ex u meth ps st)) = fst (ex (Encode (NewRequest u meth ps)) (snd st))"
  by (auto simp: Call_def call_begin_def Let_def case_prod_unfold split: option.split)

lemma call_sends: "w_seen (snd (fst (Call (link_exchange k (Clear c)) u meth ps st))) = w_seen (snd st) @ [Encode (NewRequest u meth ps)]"
  unfolding call_world clear_seen ..

lemma push_seen: "set (w_seen (snd st)) \<subseteq> set (w_seen (snd (fst (push_entries (link_exchange k (Clear c)) lib fresh uu v es st d))))"
proof (induction es arbitrary: st d)
  case (Cons e es)
  obtain b d1 where rd: "v_Read lib fresh (vpath e) v d = (b, d1)" by (rule prod.exhaust)
  show ?case
  proof (cases b)
    case (Some x)
    obtain st1 r where c: "Call (link_exchange k (Clear c)) (uu (vpath e)) MethodWrite (push_params (vpath e) x) st = (st1, r)" by (rule prod.exhaust)
    then have "set (w_seen (snd st)) \<subseteq> set (w_seen (snd st1))"
      using call_sends [of k c "uu (vpath e)" MethodWrite "push_params (vpath e) x" st] by auto
    then show ?thesis using rd Some c Cons.IH [of st1 d1] by (cases r) (auto simp del: link_exchange.simps)
  qed (simp add: rd)
qed simp


section \<open>An example\<close>

definition demo_outer :: "(demo_hs, nat) outer" where
  "demo_outer = \<lparr>k_net = demo_net, k_sha = \<lambda>x. x, k_insecure = False, k_cr = demo_crypto, k_nz = demo_noise, k_en = demo_env,
     k_ou = demo_outside, k_now = 9, k_rnd = [], k_nonce = \<lambda>_. replicate 12 (CHR ''n'')\<rparr>"

definition demo_pair :: KeyPair where
  "demo_pair = \<lparr>Priv = ''d'', Pub = replicate 32 (CHR ''d'')\<rparr>"

definition demo_world :: "string \<Rightarrow> (demo_hs, nat) world" where
  "demo_world pub =
     \<lparr>w_site = fst (DialDaemon demo_net (\<lambda>x. x) False ''i'' ''t'' 1 (site_url demo_site) pub [] ''secret'' demo_site),
      w_ep = \<lparr>link = NewDual demo_pair ''s'' \<lparr>Private = ''d'', Public = ''D''\<rparr> [], nd = demo_served\<rparr>, w_dnum = 1, w_seen = []\<rparr>"

definition demo_sync :: "string \<Rightarrow> (demo_hs, nat) world \<times> vdisk \<times> ctl_error option" where
  "demo_sync pub =
     vaultWSSync demo_outer demo_lib ''salt'' (\<lambda>_. ''u'') ''v'' ''c'' 2 (fst demo_added) (site_url demo_site) (randomHex ''i'') ''secret''
       (demo_world pub) (fst (snd demo_added))"

lemma demo_keys:
  "Generate demo_crypto ''d'' = Some demo_pair" "Generate demo_crypto ''c'' = Some \<lparr>Priv = ''c'', Pub = replicate 32 (CHR ''c'')\<rparr>" "crypto_ok demo_outer"
  by (code_simp, code_simp, simp add: crypto_ok_def demo_outer_def demo_crypto_laws nonceSize_def)

lemma demo_dialled:
  assumes "utf8_valid pub"
  shows "\<exists>ref s2. DialDaemon demo_net (\<lambda>x. x) False ''i'' ''t'' 1 (site_url demo_site) pub [] ''secret'' demo_site = (w_site (demo_world pub), Inr ref) \<and>
    c_sid ref = randomHex ''i'' \<and>
    DialController demo_net (\<lambda>x. x) False ''v'' 2 (site_url demo_site) (randomHex ''i'') ''secret'' (w_site (demo_world pub)) =
      (s2, Inr (\<lparr>c_num = 2, c_sid = [], c_token = []\<rparr>, pub, Supported))"
proof -
  obtain s1 r where d: "DialDaemon demo_net (\<lambda>x. x) False ''i'' ''t'' 1 (site_url demo_site) pub [] ''secret'' demo_site = (s1, r)"
    by (rule prod.exhaust)
  have p: "utf8_valid []" "utf8_valid ''secret''" "''t'' \<noteq> []" "''v'' \<noteq> []" "(2::nat) \<noteq> 1" by (simp_all add: utf8_valid_ascii)
  have "w_site (demo_world pub) = s1" using d by (simp add: demo_world_def)
  then show ?thesis using dialled [OF demo_net_laws demo_site_ok assms p d, of "[]"] d by auto
qed

definition demo_entry :: ventry where
  "demo_entry = \<lparr>vpath = ''/env'', BlobSHA = hex_encode ''s3cret'', vsize = 6, vmode = 384, vmodified = 7\<rparr>"

lemma demo_vault:
  "vault_ok demo_lib (fst demo_added) (fst (snd demo_added))"
  "vault_view demo_lib (fst demo_added) (fst (snd demo_added)) ''/env'' = Some ''s3cret''"
  "v_List ''/'' (fst demo_added) = [demo_entry]" "last_entry [''env''] [demo_entry] = Some demo_entry" "vpath demo_entry = ''/env''"
proof -
  obtain v d where f: "demo_added = (v, d, True)" "vault_ok demo_lib v d" "vault_view demo_lib v d = [''/env'' \<mapsto> ''s3cret'']"
    "mf v = [(''/env'', demo_entry)]"
    unfolding demo_entry_def by (rule demo_filled) blast
  have e: "fst demo_added = v" "fst (snd demo_added) = d" unfolding f(1) by simp_all
  show "vault_ok demo_lib (fst demo_added) (fst (snd demo_added))"
    "vault_view demo_lib (fst demo_added) (fst (snd demo_added)) ''/env'' = Some ''s3cret''"
    "v_List ''/'' (fst demo_added) = [demo_entry]"
    unfolding e using f demo_env(5) by (simp_all add: v_List_def)
  show p: "vpath demo_entry = ''/env''" by (simp add: demo_entry_def)
  have "resolve_fs ''/env'' = Some [''env'']" by code_simp
  then show "last_entry [''env''] [demo_entry] = Some demo_entry" by (simp add: last_entry_def p)
qed


end
