(* ===== verification/GoFlag.thy ===== *)
theory GoFlag
  imports GoJson
begin

text \<open>
  Package \<open>flag\<close> for flag sets of boolean, string and integer flags, and the parts of \<open>strconv\<close> it
  reads values with. Parsing gives the values in the order they were set and the arguments left
  over; the last value of a flag counts.
\<close>

section \<open>Numbers\<close>

definition digit_val :: "char \<Rightarrow> int option" where
  "digit_val c =
     (let n = ord c
      in if 48 \<le> n \<and> n \<le> 57 then Some (n - 48)
         else if 97 \<le> n \<and> n \<le> 122 then Some (n - 87)
         else if 65 \<le> n \<and> n \<le> 90 then Some (n - 55)
         else None)"

fun uint_digits :: "int \<Rightarrow> int \<Rightarrow> string \<Rightarrow> int option" where
  "uint_digits base acc [] = Some acc"
| "uint_digits base acc (c # s) =
     (if c = CHR ''_'' then uint_digits base acc s
      else (case digit_val c of
              None \<Rightarrow> None
            | Some d \<Rightarrow> if d < base then uint_digits base (acc * base + d) s else None))"

text \<open>\<open>underscoreOK\<close>: the last character seen was the start, a digit or base prefix, an underscore, or another.\<close>

datatype useen = UStart | UDigit | UUnder | UOther

fun under_ok :: "bool \<Rightarrow> useen \<Rightarrow> string \<Rightarrow> bool" where
  "under_ok hexa seen [] = (seen \<noteq> UUnder)"
| "under_ok hexa seen (c # s) =
     (let d = digit_val c
      in if is_digit c \<or> hexa \<and> (case d of None \<Rightarrow> False | Some n \<Rightarrow> n < 16) then under_ok hexa UDigit s
         else if c = CHR ''_'' then seen = UDigit \<and> under_ok hexa UUnder s
         else seen \<noteq> UUnder \<and> under_ok hexa UOther s)"

definition base_prefix :: "string \<Rightarrow> int option" where
  "base_prefix s =
     (case s of
        z # x # _ \<Rightarrow>
          if z \<noteq> CHR ''0'' then None
          else if x \<in> {CHR ''b'', CHR ''B''} then Some 2
          else if x \<in> {CHR ''o'', CHR ''O''} then Some 8
          else if x \<in> {CHR ''x'', CHR ''X''} then Some 16
          else None
      | _ \<Rightarrow> None)"

definition parse_uint0 :: "string \<Rightarrow> int option" where
  "parse_uint0 s =
     (if s = [] then None
      else let n = (case base_prefix s of
                      Some b \<Rightarrow> if length s \<ge> 3 then uint_digits b 0 (drop 2 s) else uint_digits 8 0 (tl s)
                    | None \<Rightarrow> if hd s = CHR ''0'' then uint_digits 8 0 (tl s) else uint_digits 10 0 s)
           in if CHR ''_'' \<in> set s \<and>
                 \<not> (case base_prefix s of
                      Some b \<Rightarrow> under_ok (b = 16) UDigit (drop 2 s)
                    | None \<Rightarrow> under_ok False UStart s)
              then None else n)"

text \<open>\<open>strconv.ParseInt(s, 0, 64)\<close> and \<open>strconv.Atoi\<close>.\<close>

definition parse_int0 :: "string \<Rightarrow> int option" where
  "parse_int0 s =
     (let neg = (take 1 s = ''-''); r = (if take 1 s = ''-'' \<or> take 1 s = ''+'' then tl s else s)
      in (case parse_uint0 r of
            None \<Rightarrow> None
          | Some n \<Rightarrow> if neg then (if n \<le> 2 ^ 63 then Some (- n) else None) else (if n < 2 ^ 63 then Some n else None)))"

definition atoi :: "string \<Rightarrow> int option" where
  "atoi s =
     (let neg = (take 1 s = ''-''); r = (if take 1 s = ''-'' \<or> take 1 s = ''+'' then tl s else s);
          n = (if neg then - dec_val r else dec_val r)
      in if r \<noteq> [] \<and> list_all is_digit r \<and> - (2 ^ 63) \<le> n \<and> n < 2 ^ 63 then Some n else None)"

definition ParseBool :: "string \<Rightarrow> bool option" where
  "ParseBool v =
     (if v \<in> {''1'', ''t'', ''T'', ''true'', ''TRUE'', ''True''} then Some True
      else if v \<in> {''0'', ''f'', ''F'', ''false'', ''FALSE'', ''False''} then Some False
      else None)"

section \<open>Flag sets\<close>

datatype fkind = FBool | FString | FInt

datatype flag_error = FlagHelp | FlagUndefined string | FlagSyntax string | FlagNoValue string | FlagBadValue string string

definition value_ok :: "fkind \<Rightarrow> string \<Rightarrow> bool" where
  "value_ok k v = (case k of FBool \<Rightarrow> ParseBool v \<noteq> None | FString \<Rightarrow> True | FInt \<Rightarrow> parse_int0 v \<noteq> None)"

definition flag_name :: "string \<Rightarrow> string" where
  "flag_name s = drop (if take 2 s = ''--'' then 2 else 1) s"

definition split_value :: "string \<Rightarrow> string \<times> string option" where
  "split_value name =
     (let nm = hd name # takeWhile (\<lambda>c. c \<noteq> CHR ''='') (tl name)
      in (nm, if nm = name then None else Some (drop (Suc (length nm)) name)))"

text \<open>One flag: its name, the value it is set to, and the arguments behind it.\<close>

definition flag_one :: "(string \<times> fkind) list \<Rightarrow> string \<Rightarrow> string list \<Rightarrow> flag_error + (string \<times> string) \<times> string list" where
  "flag_one specs s args =
     (let name = flag_name s
      in if name = [] \<or> hd name = CHR ''-'' \<or> hd name = CHR ''='' then Inl (FlagSyntax s)
         else let (nm, v) = split_value name
              in (case map_of specs nm of
                    None \<Rightarrow> Inl (if nm = ''help'' \<or> nm = ''h'' then FlagHelp else FlagUndefined nm)
                  | Some k \<Rightarrow>
                      (case (if k = FBool then Some (case v of None \<Rightarrow> ''true'' | Some x \<Rightarrow> x, args)
                             else (case v of
                                     Some x \<Rightarrow> Some (x, args)
                                   | None \<Rightarrow> (case args of [] \<Rightarrow> None | x # rest \<Rightarrow> Some (x, rest)))) of
                         None \<Rightarrow> Inl (FlagNoValue nm)
                       | Some (x, rest) \<Rightarrow> if value_ok k x then Inr ((nm, x), rest) else Inl (FlagBadValue nm x))))"

lemma flag_one_shorter: "flag_one specs s args = Inr (nv, rest) \<Longrightarrow> length rest \<le> length args"
  by (auto simp: flag_one_def Let_def split: if_splits option.splits list.splits prod.splits)

function flag_parse :: "(string \<times> fkind) list \<Rightarrow> (string \<times> string) list \<Rightarrow> string list \<Rightarrow> flag_error + (string \<times> string) list \<times> string list" where
  "flag_parse specs vals [] = Inr (vals, [])"
| "flag_parse specs vals (s # args) =
     (if length s < 2 \<or> hd s \<noteq> CHR ''-'' then Inr (vals, s # args)
      else if s = ''--'' then Inr (vals, args)
      else (case flag_one specs s args of
              Inl e \<Rightarrow> Inl e
            | Inr (nv, rest) \<Rightarrow> flag_parse specs (vals @ [nv]) rest))"
  by pat_completeness auto
termination
  by (relation "measure (\<lambda>(_, _, args). length args)") (auto dest: flag_one_shorter)

definition flag_last :: "string \<Rightarrow> (string \<times> string) list \<Rightarrow> string option" where
  "flag_last name vals = map_of (rev vals) name"

definition flag_string :: "string \<Rightarrow> string \<Rightarrow> (string \<times> string) list \<Rightarrow> string" where
  "flag_string name dflt vals = (case flag_last name vals of None \<Rightarrow> dflt | Some v \<Rightarrow> v)"

definition flag_bool :: "string \<Rightarrow> bool \<Rightarrow> (string \<times> string) list \<Rightarrow> bool" where
  "flag_bool name dflt vals = (case flag_last name vals of None \<Rightarrow> dflt | Some v \<Rightarrow> ParseBool v = Some True)"

definition flag_int :: "string \<Rightarrow> int \<Rightarrow> (string \<times> string) list \<Rightarrow> int" where
  "flag_int name dflt vals = (case flag_last name vals of None \<Rightarrow> dflt | Some v \<Rightarrow> (case parse_int0 v of None \<Rightarrow> dflt | Some n \<Rightarrow> n))"

section \<open>Facts about parsing\<close>

declare flag_parse.simps(2) [simp del]

text \<open>An argument that is no flag ends the flags: everything from it on is left over, flags included.\<close>

lemma flag_parse_stops: "length s < 2 \<or> hd s \<noteq> CHR ''-'' \<Longrightarrow> flag_parse specs vals (s # args) = Inr (vals, s # args)"
  by (simp add: flag_parse.simps(2))

lemma flag_parse_pair:
  assumes "take 2 s = ''--''" and "hd (drop 2 s) \<notin> {CHR ''-'', CHR ''=''}" and "CHR ''='' \<notin> set s" and "drop 2 s \<noteq> []"
    and "map_of specs (drop 2 s) = Some k" and "k \<noteq> FBool" and "value_ok k v"
  shows "flag_parse specs vals (s # v # args) = flag_parse specs (vals @ [(drop 2 s, v)]) args"
proof -
  obtain n ns where n: "drop 2 s = n # ns" using assms(4) by (cases "drop 2 s") auto
  have s: "s = ''--'' @ n # ns" using assms(1) n by (metis append_take_drop_id)
  have "takeWhile (\<lambda>c. c \<noteq> CHR ''='') ns = ns" using assms(3) by (auto simp: s takeWhile_eq_all_conv)
  then have "split_value (n # ns) = (n # ns, None)" by (simp only: split_value_def Let_def list.sel if_True refl)
  moreover have "flag_name s = n # ns" by (simp add: flag_name_def s)
  ultimately have "flag_one specs s (v # args) = Inr ((drop 2 s, v), args)"
    using assms(2,5,6,7) by (simp add: flag_one_def n Let_def)
  moreover have "s \<noteq> ''--''" "\<not> length s < 2" "hd s = CHR ''-''" by (simp_all add: s)
  ultimately show ?thesis by (simp add: flag_parse.simps(2))
qed

lemma uint_digits_decimal:
  "list_all is_digit s \<Longrightarrow> uint_digits 10 acc s = Some (foldl (\<lambda>a c. 10 * a + (ord c - 48)) acc s)"
proof (induction s arbitrary: acc)
  case (Cons c s)
  then have c: "48 \<le> ord c" "ord c \<le> 57" "c \<noteq> CHR ''_''" by (auto simp: is_digit_def)
  then show ?case using Cons by (simp add: digit_val_def mult.commute)
qed simp

end
