(* ===== verification/Config.thy ===== *)
theory Config
  imports GoFlag Daemon
begin

text \<open>
  The configuration of the daemon, \<open>internal/config\<close>: flags over environment variables over
  defaults. The environment, as it is after \<open>.env\<close> has been read, is a function from names to
  values with the empty string for unset ones; the home directory may be missing; the random
  bytes of a generated token are an argument.
\<close>

record config =
  g_Dev :: bool
  g_MountPoint :: string
  g_DevAPIAddr :: string
  g_ControlToken :: string
  g_RuntimeDir :: string
  g_WebdavAddr :: string
  g_WebdavDisabled :: bool
  g_WebdavAllowRemote :: bool
  g_SignalingURL :: string
  g_GitTempDir :: string
  g_QuotaBytes :: int
  g_RecordRuntimeState :: bool
  g_Transport :: string
  g_GraceSeconds :: int
  g_ResumeKeyFile :: string
  g_JoinKey :: string
  g_AuthorizedVaultsFile :: string
  g_InsecureSignaling :: bool

datatype config_error = CfgFlag flag_error | CfgNoMount

definition defaultEnv :: "(string \<Rightarrow> string) \<Rightarrow> string \<Rightarrow> string \<Rightarrow> string" where
  "defaultEnv getenv key fallback = (if getenv key \<noteq> [] then getenv key else fallback)"

definition defaultEnvInt :: "(string \<Rightarrow> string) \<Rightarrow> string \<Rightarrow> int \<Rightarrow> int" where
  "defaultEnvInt getenv key fallback =
     (if getenv key = [] then fallback else case atoi (getenv key) of None \<Rightarrow> fallback | Some n \<Rightarrow> n)"

definition defaultEnvBool :: "(string \<Rightarrow> string) \<Rightarrow> string \<Rightarrow> bool \<Rightarrow> bool" where
  "defaultEnvBool getenv key fallback =
     (if getenv key = [] then fallback else getenv key \<in> {''1'', ''true'', ''TRUE'', ''yes'', ''YES''})"

definition home_path :: "string option \<Rightarrow> string \<Rightarrow> string \<Rightarrow> string" where
  "home_path home name fallback = (case home of Some h \<Rightarrow> path_join [h, ''.valetfs'', name] | None \<Rightarrow> fallback)"

definition defaultMount :: "string option \<Rightarrow> string" where
  "defaultMount home = home_path home ''mnt'' ''/tmp/valetfs-mnt''"

definition defaultGitDir :: "string option \<Rightarrow> string" where
  "defaultGitDir home = home_path home ''git'' ''/tmp/valetfs-git''"

definition defaultAuthorizedVaults :: "string option \<Rightarrow> string" where
  "defaultAuthorizedVaults home = home_path home ''authorized_vaults'' ''/tmp/valetfs-authorized_vaults''"

definition defaultRuntimeDir :: "string option \<Rightarrow> string" where
  "defaultRuntimeDir home = home_path home ''run'' ''/tmp/valetfs-run''"

definition randomToken :: "bytes \<Rightarrow> string" where
  "randomToken rnd = hex_encode rnd"

definition serve_flags :: "(string \<times> fkind) list" where
  "serve_flags =
     [(''dev'', FBool), (''mount'', FString), (''dev-addr'', FString), (''control-token'', FString), (''runtime-dir'', FString),
      (''webdav-addr'', FString), (''webdav-disabled'', FBool), (''webdav-allow-remote'', FBool), (''signaling'', FString),
      (''git-dir'', FString), (''transport'', FString), (''join'', FString), (''grace'', FInt), (''authorized-vaults'', FString),
      (''insecure-signaling'', FBool), (''resume-key-file'', FString), (''quota-mb'', FInt)]"

definition flagged :: "(string \<Rightarrow> string) \<Rightarrow> string option \<Rightarrow> (string \<times> string) list \<Rightarrow> config" where
  "flagged env home vals =
     \<lparr>g_Dev = flag_bool ''dev'' False vals,
      g_MountPoint = flag_string ''mount'' (defaultEnv env ''VALETFS_MOUNT'' (defaultMount home)) vals,
      g_DevAPIAddr = flag_string ''dev-addr'' (defaultEnv env ''VALETFS_DEV_ADDR'' ''127.0.0.1:0'') vals,
      g_ControlToken = flag_string ''control-token'' (defaultEnv env ''VALETFS_CONTROL_TOKEN'' []) vals,
      g_RuntimeDir = flag_string ''runtime-dir'' (defaultEnv env ''VALETFS_RUNTIME_DIR'' (defaultRuntimeDir home)) vals,
      g_WebdavAddr = flag_string ''webdav-addr'' (defaultEnv env ''VALETFS_WEBDAV_ADDR'' ''127.0.0.1:0'') vals,
      g_WebdavDisabled = flag_bool ''webdav-disabled'' (defaultEnvBool env ''VALETFS_WEBDAV_DISABLED'' False) vals,
      g_WebdavAllowRemote = flag_bool ''webdav-allow-remote'' (defaultEnvBool env ''VALETFS_WEBDAV_ALLOW_REMOTE'' False) vals,
      g_SignalingURL = flag_string ''signaling'' (defaultEnv env ''VALETFS_SIGNALING'' ''https://valetfs-signaling.winm2m.workers.dev'') vals,
      g_GitTempDir = flag_string ''git-dir'' (defaultEnv env ''VALETFS_GIT_DIR'' (defaultGitDir home)) vals,
      g_QuotaBytes = wrap64 (flag_int ''quota-mb'' 5 vals * 1024 * 1024),
      g_RecordRuntimeState = False,
      g_Transport = flag_string ''transport'' (defaultEnv env ''VALETFS_TRANSPORT'' ''ws'') vals,
      g_GraceSeconds = flag_int ''grace'' (defaultEnvInt env ''VALETFS_GRACE'' 300) vals,
      g_ResumeKeyFile = flag_string ''resume-key-file'' (defaultEnv env ''VALETFS_RESUME_KEY_FILE'' []) vals,
      g_JoinKey = flag_string ''join'' (defaultEnv env ''VALETFS_JOIN'' []) vals,
      g_AuthorizedVaultsFile = flag_string ''authorized-vaults'' (defaultEnv env ''VALETFS_AUTHORIZED_VAULTS'' (defaultAuthorizedVaults home)) vals,
      g_InsecureSignaling = flag_bool ''insecure-signaling'' (defaultEnvBool env ''VALETFS_INSECURE_SIGNALING'' False) vals\<rparr>"

definition Load :: "(string \<Rightarrow> string) \<Rightarrow> string option \<Rightarrow> bytes \<Rightarrow> string list \<Rightarrow> config_error + config" where
  "Load env home rnd args =
     (case flag_parse serve_flags [] args of
        Inl e \<Rightarrow> Inl (CfgFlag e)
      | Inr (vals, _) \<Rightarrow>
          let c0 = flagged env home vals;
              c1 = (if g_JoinKey c0 \<noteq> [] then c0\<lparr>g_Transport := ''ws''\<rparr> else c0)
          in if g_MountPoint c1 = [] then Inl CfgNoMount
             else let c2 = (if g_ControlToken c1 = [] then c1\<lparr>g_ControlToken := randomToken rnd\<rparr> else c1)
                  in Inr (c2\<lparr>g_RecordRuntimeState := (g_DevAPIAddr c2 = ''127.0.0.1:0'')\<rparr>))"

text \<open>What the daemon itself reads of it.\<close>

definition daemon_part :: "config \<Rightarrow> daemon_config" where
  "daemon_part c = \<lparr>MountPoint = g_MountPoint c, ControlToken = g_ControlToken c, WebdavDisabled = g_WebdavDisabled c, QuotaBytes = g_QuotaBytes c\<rparr>"

section \<open>What every configuration satisfies\<close>

definition int64 :: "int \<Rightarrow> bool" where
  "int64 n \<longleftrightarrow> - (2 ^ 63) \<le> n \<and> n < 2 ^ 63"

definition config_wf :: "config \<Rightarrow> bool" where
  "config_wf c \<longleftrightarrow> g_MountPoint c \<noteq> [] \<and> g_ControlToken c \<noteq> [] \<and> int64 (g_QuotaBytes c) \<and> int64 (g_GraceSeconds c) \<and>
     (g_JoinKey c \<noteq> [] \<longrightarrow> g_Transport c = ''ws'') \<and> (g_RecordRuntimeState c \<longleftrightarrow> g_DevAPIAddr c = ''127.0.0.1:0'')"

lemma uint_digits_nonneg: "0 < base \<Longrightarrow> 0 \<le> acc \<Longrightarrow> uint_digits base acc s = Some n \<Longrightarrow> 0 \<le> n"
proof (induction base acc s rule: uint_digits.induct)
  case (2 base acc c s)
  show ?case
  proof (cases "c = CHR ''_''")
    case False
    then obtain d where d: "digit_val c = Some d" "d < base" "uint_digits base (acc * base + d) s = Some n"
      using 2(5) by (auto split: option.splits if_splits)
    moreover have "0 \<le> d" using d(1) by (auto simp: digit_val_def Let_def split: if_splits)
    ultimately show ?thesis using 2 False by (auto intro: mult_nonneg_nonneg)
  qed (use 2 in simp)
qed simp

lemma parse_uint0_nonneg: "parse_uint0 s = Some n \<Longrightarrow> 0 \<le> n"
proof -
  assume a: "parse_uint0 s = Some n"
  have b: "0 < b" if "base_prefix s = Some b" for b
    using that by (auto simp: base_prefix_def split: list.splits if_splits)
  then show "0 \<le> n"
  proof (cases "base_prefix s")
    case None
    then have "uint_digits 8 0 (tl s) = Some n \<or> uint_digits 10 0 s = Some n"
      using a by (simp add: parse_uint0_def Let_def split: if_splits)
    then show ?thesis using uint_digits_nonneg [of 8 0] uint_digits_nonneg [of 10 0] by auto
  next
    case (Some b)
    then have "uint_digits b 0 (drop 2 s) = Some n \<or> uint_digits 8 0 (tl s) = Some n"
      using a by (simp add: parse_uint0_def Let_def split: if_splits)
    then show ?thesis using uint_digits_nonneg [OF b [OF Some], of 0] uint_digits_nonneg [of 8 0] by auto
  qed
qed

lemma parse_int0_range: "parse_int0 s = Some n \<Longrightarrow> int64 n"
  using parse_uint0_nonneg by (fastforce simp: parse_int0_def int64_def Let_def split: if_splits option.splits)

lemma flag_int_range: "int64 d \<Longrightarrow> int64 (flag_int name d vals)"
  by (auto simp: flag_int_def parse_int0_range split: option.split)

lemma envInt_range: "int64 d \<Longrightarrow> int64 (defaultEnvInt env k d)"
  by (auto simp: defaultEnvInt_def atoi_def int64_def Let_def split: option.split)

lemma wrap64_int64: "int64 (wrap64 n)"
  using wrap64_range [of n] by (simp add: int64_def)

lemma Load_cases:
  assumes "Load env home rnd args = Inr c"
  obtains vals rest where "flag_parse serve_flags [] args = Inr (vals, rest)" and "g_MountPoint (flagged env home vals) \<noteq> []"
    and "c = (flagged env home vals)\<lparr>g_Transport := (if g_JoinKey (flagged env home vals) \<noteq> [] then ''ws'' else g_Transport (flagged env home vals)),
        g_ControlToken := (if g_ControlToken (flagged env home vals) = [] then randomToken rnd else g_ControlToken (flagged env home vals)),
        g_RecordRuntimeState := (g_DevAPIAddr (flagged env home vals) = ''127.0.0.1:0'')\<rparr>"
  using assms by (auto simp: Load_def Let_def split: sum.splits prod.splits if_splits)

text \<open>
  C33: Every configuration that \<open>Load\<close> accepts is well formed: there is a mount point and a
  control token, so the control API is never without one; the quota and the grace window are
  64-bit integers; a connection key forces the web socket transport; and the runtime file is
  recorded exactly for the default control address. A daemon made from it refuses every control
  request that does not carry the token.
\<close>

theorem load_well_formed:
  assumes "Load env home rnd args = Inr c" and "rnd \<noteq> []"
  shows "config_wf c \<and>
    (\<forall>r d. dcfg d = daemon_part c \<longrightarrow> rtoken r \<noteq> g_ControlToken c \<longrightarrow> qget ''token'' r \<noteq> g_ControlToken c \<longrightarrow> \<not> auth r d)"
proof -
  obtain vals rest where c: "g_MountPoint (flagged env home vals) \<noteq> []"
    "c = (flagged env home vals)\<lparr>g_Transport := (if g_JoinKey (flagged env home vals) \<noteq> [] then ''ws'' else g_Transport (flagged env home vals)),
        g_ControlToken := (if g_ControlToken (flagged env home vals) = [] then randomToken rnd else g_ControlToken (flagged env home vals)),
        g_RecordRuntimeState := (g_DevAPIAddr (flagged env home vals) = ''127.0.0.1:0'')\<rparr>"
    by (rule Load_cases [OF assms(1)])
  have "randomToken rnd \<noteq> []" using assms(2) by (simp add: randomToken_def hex_encode_def)
  moreover have "int64 (g_QuotaBytes (flagged env home vals))" "int64 (g_GraceSeconds (flagged env home vals))"
    using wrap64_int64 by (simp_all add: flagged_def flag_int_range envInt_range int64_def [of 300])
  ultimately have "config_wf c" using c by (simp add: config_wf_def)
  then show ?thesis by (auto simp: auth_def daemon_part_def Let_def)
qed

section \<open>The quota\<close>

lemma parse_int0_itoa:
  assumes "0 \<le> n" and "n < 2 ^ 63"
  shows "parse_int0 (itoa n) = Some n"
proof -
  let ?s = "dec_digits n"
  have d: "list_all is_digit ?s" "?s \<noteq> []" using assms(1) by (simp_all add: dec_digits_digits dec_digits_not_Nil)
  have s: "itoa n = ?s" using assms(1) by (simp add: itoa_def)
  have no: "CHR ''_'' \<notin> set ?s" "take 1 ?s \<noteq> ''-''" "take 1 ?s \<noteq> ''+''"
    using d by (cases ?s; auto simp: list_all_iff is_digit_def)+
  have "parse_uint0 ?s = Some n"
  proof (cases "n = 0")
    case True
    moreover have "dec_digits 0 = ''0''" by code_simp
    ultimately have "?s = ''0''" by simp
    then show ?thesis using True by (simp add: parse_uint0_def base_prefix_def)
  next
    case False
    then have "hd ?s \<noteq> CHR ''0''" using dec_digits_hd [OF assms(1)] by auto
    then have b: "base_prefix ?s = None" by (auto simp: base_prefix_def split: list.split)
    have "uint_digits 10 0 ?s = Some n"
      using uint_digits_decimal [OF d(1), of 0] dec_val_digits [OF assms(1)] by (simp add: dec_val_def)
    then show ?thesis using b d(2) no(1) \<open>hd ?s \<noteq> CHR ''0''\<close> by (simp add: parse_uint0_def)
  qed
  then show ?thesis using no assms by (simp add: s parse_int0_def Let_def)
qed


theorem load_well_formed_witness:
  "\<exists>c. Load (\<lambda>_. []) (Some ''/home/u'') ''r'' [''--join'', ''k'', ''--transport=webrtc''] = Inr c \<and> config_wf c \<and>
     g_MountPoint c = ''/home/u/.valetfs/mnt'' \<and> g_Transport c = ''ws'' \<and> g_ControlToken c = ''72''"
proof -
  have r: "''r'' \<noteq> []" by simp
  obtain c where c: "Load (\<lambda>_. []) (Some ''/home/u'') ''r'' [''--join'', ''k'', ''--transport=webrtc''] = Inr c"
    "g_MountPoint c = ''/home/u/.valetfs/mnt'' \<and> g_Transport c = ''ws'' \<and> g_ControlToken c = ''72''"
  proof
    show "Load (\<lambda>_. []) (Some ''/home/u'') ''r'' [''--join'', ''k'', ''--transport=webrtc''] =
        Inr (projr (Load (\<lambda>_. []) (Some ''/home/u'') ''r'' [''--join'', ''k'', ''--transport=webrtc'']))" by code_simp
    show "g_MountPoint (projr (Load (\<lambda>_. []) (Some ''/home/u'') ''r'' [''--join'', ''k'', ''--transport=webrtc''])) = ''/home/u/.valetfs/mnt'' \<and>
        g_Transport (projr (Load (\<lambda>_. []) (Some ''/home/u'') ''r'' [''--join'', ''k'', ''--transport=webrtc''])) = ''ws'' \<and>
        g_ControlToken (projr (Load (\<lambda>_. []) (Some ''/home/u'') ''r'' [''--join'', ''k'', ''--transport=webrtc''])) = ''72''" by code_simp
  qed
  then show ?thesis using load_well_formed [OF c(1) r] by blast
qed


end
