(* ===== verification/Legacy.thy ===== *)
theory Legacy
  imports Serve
begin

text \<open>
  The older control plane over a WebRTC data channel: the messages of \<open>internal/webrtc/rpc.go\<close> and
  what the daemon does with a frame, the \<open>OnData\<close> callback of \<open>serve\<close> in \<open>cmd/valetfs/main.go\<close>. The
  peer connection itself belongs to \<open>pion/webrtc\<close>; a frame is what its data channel delivers.
\<close>

section \<open>Messages\<close>

record RPCMessage =
  r_V :: int
  r_ID :: string
  r_Type :: string
  r_Method :: string
  r_Params :: params
  r_OK :: bool
  r_Result :: params
  r_Code :: string
  r_Msg :: string
  r_Topic :: string
  r_Payload :: params

definition zero_rpc :: RPCMessage where
  "zero_rpc = \<lparr>r_V = 0, r_ID = [], r_Type = [], r_Method = [], r_Params = [], r_OK = False, r_Result = [], r_Code = [], r_Msg = [],
     r_Topic = [], r_Payload = []\<rparr>"

definition NewRequestRPC :: "string \<Rightarrow> string \<Rightarrow> params \<Rightarrow> RPCMessage" where
  "NewRequestRPC uuid method ps = zero_rpc\<lparr>r_V := 1, r_ID := uuid, r_Type := ''REQ'', r_Method := method, r_Params := ps\<rparr>"

definition rpc_json :: "RPCMessage \<Rightarrow> json" where
  "rpc_json m =
     JObj ([(''v'', JNum (itoa (r_V m)))]
        @ opt_field (r_ID m \<noteq> []) ''id'' (JStr (r_ID m))
        @ [(''type'', JStr (r_Type m))]
        @ opt_field (r_Method m \<noteq> []) ''method'' (JStr (r_Method m))
        @ opt_field (r_Params m \<noteq> []) ''params'' (jmap (r_Params m))
        @ opt_field (r_OK m) ''ok'' (JBool True)
        @ opt_field (r_Result m \<noteq> []) ''result'' (jmap (r_Result m))
        @ opt_field (r_Code m \<noteq> []) ''code'' (JStr (r_Code m))
        @ opt_field (r_Msg m \<noteq> []) ''message'' (JStr (r_Msg m))
        @ opt_field (r_Topic m \<noteq> []) ''topic'' (JStr (r_Topic m))
        @ opt_field (r_Payload m \<noteq> []) ''payload'' (jmap (r_Payload m)))"

definition EncodeRPC :: "RPCMessage \<Rightarrow> bytes" where
  "EncodeRPC m = marshal (rpc_json m)"

definition rpc_json_ok :: "json \<Rightarrow> bool" where
  "rpc_json_ok j \<longleftrightarrow>
     obj_ok j \<and> int_ok ''v'' j \<and> str_ok ''id'' j \<and> str_ok ''type'' j \<and> str_ok ''method'' j \<and> map_ok ''params'' j \<and> bool_ok ''ok'' j \<and>
     map_ok ''result'' j \<and> str_ok ''code'' j \<and> str_ok ''message'' j \<and> str_ok ''topic'' j \<and> map_ok ''payload'' j"

definition rpc_of_json :: "json \<Rightarrow> RPCMessage" where
  "rpc_of_json j =
     \<lparr>r_V = get_int ''v'' j, r_ID = get_str ''id'' j, r_Type = get_str ''type'' j, r_Method = get_str ''method'' j,
      r_Params = get_map ''params'' j, r_OK = get_bool ''ok'' j, r_Result = get_map ''result'' j, r_Code = get_str ''code'' j,
      r_Msg = get_str ''message'' j, r_Topic = get_str ''topic'' j, r_Payload = get_map ''payload'' j\<rparr>"

definition DecodeRPC :: "bytes \<Rightarrow> RPCMessage \<times> bool" where
  "DecodeRPC b = (case parse_json b of None \<Rightarrow> (zero_rpc, False) | Some j \<Rightarrow> (rpc_of_json j, rpc_json_ok j))"

section \<open>The data channel callback\<close>

definition any_str :: "string \<Rightarrow> params \<Rightarrow> string" where
  "any_str k ps = (case lookup_last k ps of Some (JStr s) \<Rightarrow> s | _ \<Rightarrow> [])"

text \<open>The case \<open>WRITE\<close>; the error of \<open>Write\<close> is only logged.\<close>

definition legacy_write :: "time \<Rightarrow> params \<Rightarrow> daemon \<Rightarrow> daemon" where
  "legacy_write now ps d =
     (let p = any_str ''path'' ps
      in if p = [] then d
         else let d1 = Mount d;
                  m1 = fst (MkdirAll now (dfs d1) (path_dir p) 0x1ED)
              in d1\<lparr>dfs := fst (Write now m1 p (any_str ''content'' ps) 0x180)\<rparr>)"

definition legacy_status :: "string \<Rightarrow> daemon \<Rightarrow> RPCMessage" where
  "legacy_status i d =
     zero_rpc\<lparr>r_V := 1, r_ID := i, r_Type := ''RES'', r_OK := True,
       r_Result := [(''mounted'', JBool (Used (dfs d) \<ge> 0)), (''used'', int64_json (Used (dfs d)))]\<rparr>"

definition legacy_rpc :: "outside \<Rightarrow> time \<Rightarrow> RPCMessage \<Rightarrow> daemon \<Rightarrow> daemon \<times> bytes option" where
  "legacy_rpc ou now m d =
     (if to_upper (r_Method m) = ''UNMOUNT'' then (lock_daemon ou now d, None)
      else if to_upper (r_Method m) = ''WRITE'' then (legacy_write now (r_Params m) d, None)
      else if to_upper (r_Method m) = ''STATUS'' then (d, Some (EncodeRPC (legacy_status (r_ID m) d)))
      else (d, None))"

definition legacy_command :: "outside \<Rightarrow> time \<Rightarrow> bytes \<Rightarrow> daemon \<Rightarrow> daemon" where
  "legacy_command ou now b d =
     (case parse_json b of
        None \<Rightarrow> d
      | Some j \<Rightarrow>
          if \<not> (obj_ok j \<and> str_ok ''type'' j \<and> str_ok ''action'' j \<and> map_ok ''payload'' j) then d
          else if to_upper (get_str ''action'' j) = ''UNMOUNT'' then lock_daemon ou now d
          else if to_upper (get_str ''action'' j) = ''WRITE'' then legacy_write now (get_map ''payload'' j) d
          else d)"

definition legacy_onData :: "outside \<Rightarrow> time \<Rightarrow> daemon \<Rightarrow> bytes \<Rightarrow> daemon \<times> bytes option" where
  "legacy_onData ou now d b =
     (let (m, ok) = DecodeRPC b
      in if ok \<and> fold_name (r_Type m) = ''REQ'' then legacy_rpc ou now m d else (legacy_command ou now b d, None))"

text \<open>\<open>OnOpen\<close> mounts.\<close>

definition legacy_onOpen :: "daemon \<Rightarrow> daemon" where
  "legacy_onOpen d = Mount d"

section \<open>Frames of the controller\<close>

text \<open>The frame \<open>pair\<close> and \<open>sync\<close> send for an entry of the vault over this transport.\<close>

definition legacy_push :: "string \<Rightarrow> string \<Rightarrow> bytes \<Rightarrow> bytes" where
  "legacy_push u p b = EncodeRPC (NewRequestRPC u ''WRITE'' [(''path'', JStr (trim_prefix p ''/'')), (''content'', JStr b)])"

lemma rpc_field_names [simp]:
  "fold_name ''code'' = ''CODE''" "fold_name ''message'' = ''MESSAGE''" "fold_name ''topic'' = ''TOPIC''" "fold_name ''payload'' = ''PAYLOAD''"
  by code_simp+

lemma content_first: "jmap [(''path'', JStr p), (''content'', JStr b)] = JObj [(''content'', JStr b), (''path'', JStr p)]"
proof -
  have "sort (remdups [''path'', ''content'']) = [''content'', ''path'']" by code_simp
  then show ?thesis by (simp add: jmap_def lookup_last_def)
qed

lemma push_arrives:
  "\<exists>m. DecodeRPC (legacy_push u p b) = (m, True) \<and> r_Type m = ''REQ'' \<and> r_Method m = ''WRITE'' \<and>
     any_str ''path'' (r_Params m) = to_valid (trim_prefix p ''/'') \<and> any_str ''content'' (r_Params m) = to_valid b"
proof -
  let ?ps = "[(''path'', JStr (trim_prefix p ''/'')), (''content'', JStr b)]"
  let ?j = "rpc_json (NewRequestRPC u ''WRITE'' ?ps)"
  have v: "to_valid ''WRITE'' = ''WRITE''" "to_valid ''REQ'' = ''REQ''" "to_valid ''content'' = ''content''" "to_valid ''path'' = ''path''"
    "int_of_num (itoa 1) = Some 1"
    by code_simp+
  have "nums_ok ?j" by (simp add: rpc_json_def NewRequestRPC_def zero_rpc_def opt_field_def num_ok_itoa content_first)
  then have p: "parse_json (legacy_push u p b) = Some (coerce_json ?j)" by (simp add: legacy_push_def EncodeRPC_def parse_marshal)
  have j: "coerce_json ?j = JObj ([(''v'', JNum (itoa 1))] @ opt_field (u \<noteq> []) ''id'' (JStr (to_valid u)) @ [(''type'', JStr ''REQ''), (''method'', JStr ''WRITE''),
      (''params'', JObj [(''content'', JStr (to_valid b)), (''path'', JStr (to_valid (trim_prefix p ''/'')))])])"
    using v by (simp add: rpc_json_def NewRequestRPC_def zero_rpc_def opt_field_def content_first)
  have "rpc_json_ok (coerce_json ?j)"
    using v unfolding j by (simp add: rpc_json_ok_def obj_ok_def int_ok_def str_ok_def map_ok_def bool_ok_def)
  then show ?thesis
    using p v unfolding j
    by (auto simp: DecodeRPC_def rpc_of_json_def get_str_def get_map_def any_str_def lookup_last_def)
qed

lemma fs_inv_legacy_write: "fs_inv (dfs d) \<Longrightarrow> fs_inv (dfs (legacy_write now ps d))"
  by (auto simp: legacy_write_def Let_def intro!: fs_inv_Write fs_inv_MkdirAll)

lemma legacy_inv:
  assumes "fs_inv (dfs d)"
  shows "fs_inv (dfs (fst (legacy_onData ou now d b)))"
  using assms fs_inv_legacy_write [OF assms] fs_inv_Wipe [OF assms]
  by (auto simp: legacy_onData_def legacy_rpc_def legacy_command_def Let_def split: prod.split option.split)

text \<open>
  What a controller pushes over the data channel. The daemon mounts and stores the entry
  under its path; when the write succeeds the file reads back as the bytes of the vault with
  everything that is not UTF-8 replaced, so a binary secret does not survive. No answer is sent,
  so a write that failed goes unnoticed.
\<close>

theorem legacy_push_stores:
  assumes d: "fs_inv (dfs d)" and p: "utf8_valid (trim_prefix p ''/'')" "trim_prefix p ''/'' \<noteq> []"
  shows "let d' = fst (legacy_onData ou now d (legacy_push u p b)); q = trim_prefix p ''/'';
             m = fst (MkdirAll now (dfs d) (path_dir q) 0x1ED)
    in snd (legacy_onData ou now d (legacy_push u p b)) = None \<and> dfs d' = fst (Write now m q (to_valid b) 0x180) \<and>
       (snd (Write now m q (to_valid b) 0x180) = None \<longrightarrow> Read (dfs d') q = Inr (to_valid b))"
proof -
  let ?q = "trim_prefix p ''/''"
  let ?m = "fst (MkdirAll now (dfs d) (path_dir ?q) 0x1ED)"
  obtain m where m: "DecodeRPC (legacy_push u p b) = (m, True)" "r_Type m = ''REQ''" "r_Method m = ''WRITE''"
    "any_str ''path'' (r_Params m) = ?q" "any_str ''content'' (r_Params m) = to_valid b"
    using push_arrives [of u p b] p(1) by (auto simp: to_valid_id)
  have c: "fold_name ''REQ'' = ''REQ''" "to_upper ''WRITE'' = ''WRITE''" by code_simp+
  have e: "legacy_onData ou now d (legacy_push u p b) = ((Mount d)\<lparr>dfs := fst (Write now ?m ?q (to_valid b) 0x180)\<rparr>, None)"
    using m p c by (simp add: legacy_onData_def legacy_rpc_def legacy_write_def Let_def)
  have "Read (fst (Write now ?m ?q (to_valid b) 0x180)) ?q = Inr (to_valid b)" if "snd (Write now ?m ?q (to_valid b) 0x180) = None"
  proof -
    have "Write now ?m ?q (to_valid b) 0x180 = (fst (Write now ?m ?q (to_valid b) 0x180), None)" using that by (simp add: prod_eq_iff)
    then show ?thesis using mem.read_after_write [OF fs_inv_MkdirAll [OF d]] read_opt_Some by blast
  qed
  then show ?thesis using e by (simp add: Let_def)
qed

theorem legacy_push_stores_witness:
  "Read (dfs (fst (legacy_onData demo_outside 5 demo_daemon (legacy_push ''u'' ''/k'' [CHR ''a'', CHR 0xFF])))) ''k'' =
     Inr (CHR ''a'' # repl_char)"
proof -
  have p: "utf8_valid (trim_prefix ''/k'' ''/'')" "trim_prefix ''/k'' ''/'' \<noteq> []" by code_simp+
  have q: "trim_prefix ''/k'' ''/'' = ''k''" "to_valid [CHR ''a'', CHR 0xFF] = CHR ''a'' # repl_char"
    "snd (Write 5 (fst (MkdirAll 5 (dfs demo_daemon) (path_dir ''k'') 0x1ED)) ''k'' (CHR ''a'' # repl_char) 0x180) = None"
    by code_simp+
  note d = demo_daemon_inv
  show ?thesis
    using legacy_push_stores [OF d p, of demo_outside 5 "''u''" "[CHR ''a'', CHR 0xFF]"] unfolding q Let_def by (metis q(3))
qed

text \<open>
  The data channel's \<open>STATUS\<close> always reports a mounted file system, also when the daemon is
  unmounted and locked: the reported value is that the used bytes are not negative.
\<close>

theorem legacy_status_always_mounted:
  assumes "fs_inv (dfs d)"
  shows "legacy_onData ou now d (EncodeRPC (NewRequestRPC u ''STATUS'' [])) =
    (d, Some (EncodeRPC (zero_rpc\<lparr>r_V := 1, r_ID := to_valid u, r_Type := ''RES'', r_OK := True,
       r_Result := [(''mounted'', JBool True), (''used'', int64_json (Used (dfs d)))]\<rparr>)))"
proof -
  let ?j = "rpc_json (NewRequestRPC u ''STATUS'' [])"
  have v: "to_valid ''STATUS'' = ''STATUS''" "to_valid ''REQ'' = ''REQ''" "int_of_num (itoa 1) = Some 1"
    "fold_name ''REQ'' = ''REQ''" "to_upper ''STATUS'' = ''STATUS''"
    by code_simp+
  have "nums_ok ?j" by (simp add: rpc_json_def NewRequestRPC_def zero_rpc_def opt_field_def num_ok_itoa)
  then have p: "parse_json (EncodeRPC (NewRequestRPC u ''STATUS'' [])) = Some (coerce_json ?j)" by (simp add: EncodeRPC_def parse_marshal)
  have j: "coerce_json ?j = JObj ([(''v'', JNum (itoa 1))] @ opt_field (u \<noteq> []) ''id'' (JStr (to_valid u)) @
      [(''type'', JStr ''REQ''), (''method'', JStr ''STATUS'')])"
    using v by (simp add: rpc_json_def NewRequestRPC_def zero_rpc_def opt_field_def)
  have "DecodeRPC (EncodeRPC (NewRequestRPC u ''STATUS'' [])) =
      (zero_rpc\<lparr>r_V := 1, r_ID := to_valid u, r_Type := ''REQ'', r_Method := ''STATUS''\<rparr>, True)"
    using p v unfolding j
    by (simp add: DecodeRPC_def rpc_of_json_def rpc_json_ok_def obj_ok_def int_ok_def str_ok_def map_ok_def bool_ok_def get_str_def
        get_int_def get_map_def get_bool_def zero_rpc_def)
  moreover have "Used (dfs d) \<ge> 0" using assms nbytes_nonneg by (simp add: fs_inv_def Used_def)
  ultimately show ?thesis using v by (simp add: legacy_onData_def legacy_rpc_def legacy_status_def)
qed

theorem legacy_status_always_mounted_witness:
  "\<not> mounted (lock_daemon demo_outside 6 demo_daemon) \<and>
   (\<exists>r. legacy_onData demo_outside 7 (lock_daemon demo_outside 6 demo_daemon) (EncodeRPC (NewRequestRPC ''u'' ''STATUS'' [])) =
      (lock_daemon demo_outside 6 demo_daemon, Some r) \<and> contains r ''true'')"
proof -
  have d: "fs_inv (dfs (lock_daemon demo_outside 6 demo_daemon))" using fs_inv_Wipe [OF demo_daemon_inv] by simp
  have "\<not> mounted (lock_daemon demo_outside 6 demo_daemon)" by code_simp
  moreover have "contains (EncodeRPC (zero_rpc\<lparr>r_V := 1, r_ID := to_valid ''u'', r_Type := ''RES'', r_OK := True,
       r_Result := [(''mounted'', JBool True), (''used'', int64_json (Used (dfs (lock_daemon demo_outside 6 demo_daemon))))]\<rparr>)) ''true''"
    by code_simp
  ultimately show ?thesis using legacy_status_always_mounted [OF d, of demo_outside 7 "''u''"] by blast
qed

end
