(* ===== verification/VaultCmd.thy ===== *)
theory VaultCmd
  imports Controller Config Legacy
begin

text \<open>
  The command \<open>valetfs vault\<close>, \<open>cmd/valetfs/vault.go\<close>: its flags, where it takes the passphrase from,
  and its subcommands. The record \<open>vhost\<close> is the machine the command runs on: its environment, its
  files, the vault directory at each path, the terminal if standard input is one (what each
  \<open>ReadPassword\<close> will return) and the first line of standard input. The record \<open>vdraw\<close> has the random
  values, times and connection numbers an invocation draws. The peer connection of the older transport
  belongs to \<open>pion/webrtc\<close>: \<open>rtc\<close> says whether each step succeeds, which frames arrive in time, and
  collects the frames sent.
\<close>

record vhost =
  vh_env :: "string \<Rightarrow> string"
  vh_home :: "string option"
  vh_files :: files
  vh_mode :: "string \<Rightarrow> int"
  vh_vaults :: "string \<Rightarrow> vdisk"
  vh_tty :: "bytes option list option"
  vh_line :: string

record vdraw =
  r_fresh :: bytes
  r_n1 :: bytes
  r_n2 :: bytes
  r_nonces :: "string \<Rightarrow> bytes"
  r_salt :: bytes
  r_uu :: "string \<Rightarrow> string"
  r_vtok :: bytes
  r_priv :: bytes
  r_conn :: nat
  r_now :: int

record rtc =
  rtc_new :: bool
  rtc_join :: "string \<Rightarrow> string \<Rightarrow> bool"
  rtc_send :: "bytes \<Rightarrow> bool"
  rtc_frames :: "bytes list"
  rtc_sent :: "bytes list"

datatype vcmd_error =
    VFlag flag_error | VUsage string | VOpen vopen | VHostFile string | VRekey | VPassFile string | VPassEmpty | VNoTerminal
  | VTerminal | VMismatch | VNeedsWs | VCtl ctl_error | VPeer | VUnread string | VTimeout | VUnknown string

datatype vout = OutLine string | OutStatus params | ErrText string

section \<open>Defaults\<close>

definition defaultVaultDir :: "(string \<Rightarrow> string) \<Rightarrow> string option \<Rightarrow> string" where
  "defaultVaultDir env home =
     (if env ''VALETFS_VAULT_DIR'' \<noteq> [] then env ''VALETFS_VAULT_DIR''
      else case home of None \<Rightarrow> ''/tmp/valetfs-vault'' | Some h \<Rightarrow> path_join [h, ''.valetfs'', ''vault''])"

definition defaultVaultTransport :: "(string \<Rightarrow> string) \<Rightarrow> string" where
  "defaultVaultTransport env = (if env ''VALETFS_TRANSPORT'' \<noteq> [] then env ''VALETFS_TRANSPORT'' else ''ws'')"

definition defaultSignalingURL :: "(string \<Rightarrow> string) \<Rightarrow> string" where
  "defaultSignalingURL env =
     (if env ''VALETFS_SIGNALING'' \<noteq> [] then env ''VALETFS_SIGNALING'' else ''https://valetfs-signaling.winm2m.workers.dev'')"

section \<open>The passphrase\<close>

definition read_file :: "string \<Rightarrow> files \<Rightarrow> bytes option" where
  "read_file p fs = map_of fs (path_clean p)"

definition vaultAuthModeFile :: string where
  "vaultAuthModeFile = ''.vault_auth_mode''"

definition authModePath :: "string \<Rightarrow> string" where
  "authModePath vdir = path_join [vdir, vaultAuthModeFile]"

definition readVaultAuthMode :: "string \<Rightarrow> files \<Rightarrow> string" where
  "readVaultAuthMode vdir fs =
     (case map_of fs (authModePath vdir) of
        None \<Rightarrow> []
      | Some b \<Rightarrow> let m = trim_space b in if m = ''none'' \<or> m = ''passphrase'' then m else [])"

definition writeVaultAuthMode :: "string \<Rightarrow> string \<Rightarrow> files \<Rightarrow> files" where
  "writeVaultAuthMode vdir m fs = AList.update (authModePath vdir) (m @ [CHR 0x0A]) fs"

text \<open>\<open>term.ReadPassword\<close>: the next line of the terminal, \<open>None\<close> for an error.\<close>

definition ReadPassword :: "bytes option list \<Rightarrow> bytes option \<times> bytes option list" where
  "ReadPassword ls = (case ls of [] \<Rightarrow> (None, []) | l # rest \<Rightarrow> (l, rest))"

text \<open>The passphrase provider: the passphrase and the terminal afterwards.\<close>

definition provided :: "string \<Rightarrow> bool \<Rightarrow> string \<Rightarrow> vhost \<Rightarrow> string \<times> bytes option list option" where
  "provided passwordFile passwordStdin authMode h =
     (case (if passwordFile \<noteq> [] then read_file passwordFile (vh_files h) else None) of
        Some b \<Rightarrow> (trim_space b, vh_tty h)
      | None \<Rightarrow>
          if vh_env h ''VALETFS_VAULT_PASSWORD'' \<noteq> [] then (vh_env h ''VALETFS_VAULT_PASSWORD'', vh_tty h)
          else if authMode = ''none'' then ([], vh_tty h)
          else (case vh_tty h of
                  None \<Rightarrow> (if passwordStdin then trim_space (vh_line h) else [], None)
                | Some ls \<Rightarrow>
                    (case ReadPassword ls of
                       (Some pw, rest) \<Rightarrow> (trim_space pw, Some rest)
                     | (None, rest) \<Rightarrow> (if passwordStdin then trim_space (vh_line h) else [], Some rest))))"

definition readNewPassphrase :: "string \<Rightarrow> vhost \<Rightarrow> vcmd_error + string" where
  "readNewPassphrase passwordFile h =
     (if passwordFile \<noteq> [] then
        (case read_file passwordFile (vh_files h) of
           None \<Rightarrow> Inl (VPassFile passwordFile)
         | Some b \<Rightarrow> if trim_space b = [] then Inl VPassEmpty else Inr (trim_space b))
      else if vh_env h ''VALETFS_VAULT_NEW_PASSWORD'' \<noteq> [] then Inr (vh_env h ''VALETFS_VAULT_NEW_PASSWORD'')
      else (case vh_tty h of
              None \<Rightarrow> Inl VNoTerminal
            | Some ls \<Rightarrow>
                (case ReadPassword ls of
                   (None, _) \<Rightarrow> Inl VTerminal
                 | (Some a, ls1) \<Rightarrow>
                     (case ReadPassword ls1 of
                        (None, _) \<Rightarrow> Inl VTerminal
                      | (Some b, _) \<Rightarrow>
                          if trim_space a \<noteq> trim_space b then Inl VMismatch
                          else if trim_space a = [] then Inl VPassEmpty
                          else Inr (trim_space a)))))"

section \<open>Subcommands\<close>

definition nl :: string where
  "nl = [CHR 0x0A]"

definition advice :: "string \<Rightarrow> string" where
  "advice vdir = ''!! Fix it now:  valetfs vault rekey --vault-dir '' @ vdir @ nl @ nl"

definition warnWeakVaultKey :: "vault \<Rightarrow> string \<Rightarrow> vout list" where
  "warnWeakVaultKey v vdir =
     (if vlegacy v then
        [ErrText (nl @ ''!! WARNING: the vault at '' @ vdir @ '' is encrypted with a passphrase that is published'' @ nl @
           ''!! in ValetFS's public source. Anyone who obtains this directory can decrypt it.'' @ nl @ advice vdir)]
      else if vunprotected v then
        [ErrText (nl @ ''!! WARNING: the vault at '' @ vdir @ '' has no passphrase. The key is derived from the'' @ nl @
           ''!! stored salt alone, so the directory decrypts itself.'' @ nl @ advice vdir)]
      else [])"

definition vault_flags :: "(string \<times> fkind) list" where
  "vault_flags = [(''vault-dir'', FString), (''password-file'', FString), (''password-stdin'', FBool), (''claim-secret'', FString),
     (''transport'', FString), (''v'', FBool), (''verbose'', FBool)]"

text \<open>The loop over the arguments behind the session.\<close>

fun signaling_arg :: "string \<Rightarrow> string list \<Rightarrow> string" where
  "signaling_arg s (a # b # r) = (if a = ''--signaling'' then signaling_arg b r else signaling_arg s (b # r))"
| "signaling_arg s r = s"

definition signaling_for :: "vault_lib \<Rightarrow> string \<Rightarrow> string \<Rightarrow> string list \<Rightarrow> vhost \<Rightarrow> string" where
  "signaling_for lib vdir i rest h =
     (let s = signaling_arg (defaultSignalingURL (vh_env h)) rest
      in if s \<noteq> [] then s else case LoadSession lib vdir i (vh_files h) of Some rec \<Rightarrow> SignalingURL rec | None \<Rightarrow> [])"

definition put_vault :: "string \<Rightarrow> vdisk \<Rightarrow> vhost \<Rightarrow> vhost" where
  "put_vault vdir d h = h\<lparr>vh_vaults := (vh_vaults h)(vdir := d)\<rparr>"

type_synonym ('hs, 'cs) vstate = "vhost \<times> ('hs, 'cs) world \<times> rtc"
type_synonym ('hs, 'cs) vresult = "('hs, 'cs) vstate \<times> vout list \<times> vcmd_error option"

definition runVaultRekey :: "vault_lib \<Rightarrow> vdraw \<Rightarrow> string \<Rightarrow> string \<Rightarrow> vault \<Rightarrow> vhost \<Rightarrow> vhost \<times> vout list \<times> vcmd_error option" where
  "runVaultRekey lib r vdir passwordFile v h =
     (case readNewPassphrase passwordFile h of
        Inl e \<Rightarrow> (h, [], Some e)
      | Inr newPass \<Rightarrow>
          (case rekey_writes lib (r_fresh r) (r_nonces r) (r_n2 r) (r_salt r) newPass v (vh_vaults h vdir) of
             None \<Rightarrow> (h, [], Some VRekey)
           | Some ws \<Rightarrow>
               ((put_vault vdir (fold apply_write ws (vh_vaults h vdir)) h)
                  \<lparr>vh_files := writeVaultAuthMode vdir ''passphrase'' (vh_files h)\<rparr>,
                [OutLine (''vault rekeyed at '' @ vdir @ nl @ ''Set VALETFS_VAULT_PASSWORD (or pass --password-file) to open it from now on.'')],
                None)))"

definition vault_init :: "string \<Rightarrow> string \<Rightarrow> vhost \<Rightarrow> vhost \<times> vout list" where
  "vault_init vdir passwordFile h =
     (if manifest_file (vh_vaults h vdir) \<noteq> None then (h, [OutLine ''vault already initialized''])
      else let m = (if passwordFile \<noteq> [] \<or> vh_env h ''VALETFS_VAULT_PASSWORD'' \<noteq> [] then ''passphrase'' else ''none'')
           in (h\<lparr>vh_files := writeVaultAuthMode vdir m (vh_files h)\<rparr>, [OutLine (''vault initialized at '' @ vdir)]))"

definition vault_add :: "vault_lib \<Rightarrow> vdraw \<Rightarrow> string \<Rightarrow> string \<Rightarrow> string \<Rightarrow> vault \<Rightarrow> vhost \<Rightarrow> vhost \<times> vout list \<times> vcmd_error option" where
  "vault_add lib r vdir hostPath fsPath v h =
     (case v_Add lib (r_fresh r) (r_n1 r) (r_n2 r) (r_now r) (map_option (\<lambda>b. (b, vh_mode h hostPath)) (read_file hostPath (vh_files h)))
             fsPath v (vh_vaults h vdir) of
        (_, d, False) \<Rightarrow> (put_vault vdir d h, [], Some (VHostFile hostPath))
      | (_, d, True) \<Rightarrow> (put_vault vdir d h, [OutLine (''added '' @ fsPath)], None))"

definition vault_ls :: "string \<Rightarrow> vault \<Rightarrow> vout list" where
  "vault_ls pfx v = map (\<lambda>e. OutLine (vpath e @ '' ('' @ itoa (vsize e) @ '' bytes)'')) (v_List pfx v)"

section \<open>The older transport\<close>

text \<open>The loop of \<open>pair\<close> and \<open>sync\<close> over the entries.\<close>

fun rtc_push :: "vault_lib \<Rightarrow> vdraw \<Rightarrow> vault \<Rightarrow> ventry list \<Rightarrow> rtc \<Rightarrow> vdisk \<Rightarrow> rtc \<times> vdisk \<times> vcmd_error option" where
  "rtc_push lib r v [] t d = (t, d, None)"
| "rtc_push lib r v (e # es) t d =
     (case v_Read lib (r_fresh r) (vpath e) v d of
        (None, d1) \<Rightarrow> (t, d1, Some (VUnread (vpath e)))
      | (Some b, d1) \<Rightarrow>
          let f = legacy_push (r_uu r (vpath e)) (vpath e) b
          in if rtc_send t f then rtc_push lib r v es (t\<lparr>rtc_sent := rtc_sent t @ [f]\<rparr>) d1 else (t, d1, Some VPeer))"

definition rtc_request :: "vdraw \<Rightarrow> string \<Rightarrow> rtc \<Rightarrow> rtc \<times> bool" where
  "rtc_request r meth t =
     (let f = EncodeRPC (NewRequestRPC (r_uu r meth) meth []) in if rtc_send t f then (t\<lparr>rtc_sent := rtc_sent t @ [f]\<rparr>, True) else (t, False))"

text \<open>The first response that arrives.\<close>

definition rtc_answer :: "rtc \<Rightarrow> RPCMessage option" where
  "rtc_answer t = List.find (\<lambda>m. fold_name (r_Type m) = ''RES'') (map fst (filter snd (map DecodeRPC (rtc_frames t))))"

section \<open>Dispatch\<close>

text \<open>The subcommands that need a session, over the web socket hub and over a peer connection.\<close>

definition session_ws ::
  "('hs, 'cs) outer \<Rightarrow> vault_lib \<Rightarrow> vdraw \<Rightarrow> string \<Rightarrow> string \<Rightarrow> string \<Rightarrow> string \<Rightarrow> string \<Rightarrow> vault \<Rightarrow> vhost \<Rightarrow> ('hs, 'cs) world \<Rightarrow>
     vhost \<times> ('hs, 'cs) world \<times> vout list \<times> vcmd_error option" where
  "session_ws k lib r cmd vdir secret i signaling v h w =
     (let d = vh_vaults h vdir
      in if cmd = ''pair'' then
           (case vaultWSPair k lib (r_fresh r) (r_uu r) (r_vtok r) (r_priv r) (r_conn r) (r_now r) v vdir signaling i secret w d (vh_files h) of
              (w1, d1, fs, None) \<Rightarrow> ((put_vault vdir d1 h)\<lparr>vh_files := fs\<rparr>, w1, [OutLine ''paired and pushed vault entries (ws)''], None)
            | (w1, d1, fs, Some e) \<Rightarrow> ((put_vault vdir d1 h)\<lparr>vh_files := fs\<rparr>, w1, [], Some (VCtl e)))
         else if cmd = ''sync'' then
           (case vaultWSSync k lib (r_fresh r) (r_uu r) (r_vtok r) (r_priv r) (r_conn r) v signaling i secret w d of
              (w1, d1, None) \<Rightarrow> (put_vault vdir d1 h, w1, [OutLine ''synced vault entries (ws)''], None)
            | (w1, d1, Some e) \<Rightarrow> (put_vault vdir d1 h, w1, [], Some (VCtl e)))
         else if cmd = ''status'' then
           (case vaultWSStatus k (r_uu r) (r_vtok r) (r_priv r) (r_conn r) signaling i secret w of
              (w1, Inr res) \<Rightarrow> (h, w1, [OutStatus res], None)
            | (w1, Inl e) \<Rightarrow> (h, w1, [], Some (VCtl e)))
         else (case vaultWSSimple k (r_uu r) (r_vtok r) (r_priv r) (r_conn r) signaling i (if cmd = ''lock'' then MethodLock else MethodUnmount) secret w of
                 (w1, None) \<Rightarrow> (h, w1, [OutLine (cmd @ '' ok (ws)'')], None)
               | (w1, Some e) \<Rightarrow> (h, w1, [], Some (VCtl e))))"

definition session_rtc ::
  "vault_lib \<Rightarrow> vdraw \<Rightarrow> string \<Rightarrow> string \<Rightarrow> string \<Rightarrow> string \<Rightarrow> vault \<Rightarrow> vhost \<Rightarrow> rtc \<Rightarrow> vhost \<times> rtc \<times> vout list \<times> vcmd_error option" where
  "session_rtc lib r cmd vdir i signaling v h t =
     (if \<not> rtc_new t \<or> \<not> rtc_join t signaling i then (h, t, [], Some VPeer)
      else if cmd = ''pair'' then
        (case rtc_push lib r v (v_List ''/'' v) t (vh_vaults h vdir) of
           (t1, d1, Some e) \<Rightarrow> (put_vault vdir d1 h, t1, [], Some e)
         | (t1, d1, None) \<Rightarrow>
             ((put_vault vdir d1 h)\<lparr>vh_files := SaveSession lib vdir
                  \<lparr>SessionID = i, SignalingURL = signaling, ControllerToken = [], PairedAt = r_now r, LastSeen = r_now r\<rparr> (vh_files h)\<rparr>, t1,
              [OutLine ''paired and pushed vault entries''], None))
      else if cmd = ''sync'' then
        (case rtc_push lib r v (v_List ''/'' v) t (vh_vaults h vdir) of
           (t1, d1, Some e) \<Rightarrow> (put_vault vdir d1 h, t1, [], Some e)
         | (t1, d1, None) \<Rightarrow> (put_vault vdir d1 h, t1, [OutLine ''synced vault entries''], None))
      else if cmd = ''unmount'' then
        (case rtc_request r ''UNMOUNT'' t of (t1, ok) \<Rightarrow> (h, t1, [], if ok then None else Some VPeer))
      else (case rtc_request r ''STATUS'' t of
              (t1, False) \<Rightarrow> (h, t1, [], Some VPeer)
            | (t1, True) \<Rightarrow>
                (case rtc_answer t1 of None \<Rightarrow> (h, t1, [], Some VTimeout) | Some m \<Rightarrow> (h, t1, [OutStatus (r_Result m)], None))))"

definition session_cmd ::
  "('hs, 'cs) outer \<Rightarrow> vault_lib \<Rightarrow> vdraw \<Rightarrow> string \<Rightarrow> string \<Rightarrow> string \<Rightarrow> string \<Rightarrow> string \<Rightarrow> string \<Rightarrow> vault \<Rightarrow> ('hs, 'cs) vstate \<Rightarrow> ('hs, 'cs) vresult" where
  "session_cmd k lib r cmd vdir via secret i signaling v s =
     (let (h, w, t) = s
      in if via = ''ws'' then (case session_ws k lib r cmd vdir secret i signaling v h w of (h1, w1, out, e) \<Rightarrow> ((h1, w1, t), out, e))
         else if cmd = ''lock'' then (s, [], Some VNeedsWs)
         else (case session_rtc lib r cmd vdir i signaling v h t of (h1, t1, out, e) \<Rightarrow> ((h1, w, t1), out, e)))"

definition vault_cmd ::
  "('hs, 'cs) outer \<Rightarrow> vault_lib \<Rightarrow> (int \<Rightarrow> string) \<Rightarrow> vdraw \<Rightarrow> string \<Rightarrow> string \<Rightarrow> string \<Rightarrow> string \<Rightarrow> string list \<Rightarrow> vault \<Rightarrow>
     ('hs, 'cs) vstate \<Rightarrow> ('hs, 'cs) vresult" where
  "vault_cmd k lib rfc3339 r vdir passwordFile via secret args v s =
     (let (h, w, t) = s; cmd = hd args; rest = tl args
      in if cmd = ''rekey'' then (case runVaultRekey lib r vdir passwordFile v h of (h1, out, e) \<Rightarrow> ((h1, w, t), out, e))
         else if cmd = ''init'' then (case vault_init vdir passwordFile h of (h1, out) \<Rightarrow> ((h1, w, t), out, None))
         else if cmd = ''add'' then
           (case rest of
              hp # fp # _ \<Rightarrow> (case vault_add lib r vdir hp fp v h of (h1, out, e) \<Rightarrow> ((h1, w, t), out, e))
            | _ \<Rightarrow> (s, [], Some (VUsage cmd)))
         else if cmd = ''ls'' then (s, vault_ls (case rest of [] \<Rightarrow> ''/'' | p # _ \<Rightarrow> p) v, None)
         else if cmd = ''rm'' then
           (case rest of
              [] \<Rightarrow> (s, [], Some (VUsage cmd))
            | p # _ \<Rightarrow> ((put_vault vdir (snd (v_Remove lib (r_fresh r) (r_n2 r) p v (vh_vaults h vdir))) h, w, t), [], None))
         else if cmd \<in> {''pair'', ''lock'', ''unmount'', ''sync'', ''status''} then
           (case rest of
              i # opts \<Rightarrow>
                session_cmd k lib r cmd vdir via secret i
                  (if cmd = ''pair'' then signaling_arg (defaultSignalingURL (vh_env h)) opts else signaling_for lib vdir i opts h) v s
            | [] \<Rightarrow>
                if cmd = ''status'' then
                  (s, map (\<lambda>x. OutLine (SessionID x @ '' '' @ SignalingURL x @ '' '' @ rfc3339 (LastSeen x))) (ListSessions lib vdir (vh_files h)), None)
                else (s, [], Some (VUsage cmd)))
         else (s, [], Some (VUnknown cmd)))"

definition runVault ::
  "('hs, 'cs) outer \<Rightarrow> vault_lib \<Rightarrow> (int \<Rightarrow> string) \<Rightarrow> vdraw \<Rightarrow> string list \<Rightarrow> ('hs, 'cs) vstate \<Rightarrow> ('hs, 'cs) vresult" where
  "runVault k lib rfc3339 r args s =
     (case flag_parse vault_flags [] args of
        Inl e \<Rightarrow> (s, [], Some (VFlag e))
      | Inr (vals, []) \<Rightarrow> (s, [], Some (VUsage []))
      | Inr (vals, rest) \<Rightarrow>
          let (h, w, t) = s;
              vdir = flag_string ''vault-dir'' (defaultVaultDir (vh_env h) (vh_home h)) vals;
              passwordFile = flag_string ''password-file'' [] vals;
              (pass, tty) = provided passwordFile (flag_bool ''password-stdin'' False vals) (readVaultAuthMode vdir (vh_files h)) h
          in (case v_Open lib (r_fresh r) pass (vh_vaults h vdir) of
                (Opened v, d) \<Rightarrow>
                  (case vault_cmd k lib rfc3339 r vdir passwordFile (flag_string ''transport'' (defaultVaultTransport (vh_env h)) vals)
                          (flag_string ''claim-secret'' [] vals) rest v (put_vault vdir d (h\<lparr>vh_tty := tty\<rparr>), w, t) of
                     (s1, out, e) \<Rightarrow> (s1, warnWeakVaultKey v vdir @ out, e))
              | (o1, d) \<Rightarrow> ((put_vault vdir d (h\<lparr>vh_tty := tty\<rparr>), w, t), [], Some (VOpen o1))))"

section \<open>Which vault a command works on\<close>

lemma put_vault_simps [simp]:
  "vh_vaults (put_vault vdir d h) = (vh_vaults h)(vdir := d)" "vh_files (put_vault vdir d h) = vh_files h"
  "vh_env (put_vault vdir d h) = vh_env h" "vh_home (put_vault vdir d h) = vh_home h" "vh_tty (put_vault vdir d h) = vh_tty h"
  "vh_mode (put_vault vdir d h) = vh_mode h" "vh_line (put_vault vdir d h) = vh_line h"
  by (simp_all add: put_vault_def)

lemma session_ws_vaults: "x \<noteq> vdir \<Longrightarrow> vh_vaults (fst (session_ws k lib r cmd vdir secret i signaling v h w)) x = vh_vaults h x"
  by (simp add: session_ws_def Let_def split: prod.split option.split sum.split)

lemma session_rtc_vaults: "x \<noteq> vdir \<Longrightarrow> vh_vaults (fst (session_rtc lib r cmd vdir i signaling v h t)) x = vh_vaults h x"
  by (simp add: session_rtc_def split: prod.split option.split bool.split)

lemma session_cmd_vaults:
  "x \<noteq> vdir \<Longrightarrow> vh_vaults (fst (fst (session_cmd k lib r cmd vdir via secret i signaling v (h, w, t)))) x = vh_vaults h x"
  by (simp add: session_cmd_def Let_def case_prod_unfold session_ws_vaults session_rtc_vaults)

lemma vault_cmd_vaults:
  assumes "x \<noteq> vdir"
  shows "vh_vaults (fst (fst (vault_cmd k lib rfc r vdir pf via secret args v (h, w, t)))) x = vh_vaults h x"
proof -
  have "vh_vaults (fst (runVaultRekey lib r vdir pf v h)) x = vh_vaults h x" "vh_vaults (fst (vault_init vdir pf h)) x = vh_vaults h x"
    "vh_vaults (fst (vault_add lib r vdir hp fp v h)) x = vh_vaults h x" for hp fp
    using assms by (auto simp: runVaultRekey_def vault_init_def vault_add_def Let_def split: sum.split option.split prod.split bool.split)
  then show ?thesis
    using assms session_cmd_vaults [OF assms, where h = h]
    by (auto simp: vault_cmd_def Let_def case_prod_unfold split: list.split)
qed

text \<open>
  Flags behind the subcommand do not reach it. Whatever stands behind a first argument that is
  no flag, the command works on the default vault: every other vault directory is left as it
  was. In particular \<open>valetfs vault rekey --vault-dir D\<close>, what the warning about an unprotected
  vault at \<open>D\<close> tells its reader to run, does nothing to \<open>D\<close>.
\<close>

theorem trailing_flags_ignored:
  assumes "hd cmd \<noteq> CHR ''-''" and "x \<noteq> defaultVaultDir (vh_env h) (vh_home h)"
  shows "vh_vaults (fst (fst (runVault k lib rfc r (cmd # args) (h, w, t)))) x = vh_vaults h x"
proof -
  have "flag_parse vault_flags [] (cmd # args) = Inr ([], cmd # args)" by (rule flag_parse_stops) (use assms(1) in blast)
  then show ?thesis
    using assms(2)
    by (auto simp: runVault_def flag_string_def flag_last_def Let_def case_prod_unfold vault_cmd_vaults [OF assms(2)] split: vopen.split)
qed

section \<open>Where the passphrase comes from\<close>

lemma mode_written:
  "readVaultAuthMode vdir (writeVaultAuthMode vdir ''none'' fs) = ''none''"
  "readVaultAuthMode vdir (writeVaultAuthMode vdir ''passphrase'' fs) = ''passphrase''"
proof -
  have "trim_space (''none'' @ [CHR 0x0A]) = ''none''" "trim_space (''passphrase'' @ [CHR 0x0A]) = ''passphrase''" by code_simp+
  then show "readVaultAuthMode vdir (writeVaultAuthMode vdir ''none'' fs) = ''none''"
    "readVaultAuthMode vdir (writeVaultAuthMode vdir ''passphrase'' fs) = ''passphrase''"
    by (simp_all add: readVaultAuthMode_def writeVaultAuthMode_def)
qed



section \<open>An example\<close>

definition demo_vhost :: vhost where
  "demo_vhost = \<lparr>vh_env = \<lambda>_. [], vh_home = None, vh_files = [], vh_mode = \<lambda>_. 384, vh_vaults = \<lambda>_. demo_disk, vh_tty = Some [Some ''pw''], vh_line = []\<rparr>"

definition demo_vdraw :: vdraw where
  "demo_vdraw = \<lparr>r_fresh = ''salt'', r_n1 = demo_nonce, r_n2 = demo_nonce, r_nonces = \<lambda>_. demo_nonce, r_salt = ''fresh'', r_uu = \<lambda>_. ''u'',
     r_vtok = ''v'', r_priv = ''c'', r_conn = 2, r_now = 8\<rparr>"

definition demo_rtc :: rtc where
  "demo_rtc = \<lparr>rtc_new = False, rtc_join = \<lambda>_ _. False, rtc_send = \<lambda>_. False, rtc_frames = [], rtc_sent = []\<rparr>"

definition demo_vault_cmd :: "string list \<Rightarrow> vhost \<Rightarrow> (demo_hs, nat) vresult" where
  "demo_vault_cmd args h = runVault demo_outer demo_lib itoa demo_vdraw args (h, demo_world [], demo_rtc)"

theorem trailing_flags_ignored_witness:
  "vh_vaults (fst (fst (demo_vault_cmd [''rekey'', ''--vault-dir'', ''/v''] demo_vhost))) ''/v'' = demo_disk"
proof -
  have "hd ''rekey'' \<noteq> CHR ''-''" "''/v'' \<noteq> defaultVaultDir (vh_env demo_vhost) (vh_home demo_vhost)"
    by (simp_all add: defaultVaultDir_def demo_vhost_def)
  from trailing_flags_ignored [OF this] show ?thesis unfolding demo_vault_cmd_def by (simp add: demo_vhost_def)
qed


definition demo_open :: vault where
  "demo_open = \<lparr>mf = [(''/env'', demo_entry)], vpass = ''old'', vlegacy = False, vunprotected = False, saltOverride = None\<rparr>"

lemma demo_opened: "v_Open demo_lib ''salt'' ''old'' (fst (snd demo_added)) = (Opened demo_open, fst (snd demo_added))"
  by code_simp

definition demo_rekey_host :: vhost where
  "demo_rekey_host = demo_vhost\<lparr>vh_env := (\<lambda>n. if n = ''VALETFS_VAULT_PASSWORD'' then ''old'' else if n = ''VALETFS_VAULT_NEW_PASSWORD'' then ''new'' else []),
     vh_vaults := \<lambda>_. fst (snd demo_added)\<rparr>"

lemma demo_rekey_ok: "snd (snd (demo_vault_cmd [''rekey''] demo_rekey_host)) = None"
  by code_simp

lemma demo_open_ok: "vault_view demo_lib demo_open (fst (snd demo_added)) ''/env'' = Some ''s3cret''"
  "vault_ok demo_lib demo_open (fst (snd demo_added))" "no_collision demo_lib demo_open (fst (snd demo_added))"
proof -
  show v: "vault_view demo_lib demo_open (fst (snd demo_added)) ''/env'' = Some ''s3cret''" by code_simp
  have "ventry_ok demo_lib ''/env'' demo_entry" by code_simp
  moreover have m: "map_of (mf demo_open) p = Some e \<longleftrightarrow> p = ''/env'' \<and> e = demo_entry" for p e by (auto simp: demo_open_def)
  ultimately show "vault_ok demo_lib demo_open (fst (snd demo_added))"
    using v by (auto simp: vault_ok_def m) (auto simp: demo_open_def demo_entry_def demo_lib_def)
  have "vault_view demo_lib demo_open (fst (snd demo_added)) p = Some x \<Longrightarrow> p = ''/env''" for p x
    by (auto simp: vault_view_def m demo_open_def split: option.splits if_splits)
  then have "vault_view demo_lib demo_open (fst (snd demo_added)) p = Some x \<Longrightarrow> x = ''s3cret''" for p x using v by fastforce
  then show "no_collision demo_lib demo_open (fst (snd demo_added))" unfolding no_collision_def by blast
qed


end
