(* ===== verification/Splice.thy ===== *)
theory Splice
  imports MemFS GoJson
begin

text \<open>
  Writing into the middle of a byte slice and reading from it, as the FUSE and the WebDAV front
  ends both do: the file is read whole, grown with zero bytes where the write ends behind it,
  and overwritten at the offset. Slicing out of range panics in Go; that is the value \<open>None\<close>.
\<close>

definition splice :: "bytes \<Rightarrow> int \<Rightarrow> bytes \<Rightarrow> bytes option" where
  "splice data off p =
     (let last = wrap64 (off + int (length p));
          d = (if int (length data) < last then data @ zeros (nat last - length data) else data)
      in if off < 0 \<or> int (length d) < off then None
         else Some (take (nat off) d @ take (length d - nat off) p @ drop (nat off + length p) d))"

definition slice_from :: "bytes \<Rightarrow> int \<Rightarrow> bytes option" where
  "slice_from data off = (if off < 0 \<or> int (length data) < off then None else Some (drop (nat off) data))"

text \<open>The specification: a file as a function from positions, zero behind its end.\<close>

definition byte_at :: "bytes \<Rightarrow> nat \<Rightarrow> char" where
  "byte_at b i = (if i < length b then b ! i else CHR 0x00)"

lemma byte_at_zeros: "byte_at (data @ zeros k) i = byte_at data i"
  by (simp add: byte_at_def zeros_def nth_append)

lemma byte_at_overwrite:
  assumes "o1 + length p \<le> length d"
  shows "byte_at (take o1 d @ p @ drop (o1 + length p) d) i =
    (if o1 \<le> i \<and> i < o1 + length p then p ! (i - o1) else byte_at d i)"
proof -
  let ?r = "take o1 d @ p @ drop (o1 + length p) d"
  have len: "length ?r = length d" using assms by simp
  consider "i < o1" | "o1 \<le> i" "i < o1 + length p" | "o1 + length p \<le> i" "i < length d" | "length d \<le> i" by linarith
  then show ?thesis
  proof cases
    case 3
    then have "\<not> i - o1 < length p" "\<not> i < o1" by linarith+
    then have "?r ! i = d ! (o1 + length p + (i - o1 - length p))" using 3 assms by (simp add: nth_append)
    then show ?thesis using 3 len by (simp add: byte_at_def)
  next
    case 2
    then have "i - o1 < length p" "\<not> i < o1" by linarith+
    then show ?thesis using 2 assms len by (simp add: byte_at_def nth_append)
  qed (use assms len in \<open>simp_all add: byte_at_def nth_append\<close>)
qed

lemma splice_spec:
  assumes "0 \<le> off" and "off + int (length p) < 2 ^ 63"
  shows "\<exists>d. splice data off p = Some d \<and> length d = max (length data) (nat off + length p) \<and>
    (\<forall>i. byte_at d i = (if nat off \<le> i \<and> i < nat off + length p then p ! (i - nat off) else byte_at data i))"
proof -
  let ?n = "nat off + length p"
  let ?d = "data @ zeros (?n - length data)"
  have l: "wrap64 (off + int (length p)) = int ?n" using assms by (simp add: wrap64_id)
  have d: "(if int (length data) < int ?n then data @ zeros (nat (int ?n) - length data) else data) = ?d"
    using assms(1) by (auto simp: zeros_def nat_add_distrib)
  have len: "length ?d = max (length data) ?n" by simp
  then have le: "nat off + length p \<le> length ?d" by simp
  let ?r = "take (nat off) ?d @ p @ drop ?n ?d"
  have "\<not> int (length ?d) < off" using assms(1) len by linarith
  moreover have "take (length ?d - nat off) p = p" using le by simp
  ultimately have "splice data off p = Some ?r" using assms(1) unfolding splice_def l Let_def d by simp
  moreover have "length ?r = max (length data) ?n" by simp
  moreover have "byte_at ?r i = (if nat off \<le> i \<and> i < ?n then p ! (i - nat off) else byte_at data i)" for i
    unfolding byte_at_overwrite [OF le] byte_at_zeros ..
  ultimately show ?thesis by blast
qed

text \<open>Appending at the end is concatenation, and writing everything at the start replaces a prefix.\<close>

lemma splice_append:
  assumes "int (length data) + int (length p) < 2 ^ 63"
  shows "splice data (int (length data)) p = Some (data @ p)"
  using assms by (simp add: splice_def Let_def wrap64_id zeros_def nat_add_distrib)

lemma slice_from_in: "0 \<le> off \<Longrightarrow> off \<le> int (length d) \<Longrightarrow> slice_from d off = Some (drop (nat off) d)"
  by (simp add: slice_from_def)

end
