(* ===== verification/Fuse.thy ===== *)
theory Fuse
  imports Splice
begin

unbundle bit_operations_syntax

text \<open>
  The FUSE front end of \<open>internal/vfs/mount_linux.go\<close>: the callbacks the kernel's requests are
  answered with, each over the in-memory file system. A callback returns a count or a negated
  error number. The kernel's buffer is its length; what \<open>Readdir\<close> passes to \<open>fill\<close> is fed to a
  function on the caller's state. User and group are parameters.
\<close>

datatype errno = ENOENT | EIO | ENOSPC

datatype fuse_ret = Ret int | Err errno | Panic

record fuse_stat =
  st_mode :: "32 word"
  st_nlink :: int
  st_size :: int
  st_atim :: time
  st_mtim :: time
  st_ctim :: time
  st_uid :: int
  st_gid :: int

definition S_IFDIR :: "32 word" where "S_IFDIR = 0x4000"
definition S_IFREG :: "32 word" where "S_IFREG = 0x8000"

definition zero_stat :: fuse_stat where
  "zero_stat = \<lparr>st_mode = 0, st_nlink = 0, st_size = 0, st_atim = 0, st_mtim = 0, st_ctim = 0, st_uid = 0, st_gid = 0\<rparr>"

definition fillStat :: "int \<Rightarrow> int \<Rightarrow> time \<Rightarrow> fuse_stat \<Rightarrow> node \<Rightarrow> memfs \<Rightarrow> string \<Rightarrow> fuse_stat" where
  "fillStat uid gid now st n m p =
     (let st1 =
        (if isDir n then st\<lparr>st_mode := S_IFDIR OR 0x1ED, st_nlink := 2\<rparr>
         else let st' = st\<lparr>st_mode := S_IFREG OR 0x180, st_nlink := 1\<rparr>
              in (case Read m p of Inr b \<Rightarrow> st'\<lparr>st_size := int (length b)\<rparr> | Inl _ \<Rightarrow> st'))
      in st1\<lparr>st_atim := now, st_mtim := modTime n, st_ctim := modTime n, st_uid := uid, st_gid := gid\<rparr>)"

definition fuse_Getattr :: "int \<Rightarrow> int \<Rightarrow> time \<Rightarrow> memfs \<Rightarrow> string \<Rightarrow> fuse_stat \<Rightarrow> fuse_stat \<times> fuse_ret" where
  "fuse_Getattr uid gid now m p st =
     (case Stat m p of
        Inl _ \<Rightarrow> (st, Err ENOENT)
      | Inr n \<Rightarrow> (fillStat uid gid now st n m p, Ret 0))"

fun fill_entries ::
  "int \<Rightarrow> int \<Rightarrow> time \<Rightarrow> memfs \<Rightarrow> string \<Rightarrow> ('b \<Rightarrow> string \<Rightarrow> fuse_stat option \<Rightarrow> 'b \<times> bool) \<Rightarrow> string list \<Rightarrow> 'b \<Rightarrow> 'b" where
  "fill_entries uid gid now m p fill [] acc = acc"
| "fill_entries uid gid now m p fill (name # names) acc =
     (let st = (case Stat m (path_join [p, name]) of
                  Inl _ \<Rightarrow> zero_stat
                | Inr n \<Rightarrow> fillStat uid gid now zero_stat n m (path_join [p, name]));
          (acc', more) = fill acc name (Some st)
      in if more then fill_entries uid gid now m p fill names acc' else acc')"

definition fuse_Readdir ::
  "int \<Rightarrow> int \<Rightarrow> time \<Rightarrow> memfs \<Rightarrow> string \<Rightarrow> ('b \<Rightarrow> string \<Rightarrow> fuse_stat option \<Rightarrow> 'b \<times> bool) \<Rightarrow> 'b \<Rightarrow> 'b \<times> fuse_ret" where
  "fuse_Readdir uid gid now m p fill acc =
     (case List_fs m p of
        Inl _ \<Rightarrow> (acc, Err ENOENT)
      | Inr names \<Rightarrow>
          (let acc1 = fst (fill acc ''.'' None); acc2 = fst (fill acc1 ''..'' None)
           in (fill_entries uid gid now m p fill names acc2, Ret 0)))"

definition fuse_Open :: "memfs \<Rightarrow> string \<Rightarrow> fuse_ret" where
  "fuse_Open m p = (case Stat m p of Inl _ \<Rightarrow> Err ENOENT | Inr _ \<Rightarrow> Ret 0)"

text \<open>\<open>Read\<close> into a buffer of \<open>cap\<close> bytes: the count, and the bytes copied.\<close>

definition fuse_Read :: "memfs \<Rightarrow> string \<Rightarrow> nat \<Rightarrow> int \<Rightarrow> fuse_ret \<times> bytes" where
  "fuse_Read m p cap off =
     (case Read m p of
        Inl _ \<Rightarrow> (Err ENOENT, [])
      | Inr data \<Rightarrow>
          if off \<ge> int (length data) then (Ret 0, [])
          else (case slice_from data off of
                  None \<Rightarrow> (Panic, [])
                | Some d \<Rightarrow> (Ret (int (length (take cap d))), take cap d)))"

definition fuse_Write :: "time \<Rightarrow> memfs \<Rightarrow> string \<Rightarrow> bytes \<Rightarrow> int \<Rightarrow> memfs \<times> fuse_ret" where
  "fuse_Write now m p buff off =
     (let existing = (case Read m p of Inl _ \<Rightarrow> [] | Inr b \<Rightarrow> b)
      in (case splice existing off buff of
            None \<Rightarrow> (m, Panic)
          | Some data \<Rightarrow>
              (case Write now m p data 0x180 of
                 (m', None) \<Rightarrow> (m', Ret (int (length buff)))
               | (m', Some e) \<Rightarrow> (m', if e = ErrQuota then Err ENOSPC else Err EIO))))"

definition fuse_Create :: "time \<Rightarrow> memfs \<Rightarrow> string \<Rightarrow> memfs \<times> fuse_ret" where
  "fuse_Create now m p =
     (case Write now m p [] 0x180 of
        (m', None) \<Rightarrow> (m', Ret 0)
      | (m', Some e) \<Rightarrow> (m', if e = ErrExists then Ret 0 else Err EIO))"

definition fuse_Truncate :: "time \<Rightarrow> memfs \<Rightarrow> string \<Rightarrow> int \<Rightarrow> memfs \<times> fuse_ret" where
  "fuse_Truncate now m p len =
     (case Read m p of
        Inl _ \<Rightarrow> (m, Err ENOENT)
      | Inr data \<Rightarrow>
          if int (length data) > len \<and> len < 0 then (m, Panic)
          else let data' = (if int (length data) > len then take (nat len) data
                            else data @ zeros (nat len - length data))
               in (case Write now m p data' 0x180 of
                     (m', None) \<Rightarrow> (m', Ret 0)
                   | (m', Some _) \<Rightarrow> (m', Err EIO)))"

definition fuse_Unlink :: "time \<Rightarrow> memfs \<Rightarrow> string \<Rightarrow> memfs \<times> fuse_ret" where
  "fuse_Unlink now m p = (case Remove now m p of (m', None) \<Rightarrow> (m', Ret 0) | (m', Some _) \<Rightarrow> (m', Err ENOENT))"

definition fuse_Mkdir :: "time \<Rightarrow> memfs \<Rightarrow> string \<Rightarrow> memfs \<times> fuse_ret" where
  "fuse_Mkdir now m p = (case Mkdir now m p 0x1ED of (m', None) \<Rightarrow> (m', Ret 0) | (m', Some _) \<Rightarrow> (m', Err EIO))"

definition fuse_Rmdir :: "time \<Rightarrow> memfs \<Rightarrow> string \<Rightarrow> memfs \<times> fuse_ret" where
  "fuse_Rmdir now m p = (case Remove now m p of (m', None) \<Rightarrow> (m', Ret 0) | (m', Some _) \<Rightarrow> (m', Err EIO))"

section \<open>What the callbacks do to a file\<close>

text \<open>The content a path has, empty where it names no file.\<close>

definition content :: "memfs \<Rightarrow> string \<Rightarrow> bytes" where
  "content m p = (case Read m p of Inl _ \<Rightarrow> [] | Inr b \<Rightarrow> b)"

text \<open>A write of the file system that failed: what is left.\<close>

lemma Write_failed:
  assumes inv: "fs_inv m" and w: "Write now m p data mode = (m', Some e)"
  shows "if e = ErrQuota \<and> (\<exists>b. Read m p = Inr b)
    then \<exists>parts. normalize_fs p = Inr parts \<and> fs_view m' = (fs_view m)(parts \<mapsto> EFile (zeroBytes (content m p)))
    else m' = m"
  using w
proof (cases rule: Write_cases)
  case (refused e)
  then show ?thesis by auto
next
  case (accepted parts parent nm old)
  note wf = Write_file [OF accepted, of now data mode]
  have q: "over_quota m old data" "e = ErrQuota" using wf w by (auto split: if_splits)
  have ne: "parts \<noteq> []" "nm = last parts" using accepted(2) by (auto simp: walkParent_Inr)
  show ?thesis
  proof (cases old)
    case None
    then have "walk_node (root m) parts = Inl ErrNotFound"
      using accepted walk_node_append [of "root m" "butlast parts" "[last parts]"] ne by (auto simp: walkParent_Inr)
    then have "Read m p = Inl ErrNotFound" using accepted(1) by (simp add: Read_def walk_def)
    then show ?thesis using None wf w q by simp
  next
    case (Some n)
    then have "walk_node (root m) parts = Inr n" "\<not> isDir n"
      using accepted walk_node_append [of "root m" "butlast parts" "[last parts]"] ne by (auto simp: walkParent_Inr)
    then have rd: "Read m p = Inr (ndata n)" using accepted(1) by (simp add: Read_def walk_def)
    then have v: "fs_view m parts = Some (EFile (ndata n))" using Read_iff [OF accepted(1)] by blast
    have "quota m > 0" "used m - int (length (ndata n)) + int (length data) > quota m"
      using q(1) Some by (auto simp: over_quota_def old_size_def)
    from over_quota_view [OF accepted(1) v ne(1) this, of now mode] show ?thesis
      using w rd accepted(1) q(2) by (auto simp: content_def)
  qed
qed



end
