(* ===== verification/WebDav.thy ===== *)
theory WebDav
  imports Fuse
begin

text \<open>
  The WebDAV front end of \<open>internal/vfs/webdav.go\<close>: the file system and the open files it
  hands to the WebDAV handler, over the in-memory file system. An open file is its name, its
  offset and whether it is a directory, so that the content is looked up again on every call.
  The flags of \<open>OpenFile\<close> are the two it looks at.
\<close>

datatype wd_error = NotExist | Exist | Invalid | Raw fs_error | IsADirectory | AtEOF | OutOfRange

record webdavFile =
  wname :: string
  woffset :: int
  wisDir :: bool

record nodeInfo =
  ni_node :: node
  ni_size :: int

fun mapErr :: "fs_error \<Rightarrow> wd_error" where
  "mapErr ErrNotFound = NotExist"
| "mapErr ErrExists = Exist"
| "mapErr ErrInvalidPath = Invalid"
| "mapErr e = Raw e"

definition wd_Mkdir :: "time \<Rightarrow> memfs \<Rightarrow> string \<Rightarrow> filemode \<Rightarrow> memfs \<times> wd_error option" where
  "wd_Mkdir now m name perm = map_prod id (map_option Raw) (Mkdir now m name perm)"

definition wd_create :: "time \<Rightarrow> memfs \<Rightarrow> string \<Rightarrow> filemode \<Rightarrow> memfs \<times> fs_error option" where
  "wd_create now m name perm =
     (let dir = path_dir name;
          m1 = (if dir \<noteq> '''' \<and> dir \<noteq> ''.'' \<and> dir \<noteq> ''/'' then fst (MkdirAll now m dir 0x1C0) else m)
      in Write now m1 name [] perm)"

definition wd_OpenFile ::
  "time \<Rightarrow> memfs \<Rightarrow> string \<Rightarrow> bool \<Rightarrow> bool \<Rightarrow> filemode \<Rightarrow> memfs \<times> (wd_error + webdavFile)" where
  "wd_OpenFile now m name O_CREATE O_TRUNC perm =
     (case (case Stat m name of
              Inr n \<Rightarrow> (m, None, Some n)
            | Inl e \<Rightarrow>
                if \<not> O_CREATE then (m, Some (mapErr e), None)
                else (case wd_create now m name perm of
                        (m1, Some e1) \<Rightarrow> (m1, Some (mapErr e1), None)
                      | (m1, None) \<Rightarrow> (m1, None, (case Stat m1 name of Inr n \<Rightarrow> Some n | Inl _ \<Rightarrow> None)))) of
        (m1, Some e, _) \<Rightarrow> (m1, Inl e)
      | (m1, None, n) \<Rightarrow>
          let f = \<lparr>wname = name, woffset = 0, wisDir = (n \<noteq> None \<and> isDir (the n))\<rparr>
          in if O_TRUNC \<and> n \<noteq> None \<and> \<not> isDir (the n)
             then (case Write now m1 name [] perm of
                     (m2, Some e) \<Rightarrow> (m2, Inl (mapErr e))
                   | (m2, None) \<Rightarrow> (m2, Inr f))
             else (m1, Inr f))"

definition wd_RemoveAll :: "time \<Rightarrow> memfs \<Rightarrow> string \<Rightarrow> memfs \<times> fs_error option" where
  "wd_RemoveAll now m name = Remove now m name"

definition wd_Rename :: "time \<Rightarrow> memfs \<Rightarrow> string \<Rightarrow> string \<Rightarrow> memfs \<times> fs_error option" where
  "wd_Rename now m oldName newName =
     (case Read m oldName of
        Inl e \<Rightarrow> (m, Some e)
      | Inr data \<Rightarrow>
          (case Write now m newName data 0x180 of
             (m1, Some e) \<Rightarrow> (m1, Some e)
           | (m1, None) \<Rightarrow> Remove now m1 oldName))"

definition info_of :: "memfs \<Rightarrow> string \<Rightarrow> node \<Rightarrow> nodeInfo" where
  "info_of m p n =
     \<lparr>ni_node = n, ni_size = (if isDir n then 0 else (case Read m p of Inr b \<Rightarrow> int (length b) | Inl _ \<Rightarrow> 0))\<rparr>"

definition wd_Stat :: "memfs \<Rightarrow> string \<Rightarrow> wd_error + nodeInfo" where
  "wd_Stat m name = (case Stat m name of Inl e \<Rightarrow> Inl (mapErr e) | Inr n \<Rightarrow> Inr (info_of m name n))"

section \<open>Open files\<close>

text \<open>\<open>Read\<close> into a buffer of \<open>cap\<close> bytes.\<close>

definition wf_Read :: "memfs \<Rightarrow> nat \<Rightarrow> webdavFile \<Rightarrow> webdavFile \<times> (wd_error + bytes)" where
  "wf_Read m cap f =
     (if wisDir f then (f, Inl IsADirectory)
      else (case Read m (wname f) of
              Inl e \<Rightarrow> (f, Inl (mapErr e))
            | Inr data \<Rightarrow>
                if woffset f \<ge> int (length data) then (f, Inl AtEOF)
                else (case slice_from data (woffset f) of
                        None \<Rightarrow> (f, Inl OutOfRange)
                      | Some d \<Rightarrow> (f\<lparr>woffset := woffset f + int (length (take cap d))\<rparr>, Inr (take cap d)))))"

datatype whence = SeekStart | SeekCurrent | SeekEnd

definition wf_Seek :: "memfs \<Rightarrow> int \<Rightarrow> whence \<Rightarrow> webdavFile \<Rightarrow> webdavFile" where
  "wf_Seek m off w f =
     f\<lparr>woffset := (case w of
          SeekStart \<Rightarrow> off
        | SeekCurrent \<Rightarrow> wrap64 (woffset f + off)
        | SeekEnd \<Rightarrow> wrap64 (int (length (content m (wname f))) + off))\<rparr>"

definition wf_Write :: "time \<Rightarrow> memfs \<Rightarrow> bytes \<Rightarrow> webdavFile \<Rightarrow> memfs \<times> webdavFile \<times> wd_error option" where
  "wf_Write now m p f =
     (case splice (content m (wname f)) (woffset f) p of
        None \<Rightarrow> (m, f, Some OutOfRange)
      | Some data \<Rightarrow>
          (case Write now m (wname f) data 0x180 of
             (m', Some e) \<Rightarrow> (m', f, Some (Raw e))
           | (m', None) \<Rightarrow> (m', f\<lparr>woffset := woffset f + int (length p)\<rparr>, None)))"

definition wf_Readdir :: "memfs \<Rightarrow> int \<Rightarrow> webdavFile \<Rightarrow> wd_error + nodeInfo list" where
  "wf_Readdir m cnt f =
     (case List_fs m (wname f) of
        Inl e \<Rightarrow> Inl (mapErr e)
      | Inr names \<Rightarrow>
          let out = List.map_filter (\<lambda>name.
                let full = path_join [wname f, name]
                in (case Stat m full of Inl _ \<Rightarrow> None | Inr n \<Rightarrow> Some (info_of m full n))) names
          in Inr (if 0 < cnt \<and> cnt < int (length out) then take (nat cnt) out else out))"

definition wf_Stat :: "memfs \<Rightarrow> webdavFile \<Rightarrow> wd_error + nodeInfo" where
  "wf_Stat m f = wd_Stat m (wname f)"

section \<open>Uploading and downloading\<close>

text \<open>The handler copies a request body into an open file chunk by chunk, and a file out of it until the end.\<close>

fun put_chunks :: "time \<Rightarrow> bytes list \<Rightarrow> memfs \<Rightarrow> webdavFile \<Rightarrow> memfs \<times> webdavFile \<times> wd_error option" where
  "put_chunks now [] m f = (m, f, None)"
| "put_chunks now (c # cs) m f =
     (case wf_Write now m c f of
        (m', f', Some e) \<Rightarrow> (m', f', Some e)
      | (m', f', None) \<Rightarrow> put_chunks now cs m' f')"

fun get_all :: "nat \<Rightarrow> nat \<Rightarrow> memfs \<Rightarrow> webdavFile \<Rightarrow> (wd_error + bytes) option" where
  "get_all 0 cap m f = None"
| "get_all (Suc k) cap m f =
     (case wf_Read m cap f of
        (_, Inl AtEOF) \<Rightarrow> Some (Inr [])
      | (_, Inl e) \<Rightarrow> Some (Inl e)
      | (f', Inr b) \<Rightarrow> map_option (map_sum id (append b)) (get_all k cap m f'))"

lemma get_all_content:
  assumes rd: "Read m (wname f) = Inr b" and f: "\<not> wisDir f" and cap: "0 < cap"
  shows "0 \<le> woffset f \<Longrightarrow> woffset f \<le> int (length b) \<Longrightarrow> length b - nat (woffset f) < k \<Longrightarrow>
    get_all k cap m f = Some (Inr (drop (nat (woffset f)) b))"
  using rd f
proof (induction k arbitrary: f)
  case (Suc k)
  let ?o = "nat (woffset f)"
  show ?case
  proof (cases "woffset f \<ge> int (length b)")
    case True
    then show ?thesis using Suc.prems by (simp add: wf_Read_def)
  next
    case False
    let ?n = "min cap (length b - ?o)"
    let ?f = "f\<lparr>woffset := woffset f + int ?n\<rparr>"
    have r: "wf_Read m cap f = (?f, Inr (take cap (drop ?o b)))"
      using False Suc.prems by (simp add: wf_Read_def slice_from_in min.commute)
    have o: "nat (woffset ?f) = ?o + ?n" "0 \<le> woffset ?f" "woffset ?f \<le> int (length b)"
      using Suc.prems False by (simp_all add: nat_add_distrib)
    have "?o < length b" using Suc.prems(1) False by linarith
    then have "length b - (?o + ?n) < k" using Suc.prems(3) cap unfolding min_def by (cases "cap \<le> length b - ?o") simp_all
    then have "length b - nat (woffset ?f) < k" unfolding o(1) .
    moreover have "Read m (wname ?f) = Inr b" "\<not> wisDir ?f" using Suc.prems(4,5) by simp_all
    ultimately have "get_all k cap m ?f = Some (Inr (drop (nat (woffset ?f)) b))" by (rule Suc.IH [OF o(2,3)])
    moreover have "take cap (drop ?o b) @ drop (?o + ?n) b = drop ?o b"
    proof (cases "cap \<le> length b - ?o")
      case True
      then have "drop (?o + ?n) b = drop cap (drop ?o b)" by (simp add: add.commute)
      then show ?thesis by (metis append_take_drop_id)
    qed simp
    ultimately show ?thesis using r unfolding o(1) get_all.simps(2) by simp
  qed
qed simp

lemma wf_Write_append:
  assumes inv: "fs_inv m" and rd: "Read m (wname f) = Inr b" and off: "woffset f = int (length b)"
    and len: "int (length b + length p) < 2 ^ 63" and w: "wf_Write now m p f = (m', f', None)"
  shows "fs_inv m' \<and> wname f' = wname f \<and> woffset f' = int (length (b @ p)) \<and> Read m' (wname f) = Inr (b @ p) \<and>
    (\<forall>j. resolve_fs j \<noteq> resolve_fs (wname f) \<longrightarrow> read_opt m' j = read_opt m j)"
proof -
  have s: "splice (content m (wname f)) (woffset f) p = Some (b @ p)"
    using splice_append [of b p] len rd off by (simp add: content_def)
  obtain err where wr: "Write now m (wname f) (b @ p) 0x180 = (m', err)" and e: "err = None"
    and f': "f' = f\<lparr>woffset := woffset f + int (length p)\<rparr>"
    using w s by (auto simp: wf_Write_def split: option.splits prod.splits)
  note ok = wr [unfolded e]
  have "fs_inv m'" using fs_inv_Write [OF inv, of now "wname f" "b @ p" "0x180"] wr by simp
  moreover have "Read m' (wname f) = Inr (b @ p)" using mem.read_after_write [OF inv ok] by simp
  ultimately show ?thesis using mem.read_other [OF inv ok] off f' by simp
qed

lemma put_chunks_append:
  assumes "fs_inv m" and "Read m (wname f) = Inr b" and "woffset f = int (length b)"
    and "int (length b + length (concat cs)) < 2 ^ 63" and "put_chunks now cs m f = (m', f', None)"
  shows "fs_inv m' \<and> Read m' (wname f) = Inr (b @ concat cs) \<and>
    (\<forall>j. resolve_fs j \<noteq> resolve_fs (wname f) \<longrightarrow> read_opt m' j = read_opt m j)"
  using assms
proof (induction cs arbitrary: m f b)
  case (Cons c cs)
  obtain m1 f1 where w: "wf_Write now m c f = (m1, f1, None)" and r: "put_chunks now cs m1 f1 = (m', f', None)"
    using Cons.prems(5) by (auto split: prod.splits option.splits)
  have "int (length b + length c) < 2 ^ 63" using Cons.prems(4) by simp
  note one = wf_Write_append [OF Cons.prems(1-3) this w]
  then have "fs_inv m' \<and> Read m' (wname f1) = Inr ((b @ c) @ concat cs) \<and>
    (\<forall>j. resolve_fs j \<noteq> resolve_fs (wname f1) \<longrightarrow> read_opt m' j = read_opt m1 j)"
    using Cons.prems(4) r by (intro Cons.IH) simp_all
  then show ?case using one by simp
qed simp

text \<open>Creating the parents keeps every file.\<close>

lemma mkdir_all_no_file:
  "mkdir_all_node now mode parts cur = (cur', None) \<Longrightarrow> isDir cur \<Longrightarrow> prefix qs parts \<Longrightarrow> view cur qs \<noteq> Some (EFile b)"
proof (induction parts arbitrary: cur cur' qs)
  case (Cons p parts)
  show ?case
  proof (cases qs)
    case q: (Cons q qs')
    then show ?thesis using Cons by (auto split: option.splits if_splits prod.splits)
  qed (use Cons in simp)
qed simp

lemma MkdirAll_files:
  assumes inv: "fs_inv m" shows "read_opt (fst (MkdirAll now m p mode)) j = read_opt m j" "fs_inv (fst (MkdirAll now m p mode))"
proof -
  obtain m' err where m': "MkdirAll now m p mode = (m', err)" by (rule prod.exhaust)
  have "file_body m' = file_body m"
  proof (cases err)
    case None
    obtain parts where parts: "normalize_fs p = Inr parts" "fs_view m' = (\<lambda>qs. if prefix qs parts then Some EDir else fs_view m qs)"
      using MkdirAll_view [OF inv] m' None by blast
    then have "fs_view m qs \<noteq> Some (EFile b)" if "prefix qs parts" for qs b
      using m' None that inv mkdir_all_no_file [of now mode parts "root m"]
      by (auto simp: MkdirAll_def fs_view_def fs_inv_def split: prod.splits option.splits)
    then show ?thesis unfolding file_body_def parts(2)
      by (intro ext) (auto split: option.splits entry.splits)
  next
    case (Some e)
    then show ?thesis using MkdirAll_err m' by metis
  qed
  then show "read_opt (fst (MkdirAll now m p mode)) j = read_opt m j"
    using m' by (simp add: mem.rd_eq)
  show "fs_inv (fst (MkdirAll now m p mode))" by (rule fs_inv_MkdirAll [OF inv])
qed

text \<open>After \<open>OpenFile\<close> for writing the file is empty and every other file is as before.\<close>

lemma OpenFile_truncates:
  assumes inv: "fs_inv m" and o: "wd_OpenFile now m name True True perm = (m1, Inr f)" and f: "\<not> wisDir f"
  shows "fs_inv m1 \<and> wname f = name \<and> woffset f = 0 \<and> Read m1 name = Inr [] \<and>
    (\<forall>j. resolve_fs j \<noteq> resolve_fs name \<longrightarrow> read_opt m1 j = read_opt m j)"
proof -
  have step: "fs_inv y \<and> Read y name = Inr [] \<and> (\<forall>j. resolve_fs j \<noteq> resolve_fs name \<longrightarrow> read_opt y j = read_opt x j)"
    if x: "fs_inv x" and w: "Write now x name [] perm = (y, None)" for x y
    using mem.read_after_write [OF x w] mem.read_other [OF x w] fs_inv_Write [OF x, of now name "[]" perm] w by auto
  show ?thesis
  proof (cases "Stat m name")
    case (Inr n)
    then have "Write now m name [] perm = (m1, None)" "f = \<lparr>wname = name, woffset = 0, wisDir = False\<rparr>"
      using o f by (auto simp: wd_OpenFile_def Let_def split: if_splits prod.splits option.splits)
    then show ?thesis using step [OF inv] by simp
  next
    case (Inl e)
    define d where "d = (if path_dir name \<noteq> '''' \<and> path_dir name \<noteq> ''.'' \<and> path_dir name \<noteq> ''/''
      then fst (MkdirAll now m (path_dir name) 0x1C0) else m)"
    have d: "fs_inv d" "read_opt d j = read_opt m j" for j using MkdirAll_files [OF inv] inv by (simp_all add: d_def)
    obtain m2 where w: "Write now d name [] perm = (m2, None)"
      using o Inl by (auto simp: wd_OpenFile_def wd_create_def Let_def d_def [symmetric] split: prod.splits option.splits)
    note s2 = step [OF d(1) w]
    obtain n where n: "Stat m2 name = Inr n" "\<not> isDir n"
      using s2 by (auto simp: Read_def Stat_def split: sum.splits if_splits)
    have "Write now m2 name [] perm = (m1, None)" "f = \<lparr>wname = name, woffset = 0, wisDir = False\<rparr>"
      using o Inl w n by (auto simp: wd_OpenFile_def wd_create_def Let_def d_def [symmetric] split: prod.splits option.splits)
    then show ?thesis using step [of m2 m1] s2 d(2) by simp
  qed
qed

text \<open>
  C27: A file uploaded over WebDAV is what a download returns. When \<open>OpenFile\<close> for writing and the
  writes of all chunks succeed, the file holds their concatenation, every other file is as
  before, and a fresh open reads exactly these bytes to the end, for buffers of any size.
\<close>

theorem webdav_put_get:
  assumes m: "fs_reach q m" and o: "wd_OpenFile now m name True True perm = (m1, Inr f)" and f: "\<not> wisDir f"
    and len: "int (length (concat cs)) < 2 ^ 63" and put: "put_chunks now cs m1 f = (m2, f', None)" and cap: "0 < cap"
  shows "Read m2 name = Inr (concat cs) \<and>
    (\<forall>j. resolve_fs j \<noteq> resolve_fs name \<longrightarrow> read_opt m2 j = read_opt m j) \<and>
    (\<exists>g. wd_OpenFile now m2 name False False perm = (m2, Inr g) \<and>
       get_all (Suc (length (concat cs))) cap m2 g = Some (Inr (concat cs)))"
proof -
  have inv: "fs_inv m" using fs_reach_inv [OF m] by blast
  note a = OpenFile_truncates [OF inv o f]
  then have b: "fs_inv m2 \<and> Read m2 (wname f) = Inr ([] @ concat cs) \<and>
    (\<forall>j. resolve_fs j \<noteq> resolve_fs (wname f) \<longrightarrow> read_opt m2 j = read_opt m1 j)"
    using len put by (intro put_chunks_append [where f' = f']) simp_all
  then have rd: "Read m2 name = Inr (concat cs)" using a by simp
  obtain n where n: "Stat m2 name = Inr n" "\<not> isDir n" using rd by (auto simp: Read_def Stat_def split: sum.splits if_splits)
  let ?g = "\<lparr>wname = name, woffset = 0, wisDir = False\<rparr>"
  have "wd_OpenFile now m2 name False False perm = (m2, Inr ?g)" using n by (simp add: wd_OpenFile_def)
  moreover have "get_all (Suc (length (concat cs))) cap m2 ?g = Some (Inr (concat cs))"
    using get_all_content [of m2 ?g "concat cs" cap "Suc (length (concat cs))"] rd cap by simp
  ultimately show ?thesis using rd a b by auto
qed

text \<open>
  \<open>Rename\<close> moves a file between two places: the content is found under the new name, the old
  name is gone and no other file changes. When both names normalise to the same place the
  successful call has deleted the file.
\<close>

theorem webdav_rename:
  assumes m: "fs_reach q m" and r: "wd_Rename now m oldName newName = (m', None)"
  shows "read_opt m' oldName = None \<and>
    read_opt m' newName = (if resolve_fs oldName = resolve_fs newName then None else read_opt m oldName) \<and>
    (\<forall>j. resolve_fs j \<noteq> resolve_fs oldName \<longrightarrow> resolve_fs j \<noteq> resolve_fs newName \<longrightarrow> read_opt m' j = read_opt m j)"
proof -
  have inv: "fs_inv m" using fs_reach_inv [OF m] by blast
  obtain v m1 where s: "Read m oldName = Inr v" "Write now m newName v 0x180 = (m1, None)" "Remove now m1 oldName = (m', None)"
    using r by (auto simp: wd_Rename_def split: sum.splits prod.splits option.splits)
  then have rd: "read_opt m oldName = Some v" by simp
  note mv = mem.move [OF inv rd s(2,3)]
  have "read_opt m' newName = None" if "resolve_fs oldName = resolve_fs newName"
    using mv(1) that by (simp add: mem.rd_eq)
  then show ?thesis using mv rd by (simp del: read_opt_Some)
qed

theorem webdav_put_get_witness:
  "\<exists>m1 f m2 f' g. wd_OpenFile 5 demo_fs ''/k/x'' True True 0x180 = (m1, Inr f) \<and> put_chunks 5 [''1''] m1 f = (m2, f', None) \<and>
     get_all 2 7 m2 g = Some (Inr ''1'')"
proof -
  define m1 where "m1 = fst (wd_OpenFile 5 demo_fs ''/k/x'' True True 0x180)"
  define f where "f = \<lparr>wname = ''/k/x'', woffset = 0, wisDir = False\<rparr>"
  define m2 where "m2 = fst (put_chunks 5 [''1''] m1 f)"
  define f' where "f' = fst (snd (put_chunks 5 [''1''] m1 f))"
  have o: "wd_OpenFile 5 demo_fs ''/k/x'' True True 0x180 = (m1, Inr f)" unfolding m1_def f_def by code_simp
  have p: "put_chunks 5 [''1''] m1 f = (m2, f', None)" unfolding m2_def f'_def m1_def f_def by code_simp
  have "\<not> wisDir f" "int (length (concat [''1''])) < 2 ^ 63" "0 < (7::nat)" by (simp_all add: f_def)
  from webdav_put_get [OF demo_fs_reach o this(1,2) p this(3)]
  have "\<exists>g. get_all 2 7 m2 g = Some (Inr ''1'')" by (auto simp: numeral_2_eq_2)
  with o p show ?thesis by blast
qed

theorem webdav_rename_witness:
  "\<exists>m'. wd_Rename 5 demo_fs ''/a'' ''a/'' = (m', None) \<and> read_opt demo_fs ''/a'' = Some ''xy'' \<and> read_opt m' ''a/'' = None"
proof -
  have r: "wd_Rename 5 demo_fs ''/a'' ''a/'' = (fst (wd_Rename 5 demo_fs ''/a'' ''a/''), None)" by code_simp
  have "resolve_fs ''/a'' = resolve_fs ''a/''" "read_opt demo_fs ''/a'' = Some ''xy''" by code_simp+
  then show ?thesis using webdav_rename [OF demo_fs_reach r] r by metis
qed

end
