(* ===== verification/Mounts.thy ===== *)
theory Mounts
  imports WebDav Daemon
begin

text \<open>
  How the file system reaches the host: the WebDAV server of \<open>internal/vfs/mount_webdav.go\<close> with its
  credential check, the choice between FUSE and WebDAV of \<open>mount_linux_dispatch.go\<close>, \<open>Mount\<close> and \<open>Unmount\<close> of
  the FUSE front end in \<open>mount_linux.go\<close>, and the front ends of the other systems. The WebDAV handler behind the check
  belongs to \<open>golang.org/x/net/webdav\<close> and is a parameter, as is \<open>net.ParseIP\<close> with \<open>IsLoopback\<close>. What
  \<open>net.Listen\<close>, cgofuse and the commands that are run answer is an argument.
\<close>

section \<open>Addresses\<close>

definition last_colon :: "string \<Rightarrow> nat" where
  "last_colon s = length s - Suc (length (takeWhile (\<lambda>c. c \<noteq> CHR '':'') (rev s)))"

text \<open>\<open>net.SplitHostPort\<close>.\<close>

definition SplitHostPort :: "string \<Rightarrow> (string \<times> string) option" where
  "SplitHostPort s =
     (if CHR '':'' \<notin> set s then None
      else let i = last_colon s; port = drop (Suc i) s
           in if hd s = CHR ''['' then
                (let e = length (takeWhile (\<lambda>c. c \<noteq> CHR '']'') s)
                 in if CHR '']'' \<notin> set s \<or> Suc e \<noteq> i then None
                    else if CHR ''['' \<in> set (drop 1 s) \<or> CHR '']'' \<in> set (drop (Suc e) s) then None
                    else Some (take (e - 1) (drop 1 s), port))
              else if CHR '':'' \<in> set (take i s) then None
              else if CHR ''['' \<in> set s \<or> CHR '']'' \<in> set s then None
              else Some (take i s, port))"

definition isLoopbackAddr :: "(string \<Rightarrow> bool) \<Rightarrow> string \<Rightarrow> bool" where
  "isLoopbackAddr ipl addr =
     (case SplitHostPort addr of
        None \<Rightarrow> False
      | Some (h, _) \<Rightarrow> if h = [] then False else if h = ''localhost'' then True else ipl h)"

section \<open>Credentials\<close>

record dav_req =
  v_method :: string
  v_path :: string
  v_auth :: string
  v_query :: "(string \<times> string) list"
  v_body :: bytes

text \<open>\<open>r.BasicAuth()\<close>: the scheme up to ASCII case, then user and password around the first colon.\<close>

definition BasicAuth :: "string \<Rightarrow> (string \<times> string) option" where
  "BasicAuth h =
     (if map lower_char (take 6 h) \<noteq> ''basic '' then None
      else case std_decode (drop 6 h) of
             None \<Rightarrow> None
           | Some b \<Rightarrow>
               if CHR '':'' \<notin> set b then None
               else Some (takeWhile (\<lambda>c. c \<noteq> CHR '':'') b, drop (Suc (length (takeWhile (\<lambda>c. c \<noteq> CHR '':'') b))) b))"

text \<open>\<open>subtle.ConstantTimeCompare\<close> is equality.\<close>

definition tokenEqual :: "string \<Rightarrow> string \<Rightarrow> bool" where
  "tokenEqual got want \<longleftrightarrow> got = want"

definition query_token :: "dav_req \<Rightarrow> string" where
  "query_token r = (case map_of (v_query r) ''token'' of None \<Rightarrow> [] | Some v \<Rightarrow> v)"

text \<open>
  The mounter. \<open>w_srv\<close> is the server last made, by its number, and the address it is bound to;
  \<open>w_serving\<close> are the servers that accept requests, \<open>w_shut\<close> those that \<open>Shutdown\<close> was called on.
\<close>

record WebdavMounter =
  w_addr :: string
  w_token :: string
  w_remote :: bool
  w_srv :: "(nat \<times> string) option"
  w_serving :: "(nat \<times> string) list"
  w_shut :: "nat list"

definition NewWebdavMounter :: "string \<Rightarrow> string \<Rightarrow> bool \<Rightarrow> WebdavMounter" where
  "NewWebdavMounter addr token allowRemote =
     \<lparr>w_addr = (if addr = [] then ''127.0.0.1:0'' else addr), w_token = token, w_remote = allowRemote,
      w_srv = None, w_serving = [], w_shut = []\<rparr>"

definition authorize :: "WebdavMounter \<Rightarrow> dav_req \<Rightarrow> bool" where
  "authorize w r =
     (if w_token w = [] then False
      else if (case BasicAuth (v_auth r) of Some (_, pass) \<Rightarrow> tokenEqual pass (w_token w) | None \<Rightarrow> False) then True
      else if has_prefix (v_auth r) ''Bearer '' \<and> tokenEqual (trim_prefix (v_auth r) ''Bearer '') (w_token w) then True
      else tokenEqual (query_token r) (w_token w))"

text \<open>The answer 401 or that of the handler behind.\<close>

datatype 'r dav_resp = Unauthorized401 | Handled 'r

definition authHandler ::
  "WebdavMounter \<Rightarrow> (dav_req \<Rightarrow> memfs \<Rightarrow> memfs \<times> 'r) \<Rightarrow> dav_req \<Rightarrow> memfs \<Rightarrow> memfs \<times> 'r dav_resp" where
  "authHandler w nxt r m = (if \<not> authorize w r then (m, Unauthorized401) else apsnd Handled (nxt r m))"

section \<open>The server\<close>

datatype dav_error = NoToken | RefusedBind string | ListenFailed string

definition dav_Addr :: "WebdavMounter \<Rightarrow> string" where
  "dav_Addr w = (case w_srv w of None \<Rightarrow> w_addr w | Some (_, a) \<Rightarrow> a)"

text \<open>
  \<open>Mount\<close> in two steps, because \<open>Unmount\<close> may run in between: the checks and the binding, and
  \<open>Serve\<close>, which returns at once when the server was shut down before.
\<close>

definition dav_bind :: "(string \<Rightarrow> bool) \<Rightarrow> nat \<Rightarrow> string + string \<Rightarrow> WebdavMounter \<Rightarrow> WebdavMounter \<times> dav_error option" where
  "dav_bind ipl i ln w =
     (if w_token w = [] then (w, Some NoToken)
      else if \<not> w_remote w \<and> \<not> isLoopbackAddr ipl (w_addr w) then (w, Some (RefusedBind (w_addr w)))
      else case ln of Inl e \<Rightarrow> (w, Some (ListenFailed e)) | Inr a \<Rightarrow> (w\<lparr>w_srv := Some (i, a)\<rparr>, None))"

definition dav_serve :: "nat \<Rightarrow> string \<Rightarrow> WebdavMounter \<Rightarrow> WebdavMounter" where
  "dav_serve i a w = (if i \<in> set (w_shut w) then w else w\<lparr>w_serving := (i, a) # w_serving w\<rparr>)"

text \<open>\<open>Unmount\<close>; the argument is the error of \<open>Shutdown\<close>, which closes the listener in any case.\<close>

definition dav_Unmount :: "string option \<Rightarrow> WebdavMounter \<Rightarrow> WebdavMounter \<times> string option" where
  "dav_Unmount err w =
     (case w_srv w of
        None \<Rightarrow> (w, None)
      | Some (i, _) \<Rightarrow> (w\<lparr>w_serving := filter (\<lambda>(j, _). j \<noteq> i) (w_serving w), w_shut := i # w_shut w\<rparr>, err))"

section \<open>FUSE or WebDAV\<close>

text \<open>What the self-diagnosis sees of the host.\<close>

datatype fuse_dev = NoDev | NotChar | CharDev bool

record linux_host =
  l_dev :: fuse_dev
  l_path :: "string list"

datatype fuse_reason = NotPresent | NotCharDevice | NotOpenable | NoFusermount

definition checkFUSE :: "linux_host \<Rightarrow> fuse_reason option" where
  "checkFUSE l =
     (case l_dev l of
        NoDev \<Rightarrow> Some NotPresent
      | NotChar \<Rightarrow> Some NotCharDevice
      | CharDev openable \<Rightarrow>
          if \<not> openable then Some NotOpenable
          else if ''fusermount'' \<notin> set (l_path l) \<and> ''fusermount3'' \<notin> set (l_path l) then Some NoFusermount
          else None)"

text \<open>\<open>run\<close> is what running a command does to the host, and whether it exits with success.\<close>

fun try_cmds :: "(string list \<Rightarrow> linux_host \<Rightarrow> linux_host \<times> bool) \<Rightarrow> string list list \<Rightarrow> linux_host \<Rightarrow> linux_host" where
  "try_cmds run [] l = l"
| "try_cmds run (c # cs) l =
     (if hd c \<notin> set (l_path l) then try_cmds run cs l
      else (case run c l of (l1, ok) \<Rightarrow> if ok then l1 else try_cmds run cs l1))"

definition tryEnableFUSE :: "(string list \<Rightarrow> linux_host \<Rightarrow> linux_host \<times> bool) \<Rightarrow> linux_host \<Rightarrow> linux_host" where
  "tryEnableFUSE run = try_cmds run [[''modprobe'', ''fuse''], [''sudo'', ''-n'', ''modprobe'', ''fuse'']]"

text \<open>The front ends: the FUSE host is \<open>None\<close> before the first mount.\<close>

datatype mounter = FuseMounter "bool option" | FallbackMounter WebdavMounter | WindowsMounter WebdavMounter string | StubMounter

definition NewMounter :: "(string list \<Rightarrow> linux_host \<Rightarrow> linux_host \<times> bool) \<Rightarrow> string \<Rightarrow> bool \<Rightarrow> linux_host \<Rightarrow> linux_host \<times> mounter" where
  "NewMounter run token allowRemote l =
     (let l1 = (if checkFUSE l = None then l else tryEnableFUSE run l)
      in (l1, if checkFUSE l1 = None then FuseMounter None else FallbackMounter (NewWebdavMounter ''127.0.0.1:0'' token allowRemote)))"

definition NewMounter_windows :: "string \<Rightarrow> bool \<Rightarrow> mounter" where
  "NewMounter_windows token allowRemote = WindowsMounter (NewWebdavMounter ''127.0.0.1:8088'' token allowRemote) []"

definition NewMounter_other :: mounter where
  "NewMounter_other = StubMounter"

fun mounter_Backend :: "mounter \<Rightarrow> string" where
  "mounter_Backend (FuseMounter _) = ''fuse''"
| "mounter_Backend (FallbackMounter _) = ''webdav''"
| "mounter_Backend (WindowsMounter _ _) = ''webdav''"
| "mounter_Backend StubMounter = ''none''"

text \<open>
  \<open>Mount\<close> of the FUSE front end: \<open>mk\<close> is the error of creating the mount point and \<open>ok\<close> whether cgofuse
  mounts; the host exists from then on, mounted or not. \<open>Unmount\<close> asks the host to unmount. \<open>Mount\<close> of a
  front end blocks while it serves: without an error, the state is the one while it blocks. \<open>PreUnmount\<close> runs a
  command for a mount left over from an earlier run and ignores its outcome.
\<close>

datatype mount_error = MkdirMountpoint string | FuseMountFailed string | FuseUnmountFailed | DavMount dav_error | DavUnmount string | NotSupported

definition fuse_Mount :: "string option \<Rightarrow> bool \<Rightarrow> string \<Rightarrow> bool option \<Rightarrow> bool option \<times> mount_error option" where
  "fuse_Mount mk ok mp h =
     (case mk of
        Some e \<Rightarrow> (h, Some (MkdirMountpoint e))
      | None \<Rightarrow> if ok then (Some True, None) else (Some False, Some (FuseMountFailed mp)))"

definition fuse_Unmount :: "bool \<Rightarrow> bool option \<Rightarrow> bool option \<times> mount_error option" where
  "fuse_Unmount ok h =
     (case h of
        None \<Rightarrow> (None, None)
      | Some up \<Rightarrow> if ok then (Some False, None) else (Some up, Some FuseUnmountFailed))"

text \<open>The outcome of the system calls of one mount or unmount, and the number of a new server.\<close>

record mount_io =
  q_mkdir :: "string option"
  q_fuse :: bool
  q_num :: nat
  q_listen :: "string + string"
  q_shutdown :: "string option"

definition dav_mount :: "(string \<Rightarrow> bool) \<Rightarrow> mount_io \<Rightarrow> WebdavMounter \<Rightarrow> WebdavMounter \<times> mount_error option" where
  "dav_mount ipl io w =
     (case dav_bind ipl (q_num io) (q_listen io) w of
        (w1, Some e) \<Rightarrow> (w1, Some (DavMount e))
      | (w1, None) \<Rightarrow> (dav_serve (q_num io) (dav_Addr w1) w1, None))"

fun mounter_Mount :: "(string \<Rightarrow> bool) \<Rightarrow> mount_io \<Rightarrow> string \<Rightarrow> mounter \<Rightarrow> mounter \<times> mount_error option" where
  "mounter_Mount ipl io mp (FuseMounter h) = apfst FuseMounter (fuse_Mount (q_mkdir io) (q_fuse io) mp h)"
| "mounter_Mount ipl io mp (FallbackMounter w) = apfst FallbackMounter (dav_mount ipl io w)"
| "mounter_Mount ipl io mp (WindowsMounter w _) = apfst (\<lambda>w'. WindowsMounter w' mp) (dav_mount ipl io w)"
| "mounter_Mount ipl io mp StubMounter = (StubMounter, Some NotSupported)"

fun mounter_Unmount :: "mount_io \<Rightarrow> mounter \<Rightarrow> mounter \<times> mount_error option" where
  "mounter_Unmount io (FuseMounter h) = apfst FuseMounter (fuse_Unmount (q_fuse io) h)"
| "mounter_Unmount io (FallbackMounter w) = map_prod FallbackMounter (map_option DavUnmount) (dav_Unmount (q_shutdown io) w)"
| "mounter_Unmount io (WindowsMounter w p) = map_prod (\<lambda>w'. WindowsMounter w' p) (map_option DavUnmount) (dav_Unmount (q_shutdown io) w)"
| "mounter_Unmount io StubMounter = (StubMounter, None)"

text \<open>Whether the front end answers requests for files.\<close>

fun mounter_live :: "mounter \<Rightarrow> bool" where
  "mounter_live (FuseMounter h) \<longleftrightarrow> h = Some True"
| "mounter_live (FallbackMounter w) \<longleftrightarrow> w_serving w \<noteq> []"
| "mounter_live (WindowsMounter w _) \<longleftrightarrow> w_serving w \<noteq> []"
| "mounter_live StubMounter \<longleftrightarrow> False"

section \<open>Who is served\<close>

text \<open>Every way of a mounter: servers are bound, start to serve and are shut down, in any order.\<close>

inductive dav_reach :: "(string \<Rightarrow> bool) \<Rightarrow> WebdavMounter \<Rightarrow> WebdavMounter \<Rightarrow> bool" for ipl w0 where
  Start: "dav_reach ipl w0 w0"
| Bind: "dav_reach ipl w0 w \<Longrightarrow> dav_reach ipl w0 (fst (dav_bind ipl i ln w))"
| Serve: "dav_reach ipl w0 w \<Longrightarrow> w_srv w = Some (i, a) \<Longrightarrow> dav_reach ipl w0 (dav_serve i a w)"
| Stop: "dav_reach ipl w0 w \<Longrightarrow> dav_reach ipl w0 (fst (dav_Unmount err w))"

text \<open>The secrets a request carries: the password of basic authentication, a bearer token, the query.\<close>

definition carried :: "dav_req \<Rightarrow> string set" where
  "carried r = snd ` set_option (BasicAuth (v_auth r)) \<union> {t. v_auth r = ''Bearer '' @ t} \<union> {query_token r}"

lemma authorize_carried: "authorize w r \<longleftrightarrow> w_token w \<noteq> [] \<and> w_token w \<in> carried r"
proof -
  have b: "has_prefix (v_auth r) ''Bearer '' \<and> trim_prefix (v_auth r) ''Bearer '' = w_token w \<longleftrightarrow> v_auth r = ''Bearer '' @ w_token w"
    by (auto simp: trim_prefix_def prefix_def)
  show ?thesis
    by (cases "BasicAuth (v_auth r)") (auto simp: authorize_def carried_def tokenEqual_def b)
qed

lemma dav_reach_inv:
  assumes "dav_reach ipl w0 w" and "w_srv w0 = None" and "w_serving w0 = []"
  shows "w_token w = w_token w0 \<and> w_addr w = w_addr w0 \<and> w_remote w = w_remote w0 \<and>
    (w_srv w \<noteq> None \<or> w_serving w \<noteq> [] \<longrightarrow> w_token w0 \<noteq> [] \<and> (w_remote w0 \<or> isLoopbackAddr ipl (w_addr w0)))"
  using assms
proof (induction rule: dav_reach.induct)
  case (Bind w i ln)
  then show ?case by (auto simp: dav_bind_def split: sum.splits)
next
  case (Serve w i a)
  then show ?case by (auto simp: dav_serve_def)
next
  case (Stop w err)
  then show ?case by (auto simp: dav_Unmount_def split: option.splits)
qed simp_all

text \<open>
  C16: the WebDAV front end is closed. However servers are bound, start to serve and are shut down, none serves without a
  token or, unless remote access is allowed, on an address that is not loopback; and a request reaches
  the handler exactly when the token is its basic password, its bearer token or its query token.
  Any other is answered 401 and changes nothing.
\<close>

theorem webdav_front_closed:
  assumes w: "dav_reach ipl (NewWebdavMounter addr token allowRemote) w"
  shows "(w_serving w \<noteq> [] \<longrightarrow> token \<noteq> [] \<and> (allowRemote \<or> isLoopbackAddr ipl (if addr = [] then ''127.0.0.1:0'' else addr))) \<and>
    authHandler w nxt r m = (if token \<noteq> [] \<and> token \<in> carried r then apsnd Handled (nxt r m) else (m, Unauthorized401))"
  using dav_reach_inv [OF w] by (auto simp: authHandler_def authorize_carried NewWebdavMounter_def)

definition demo_ip :: "string \<Rightarrow> bool" where
  "demo_ip h \<longleftrightarrow> h = ''127.0.0.1'' \<or> h = ''::1''"

definition demo_dav_req :: "string \<Rightarrow> dav_req" where
  "demo_dav_req a = \<lparr>v_method = ''GET'', v_path = ''/a'', v_auth = a, v_query = [], v_body = []\<rparr>"

theorem webdav_front_closed_witness:
  "\<exists>w. dav_reach demo_ip (NewWebdavMounter [] ''t'' False) w \<and> w_serving w = [(0, ''127.0.0.1:40001'')] \<and>
     authHandler w (\<lambda>r m. (m, v_path r)) (demo_dav_req ''basic dTp0'') demo_fs = (demo_fs, Handled ''/a'') \<and>
     authHandler w (\<lambda>r m. (m, v_path r)) (demo_dav_req ''Bearer x'') demo_fs = (demo_fs, Unauthorized401)"
proof -
  let ?w0 = "NewWebdavMounter [] ''t'' False"
  define w1 where "w1 = fst (dav_bind demo_ip 0 (Inr ''127.0.0.1:40001'') ?w0)"
  define w where "w = dav_serve 0 ''127.0.0.1:40001'' w1"
  have "dav_reach demo_ip ?w0 w1" unfolding w1_def by (intro dav_reach.Bind dav_reach.Start)
  moreover have "w_srv w1 = Some (0, ''127.0.0.1:40001'')" unfolding w1_def by code_simp
  ultimately have w: "dav_reach demo_ip ?w0 w" unfolding w_def by (intro dav_reach.Serve)
  have s: "w_serving w = [(0, ''127.0.0.1:40001'')]" unfolding w_def w1_def by code_simp
  have b: "BasicAuth ''basic dTp0'' = Some (''u'', ''t'')" "BasicAuth ''Bearer x'' = None" by code_simp+
  have c: "''t'' \<in> carried (demo_dav_req ''basic dTp0'')" "''t'' \<notin> carried (demo_dav_req ''Bearer x'')"
    using b by (auto simp: carried_def demo_dav_req_def query_token_def)
  note f = webdav_front_closed [OF w, of "\<lambda>r m. (m, v_path r)" _ demo_fs, THEN conjunct2]
  have "authHandler w (\<lambda>r m. (m, v_path r)) (demo_dav_req ''basic dTp0'') demo_fs = (demo_fs, Handled ''/a'')"
    using f [of "demo_dav_req ''basic dTp0''"] c by (simp add: demo_dav_req_def)
  moreover have "authHandler w (\<lambda>r m. (m, v_path r)) (demo_dav_req ''Bearer x'') demo_fs = (demo_fs, Unauthorized401)"
    using f [of "demo_dav_req ''Bearer x''"] c by simp
  ultimately show ?thesis using w s by blast
qed

section \<open>Mounting and unmounting\<close>

text \<open>
  Mounting and unmounting in turn, as the daemon's flag makes them, with a new server number each
  time and a FUSE host that unmounts when asked.
\<close>

inductive mount_cycles :: "(string \<Rightarrow> bool) \<Rightarrow> nat \<Rightarrow> mounter \<Rightarrow> bool" for ipl where
  Linux: "mount_cycles ipl 0 (snd (NewMounter run token allowRemote l))"
| Windows: "mount_cycles ipl 0 (NewMounter_windows token allowRemote)"
| Other: "mount_cycles ipl 0 NewMounter_other"
| Cycle: "mount_cycles ipl n k \<Longrightarrow> q_num io = n \<Longrightarrow> q_fuse io' \<Longrightarrow>
    mount_cycles ipl (Suc n) (fst (mounter_Unmount io' (fst (mounter_Mount ipl io mp k))))"

text \<open>Nothing is served, and the numbers used are below the next one.\<close>

definition dav_quiet :: "nat \<Rightarrow> WebdavMounter \<Rightarrow> bool" where
  "dav_quiet n w \<longleftrightarrow> w_serving w = [] \<and> (\<forall>i \<in> set (w_shut w) \<union> fst ` set_option (w_srv w). i < n)"

fun quiet :: "nat \<Rightarrow> mounter \<Rightarrow> bool" where
  "quiet n (FuseMounter h) \<longleftrightarrow> h \<noteq> Some True"
| "quiet n (FallbackMounter w) \<longleftrightarrow> dav_quiet n w"
| "quiet n (WindowsMounter w _) \<longleftrightarrow> dav_quiet n w"
| "quiet n StubMounter \<longleftrightarrow> True"

lemma dav_mount_serves:
  assumes "dav_quiet n w" and "dav_mount ipl io w = (w', None)" and "q_num io = n"
  obtains a where "w_srv w' = Some (n, a)" "w_serving w' = [(n, a)]" "w_shut w' = w_shut w"
  using assms by (auto simp: dav_mount_def dav_bind_def dav_serve_def dav_quiet_def dav_Addr_def split: if_splits sum.splits)

lemma dav_mount_err: "dav_mount ipl io w = (w', Some e) \<Longrightarrow> w' = w"
  by (auto simp: dav_mount_def dav_bind_def split: if_splits sum.splits)

lemma dav_stop:
  assumes q: "dav_quiet n w" and m: "dav_mount ipl io w = (w', err)" and n: "q_num io = n"
  shows "dav_quiet (Suc n) (fst (dav_Unmount e w'))"
proof (cases err)
  case None
  obtain a where "w_srv w' = Some (n, a)" "w_serving w' = [(n, a)]" "w_shut w' = w_shut w"
    by (rule dav_mount_serves [OF q m [unfolded None] n])
  then show ?thesis using q by (auto simp: dav_Unmount_def dav_quiet_def less_SucI)
next
  case (Some x)
  then have "w' = w" using m dav_mount_err by blast
  then show ?thesis using q by (auto simp: dav_Unmount_def dav_quiet_def less_SucI split: option.splits)
qed

lemma quiet_new: "dav_quiet 0 (NewWebdavMounter addr token allowRemote)"
  by (simp add: dav_quiet_def NewWebdavMounter_def)

lemma quiet_cycle:
  assumes "quiet n k" and "q_num io = n" and "q_fuse io'"
  shows "quiet (Suc n) (fst (mounter_Unmount io' (fst (mounter_Mount ipl io mp k))))"
proof -
  have dav: "dav_quiet (Suc n) (fst (dav_Unmount e (fst (dav_mount ipl io w))))" if "dav_quiet n w" for e w
    using dav_stop [OF that _ assms(2)] by (cases "dav_mount ipl io w") auto
  show ?thesis
    using assms dav by (cases k) (auto simp: fuse_Mount_def fuse_Unmount_def split: option.splits)
qed

lemma mount_cycles_quiet: "mount_cycles ipl n k \<Longrightarrow> quiet n k"
proof (induction rule: mount_cycles.induct)
  case (Cycle n k io io' mp)
  then show ?case using quiet_cycle by blast
qed (auto simp: NewMounter_def NewMounter_windows_def NewMounter_other_def quiet_new Let_def)

text \<open>
  Mounting in turn with unmounting is clean on every system: before, nothing is served; a mount that
  reports no error serves; and the next unmount ends it, whatever \<open>Shutdown\<close> reports, as long as the FUSE
  host unmounts when asked.
\<close>

theorem mount_then_unmount:
  assumes k: "mount_cycles ipl n k" and n: "q_num io = n" and m: "mounter_Mount ipl io mp k = (k', None)" and u: "q_fuse io'"
  shows "\<not> mounter_live k \<and> mounter_live k' \<and> \<not> mounter_live (fst (mounter_Unmount io' k'))"
proof -
  have live: "\<not> mounter_live x" if "quiet i x" for i x using that by (cases x) (auto simp: dav_quiet_def)
  note q = mount_cycles_quiet [OF k]
  have "mounter_live k'"
  proof (cases k)
    case (FuseMounter h)
    then show ?thesis using m by (auto simp: fuse_Mount_def split: option.splits if_splits)
  next
    case (FallbackMounter w)
    then obtain w' where w: "dav_mount ipl io w = (w', None)" "k' = FallbackMounter w'" using m by (auto simp: prod_eq_iff)
    have "dav_quiet n w" using q FallbackMounter by simp
    then obtain a where "w_serving w' = [(n, a)]" using dav_mount_serves [OF _ w(1) n] by blast
    then show ?thesis using w(2) by simp
  next
    case (WindowsMounter w p)
    then obtain w' where w: "dav_mount ipl io w = (w', None)" "k' = WindowsMounter w' mp" using m by (auto simp: prod_eq_iff)
    have "dav_quiet n w" using q WindowsMounter by simp
    then obtain a where "w_serving w' = [(n, a)]" using dav_mount_serves [OF _ w(1) n] by blast
    then show ?thesis using w(2) by simp
  qed (use m in simp)
  then show ?thesis using live [OF q] live [OF quiet_cycle [OF q n u, of ipl mp]] m by simp
qed

text \<open>
  The fallback serves only the host itself, whether or not remote access was allowed, and not without
  a token; where FUSE is usable it is preferred, after at most one attempt to enable it.
\<close>

theorem fallback_is_local:
  assumes lo: "ipl ''127.0.0.1''" and new: "NewMounter run token allowRemote l = (l', k)"
  shows "(checkFUSE l = None \<longrightarrow> l' = l \<and> k = FuseMounter None) \<and>
    (checkFUSE l' = None \<longleftrightarrow> mounter_Backend k = ''fuse'') \<and>
    (checkFUSE l' \<noteq> None \<longrightarrow>
       (let w = NewWebdavMounter ''127.0.0.1:0'' token allowRemote
        in k = FallbackMounter w \<and> isLoopbackAddr ipl (w_addr w) \<and> (snd (dav_bind ipl i ln w) = Some NoToken \<longleftrightarrow> token = [])))"
proof -
  have "SplitHostPort ''127.0.0.1:0'' = Some (''127.0.0.1'', ''0'')" by code_simp
  then have "isLoopbackAddr ipl ''127.0.0.1:0''" using lo by (simp add: isLoopbackAddr_def)
  then show ?thesis using new by (auto simp: NewMounter_def Let_def NewWebdavMounter_def dav_bind_def split: if_splits sum.splits)
qed

section \<open>Where the front ends and the daemon disagree\<close>

text \<open>
  A server that is bound only after \<open>Unmount\<close> looked for one survives every later unmount: the next mount replaces the
  only reference to it.
\<close>

theorem late_server_leaks:
  assumes w: "w_srv w = None" "w_shut w = []" "w_token w \<noteq> []" "isLoopbackAddr ipl (w_addr w)" and ij: "i \<noteq> j"
  shows "let w0 = fst (dav_Unmount e w);
             w1 = dav_serve i a (fst (dav_bind ipl i (Inr a) w0));
             w2 = dav_serve j b (fst (dav_bind ipl j (Inr b) w1));
             w3 = fst (dav_Unmount e w2)
         in (i, a) \<in> set (w_serving w3) \<and> fst (dav_Unmount e w3) = w3\<lparr>w_shut := j # w_shut w3\<rparr>"
proof -
  have 0: "fst (dav_Unmount e w) = w" using w(1) by (simp add: dav_Unmount_def)
  define w1 where "w1 = w\<lparr>w_srv := Some (i, a), w_serving := (i, a) # w_serving w\<rparr>"
  have 1: "dav_serve i a (fst (dav_bind ipl i (Inr a) w)) = w1" using w by (simp add: dav_bind_def dav_serve_def w1_def)
  define w2 where "w2 = w1\<lparr>w_srv := Some (j, b), w_serving := (j, b) # w_serving w1\<rparr>"
  have f: "w_token w1 = w_token w" "w_addr w1 = w_addr w" "w_shut w1 = []" "w_serving w1 = (i, a) # w_serving w" using w by (simp_all add: w1_def)
  have 2: "dav_serve j b (fst (dav_bind ipl j (Inr b) w1)) = w2" using w f by (simp add: dav_bind_def dav_serve_def w2_def)
  define w3 where "w3 = w2\<lparr>w_serving := filter (\<lambda>(n, _). n \<noteq> j) (w_serving w2), w_shut := [j]\<rparr>"
  have 3: "fst (dav_Unmount e w2) = w3" using f by (simp add: dav_Unmount_def w2_def w3_def)
  have g: "w_srv w3 = Some (j, b)" "w_shut w3 = [j]" "w_serving w3 = (i, a) # filter (\<lambda>(n, _). n \<noteq> j) (w_serving w)"
    using ij f by (simp_all add: w3_def w2_def)
  have "filter (\<lambda>(n, _). n \<noteq> j) (w_serving w3) = w_serving w3" unfolding g(3) using ij by (simp add: filter_id_conv)
  then have "fst (dav_Unmount e w3) = w3\<lparr>w_shut := j # w_shut w3\<rparr>" using g by (simp add: dav_Unmount_def)
  then show ?thesis using g(3) unfolding Let_def 0 1 2 3 by simp
qed

text \<open>
  A FUSE mount that failed leaves a host behind. When cgofuse refuses to unmount what is not mounted, the
  daemon's \<open>Unmount\<close> ends with that error before it comes to the WebDAV server: locking empties the
  file system but the server stays up, while the daemon reports that nothing is served.
\<close>

theorem failed_fuse_keeps_webdav:
  assumes d: "mounted d" "webdav_up d" and f: "\<not> q_fuse io" "q_mkdir io = None" "\<not> q_fuse io'"
  shows "let k = fst (mounter_Mount ipl io mp (FuseMounter None));
             err = map_option (\<lambda>_. ''fuse unmount returned false'') (snd (mounter_Unmount io' k));
             d' = fst (Unmount err None d)
         in webdav_up d' \<and> \<not> webdavOn d' \<and> \<not> mounted d'"
  using assms by (simp add: fuse_Mount_def fuse_Unmount_def Unmount_def Let_def)

text \<open>
  After a remount the first look at the address finds that of the server that was shut down, so that the
  daemon reports, and writes to the runtime file, an address where nothing listens.
\<close>

theorem remount_reports_stale:
  assumes d: "mounted d" "\<not> WebdavDisabled (dcfg d)" and a: "webdav_addr d \<noteq> []" "\<not> has_suffix (webdav_addr d) '':0''"
  shows "let d' = waitWebDAVReady (Mount (fst (Unmount None None d)))
         in webdavOn d' \<and> \<not> webdav_up d' \<and> writeRuntimeState d' = writeRuntimeState d"
  using assms by (simp add: Unmount_def Daemon.Mount_def waitWebDAVReady_def writeRuntimeState_def Let_def)

end
