(* ===== verification/Peer.thy ===== *)
theory Peer
  imports Legacy Cli
begin

text \<open>
  The peer connection of \<open>internal/webrtc/peer.go\<close>: its construction with ICE servers, the offer and the
  answer, and the exchange with the signalling service. \<open>pion/webrtc\<close>, the HTTP client and the clock are the
  operations of the record \<open>rtc_lib\<close> on a world of their own; a session description and a candidate are
  opaque and are read from and written to JSON by that library. A run carries the peer, the world and
  the list of what was done outside, in order. \<open>http.NewRequest\<close> refuses a URL it cannot parse, and the code
  then uses the request it did not get: this is the error \<open>NilRequest\<close>, a panic. Diagnostic logging is left
  out.
\<close>

section \<open>ICE servers\<close>

record ICEServer =
  ice_urls :: "string list"
  ice_user :: string
  ice_cred :: string
  ice_password :: bool

definition defaultICEServers :: "ICEServer list" where
  "defaultICEServers = [\<lparr>ice_urls = [''stun:stun.l.google.com:19302''], ice_user = [], ice_cred = [], ice_password = False\<rparr>]"

text \<open>An element of the list as the JSON decoder leaves it: \<open>urls\<close> of any type, user name and credential.\<close>

definition raw_ice :: "json \<Rightarrow> json \<times> string \<times> string" where
  "raw_ice j = (foldl (\<lambda>_ v. v) JNull (field_vals ''urls'' j), get_str ''username'' j, get_str ''credential'' j)"

definition raw_ice_ok :: "json \<Rightarrow> bool" where
  "raw_ice_ok j \<longleftrightarrow> obj_ok j \<and> list_all any_ok (field_vals ''urls'' j) \<and> str_ok ''username'' j \<and> str_ok ''credential'' j"

definition arr_ok :: "(json \<Rightarrow> bool) \<Rightarrow> string \<Rightarrow> json \<Rightarrow> bool" where
  "arr_ok ok name j = list_all (\<lambda>v. case v of JArr vs \<Rightarrow> list_all ok vs | JNull \<Rightarrow> True | _ \<Rightarrow> False) (field_vals name j)"

definition get_arr :: "string \<Rightarrow> json \<Rightarrow> json list" where
  "get_arr name j = foldl (\<lambda>a v. case v of JArr vs \<Rightarrow> vs | JNull \<Rightarrow> [] | _ \<Rightarrow> a) [] (field_vals name j)"

definition url_list :: "json \<Rightarrow> string list" where
  "url_list j =
     (case j of
        JStr u \<Rightarrow> [u]
      | JArr vs \<Rightarrow> List.map_filter (\<lambda>x. case x of JStr u \<Rightarrow> Some u | _ \<Rightarrow> None) vs
      | _ \<Rightarrow> [])"

definition normalizeICEServers :: "(json \<times> string \<times> string) list \<Rightarrow> ICEServer list" where
  "normalizeICEServers ins =
     List.map_filter (\<lambda>(u, name, cred).
       if url_list u = [] then None
       else if name \<noteq> [] \<or> cred \<noteq> []
       then Some \<lparr>ice_urls = url_list u, ice_user = name, ice_cred = cred, ice_password = True\<rparr>
       else Some \<lparr>ice_urls = url_list u, ice_user = [], ice_cred = [], ice_password = False\<rparr>) ins"

section \<open>The peer and its outside\<close>

datatype pc_state = PcNew | PcConnecting | PcConnected | PcDisconnected | PcFailed | PcClosed

record ('w, 'sd, 'c) rtc_lib =
  rt_http :: "string \<Rightarrow> string \<Rightarrow> string \<Rightarrow> bytes \<Rightarrow> 'w \<Rightarrow> 'w \<times> (int \<times> bytes) option"
  rt_url_ok :: "string \<Rightarrow> bool"
  rt_now :: "'w \<Rightarrow> time"
  rt_sleep :: "int \<Rightarrow> 'w \<Rightarrow> 'w"
  rt_new :: "ICEServer list \<Rightarrow> bool \<Rightarrow> 'w \<Rightarrow> 'w \<times> nat option"
  rt_close :: "nat \<Rightarrow> 'w \<Rightarrow> 'w \<times> bool"
  rt_channel :: "nat \<Rightarrow> 'w \<Rightarrow> 'w \<times> nat option"
  rt_send :: "nat \<Rightarrow> bytes \<Rightarrow> 'w \<Rightarrow> 'w \<times> bool"
  rt_offer :: "nat \<Rightarrow> 'w \<Rightarrow> 'w \<times> 'sd option"
  rt_answer :: "nat \<Rightarrow> 'w \<Rightarrow> 'w \<times> 'sd option"
  rt_local :: "nat \<Rightarrow> 'sd \<Rightarrow> 'w \<Rightarrow> 'w \<times> 'sd option"
  rt_remote :: "nat \<Rightarrow> 'sd \<Rightarrow> 'w \<Rightarrow> 'w \<times> bool"
  rt_add :: "nat \<Rightarrow> 'c \<Rightarrow> 'w \<Rightarrow> 'w \<times> bool"
  rt_state :: "nat \<Rightarrow> 'w \<Rightarrow> pc_state"
  rt_sd_json :: "'sd \<Rightarrow> json"
  rt_sd_of :: "json option \<Rightarrow> 'sd option"
  rt_c_json :: "'c \<Rightarrow> json"
  rt_c_of :: "json \<Rightarrow> 'c"

text \<open>\<open>onICE\<close> is where the candidate callback posts: the service, the session and the role token.\<close>

record Peer =
  pc :: nat
  dc :: "nat option"
  role :: string
  onICE :: "(string \<times> string \<times> string) option"
  takes_channel :: bool
  on_data :: bool
  on_open :: bool
  on_close :: bool

datatype 'sd rtc_event =
    EvHttp string string string bytes
  | EvNew "ICEServer list" bool
  | EvClose nat
  | EvCandidates nat string string string
  | EvChannel nat
  | EvLocal nat 'sd
  | EvRemote nat 'sd
  | EvSleep int

record ('w, 'sd) rtc_run =
  rw :: 'w
  rp :: Peer
  rlog :: "'sd rtc_event list"

datatype rtc_error =
    EmptySignaling | InitFailed | BadSession | NoSession | RebuildFailed | ChannelFailed | OfferFailed | LocalFailed
  | PostFailed | Refused string | BadAnswer | RemoteFailed | TimedOut | NilRequest | ClaimFailed | ClaimRefused string
  | BadClaim | NoToken | AnswerFailed | NotReady | SendFailed | TurnFailed | TurnRefused string | BadTurn

type_synonym ('w, 'sd, 'a) rtc_act = "('w, 'sd) rtc_run \<Rightarrow> ('w, 'sd) rtc_run \<times> (rtc_error + 'a)"

definition rbind :: "('w, 'sd, 'a) rtc_act \<Rightarrow> ('a \<Rightarrow> ('w, 'sd, 'b) rtc_act) \<Rightarrow> ('w, 'sd, 'b) rtc_act" where
  "rbind f g s = (case f s of (s1, Inl e) \<Rightarrow> (s1, Inl e) | (s1, Inr x) \<Rightarrow> g x s1)"

text \<open>One outside call: the event it leaves, and its result as an action.\<close>

definition ext :: "'sd rtc_event \<Rightarrow> ('w \<Rightarrow> 'w \<times> 'a) \<Rightarrow> ('w, 'sd) rtc_run \<Rightarrow> ('w, 'sd) rtc_run \<times> 'a" where
  "ext ev f s = (case f (rw s) of (w, x) \<Rightarrow> (s\<lparr>rw := w, rlog := rlog s @ [ev]\<rparr>, x))"

definition ext_opt :: "rtc_error \<Rightarrow> 'sd rtc_event \<Rightarrow> ('w \<Rightarrow> 'w \<times> 'a option) \<Rightarrow> ('w, 'sd, 'a) rtc_act" where
  "ext_opt e ev f s = (case ext ev f s of (s1, None) \<Rightarrow> (s1, Inl e) | (s1, Some x) \<Rightarrow> (s1, Inr x))"

definition ext_ok :: "rtc_error \<Rightarrow> 'sd rtc_event \<Rightarrow> ('w \<Rightarrow> 'w \<times> bool) \<Rightarrow> ('w, 'sd, unit) rtc_act" where
  "ext_ok e ev f s = (case ext ev f s of (s1, ok) \<Rightarrow> (s1, if ok then Inr () else Inl e))"

definition sleep_for :: "('w, 'sd, 'c) rtc_lib \<Rightarrow> int \<Rightarrow> ('w, 'sd) rtc_run \<Rightarrow> ('w, 'sd) rtc_run" where
  "sleep_for lib d s = s\<lparr>rw := rt_sleep lib d (rw s), rlog := rlog s @ [EvSleep d]\<rparr>"

section \<open>Construction\<close>

definition new_peer_state :: "string \<Rightarrow> nat \<Rightarrow> Peer" where
  "new_peer_state r i =
     \<lparr>pc = i, dc = None, role = r, onICE = None, takes_channel = False, on_data = False, on_open = False, on_close = False\<rparr>"

definition newPeer :: "('w, 'sd, 'c) rtc_lib \<Rightarrow> string \<Rightarrow> ICEServer list \<Rightarrow> bool \<Rightarrow> 'w \<Rightarrow> 'w \<times> Peer option" where
  "newPeer lib r servers relayOnly w =
     (case rt_new lib (if servers = [] then defaultICEServers else servers) relayOnly w of
        (w1, None) \<Rightarrow> (w1, None)
      | (w1, Some i) \<Rightarrow> (w1, Some (new_peer_state r i)))"

definition peer_New :: "('w, 'sd, 'c) rtc_lib \<Rightarrow> 'w \<Rightarrow> 'w \<times> Peer option" where
  "peer_New lib = newPeer lib ''daemon'' [] False"

definition peer_NewDaemon :: "('w, 'sd, 'c) rtc_lib \<Rightarrow> 'w \<Rightarrow> 'w \<times> Peer option" where
  "peer_NewDaemon lib = newPeer lib ''daemon'' defaultICEServers False"

definition attachOnDataChannel :: "Peer \<Rightarrow> Peer" where
  "attachOnDataChannel p = p\<lparr>takes_channel := True\<rparr>"

definition peer_NewController :: "('w, 'sd, 'c) rtc_lib \<Rightarrow> 'w \<Rightarrow> 'w \<times> Peer option" where
  "peer_NewController lib w =
     (case newPeer lib ''controller'' defaultICEServers False w of (w1, p) \<Rightarrow> (w1, map_option attachOnDataChannel p))"

text \<open>A new connection has no callbacks of its own: those of the old one are attached again.\<close>

definition rebuildWithICE :: "('w, 'sd, 'c) rtc_lib \<Rightarrow> ICEServer list \<Rightarrow> bool \<Rightarrow> ('w, 'sd, unit) rtc_act" where
  "rebuildWithICE lib servers relayOnly s =
     (let s0 = fst (ext (EvClose (pc (rp s))) (rt_close lib (pc (rp s))) s)
      in (case ext (EvNew servers relayOnly) (rt_new lib servers relayOnly) s0 of
            (s1, None) \<Rightarrow> (s1, Inl RebuildFailed)
          | (s1, Some i) \<Rightarrow>
              let s2 = s1\<lparr>rp := (rp s1)\<lparr>pc := i, takes_channel := (role (rp s1) = ''controller'')\<rparr>\<rparr>
              in (case onICE (rp s2) of
                    None \<Rightarrow> (s2, Inr ())
                  | Some (u, i', t) \<Rightarrow> (s2\<lparr>rlog := rlog s2 @ [EvCandidates i u i' t]\<rparr>, Inr ()))))"

section \<open>The data channel\<close>

text \<open>What a channel does to the application: the callbacks it runs.\<close>

definition channel_arrives :: "nat \<Rightarrow> Peer \<Rightarrow> Peer" where
  "channel_arrives c p = (if takes_channel p then p\<lparr>dc := Some c\<rparr> else p)"

definition channel_message :: "bytes \<Rightarrow> Peer \<Rightarrow> bytes list" where
  "channel_message b p = (if on_data p then [b] else [])"

definition OnICECandidate :: "string \<Rightarrow> string \<Rightarrow> string \<Rightarrow> ('w, 'sd) rtc_run \<Rightarrow> ('w, 'sd) rtc_run" where
  "OnICECandidate u i t s = s\<lparr>rp := (rp s)\<lparr>onICE := Some (u, i, t)\<rparr>, rlog := rlog s @ [EvCandidates (pc (rp s)) u i t]\<rparr>"

definition AddRemoteCandidate :: "('w, 'sd, 'c) rtc_lib \<Rightarrow> 'c \<Rightarrow> ('w, 'sd) rtc_run \<Rightarrow> ('w, 'sd) rtc_run" where
  "AddRemoteCandidate lib c s = s\<lparr>rw := fst (rt_add lib (pc (rp s)) c (rw s))\<rparr>"

definition CreateOffer :: "('w, 'sd, 'c) rtc_lib \<Rightarrow> ('w, 'sd, 'sd) rtc_act" where
  "CreateOffer lib s =
     rbind (ext_opt ChannelFailed (EvChannel (pc (rp s))) (rt_channel lib (pc (rp s))))
       (\<lambda>c s1. let s2 = s1\<lparr>rp := (rp s1)\<lparr>dc := Some c\<rparr>\<rparr>
               in (case rt_offer lib (pc (rp s2)) (rw s2) of
                     (w, None) \<Rightarrow> (s2\<lparr>rw := w\<rparr>, Inl OfferFailed)
                   | (w, Some o1) \<Rightarrow> ext_opt LocalFailed (EvLocal (pc (rp s2)) o1) (rt_local lib (pc (rp s2)) o1) (s2\<lparr>rw := w\<rparr>))) s"

definition AcceptAnswer :: "('w, 'sd, 'c) rtc_lib \<Rightarrow> 'sd \<Rightarrow> ('w, 'sd, unit) rtc_act" where
  "AcceptAnswer lib a s = ext_ok RemoteFailed (EvRemote (pc (rp s)) a) (rt_remote lib (pc (rp s)) a) s"

definition AcceptOfferAndAnswer :: "('w, 'sd, 'c) rtc_lib \<Rightarrow> 'sd \<Rightarrow> ('w, 'sd, 'sd) rtc_act" where
  "AcceptOfferAndAnswer lib o1 =
     rbind (AcceptAnswer lib o1)
       (\<lambda>_ s. case rt_answer lib (pc (rp s)) (rw s) of
                (w, None) \<Rightarrow> (s\<lparr>rw := w\<rparr>, Inl AnswerFailed)
              | (w, Some a) \<Rightarrow> ext_opt LocalFailed (EvLocal (pc (rp s)) a) (rt_local lib (pc (rp s)) a) (s\<lparr>rw := w\<rparr>))"

definition peer_Send :: "('w, 'sd, 'c) rtc_lib \<Rightarrow> bytes \<Rightarrow> ('w, 'sd, unit) rtc_act" where
  "peer_Send lib b s =
     (case dc (rp s) of
        None \<Rightarrow> (s, Inl NotReady)
      | Some c \<Rightarrow> (case rt_send lib c b (rw s) of (w, ok) \<Rightarrow> (s\<lparr>rw := w\<rparr>, if ok then Inr () else Inl SendFailed)))"

definition peer_Close :: "('w, 'sd, 'c) rtc_lib \<Rightarrow> ('w, 'sd) rtc_run \<Rightarrow> ('w, 'sd) rtc_run" where
  "peer_Close lib s = fst (ext (EvClose (pc (rp s))) (rt_close lib (pc (rp s))) s)"

section \<open>Requests to the signalling service\<close>

text \<open>\<open>http.Post\<close> reports a URL it cannot parse; \<open>http.NewRequest\<close> with its error dropped ends in a panic.\<close>

definition post :: "('w, 'sd, 'c) rtc_lib \<Rightarrow> rtc_error \<Rightarrow> string \<Rightarrow> bytes \<Rightarrow> ('w, 'sd, int \<times> bytes) rtc_act" where
  "post lib e url b s =
     (if \<not> rt_url_ok lib url then (s, Inl e)
      else ext_opt e (EvHttp ''POST'' url [] b) (rt_http lib ''POST'' url [] b) s)"

definition request :: "('w, 'sd, 'c) rtc_lib \<Rightarrow> rtc_error \<Rightarrow> string \<Rightarrow> string \<Rightarrow> string \<Rightarrow> bytes \<Rightarrow> ('w, 'sd, int \<times> bytes) rtc_act" where
  "request lib e meth url tok b s =
     (if \<not> rt_url_ok lib url then (s, Inl NilRequest)
      else ext_opt e (EvHttp meth url tok b) (rt_http lib meth url tok b) s)"

definition trim_slashes :: "string \<Rightarrow> string" where
  "trim_slashes s = rev (dropWhile (\<lambda>c. c = slash) (rev s))"

definition session_url :: "string \<Rightarrow> string \<Rightarrow> string \<Rightarrow> string" where
  "session_url base i what = base @ ''/sessions/'' @ i @ what"

definition fetchICEServers :: "('w, 'sd, 'c) rtc_lib \<Rightarrow> string \<Rightarrow> string \<Rightarrow> string \<Rightarrow> ('w, 'sd, ICEServer list) rtc_act" where
  "fetchICEServers lib base i tok =
     rbind (request lib TurnFailed ''GET'' (session_url (trim_slashes base) i ''/turn'') tok [])
       (\<lambda>(st, b) s.
          if 300 \<le> st then (s, Inl (TurnRefused (trim_space b)))
          else (case parse_first b of
                  None \<Rightarrow> (s, Inl BadTurn)
                | Some j \<Rightarrow>
                    if \<not> (obj_ok j \<and> arr_ok raw_ice_ok ''iceServers'' j) then (s, Inl BadTurn)
                    else (s, Inr (normalizeICEServers (map raw_ice (get_arr ''iceServers'' j))))))"

text \<open>The servers to build the connection with: those given, those fetched, or the default; a panic passes through.\<close>

definition choose_servers :: "('w, 'sd, 'c) rtc_lib \<Rightarrow> string \<Rightarrow> string \<Rightarrow> string \<Rightarrow> ICEServer list \<Rightarrow> ('w, 'sd, ICEServer list) rtc_act" where
  "choose_servers lib base i tok given s =
     (if given \<noteq> [] then (s, Inr given)
      else (case fetchICEServers lib base i tok s of
              (s1, Inl e) \<Rightarrow> (s1, if e = NilRequest then Inl NilRequest else Inr defaultICEServers)
            | (s1, Inr servers) \<Rightarrow> (s1, Inr (if servers \<noteq> [] then servers else defaultICEServers))))"

definition postOfferUpdate :: "('w, 'sd, 'c) rtc_lib \<Rightarrow> string \<Rightarrow> string \<Rightarrow> string \<Rightarrow> 'sd \<Rightarrow> ('w, 'sd, unit) rtc_act" where
  "postOfferUpdate lib base i tok o1 =
     rbind (request lib PostFailed ''POST'' (session_url base i ''/offer'') tok (marshal (JObj [(''offer'', rt_sd_json lib o1)])))
       (\<lambda>(st, b) s. (s, if 300 \<le> st then Inl (Refused (trim_space b)) else Inr ()))"

section \<open>Candidates\<close>

text \<open>The callback for a local candidate; the answer of the service is ignored.\<close>

definition local_candidate :: "('w, 'sd, 'c) rtc_lib \<Rightarrow> 'c \<Rightarrow> ('w, 'sd, unit) rtc_act" where
  "local_candidate lib c s =
     (case onICE (rp s) of
        None \<Rightarrow> (s, Inr ())
      | Some (u, i, t) \<Rightarrow>
          (case request lib PostFailed ''POST'' (session_url u i ''/candidates'') t (marshal (JObj [(''candidates'', JArr [rt_c_json lib c])])) s of
             (s1, Inl NilRequest) \<Rightarrow> (s1, Inl NilRequest)
           | (s1, _) \<Rightarrow> (s1, Inr ())))"

datatype poll_end = PastDeadline | PeerGone | Denied int | PollPanic

record poll =
  since :: int
  backoff :: int

definition Millisecond :: int where
  "Millisecond = 1000000"

definition longer :: "int \<Rightarrow> int" where
  "longer b = (if 15 * Second < b * 2 then 15 * Second else b * 2)"

text \<open>The reply as the decoder leaves it, also when it fails; fields it did not reach are zero.\<close>

definition poll_reply :: "('w, 'sd, 'c) rtc_lib \<Rightarrow> bytes \<Rightarrow> 'c list \<times> int" where
  "poll_reply lib b =
     (case parse_first b of
        None \<Rightarrow> ([], 0)
      | Some j \<Rightarrow> (map (rt_c_of lib) (get_arr ''candidates'' j), get_int ''next'' j))"

definition retry :: "('w, 'sd, 'c) rtc_lib \<Rightarrow> poll \<Rightarrow> ('w, 'sd) rtc_run \<Rightarrow> poll \<times> ('w, 'sd) rtc_run" where
  "retry lib q s = (q\<lparr>backoff := longer (backoff q)\<rparr>, sleep_for lib (backoff q) s)"

text \<open>One round of the goroutine that polls for remote candidates.\<close>

definition poll_round ::
  "('w, 'sd, 'c) rtc_lib \<Rightarrow> string \<Rightarrow> string \<Rightarrow> string \<Rightarrow> time \<Rightarrow> poll \<Rightarrow> ('w, 'sd) rtc_run \<Rightarrow>
     (poll_end \<times> ('w, 'sd) rtc_run) + (poll \<times> ('w, 'sd) rtc_run)" where
  "poll_round lib base i tok dl q s =
     (if dl < rt_now lib (rw s) then Inl (PastDeadline, s)
      else if rt_state lib (pc (rp s)) (rw s) \<in> {PcClosed, PcFailed, PcDisconnected} then Inl (PeerGone, s)
      else (case request lib PostFailed ''GET'' (session_url base i (''/candidates?since='' @ itoa (since q))) tok [] s of
              (s1, Inl e) \<Rightarrow> if e = NilRequest then Inl (PollPanic, s1) else Inr (retry lib q s1)
            | (s1, Inr (st, b)) \<Rightarrow>
                if 300 \<le> st then (if st = 403 \<or> st = 404 then Inl (Denied st, s1) else Inr (retry lib q s1))
                else (case poll_reply lib b of
                        (cs, n) \<Rightarrow> Inr (\<lparr>since = n, backoff = 500 * Millisecond\<rparr>,
                                    sleep_for lib (200 * Millisecond) (fold (AddRemoteCandidate lib) cs s1)))))"

partial_function (option) poll_loop ::
  "('w, 'sd, 'c) rtc_lib \<Rightarrow> string \<Rightarrow> string \<Rightarrow> string \<Rightarrow> time \<Rightarrow> poll \<Rightarrow> ('w, 'sd) rtc_run \<Rightarrow> (poll_end \<times> ('w, 'sd) rtc_run) option" where
  "poll_loop lib base i tok dl q s =
     (case poll_round lib base i tok dl q s of Inl r \<Rightarrow> Some r | Inr (q1, s1) \<Rightarrow> poll_loop lib base i tok dl q1 s1)"

definition poll_candidates ::
  "('w, 'sd, 'c) rtc_lib \<Rightarrow> string \<Rightarrow> string \<Rightarrow> string \<Rightarrow> ('w, 'sd) rtc_run \<Rightarrow> (poll_end \<times> ('w, 'sd) rtc_run) option" where
  "poll_candidates lib base i tok s =
     poll_loop lib base i tok (rt_now lib (rw s) + 120 * Second) \<lparr>since = 0, backoff = 500 * Millisecond\<rparr> s"

section \<open>Pairing\<close>

text \<open>
  \<open>startCandidateExchange\<close> registers the callback and starts the goroutine above, which runs
  beside what follows.
\<close>

definition startCandidateExchange :: "string \<Rightarrow> string \<Rightarrow> string \<Rightarrow> ('w, 'sd, unit) rtc_act" where
  "startCandidateExchange base i tok s = (OnICECandidate base i tok s, Inr ())"

definition init_session :: "('w, 'sd, 'c) rtc_lib \<Rightarrow> string \<Rightarrow> ('w, 'sd, string \<times> string \<times> ICEServer list) rtc_act" where
  "init_session lib base =
     rbind (post lib InitFailed (base @ ''/sessions'') (marshal (jmap [(''role'', JStr ''daemon''), (''init'', JBool True)])))
       (\<lambda>(st, b) s.
          case parse_json b of
            None \<Rightarrow> (s, Inl BadSession)
          | Some j \<Rightarrow>
              if \<not> (obj_ok j \<and> str_ok ''session_id'' j \<and> str_ok ''daemon_token'' j \<and> arr_ok raw_ice_ok ''iceServers'' j) then (s, Inl BadSession)
              else if get_str ''session_id'' j = [] then (s, Inl NoSession)
              else (s, Inr (get_str ''session_id'' j, get_str ''daemon_token'' j, normalizeICEServers (map raw_ice (get_arr ''iceServers'' j)))))"

text \<open>Everything \<open>Bootstrap\<close> does before it waits: the session, the connection, the offer.\<close>

definition publish_offer :: "('w, 'sd, 'c) rtc_lib \<Rightarrow> string \<Rightarrow> ('w, 'sd, string \<times> string) rtc_act" where
  "publish_offer lib base =
     rbind (init_session lib base) (\<lambda>(i, tok, given).
     rbind (choose_servers lib base i tok given) (\<lambda>servers.
     rbind (rebuildWithICE lib servers False) (\<lambda>_.
     rbind (startCandidateExchange base i tok) (\<lambda>_.
     rbind (CreateOffer lib) (\<lambda>o1.
     rbind (postOfferUpdate lib base i tok o1) (\<lambda>_ s. (s, Inr (i, tok))))))))"

text \<open>The description in an answer; \<open>None\<close> is a field that is missing or null, which leaves the zero value.\<close>

definition sd_field :: "('w, 'sd, 'c) rtc_lib \<Rightarrow> string \<Rightarrow> json \<Rightarrow> 'sd option" where
  "sd_field lib name j =
     rt_sd_of lib (foldl (\<lambda>a v. if v = JNull then a else Some v) None (field_vals name j))"

partial_function (option) answer_loop ::
  "('w, 'sd, 'c) rtc_lib \<Rightarrow> string \<Rightarrow> string \<Rightarrow> string \<Rightarrow> time \<Rightarrow> ('w, 'sd) rtc_run \<Rightarrow> (('w, 'sd) rtc_run \<times> (rtc_error + unit)) option" where
  "answer_loop lib base i tok dl s =
     (if \<not> rt_now lib (rw s) < dl then Some (s, Inl TimedOut)
      else (case request lib PostFailed ''GET'' (session_url base i ''/answer'') tok [] s of
              (s1, Inl e) \<Rightarrow> if e = NilRequest then Some (s1, Inl NilRequest) else answer_loop lib base i tok dl (sleep_for lib (2 * Second) s1)
            | (s1, Inr (st, b)) \<Rightarrow>
                if st = 200 \<and> b \<noteq> [] then
                  (case Option.bind (parse_json b) (\<lambda>j. if obj_ok j then sd_field lib ''answer'' j else None) of
                     None \<Rightarrow> Some (s1, Inl BadAnswer)
                   | Some a \<Rightarrow> Some (AcceptAnswer lib a s1))
                else answer_loop lib base i tok dl (sleep_for lib (2 * Second) s1)))"

definition Bootstrap :: "('w, 'sd, 'c) rtc_lib \<Rightarrow> string \<Rightarrow> ('w, 'sd) rtc_run \<Rightarrow> (('w, 'sd) rtc_run \<times> (rtc_error + unit)) option" where
  "Bootstrap lib signalingURL s =
     (if signalingURL = [] then Some (s, Inl EmptySignaling)
      else let base = trim_slashes signalingURL
           in (case publish_offer lib base s of
                 (s1, Inl e) \<Rightarrow> Some (s1, Inl e)
               | (s1, Inr (i, tok)) \<Rightarrow> answer_loop lib base i tok (rt_now lib (rw s1) + 120 * Second) s1))"

text \<open>The controller's side.\<close>

definition claim_session :: "('w, 'sd, 'c) rtc_lib \<Rightarrow> string \<Rightarrow> string \<Rightarrow> ('w, 'sd, string \<times> 'sd) rtc_act" where
  "claim_session lib base i =
     rbind (post lib ClaimFailed (session_url base i ''/claim'') (marshal (jmap [(''role'', JStr ''controller'')])))
       (\<lambda>(st, b) s.
          if 300 \<le> st then (s, Inl (ClaimRefused (trim_space b)))
          else (case parse_first b of
                  None \<Rightarrow> (s, Inl BadClaim)
                | Some j \<Rightarrow>
                    if \<not> (obj_ok j \<and> str_ok ''controller_token'' j) then (s, Inl BadClaim)
                    else (case sd_field lib ''offer'' j of
                            None \<Rightarrow> (s, Inl BadClaim)
                          | Some o1 \<Rightarrow>
                              if get_str ''controller_token'' j = [] then (s, Inl NoToken) else (s, Inr (get_str ''controller_token'' j, o1)))))"

definition publish_answer :: "('w, 'sd, 'c) rtc_lib \<Rightarrow> string \<Rightarrow> string \<Rightarrow> ('w, 'sd, unit) rtc_act" where
  "publish_answer lib base i =
     rbind (claim_session lib base i) (\<lambda>(tok, o1).
     rbind (choose_servers lib base i tok []) (\<lambda>servers.
     rbind (rebuildWithICE lib servers False) (\<lambda>_.
     rbind (startCandidateExchange base i tok) (\<lambda>_.
     rbind (AcceptOfferAndAnswer lib o1) (\<lambda>a.
     rbind (request lib PostFailed ''POST'' (session_url base i ''/answer'') tok (marshal (JObj [(''answer'', rt_sd_json lib a)])))
       (\<lambda>(st, b) s. (s, if 300 \<le> st then Inl (Refused (trim_space b)) else Inr ())))))))"

partial_function (option) connected_loop ::
  "('w, 'sd, 'c) rtc_lib \<Rightarrow> time \<Rightarrow> ('w, 'sd) rtc_run \<Rightarrow> (('w, 'sd) rtc_run \<times> (rtc_error + unit)) option" where
  "connected_loop lib dl s =
     (if \<not> rt_now lib (rw s) < dl then Some (s, Inl TimedOut)
      else if rt_state lib (pc (rp s)) (rw s) = PcConnected then Some (s, Inr ())
      else connected_loop lib dl (sleep_for lib (300 * Millisecond) s))"

definition Join :: "('w, 'sd, 'c) rtc_lib \<Rightarrow> string \<Rightarrow> string \<Rightarrow> ('w, 'sd) rtc_run \<Rightarrow> (('w, 'sd) rtc_run \<times> (rtc_error + unit)) option" where
  "Join lib signalingURL i s =
     (if signalingURL = [] \<or> i = [] then Some (s, Inl EmptySignaling)
      else (case publish_answer lib (trim_slashes signalingURL) i s of
              (s1, Inl e) \<Rightarrow> Some (s1, Inl e)
            | (s1, Inr _) \<Rightarrow> connected_loop lib (rt_now lib (rw s1) + 45 * Second) s1))"

declare poll_loop.simps [code] answer_loop.simps [code] connected_loop.simps [code]

section \<open>ICE servers are usable\<close>

text \<open>
  \<open>normalizeICEServers\<close> keeps the entries with a URL, in order, with all their URLs; every server it returns has
  one, and a user name or a credential exactly when it is marked as having a password.
\<close>

theorem normalize_usable:
  "map ice_urls (normalizeICEServers ins) = filter (\<lambda>us. us \<noteq> []) (map (url_list \<circ> fst) ins) \<and>
   (\<forall>x \<in> set (normalizeICEServers ins). ice_urls x \<noteq> [] \<and> (ice_password x \<longleftrightarrow> ice_user x \<noteq> [] \<or> ice_cred x \<noteq> []))"
proof (induction ins)
  case (Cons x ins)
  obtain u name cred where x: "x = (u, name, cred)" by (cases x)
  show ?case
    using Cons by (cases "url_list u = []"; cases "name = [] \<and> cred = []") (auto simp: x normalizeICEServers_def List.map_filter_simps)
qed (simp add: normalizeICEServers_def List.map_filter_simps)

section \<open>The order of the exchange\<close>

lemma rbind_Inr: "rbind f g s = (s2, Inr y) \<longleftrightarrow> (\<exists>s1 x. f s = (s1, Inr x) \<and> g x s1 = (s2, Inr y))"
  by (auto simp: rbind_def split: prod.splits sum.splits)

lemma ext_opt_Inr:
  "ext_opt e ev f s = (s1, Inr x) \<Longrightarrow> \<exists>w. f (rw s) = (w, Some x) \<and> s1 = s\<lparr>rw := w, rlog := rlog s @ [ev]\<rparr>"
  by (auto simp: ext_opt_def ext_def split: prod.splits option.splits)

lemma ext_ok_Inr:
  "ext_ok e ev f s = (s1, Inr x) \<Longrightarrow> \<exists>w. f (rw s) = (w, True) \<and> s1 = s\<lparr>rw := w, rlog := rlog s @ [ev]\<rparr>"
  by (auto simp: ext_ok_def ext_def split: prod.splits if_splits)

text \<open>A request leaves the peer alone, and one event when its URL can be parsed.\<close>

lemma request_frame:
  "request lib e meth url tok b s = (s1, r) \<Longrightarrow>
     rp s1 = rp s \<and> rlog s1 = rlog s @ (if rt_url_ok lib url then [EvHttp meth url tok b] else []) \<and>
     rw s1 = (if rt_url_ok lib url then fst (rt_http lib meth url tok b (rw s)) else rw s)"
  by (auto simp: request_def ext_opt_def ext_def split: prod.splits option.splits if_splits)

lemma request_Inr:
  assumes "request lib e meth url tok b s = (s1, Inr r)"
  shows "rt_url_ok lib url \<and> rp s1 = rp s \<and> rlog s1 = rlog s @ [EvHttp meth url tok b]"
proof -
  have "rt_url_ok lib url" using assms by (auto simp: request_def split: if_splits)
  then show ?thesis using request_frame [OF assms] by simp
qed

lemma post_Inr:
  "post lib e url b s = (s1, Inr r) \<Longrightarrow> rp s1 = rp s \<and> rlog s1 = rlog s @ [EvHttp ''POST'' url [] b]"
  by (auto simp: post_def dest!: ext_opt_Inr split: if_splits)

lemma init_session_Inr:
  assumes "init_session lib base s = (s1, Inr (i, tok, given))"
  shows "i \<noteq> [] \<and> rp s1 = rp s \<and>
    rlog s1 = rlog s @ [EvHttp ''POST'' (base @ ''/sessions'') [] (marshal (jmap [(''role'', JStr ''daemon''), (''init'', JBool True)]))]"
  using assms unfolding init_session_def rbind_Inr by (auto dest!: post_Inr split: option.splits if_splits)

lemma fetch_frame:
  assumes "fetchICEServers lib base i tok s = (s1, r)"
  shows "rp s1 = rp s \<and> (rlog s1 = rlog s @ [EvHttp ''GET'' (session_url (trim_slashes base) i ''/turn'') tok []] \<or> r = Inl NilRequest)"
proof -
  obtain s0 r0 where r0: "request lib TurnFailed ''GET'' (session_url (trim_slashes base) i ''/turn'') tok [] s = (s0, r0)" by (metis prod.exhaust)
  note f = request_frame [OF r0]
  show ?thesis
  proof (cases "rt_url_ok lib (session_url (trim_slashes base) i ''/turn'')")
    case True
    then show ?thesis
      using assms r0 f by (auto simp: fetchICEServers_def rbind_def split: sum.splits prod.splits if_splits option.splits)
  next
    case False
    then show ?thesis using assms r0 f by (auto simp: fetchICEServers_def rbind_def request_def split: sum.splits prod.splits)
  qed
qed

lemma choose_Inr:
  assumes "choose_servers lib base i tok given s = (s1, Inr servers)"
  shows "servers \<noteq> [] \<and> (given \<noteq> [] \<longrightarrow> servers = given) \<and> rp s1 = rp s \<and>
    rlog s1 = rlog s @ (if given \<noteq> [] then [] else [EvHttp ''GET'' (session_url (trim_slashes base) i ''/turn'') tok []])"
proof (cases "given = []")
  case True
  obtain s0 r where f: "fetchICEServers lib base i tok s = (s0, r)" by (metis prod.exhaust)
  have "defaultICEServers \<noteq> []" by (simp add: defaultICEServers_def)
  then show ?thesis using assms True f fetch_frame [OF f] by (auto simp: choose_servers_def split: sum.splits if_splits)
qed (use assms in \<open>auto simp: choose_servers_def\<close>)

lemma rebuild_Inr:
  assumes "rebuildWithICE lib servers relay s = (s1, Inr x)"
  shows "\<exists>n. rp s1 = (rp s)\<lparr>pc := n, takes_channel := (role (rp s) = ''controller'')\<rparr> \<and>
    rlog s1 = rlog s @ [EvClose (pc (rp s)), EvNew servers relay] @
      (case onICE (rp s) of None \<Rightarrow> [] | Some (u, i, t) \<Rightarrow> [EvCandidates n u i t])"
  using assms unfolding rebuildWithICE_def ext_def Let_def by (fastforce split: prod.splits option.splits)

lemma CreateOffer_Inr:
  assumes "CreateOffer lib s = (s1, Inr o2)"
  shows "\<exists>c o1. rp s1 = (rp s)\<lparr>dc := Some c\<rparr> \<and> rlog s1 = rlog s @ [EvChannel (pc (rp s)), EvLocal (pc (rp s)) o1]"
proof -
  obtain w c where c: "ext_opt ChannelFailed (EvChannel (pc (rp s))) (rt_channel lib (pc (rp s))) s =
      (s\<lparr>rw := w, rlog := rlog s @ [EvChannel (pc (rp s))]\<rparr>, Inr c)"
    using assms unfolding CreateOffer_def rbind_Inr by (metis ext_opt_Inr)
  show ?thesis using assms c unfolding CreateOffer_def rbind_Inr by (auto dest!: ext_opt_Inr split: prod.splits option.splits)
qed

lemma postOffer_Inr:
  assumes "postOfferUpdate lib base i tok o1 s = (s1, Inr x)"
  shows "rp s1 = rp s \<and> rlog s1 = rlog s @ [EvHttp ''POST'' (session_url base i ''/offer'') tok (marshal (JObj [(''offer'', rt_sd_json lib o1)]))]"
proof -
  obtain st b s0 where "request lib PostFailed ''POST'' (session_url base i ''/offer'') tok (marshal (JObj [(''offer'', rt_sd_json lib o1)])) s =
      (s0, Inr (st, b))" "s1 = s0"
    using assms unfolding postOfferUpdate_def rbind_Inr by auto
  then show ?thesis using request_Inr by metis
qed

lemma exchange_Inr:
  "startCandidateExchange base i tok s = (s1, Inr x) \<Longrightarrow>
     rp s1 = (rp s)\<lparr>onICE := Some (base, i, tok)\<rparr> \<and> rlog s1 = rlog s @ [EvCandidates (pc (rp s)) base i tok]"
  by (auto simp: startCandidateExchange_def OnICECandidate_def)

text \<open>The events of a successful start, up to the published offer.\<close>

definition offer_events :: "('w, 'sd, 'c) rtc_lib \<Rightarrow> string \<Rightarrow> string \<Rightarrow> string \<Rightarrow> bool \<Rightarrow> ICEServer list \<Rightarrow> nat \<Rightarrow> nat \<Rightarrow> 'sd \<Rightarrow> 'sd \<Rightarrow> 'sd rtc_event list" where
  "offer_events lib base i tok fetched servers old n o1 o2 =
     [EvHttp ''POST'' (base @ ''/sessions'') [] (marshal (jmap [(''role'', JStr ''daemon''), (''init'', JBool True)]))] @
     (if fetched then [EvHttp ''GET'' (session_url (trim_slashes base) i ''/turn'') tok []] else []) @
     [EvClose old, EvNew servers False, EvCandidates n base i tok, EvChannel n, EvLocal n o1,
      EvHttp ''POST'' (session_url base i ''/offer'') tok (marshal (JObj [(''offer'', rt_sd_json lib o2)]))]"

lemma publish_offer_Inr:
  assumes new: "onICE (rp s) = None" and p: "publish_offer lib base s = (s', Inr (i, tok))"
  shows "\<exists>fetched servers n o1 o2 c. i \<noteq> [] \<and> servers \<noteq> [] \<and>
    rlog s' = rlog s @ offer_events lib base i tok fetched servers (pc (rp s)) n o1 o2 \<and>
    rp s' = (rp s)\<lparr>pc := n, takes_channel := (role (rp s) = ''controller''), onICE := Some (base, i, tok), dc := Some c\<rparr>"
proof -
  obtain s1 s2 s3 s4 s5 given servers x4 x5 o2 x where
    st: "init_session lib base s = (s1, Inr (i, tok, given))" "choose_servers lib base i tok given s1 = (s2, Inr servers)"
      "rebuildWithICE lib servers False s2 = (s3, Inr x4)" "startCandidateExchange base i tok s3 = (s4, Inr x5)"
      "CreateOffer lib s4 = (s5, Inr o2)" "postOfferUpdate lib base i tok o2 s5 = (s', Inr x)"
    using p unfolding publish_offer_def rbind_Inr by (auto simp: rbind_Inr)
  note a = init_session_Inr [OF st(1)] and b = choose_Inr [OF st(2)] and d = exchange_Inr [OF st(4)] and f = postOffer_Inr [OF st(6)]
  obtain n where r: "rp s3 = (rp s2)\<lparr>pc := n, takes_channel := (role (rp s2) = ''controller'')\<rparr>"
    "rlog s3 = rlog s2 @ [EvClose (pc (rp s2)), EvNew servers False]"
    using rebuild_Inr [OF st(3)] a b new by auto
  obtain c o1 where o: "rp s5 = (rp s4)\<lparr>dc := Some c\<rparr>" "rlog s5 = rlog s4 @ [EvChannel (pc (rp s4)), EvLocal (pc (rp s4)) o1]"
    using CreateOffer_Inr [OF st(5)] by blast
  have "rlog s' = rlog s @ offer_events lib base i tok (given = []) servers (pc (rp s)) n o1 o2"
    using a b d f r o by (simp add: offer_events_def)
  moreover have "rp s' = (rp s)\<lparr>pc := n, takes_channel := (role (rp s) = ''controller''), onICE := Some (base, i, tok), dc := Some c\<rparr>"
    using a b d f r o by simp
  ultimately show ?thesis using a b by blast
qed

section \<open>The loops end\<close>

text \<open>Time does not go backwards, and sleeping takes at least as long as asked for.\<close>

definition clock_laws :: "('w, 'sd, 'c) rtc_lib \<Rightarrow> bool" where
  "clock_laws lib \<longleftrightarrow>
     (\<forall>d w. rt_now lib w + d \<le> rt_now lib (rt_sleep lib d w)) \<and>
     (\<forall>m u t b w. rt_now lib w \<le> rt_now lib (fst (rt_http lib m u t b w))) \<and>
     (\<forall>i c w. rt_now lib w \<le> rt_now lib (fst (rt_add lib i c w)))"

lemma sleep_for_simps [simp]:
  "rp (sleep_for lib d s) = rp s" "rlog (sleep_for lib d s) = rlog s @ [EvSleep d]" "rw (sleep_for lib d s) = rt_sleep lib d (rw s)"
  by (simp_all add: sleep_for_def)

lemma request_later:
  assumes "clock_laws lib" and "request lib e meth url tok b s = (s1, r)"
  shows "rt_now lib (rw s) \<le> rt_now lib (rw s1)"
  using assms(1) request_frame [OF assms(2)] by (auto simp: clock_laws_def)

lemma slept_later:
  assumes "clock_laws lib" "rt_now lib (rw s) \<le> rt_now lib (rw s1)"
  shows "rt_now lib (rw s) + d \<le> rt_now lib (rw (sleep_for lib d s1))"
proof -
  have "rt_now lib (rw s1) + d \<le> rt_now lib (rt_sleep lib d (rw s1))" using assms(1) unfolding clock_laws_def by blast
  then show ?thesis using assms(2) by simp
qed

text \<open>The answer is asked for every two seconds.\<close>

abbreviation answer_get :: "string \<Rightarrow> string \<Rightarrow> string \<Rightarrow> 'sd rtc_event" where
  "answer_get base i tok \<equiv> EvHttp ''GET'' (session_url base i ''/answer'') tok []"

definition waiting :: "string \<Rightarrow> string \<Rightarrow> string \<Rightarrow> nat \<Rightarrow> 'sd rtc_event list" where
  "waiting base i tok k = concat (replicate k [answer_get base i tok, EvSleep (2 * Second)])"

lemma waiting_simps: "waiting base i tok 0 = []"
  "waiting base i tok (Suc k) = answer_get base i tok # EvSleep (2 * Second) # waiting base i tok k"
  by (simp_all add: waiting_def)

definition answer_end :: "('w, 'sd, 'c) rtc_lib \<Rightarrow> string \<Rightarrow> string \<Rightarrow> string \<Rightarrow> time \<Rightarrow> nat \<Rightarrow> ('w, 'sd) rtc_run \<Rightarrow> ('w, 'sd) rtc_run \<times> (rtc_error + unit) \<Rightarrow> bool" where
  "answer_end lib base i tok dl n s y \<longleftrightarrow>
     rp (fst y) = rp s \<and>
     (\<exists>k \<le> n.
        (snd y = Inr () \<longrightarrow> k < n \<and> (\<exists>a. rlog (fst y) = rlog s @ waiting base i tok k @ [answer_get base i tok, EvRemote (pc (rp s)) a])) \<and>
        (snd y = Inl TimedOut \<longrightarrow> rlog (fst y) = rlog s @ waiting base i tok k \<and> dl \<le> rt_now lib (rw (fst y))))"

lemma answer_end_step:
  assumes "answer_end lib base i tok dl n s1 y" and "rp s1 = rp s" and "rlog s1 = rlog s @ [answer_get base i tok, EvSleep (2 * Second)]"
  shows "answer_end lib base i tok dl (Suc n) s y"
proof -
  obtain k where k: "k \<le> n" "snd y = Inr () \<longrightarrow> k < n \<and> (\<exists>a. rlog (fst y) = rlog s1 @ waiting base i tok k @ [answer_get base i tok, EvRemote (pc (rp s1)) a])"
    "snd y = Inl TimedOut \<longrightarrow> rlog (fst y) = rlog s1 @ waiting base i tok k \<and> dl \<le> rt_now lib (rw (fst y))" "rp (fst y) = rp s1"
    using assms(1) unfolding answer_end_def by blast
  then have "Suc k \<le> Suc n" "snd y = Inr () \<longrightarrow> Suc k < Suc n \<and>
      (\<exists>a. rlog (fst y) = rlog s @ waiting base i tok (Suc k) @ [answer_get base i tok, EvRemote (pc (rp s)) a])"
    "snd y = Inl TimedOut \<longrightarrow> rlog (fst y) = rlog s @ waiting base i tok (Suc k) \<and> dl \<le> rt_now lib (rw (fst y))"
    using assms(2,3) by (auto simp: waiting_simps)
  then show ?thesis unfolding answer_end_def using k(4) assms(2) by auto
qed

lemma answer_loop_ends:
  assumes c: "clock_laws lib"
  shows "dl - rt_now lib (rw s) \<le> int n * (2 * Second) \<Longrightarrow> \<exists>y. answer_loop lib base i tok dl s = Some y \<and> answer_end lib base i tok dl n s y"
proof (induction n arbitrary: s)
  case 0
  then show ?case by (subst answer_loop.simps) (simp add: answer_end_def waiting_simps)
next
  case (Suc n)
  let ?url = "session_url base i ''/answer''"
  obtain s1 r where r: "request lib PostFailed ''GET'' ?url tok [] s = (s1, r)" by (metis prod.exhaust)
  let ?s2 = "sleep_for lib (2 * Second) s1"
  note f = request_frame [OF r]
  have again: "\<exists>y. answer_loop lib base i tok dl ?s2 = Some y \<and> answer_end lib base i tok dl (Suc n) s y" if u: "rt_url_ok lib ?url"
  proof -
    have "rt_now lib (rw s) + 2 * Second \<le> rt_now lib (rw ?s2)" by (rule slept_later [OF c request_later [OF c r]])
    then have "dl - rt_now lib (rw ?s2) \<le> int n * (2 * Second)" using Suc.prems by (simp add: algebra_simps)
    from Suc.IH [OF this] obtain y where y: "answer_loop lib base i tok dl ?s2 = Some y" "answer_end lib base i tok dl n ?s2 y" by blast
    have "answer_end lib base i tok dl (Suc n) s y" by (rule answer_end_step [OF y(2)]) (use f u in simp_all)
    then show ?thesis using y(1) by blast
  qed
  show ?case
  proof (cases "rt_now lib (rw s) < dl")
    case False
    then show ?thesis by (subst answer_loop.simps) (auto simp: answer_end_def waiting_simps intro: exI [of _ 0])
  next
    case True
    show ?thesis
    proof (cases "rt_url_ok lib ?url")
      case False
      then have "answer_loop lib base i tok dl s = Some (s, Inl NilRequest)"
        using True by (subst answer_loop.simps) (simp add: request_def)
      then show ?thesis by (auto simp: answer_end_def)
    next
      case u: True
      show ?thesis
      proof (cases r)
        case (Inl e)
        then have "e \<noteq> NilRequest" using r u by (auto simp: request_def ext_opt_def split: prod.splits option.splits)
        then have "answer_loop lib base i tok dl s = answer_loop lib base i tok dl ?s2"
          using True r Inl by (subst answer_loop.simps) simp
        then show ?thesis using again [OF u] by simp
      next
        case (Inr x)
        obtain st b where x: "x = (st, b)" by (cases x)
        show ?thesis
        proof (cases "st = 200 \<and> b \<noteq> []")
          case False
          then have "answer_loop lib base i tok dl s = answer_loop lib base i tok dl ?s2"
            using True r Inr x by (subst answer_loop.simps) auto
          then show ?thesis using again [OF u] by simp
        next
          case got: True
          let ?a = "Option.bind (parse_json b) (\<lambda>j. if obj_ok j then sd_field lib ''answer'' j else None)"
          have e: "answer_loop lib base i tok dl s =
              Some (case ?a of None \<Rightarrow> (s1, Inl BadAnswer) | Some a \<Rightarrow> AcceptAnswer lib a s1)"
            using True r Inr x got by (subst answer_loop.simps) (simp split: option.split)
          have "answer_end lib base i tok dl (Suc n) s (case ?a of None \<Rightarrow> (s1, Inl BadAnswer) | Some a \<Rightarrow> AcceptAnswer lib a s1)"
            using f u by (auto simp: answer_end_def AcceptAnswer_def ext_ok_def ext_def waiting_simps split: option.split prod.split intro!: exI [of _ 0])
          then show ?thesis using e by blast
        qed
      qed
    qed
  qed
qed

lemma connected_loop_ends:
  assumes c: "clock_laws lib"
  shows "dl - rt_now lib (rw s) \<le> int n * (300 * Millisecond) \<Longrightarrow>
    \<exists>s' r k. connected_loop lib dl s = Some (s', r) \<and> k \<le> n \<and> rlog s' = rlog s @ replicate k (EvSleep (300 * Millisecond)) \<and> rp s' = rp s \<and>
      (r = Inr () \<and> rt_state lib (pc (rp s)) (rw s') = PcConnected \<or> r = Inl TimedOut \<and> dl \<le> rt_now lib (rw s'))"
proof (induction n arbitrary: s)
  case 0
  then show ?case by (subst connected_loop.simps) simp
next
  case (Suc n)
  let ?s = "sleep_for lib (300 * Millisecond) s"
  consider "\<not> rt_now lib (rw s) < dl" | "rt_now lib (rw s) < dl" "rt_state lib (pc (rp s)) (rw s) = PcConnected"
    | "rt_now lib (rw s) < dl" "rt_state lib (pc (rp s)) (rw s) \<noteq> PcConnected" by blast
  then show ?case
  proof cases
    case 3
    have "dl - rt_now lib (rw ?s) \<le> int n * (300 * Millisecond)"
      using slept_later [OF c order_refl, of s "300 * Millisecond"] Suc.prems by (simp add: algebra_simps)
    from Suc.IH [OF this] obtain s' r k where k: "connected_loop lib dl ?s = Some (s', r)" "k \<le> n"
      "rlog s' = rlog ?s @ replicate k (EvSleep (300 * Millisecond))" "rp s' = rp ?s"
      "r = Inr () \<and> rt_state lib (pc (rp ?s)) (rw s') = PcConnected \<or> r = Inl TimedOut \<and> dl \<le> rt_now lib (rw s')" by blast
    have "connected_loop lib dl s = connected_loop lib dl ?s" using 3 by (subst connected_loop.simps) simp
    then show ?thesis using k by (intro exI [of _ s'] exI [of _ r] exI [of _ "Suc k"]) simp
  qed (subst connected_loop.simps, force intro: exI [of _ 0])+
qed

lemma add_frame:
  assumes "clock_laws lib"
  shows "rp (fold (AddRemoteCandidate lib) cs s) = rp s \<and> rlog (fold (AddRemoteCandidate lib) cs s) = rlog s \<and>
    rt_now lib (rw s) \<le> rt_now lib (rw (fold (AddRemoteCandidate lib) cs s))"
proof (induction cs arbitrary: s)
  case (Cons c cs)
  have "rt_now lib (rw s) \<le> rt_now lib (rw (AddRemoteCandidate lib c s))"
    using assms by (simp add: AddRemoteCandidate_def clock_laws_def)
  then show ?case using Cons.IH [of "AddRemoteCandidate lib c s"] by (simp add: AddRemoteCandidate_def)
qed simp

text \<open>The pauses of the polling loop, and what a round that goes on has done.\<close>

definition pause_ok :: "int \<Rightarrow> bool" where
  "pause_ok d \<longleftrightarrow> 200 * Millisecond \<le> d \<and> d \<le> 15 * Second"

definition backoff_ok :: "poll \<Rightarrow> bool" where
  "backoff_ok q \<longleftrightarrow> 500 * Millisecond \<le> backoff q \<and> backoff q \<le> 15 * Second"

lemma backoff_longer: "backoff_ok q \<Longrightarrow> backoff_ok (q\<lparr>backoff := longer (backoff q)\<rparr>)"
  by (auto simp: backoff_ok_def longer_def Second_def Millisecond_def)

lemma poll_round_on:
  assumes c: "clock_laws lib" and q: "backoff_ok q" and r: "poll_round lib base i tok dl q s = Inr (q1, s1)"
  shows "backoff_ok q1 \<and> rp s1 = rp s \<and> rt_now lib (rw s) \<le> dl \<and> rt_now lib (rw s) + 200 * Millisecond \<le> rt_now lib (rw s1) \<and>
    (\<exists>u d. pause_ok d \<and> rlog s1 = rlog s @ [EvHttp ''GET'' u tok [], EvSleep d])"
proof -
  let ?url = "session_url base i (''/candidates?since='' @ itoa (since q))"
  obtain s0 x where x: "request lib PostFailed ''GET'' ?url tok [] s = (s0, x)" by (metis prod.exhaust)
  note f = request_frame [OF x] and l = request_later [OF c x]
  have u: "rt_url_ok lib ?url" using r x by (auto simp: poll_round_def request_def split: if_splits)
  have later: "rt_now lib (rw s) + d \<le> rt_now lib (rw (sleep_for lib d s2))" if "rt_now lib (rw s0) \<le> rt_now lib (rw s2)" for d s2
    using slept_later [OF c order_trans [OF l that]] .
  have live: "rt_now lib (rw s) \<le> dl" using r by (auto simp: poll_round_def split: if_splits)
  have "(q1, s1) = retry lib q s0 \<or>
      (\<exists>cs n. (q1, s1) = (\<lparr>since = n, backoff = 500 * Millisecond\<rparr>, sleep_for lib (200 * Millisecond) (fold (AddRemoteCandidate lib) cs s0)))"
    using r x by (auto simp: poll_round_def split: if_splits sum.splits prod.splits)
  then show ?thesis
  proof
    assume "(q1, s1) = retry lib q s0"
    then have "q1 = q\<lparr>backoff := longer (backoff q)\<rparr>" "s1 = sleep_for lib (backoff q) s0" by (auto simp: retry_def)
    moreover have "pause_ok (backoff q)" "200 * Millisecond \<le> backoff q" using q by (auto simp: pause_ok_def backoff_ok_def Millisecond_def)
    ultimately show ?thesis using backoff_longer [OF q] f u live later [of s0 "backoff q"] by auto
  next
    assume "\<exists>cs n. (q1, s1) = (\<lparr>since = n, backoff = 500 * Millisecond\<rparr>, sleep_for lib (200 * Millisecond) (fold (AddRemoteCandidate lib) cs s0))"
    then obtain cs n where e: "q1 = \<lparr>since = n, backoff = 500 * Millisecond\<rparr>"
      "s1 = sleep_for lib (200 * Millisecond) (fold (AddRemoteCandidate lib) cs s0)" by blast
    have "backoff_ok q1" "pause_ok (200 * Millisecond)" by (simp_all add: e backoff_ok_def pause_ok_def Second_def Millisecond_def)
    then show ?thesis
      using add_frame [OF c, of cs s0] f u live later [of "fold (AddRemoteCandidate lib) cs s0" "200 * Millisecond"] e by auto
  qed
qed

lemma poll_round_stops:
  assumes "poll_round lib base i tok dl q s = Inl (r, s1)"
  shows "\<exists>es. rlog s1 = rlog s @ es \<and> (es = [] \<or> (\<exists>u. es = [EvHttp ''GET'' u tok []]))"
proof -
  let ?url = "session_url base i (''/candidates?since='' @ itoa (since q))"
  obtain s0 x where x: "request lib PostFailed ''GET'' ?url tok [] s = (s0, x)" by (metis prod.exhaust)
  have "s1 = s \<or> s1 = s0" using assms x by (auto simp: poll_round_def retry_def split: if_splits sum.splits prod.splits)
  then show ?thesis using request_frame [OF x] by (auto split: if_splits)
qed

definition gets :: "'sd rtc_event list \<Rightarrow> nat" where
  "gets es = length (filter (\<lambda>e. case e of EvHttp _ _ _ _ \<Rightarrow> True | _ \<Rightarrow> False) es)"

lemma poll_loop_ends:
  assumes c: "clock_laws lib"
  shows "backoff_ok q \<Longrightarrow> dl - rt_now lib (rw s) < int n * (200 * Millisecond) \<Longrightarrow>
    \<exists>r s' es. poll_loop lib base i tok dl q s = Some (r, s') \<and> rlog s' = rlog s @ es \<and> gets es \<le> n \<and> (\<forall>d. EvSleep d \<in> set es \<longrightarrow> pause_ok d)"
proof (induction n arbitrary: q s)
  case 0
  then have "poll_loop lib base i tok dl q s = Some (PastDeadline, s)" by (subst poll_loop.simps) (simp add: poll_round_def)
  then show ?case by (auto simp: gets_def)
next
  case (Suc n)
  show ?case
  proof (cases "poll_round lib base i tok dl q s")
    case (Inl y)
    obtain r s1 where y: "y = (r, s1)" by (cases y)
    have "poll_loop lib base i tok dl q s = Some (r, s1)" by (subst poll_loop.simps) (simp add: Inl y)
    then show ?thesis using poll_round_stops [OF Inl [unfolded y]] by (auto simp: gets_def)
  next
    case (Inr y)
    obtain q1 s1 where y: "y = (q1, s1)" by (cases y)
    note on = poll_round_on [OF c Suc.prems(1) Inr [unfolded y]]
    have "dl - rt_now lib (rw s1) < int n * (200 * Millisecond)" using on Suc.prems(2) by (simp add: algebra_simps)
    then obtain r s' es where e: "poll_loop lib base i tok dl q1 s1 = Some (r, s')" "rlog s' = rlog s1 @ es" "gets es \<le> n"
      "\<forall>d. EvSleep d \<in> set es \<longrightarrow> pause_ok d"
      using Suc.IH on by blast
    have "poll_loop lib base i tok dl q s = Some (r, s')" by (subst poll_loop.simps) (simp add: Inr y e(1))
    then show ?thesis using on e(2-4) by (auto simp: gets_def)
  qed
qed

section \<open>Pairing\<close>


text \<open>
  The controller's side ends too, after at most 150 looks at the connection, 0.3 seconds apart, and reports success only
  when it is connected.
\<close>

theorem join_ends:
  assumes c: "clock_laws lib"
  shows "\<exists>s' r. Join lib signalingURL i s = Some (s', r) \<and> (r = Inr () \<longrightarrow> rt_state lib (pc (rp s')) (rw s') = PcConnected)"
proof (cases "signalingURL = [] \<or> i = []")
  case False
  obtain s1 x where p: "publish_answer lib (trim_slashes signalingURL) i s = (s1, x)" by (metis prod.exhaust)
  have t: "rt_now lib (rw s1) + 45 * Second - rt_now lib (rw s1) \<le> int 150 * (300 * Millisecond)" by (simp add: Second_def Millisecond_def)
  obtain s' r where "connected_loop lib (rt_now lib (rw s1) + 45 * Second) s1 = Some (s', r)"
    "r = Inr () \<longrightarrow> rt_state lib (pc (rp s')) (rw s') = PcConnected"
    using connected_loop_ends [OF c t] by fastforce
  then show ?thesis using False p by (cases x) (auto simp: Join_def)
qed (auto simp: Join_def)

text \<open>
  Polling for candidates ends after at most 601 requests, and every pause in between is at least 0.2 and at most 15
  seconds, whatever the service answers.
\<close>

theorem polling_ends:
  assumes c: "clock_laws lib"
  shows "\<exists>r s' es. poll_candidates lib base i tok s = Some (r, s') \<and> rlog s' = rlog s @ es \<and> gets es \<le> 601 \<and>
    (\<forall>d. EvSleep d \<in> set es \<longrightarrow> pause_ok d)"
proof -
  have "backoff_ok \<lparr>since = 0, backoff = 500 * Millisecond\<rparr>" by (simp add: backoff_ok_def Second_def Millisecond_def)
  moreover have "rt_now lib (rw s) + 120 * Second - rt_now lib (rw s) < int 601 * (200 * Millisecond)" by (simp add: Second_def Millisecond_def)
  ultimately show ?thesis unfolding poll_candidates_def by (rule poll_loop_ends [OF c])
qed

text \<open>
  A reply that is not JSON, with a good status, sets the cursor back to the start, so that the service is asked for every candidate
  again.
\<close>

theorem bad_reply_rewinds:
  assumes "rt_now lib (rw s) \<le> dl" and "rt_state lib (pc (rp s)) (rw s) = PcConnecting"
    and "rt_url_ok lib (session_url base i (''/candidates?since='' @ itoa (since q)))"
    and "rt_http lib ''GET'' (session_url base i (''/candidates?since='' @ itoa (since q))) tok [] (rw s) = (w, Some (200, b))"
    and "parse_first b = None"
  shows "\<exists>s1. poll_round lib base i tok dl q s = Inr (\<lparr>since = 0, backoff = 500 * Millisecond\<rparr>, s1)"
  using assms by (simp add: poll_round_def request_def ext_opt_def ext_def poll_reply_def)

text \<open>
  A service that names a session whose identifier cannot stand in a URL stops the daemon: the request for its
  servers is not built, and is used.
\<close>

theorem bad_session_id_panics:
  assumes "signalingURL \<noteq> []" and "init_session lib (trim_slashes signalingURL) s = (s1, Inr (i, tok, []))"
    and "\<not> rt_url_ok lib (session_url (trim_slashes (trim_slashes signalingURL)) i ''/turn'')"
  shows "Bootstrap lib signalingURL s = Some (s1, Inl NilRequest)"
  using assms by (simp add: Bootstrap_def publish_offer_def rbind_def choose_servers_def fetchICEServers_def request_def)

section \<open>An example\<close>

text \<open>A service with one session, and a library that succeeds; the answer is there after two seconds. The world is the clock.\<close>

definition demo_http :: "string \<Rightarrow> string \<Rightarrow> string \<Rightarrow> bytes \<Rightarrow> int \<Rightarrow> int \<times> (int \<times> bytes) option" where
  "demo_http meth url tok b t =
     (t, if has_suffix url ''/sessions'' then Some (200, marshal (JObj [(''session_id'', JStr ''s1''), (''daemon_token'', JStr ''k'')]))
         else if has_suffix url ''/offer'' then Some (204, [])
         else if has_suffix url ''/answer'' \<and> 2 * Second \<le> t then Some (200, marshal (JObj [(''answer'', JStr ''sdp'')]))
         else Some (404, ''not found''))"

definition demo_rtc :: "(int, string, string) rtc_lib" where
  "demo_rtc =
     \<lparr>rt_http = demo_http, rt_url_ok = (\<lambda>u. CHR ''%'' \<notin> set u), rt_now = (\<lambda>t. t), rt_sleep = (\<lambda>d t. t + d),
      rt_new = (\<lambda>_ _ t. (t, Some 1)), rt_close = (\<lambda>_ t. (t, True)), rt_channel = (\<lambda>_ t. (t, Some 5)), rt_send = (\<lambda>_ _ t. (t, True)),
      rt_offer = (\<lambda>_ t. (t, Some ''o'')), rt_answer = (\<lambda>_ t. (t, Some ''a'')), rt_local = (\<lambda>_ d t. (t, Some d)), rt_remote = (\<lambda>_ _ t. (t, True)),
      rt_add = (\<lambda>_ _ t. (t, True)), rt_state = (\<lambda>_ _. PcConnected), rt_sd_json = JStr,
      rt_sd_of = (\<lambda>v. case v of Some (JStr d) \<Rightarrow> Some d | None \<Rightarrow> Some [] | _ \<Rightarrow> None), rt_c_json = JStr,
      rt_c_of = (\<lambda>v. case v of JStr d \<Rightarrow> d | _ \<Rightarrow> [])\<rparr>"

definition demo_run :: "(int, string) rtc_run" where
  "demo_run = \<lparr>rw = 0, rp = new_peer_state ''daemon'' 0, rlog = []\<rparr>"

lemma demo_clock: "clock_laws demo_rtc"
  by (simp add: clock_laws_def demo_rtc_def demo_http_def)


end
