(* ===== verification/JsonText.thy ===== *)
theory JsonText
  imports JsonIndent
begin

text \<open>
  The grammar of JSON texts as an inductive relation between documents and their texts, the proof that the
  parser decides it, and \<open>json.Indent\<close>, which lays out a text anew without decoding it, with the proof that it keeps the
  document.
\<close>

section \<open>\<open>json.Indent\<close>\<close>

text \<open>
  With an empty prefix and an indentation of two spaces. \<open>need\<close> is \<open>needIndent\<close>: an opening bracket has been
  written and nothing after it. Inside a string everything is copied.
\<close>

datatype imode = Out | InStr | InEsc

fun ind :: "nat \<Rightarrow> bool \<Rightarrow> imode \<Rightarrow> string \<Rightarrow> string" where
  "ind d need m [] = []"
| "ind d need InEsc (c # s) = c # ind d need InStr s"
| "ind d need InStr (c # s) = c # ind d need (if c = CHR 0x22 then Out else if c = CHR 0x5C then InEsc else InStr) s"
| "ind d need Out (c # s) =
     (if json_ws c then ind d need Out s
      else if c = CHR '']'' \<or> c = CHR ''}'' then
        (if need then c # ind d False Out s else nl_ind (d - 1) @ c # ind (d - 1) False Out s)
      else let d' = (if need then Suc d else d)
           in (if need then nl_ind d' else []) @
              (if c = CHR ''['' \<or> c = CHR ''{'' then c # ind d' True Out s
               else if c = CHR '','' then c # nl_ind d' @ ind d' False Out s
               else if c = CHR '':'' then c # CHR '' '' # ind d' False Out s
               else if c = CHR 0x22 then c # ind d' False InStr s
               else c # ind d' False Out s))"

text \<open>\<open>None\<close> is the error on a text that is not JSON.\<close>

definition json_Indent :: "string \<Rightarrow> string option" where
  "json_Indent s = (if parse_json s = None then None else Some (ind 0 False Out s))"

section \<open>Texts\<close>

abbreviation white :: "string \<Rightarrow> bool" where
  "white w \<equiv> list_all json_ws w"

text \<open>The characters of a string with its closing quote: they are read as \<open>b\<close> and copied whole.\<close>

definition str_text :: "bytes \<Rightarrow> string \<Rightarrow> bool" where
  "str_text b u \<longleftrightarrow> (\<forall>t. pchars (u @ t) = Some (b, t)) \<and> (\<forall>d need t. ind d need InStr (u @ t) = u @ ind d need Out t)"

inductive jtext :: "json \<Rightarrow> string \<Rightarrow> bool"
  and elems_text :: "json list \<Rightarrow> string \<Rightarrow> bool"
  and members_text :: "(string \<times> json) list \<Rightarrow> string \<Rightarrow> bool" where
  Null: "jtext JNull ''null''"
| TrueT: "jtext (JBool True) ''true''"
| FalseT: "jtext (JBool False) ''false''"
| Num: "num_ok l \<Longrightarrow> jtext (JNum l) l"
| Str: "str_text b u \<Longrightarrow> jtext (JStr b) (CHR 0x22 # u)"
| Arr0: "white w \<Longrightarrow> jtext (JArr []) (CHR ''['' # w @ '']'')"
| Arr: "elems_text vs x \<Longrightarrow> jtext (JArr vs) (CHR ''['' # x)"
| Obj0: "white w \<Longrightarrow> jtext (JObj []) (CHR ''{'' # w @ ''}'')"
| Obj: "members_text kvs x \<Longrightarrow> jtext (JObj kvs) (CHR ''{'' # x)"
| Elem: "white w1 \<Longrightarrow> jtext v x \<Longrightarrow> white w2 \<Longrightarrow> elems_text [v] (w1 @ x @ w2 @ '']'')"
| Elems: "white w1 \<Longrightarrow> jtext v x \<Longrightarrow> white w2 \<Longrightarrow> elems_text vs y \<Longrightarrow> elems_text (v # vs) (w1 @ x @ w2 @ CHR '','' # y)"
| Member: "white w1 \<Longrightarrow> str_text k u \<Longrightarrow> white w2 \<Longrightarrow> white w3 \<Longrightarrow> jtext v x \<Longrightarrow> white w4 \<Longrightarrow>
    members_text [(k, v)] (w1 @ CHR 0x22 # u @ w2 @ CHR '':'' # w3 @ x @ w4 @ ''}'')"
| Members: "white w1 \<Longrightarrow> str_text k u \<Longrightarrow> white w2 \<Longrightarrow> white w3 \<Longrightarrow> jtext v x \<Longrightarrow> white w4 \<Longrightarrow> members_text kvs y \<Longrightarrow>
    members_text ((k, v) # kvs) (w1 @ CHR 0x22 # u @ w2 @ CHR '':'' # w3 @ x @ w4 @ CHR '','' # y)"

section \<open>The parser accepts the grammar\<close>

lemma skip_white [simp]: "white w \<Longrightarrow> skip_ws (w @ s) = skip_ws s"
  by (induction w) auto

lemma white_split: "\<exists>w. white w \<and> s = w @ skip_ws s"
  using takeWhile_dropWhile_id [of json_ws s] set_takeWhileD [of _ json_ws s]
  by (intro exI [of _ "takeWhile json_ws s"]) (auto simp: list_all_iff)

lemma delim_white: "white w \<Longrightarrow> delim t \<Longrightarrow> delim (w @ t)"
proof (cases w)
  case (Cons c w')
  assume "white w"
  then have "json_ws c" using Cons by simp
  then have "c = CHR 0x0A \<or> c = CHR 0x0D \<or> c = CHR 0x09 \<or> c = CHR '' ''" by (auto simp: json_ws_def intro!: ord_eq_char)
  then show ?thesis using Cons by (auto simp: delim_def)
qed simp

lemma pval_white: "white w \<Longrightarrow> pval k (w @ s) = pval k s"
  by (cases k) (simp_all add: pval.simps)

lemma jtext_hd: "jtext v x \<Longrightarrow> \<exists>c s. x = c # s \<and> \<not> json_ws c \<and> c \<noteq> CHR '']'' \<and> c \<noteq> CHR ''}''"
proof (induction rule: jtext_elems_text_members_text.inducts(1) [where ?P2.0 = "\<lambda>_ _. True" and ?P3.0 = "\<lambda>_ _. True"])
  case (Num l)
  then obtain c s where "l = c # s" "c = CHR ''-'' \<or> is_digit c" using num_ok_hd by blast
  then show ?case using digit_not [of c] by (auto simp: json_ws_def is_digit_def)
qed (auto simp: json_ws_def)

lemma jtext_skip: "jtext v x \<Longrightarrow> skip_ws (x @ t) = x @ t"
  using jtext_hd by fastforce

lemma jtext_not_closing: "jtext v x \<Longrightarrow> take 1 (skip_ws (x @ t)) \<noteq> '']''" "jtext v x \<Longrightarrow> take 1 (skip_ws (x @ t)) \<noteq> ''}''"
  using jtext_hd by fastforce+

lemma elems_not_closing: "elems_text vs x \<Longrightarrow> take 1 (skip_ws (x @ t)) \<noteq> '']''"
  by (erule elems_text.cases) (simp_all add: jtext_not_closing [unfolded One_nat_def])

lemma members_not_closing: "members_text kvs x \<Longrightarrow> take 1 (skip_ws (x @ t)) \<noteq> ''}''"
  by (erule members_text.cases) simp_all

lemma str_read: "str_text b u \<Longrightarrow> pchars (u @ t) = Some (b, t)"
  by (simp add: str_text_def)

text \<open>One element and what follows it; one member likewise.\<close>

lemma pelems_one:
  assumes "pval k (x @ w2 @ t) = Some (v, w2 @ t)" and "white w1" "white w2"
  shows "pelems (Suc k) (w1 @ x @ w2 @ t) =
     (case skip_ws t of
        [] \<Rightarrow> None
      | c # r \<Rightarrow> if c = CHR '','' then map_option (apfst (Cons v)) (pelems k r) else if c = CHR '']'' then Some ([v], r) else None)"
  using assms by (simp add: pelems.simps pval_white)

lemma pmembers_one:
  assumes "pval k (x @ w4 @ t) = Some (v, w4 @ t)" and "str_text key u" and "white w1" "white w2" "white w3" "white w4"
  shows "pmembers (Suc k) (w1 @ CHR 0x22 # u @ w2 @ CHR '':'' # w3 @ x @ w4 @ t) =
     (case skip_ws t of
        [] \<Rightarrow> None
      | c # r \<Rightarrow> if c = CHR '','' then map_option (apfst (Cons (key, v))) (pmembers k r) else if c = CHR ''}'' then Some ([(key, v)], r) else None)"
  using assms str_read [OF assms(2), of "w2 @ CHR '':'' # w3 @ x @ w4 @ t"] by (simp add: pmembers.simps pval_white)

lemma jtext_reads:
  "jtext v x \<Longrightarrow> \<forall>t k. delim t \<longrightarrow> 2 * length x \<le> k \<longrightarrow> pval k (x @ t) = Some (v, t)"
  "elems_text vs x \<Longrightarrow> \<forall>t k. 2 * length x + 1 \<le> k \<longrightarrow> pelems k (x @ t) = Some (vs, t)"
  "members_text kvs x \<Longrightarrow> \<forall>t k. 2 * length x + 1 \<le> k \<longrightarrow> pmembers k (x @ t) = Some (kvs, t)"
proof (induction rule: jtext_elems_text_members_text.inducts)
  case (Num l)
  show ?case
  proof (intro allI impI)
    fix t k assume "delim t" "2 * length l \<le> k"
    moreover have "l \<noteq> []" using num_ok_hd [OF Num] by blast
    ultimately show "pval k (l @ t) = Some (JNum l, t)" using pval_num [OF Num] by (cases k) auto
  qed
next
  case (Str b u)
  show ?case
  proof (intro allI impI)
    fix t k assume "2 * length (CHR 0x22 # u) \<le> k"
    then show "pval k ((CHR 0x22 # u) @ t) = Some (JStr b, t)" using str_read [OF Str] by (cases k) (simp_all add: pval.simps)
  qed
next
  case (Arr0 w)
  show ?case
  proof (intro allI impI)
    fix t k assume "2 * length (CHR ''['' # w @ '']'') \<le> k"
    then show "pval k ((CHR ''['' # w @ '']'') @ t) = Some (JArr [], t)" using Arr0 by (cases k) (simp_all add: pval.simps)
  qed
next
  case (Arr vs x)
  show ?case
  proof (intro allI impI)
    fix t k assume "2 * length (CHR ''['' # x) \<le> k"
    then show "pval k ((CHR ''['' # x) @ t) = Some (JArr vs, t)"
      using Arr.IH elems_not_closing [OF Arr.hyps(1), of t] by (cases k) (simp_all add: pval.simps)
  qed
next
  case (Obj0 w)
  show ?case
  proof (intro allI impI)
    fix t k assume "2 * length (CHR ''{'' # w @ ''}'') \<le> k"
    then show "pval k ((CHR ''{'' # w @ ''}'') @ t) = Some (JObj [], t)" using Obj0 by (cases k) (simp_all add: pval.simps)
  qed
next
  case (Obj kvs x)
  show ?case
  proof (intro allI impI)
    fix t k assume "2 * length (CHR ''{'' # x) \<le> k"
    then show "pval k ((CHR ''{'' # x) @ t) = Some (JObj kvs, t)"
      using Obj.IH members_not_closing [OF Obj.hyps(1), of t] by (cases k) (simp_all add: pval.simps)
  qed
next
  case (Elem w1 v x w2)
  show ?case
  proof (intro allI impI)
    fix t k assume k: "2 * length (w1 @ x @ w2 @ '']'') + 1 \<le> k"
    then obtain j where j: "k = Suc j" by (cases k) auto
    have "pval j (x @ w2 @ CHR '']'' # t) = Some (v, w2 @ CHR '']'' # t)" using Elem k j delim_white [of w2] by simp
    then show "pelems k ((w1 @ x @ w2 @ '']'') @ t) = Some ([v], t)" using pelems_one [of j x w2 "CHR '']'' # t" v w1] Elem j by simp
  qed
next
  case (Elems w1 v x w2 vs y)
  show ?case
  proof (intro allI impI)
    fix t k assume k: "2 * length (w1 @ x @ w2 @ CHR '','' # y) + 1 \<le> k"
    then obtain j where j: "k = Suc j" by (cases k) auto
    have "pval j (x @ w2 @ CHR '','' # y @ t) = Some (v, w2 @ CHR '','' # y @ t)" using Elems k j delim_white [of w2] by simp
    then show "pelems k ((w1 @ x @ w2 @ CHR '','' # y) @ t) = Some (v # vs, t)"
      using pelems_one [of j x w2 "CHR '','' # y @ t" v w1] Elems j k by simp
  qed
next
  case (Member w1 key u w2 w3 v x w4)
  show ?case
  proof (intro allI impI)
    fix t k assume k: "2 * length (w1 @ CHR 0x22 # u @ w2 @ CHR '':'' # w3 @ x @ w4 @ ''}'') + 1 \<le> k"
    then obtain j where j: "k = Suc j" by (cases k) auto
    have "pval j (x @ w4 @ CHR ''}'' # t) = Some (v, w4 @ CHR ''}'' # t)" using Member k j delim_white [of w4] by simp
    then show "pmembers k ((w1 @ CHR 0x22 # u @ w2 @ CHR '':'' # w3 @ x @ w4 @ ''}'') @ t) = Some ([(key, v)], t)"
      using pmembers_one [of j x w4 "CHR ''}'' # t" v key u w1 w2 w3] Member j by simp
  qed
next
  case (Members w1 key u w2 w3 v x w4 kvs y)
  show ?case
  proof (intro allI impI)
    fix t k assume k: "2 * length (w1 @ CHR 0x22 # u @ w2 @ CHR '':'' # w3 @ x @ w4 @ CHR '','' # y) + 1 \<le> k"
    then obtain j where j: "k = Suc j" by (cases k) auto
    have "pval j (x @ w4 @ CHR '','' # y @ t) = Some (v, w4 @ CHR '','' # y @ t)" using Members k j delim_white [of w4] by simp
    then show "pmembers k ((w1 @ CHR 0x22 # u @ w2 @ CHR '':'' # w3 @ x @ w4 @ CHR '','' # y) @ t) = Some ((key, v) # kvs, t)"
      using pmembers_one [of j x w4 "CHR '','' # y @ t" v key u w1 w2 w3] Members j k by simp
  qed
qed (intro allI impI, (case_tac k; simp add: pval.simps json_ws_def))+

section \<open>Strings\<close>

lemma str_end: "str_text [] [CHR 0x22]"
  by (simp add: str_text_def pchars.simps(2))

lemma hex_val_chars: "hex_val c \<noteq> None \<Longrightarrow> c \<noteq> CHR 0x22 \<and> c \<noteq> CHR 0x5C"
  by (auto simp: hex_val_def)

lemma getu4_text:
  assumes "getu4 s = Some (n, r)"
  shows "\<exists>x. s = x @ r \<and> length x = 4 \<and> (\<forall>c \<in> set x. c \<noteq> CHR 0x22 \<and> c \<noteq> CHR 0x5C) \<and> (\<forall>t. getu4 (x @ t) = Some (n, t))"
proof -
  obtain a b c d where s: "s = a # b # c # d # r" using assms by (cases s rule: getu4.cases) (auto split: option.splits)
  then have "hex_val a \<noteq> None" "hex_val b \<noteq> None" "hex_val c \<noteq> None" "hex_val d \<noteq> None" "\<forall>t. getu4 (a # b # c # d # t) = Some (n, t)"
    using assms by (auto split: option.splits)
  then show ?thesis using s hex_val_chars by (intro exI [of _ "[a, b, c, d]"]) auto
qed

lemma low_text:
  assumes "low_surrogate s = Some (n, r)"
  shows "\<exists>x. s = CHR 0x5C # CHR ''u'' # x @ r \<and> length x = 4 \<and> (\<forall>c \<in> set x. c \<noteq> CHR 0x22 \<and> c \<noteq> CHR 0x5C) \<and>
    (\<forall>t. low_surrogate (CHR 0x5C # CHR ''u'' # x @ t) = Some (n, t))"
proof -
  obtain s' where s': "s = CHR 0x5C # CHR ''u'' # s'" "getu4 s' = Some (n, r)" "0xDC00 \<le> n" "n < 0xE000"
    using assms by (cases s rule: low_surrogate.cases) (auto split: option.splits if_splits)
  from getu4_text [OF s'(2)] s' show ?thesis by fastforce
qed

text \<open>What follows a closing quote has no part in a surrogate pair or a rune before it.\<close>

lemma longer_prefix: "u @ t = x @ y \<Longrightarrow> q \<in> set u \<Longrightarrow> q \<notin> set x \<Longrightarrow> \<exists>us. u = x @ us"
  by (auto simp: append_eq_append_conv2)

lemma low_none:
  assumes "CHR 0x22 \<in> set u" and "low_surrogate (u @ r) = None"
  shows "low_surrogate (u @ t) = None"
proof (rule ccontr)
  assume "low_surrogate (u @ t) \<noteq> None"
  then obtain n y where "low_surrogate (u @ t) = Some (n, y)" by auto
  from low_text [OF this] obtain x where x: "u @ t = (CHR 0x5C # CHR ''u'' # x) @ y" "\<forall>c \<in> set x. c \<noteq> CHR 0x22"
    "\<forall>t. low_surrogate (CHR 0x5C # CHR ''u'' # x @ t) = Some (n, t)" by auto
  have "CHR 0x22 \<notin> set (CHR 0x5C # CHR ''u'' # x)" using x(2) by auto
  then obtain us where "u = (CHR 0x5C # CHR ''u'' # x) @ us" using longer_prefix [OF x(1) assms(1)] by blast
  then show False using assms(2) x(3) by simp
qed

lemma rune_none:
  assumes "CHR 0x22 \<in> set u" and "rune_len (c # u @ r) = 0" and "128 \<le> ord c"
  shows "rune_len (c # u @ t) = 0"
proof (rule ccontr)
  let ?n = "rune_len (c # u @ t)"
  assume n: "?n \<noteq> 0"
  have "\<forall>x \<in> set (take ?n (c # u @ t)). 128 \<le> ord x" using rune_bytes_high [of c "u @ t"] assms(3) n by auto
  then have q: "CHR 0x22 \<notin> set (take ?n (c # u @ t))" by fastforce
  have "(c # u) @ t = take ?n (c # u @ t) @ drop ?n (c # u @ t)" by (metis append_Cons append_take_drop_id)
  from longer_prefix [OF this _ q] obtain us where us: "c # u = take ?n (c # u @ t) @ us" using assms(1) by auto
  have "rune_len (take ?n (c # u @ t) @ us @ r) = ?n" by (rule rune_len_take [OF n])
  moreover have "take ?n (c # u @ t) @ us @ r = c # u @ r" using us by (metis append_Cons append_assoc)
  ultimately show False using assms(2) n by metis
qed

lemma ind_plain: "(\<forall>c \<in> set x. c \<noteq> CHR 0x22 \<and> c \<noteq> CHR 0x5C) \<Longrightarrow> ind d need InStr (x @ t) = x @ ind d need InStr t"
  by (induction x) auto

lemma unescape_text:
  assumes "unescape s = Some (b, r)"
  shows "\<exists>x. s = x @ r \<and> (\<forall>t. (low_surrogate r = None \<longrightarrow> low_surrogate t = None) \<longrightarrow> unescape (x @ t) = Some (b, t)) \<and>
    (\<forall>d need t. ind d need InEsc (x @ t) = x @ ind d need InStr t)"
proof -
  obtain c s' where s: "s = c # s'" using assms by (cases s) auto
  show ?thesis
  proof (cases "c = CHR ''u''")
    case False
    then have "r = s' \<and> (\<forall>t. unescape (c # t) = Some (b, t))" using assms s by (auto split: if_splits)
    then show ?thesis using s by (intro exI [of _ "[c]"]) simp
  next
    case True
    obtain n r' where g: "getu4 s' = Some (n, r')" using assms s True by (auto split: option.splits)
    obtain x where x: "s' = x @ r'" "\<forall>c \<in> set x. c \<noteq> CHR 0x22 \<and> c \<noteq> CHR 0x5C" "\<forall>t. getu4 (x @ t) = Some (n, t)"
      using getu4_text [OF g] by blast
    show ?thesis
    proof (cases "0xD800 \<le> n \<and> n < 0xDC00 \<and> low_surrogate r' \<noteq> None")
      case low: True
      then obtain m r'' where m: "low_surrogate r' = Some (m, r'')" by auto
      obtain y where y: "r' = CHR 0x5C # CHR ''u'' # y @ r''" "\<forall>c \<in> set y. c \<noteq> CHR 0x22 \<and> c \<noteq> CHR 0x5C"
        "\<forall>t. low_surrogate (CHR 0x5C # CHR ''u'' # y @ t) = Some (m, t)" using low_text [OF m] by blast
      have r: "r = r''" "\<forall>t. unescape (CHR ''u'' # x @ CHR 0x5C # CHR ''u'' # y @ t) = Some (b, t)"
        using assms s True g low m x(3) y(3) by (auto split: if_splits)
      have "ind d need InEsc ((CHR ''u'' # x @ CHR 0x5C # CHR ''u'' # y) @ t) = (CHR ''u'' # x @ CHR 0x5C # CHR ''u'' # y) @ ind d need InStr t" for d need t
        using ind_plain [OF x(2)] ind_plain [OF y(2)] by simp
      then show ?thesis using s True x(1) y(1) r by (intro exI [of _ "CHR ''u'' # x @ CHR 0x5C # CHR ''u'' # y"]) simp
    next
      case no: False
      have r: "r = r'" using assms s True g no by (auto split: if_splits option.splits)
      have "unescape ((CHR ''u'' # x) @ t) = Some (b, t)" if "low_surrogate r = None \<longrightarrow> low_surrogate t = None" for t
        using assms s True g no x(3) that r by (auto split: if_splits option.splits)
      moreover have "ind d need InEsc ((CHR ''u'' # x) @ t) = (CHR ''u'' # x) @ ind d need InStr t" for d need t
        using ind_plain [OF x(2)] by simp
      ultimately show ?thesis using s True x(1) r by (intro exI [of _ "CHR ''u'' # x"]) simp
    qed
  qed
qed

lemma pchars_text: "pchars s = Some (b, r) \<Longrightarrow> \<exists>u. s = u @ r \<and> str_text b u \<and> CHR 0x22 \<in> set u"
proof (induction s arbitrary: b rule: pchars.induct)
  case (2 c s)
  consider (quote) "c = CHR 0x22" | (esc) "c = CHR 0x5C" | (bad) "c \<noteq> CHR 0x22" "c \<noteq> CHR 0x5C" "\<not> ord c < 32" "rune_len (c # s) = 0"
    | (rune) "c \<noteq> CHR 0x22" "c \<noteq> CHR 0x5C" "\<not> ord c < 32" "rune_len (c # s) \<noteq> 0"
    using "2.prems" by (auto simp: pchars.simps(2) split: if_splits)
  then show ?case
  proof cases
    case quote
    then show ?thesis using "2.prems" str_end by (intro exI [of _ "[CHR 0x22]"]) (simp add: pchars.simps(2))
  next
    case esc
    obtain b1 s1 b2 where e: "unescape s = Some (b1, s1)" "pchars s1 = Some (b2, r)" "b = b1 @ b2"
      using "2.prems" esc by (auto simp: pchars.simps(2) pre_def split: option.splits)
    obtain u where u: "s1 = u @ r" "str_text b2 u" "CHR 0x22 \<in> set u" using 2(1) esc e(1,2) by fastforce
    obtain x where x: "s = x @ s1" "\<forall>t. (low_surrogate s1 = None \<longrightarrow> low_surrogate t = None) \<longrightarrow> unescape (x @ t) = Some (b1, t)"
      "\<forall>d need t. ind d need InEsc (x @ t) = x @ ind d need InStr t" using unescape_text [OF e(1)] by blast
    have "unescape (x @ u @ t) = Some (b1, u @ t)" for t using x(2) low_none [OF u(3)] u(1) by simp
    then have "str_text b (c # x @ u)" using u(2) x(3) esc e(3) by (simp add: str_text_def pchars.simps(2))
    then show ?thesis using x(1) u by (intro exI [of _ "c # x @ u"]) simp
  next
    case bad
    obtain b2 where e: "pchars s = Some (b2, r)" "b = repl_char @ b2" using "2.prems" bad by (auto simp: pchars.simps(2) pre_def)
    obtain u where u: "s = u @ r" "str_text b2 u" "CHR 0x22 \<in> set u" using 2(2) bad e(1) by fastforce
    have "128 \<le> ord c" using bad(4) rune_len_ascii [of c s] by fastforce
    then have "rune_len (c # u @ t) = 0" for t using rune_none [OF u(3)] bad(4) u(1) by simp
    then have "str_text b (c # u)" using u(2) bad e(2) by (simp add: str_text_def pchars.simps(2))
    then show ?thesis using u by (intro exI [of _ "c # u"]) simp
  next
    case rune
    let ?n = "rune_len (c # s)"
    let ?x = "take ?n (c # s)"
    obtain b2 where e: "pchars (drop ?n (c # s)) = Some (b2, r)" "b = ?x @ b2" using "2.prems" rune by (auto simp: pchars.simps(2) pre_def)
    obtain u where u: "drop ?n (c # s) = u @ r" "str_text b2 u" "CHR 0x22 \<in> set u" using 2(3) rune e(1) by fastforce
    have n: "rune_len (?x @ t) = ?n" for t using rune_len_take [OF rune(4)] .
    have len: "length ?x = ?n" using rune_len_le [of "c # s"] by simp
    obtain x' where x': "?x = c # x'" using rune(4) by (cases ?n) auto
    have plain: "\<forall>y \<in> set ?x. y \<noteq> CHR 0x22 \<and> y \<noteq> CHR 0x5C"
    proof (cases "ord c < 128")
      case True
      then show ?thesis using rune rune_len_ascii [of c s] by simp
    next
      case False
      then show ?thesis using rune_bytes_high [of c s] rune(4) by fastforce
    qed
    have "pchars (?x @ u @ t) = Some (b, t)" for t
    proof -
      have "rune_len (c # x' @ u @ t) = ?n" "take ?n (c # x' @ u @ t) = ?x" "drop ?n (c # x' @ u @ t) = u @ t"
        using n [of "u @ t"] len [symmetric] unfolding x' by simp_all
      then show ?thesis using rune e(2) u(2) x' by (simp add: pchars.simps(2) str_text_def)
    qed
    then have "str_text b (?x @ u)" using u(2) ind_plain [OF plain] by (simp add: str_text_def)
    moreover have "c # s = (?x @ u) @ r" using u(1) by (metis append_assoc append_take_drop_id)
    ultimately show ?thesis using u(3) by (intro exI [of _ "?x @ u"]) simp
  qed
qed simp

section \<open>The parser accepts nothing else\<close>

lemma pint_split: "pint s = Some (i, r) \<Longrightarrow> s = i @ r"
proof -
  assume p: "pint s = Some (i, r)"
  define sg where "sg = (case s of x # _ \<Rightarrow> if x = CHR ''-'' then [x] else [] | [] \<Rightarrow> [])"
  have "i = sg @ takeWhile is_digit (drop (length sg) s)" "r = dropWhile is_digit (drop (length sg) s)"
    using p unfolding pint_def sg_def Let_def by (auto split: if_split_asm)
  moreover have "s = sg @ drop (length sg) s" by (auto simp: sg_def split: list.split)
  ultimately show ?thesis by (metis append_assoc takeWhile_dropWhile_id)
qed

lemma pfrac_split: "pfrac s = Some (i, r) \<Longrightarrow> s = i @ r"
  by (cases s) (auto simp: pfrac_def Let_def split: if_splits)

lemma pexp_split: "pexp s = Some (i, r) \<Longrightarrow> s = i @ r"
  by (auto simp: pexp_def Let_def split: if_splits list.splits)

lemma pnum_split: "pnum s = Some (l, r) \<Longrightarrow> s = l @ r"
  by (auto simp: pnum_def split: option.splits dest!: pint_split pfrac_split pexp_split)

lemma prefix_rest: "has_prefix s l \<Longrightarrow> s = l @ drop (length l) s"
  by (auto simp: prefix_def)

lemma pval_scalar_text:
  assumes s: "skip_ws s = c # s'" and p: "pval (Suc k) s = Some (v, r)" and c: "c \<noteq> CHR ''[''" "c \<noteq> CHR ''{''"
  shows "\<exists>x. skip_ws s = x @ r \<and> jtext v x"
proof -
  consider (str) b where "c = CHR 0x22" "pchars s' = Some (b, r)" "v = JStr b"
    | (null) "has_prefix (c # s') ''null''" "v = JNull" "r = drop 4 (c # s')"
    | (true) "has_prefix (c # s') ''true''" "v = JBool True" "r = drop 4 (c # s')"
    | (false) "has_prefix (c # s') ''false''" "v = JBool False" "r = drop 5 (c # s')"
    | (num) l where "pnum (c # s') = Some (l, r)" "v = JNum l"
    using p c unfolding pval.simps s list.case by (simp only: if_False split: if_split_asm) auto
  then show ?thesis
  proof cases
    case str
    obtain u where "s' = u @ r" "str_text b u" using pchars_text [OF str(2)] by blast
    then show ?thesis using s str jtext_elems_text_members_text.Str by (intro exI [of _ "CHR 0x22 # u"]) simp
  next
    case null
    then show ?thesis using prefix_rest [OF null(1)] s jtext_elems_text_members_text.Null by (intro exI [of _ "''null''"]) (simp add: eval_nat_numeral)
  next
    case true
    then show ?thesis using prefix_rest [OF true(1)] s jtext_elems_text_members_text.TrueT by (intro exI [of _ "''true''"]) (simp add: eval_nat_numeral)
  next
    case false
    then show ?thesis using prefix_rest [OF false(1)] s jtext_elems_text_members_text.FalseT by (intro exI [of _ "''false''"]) (simp add: eval_nat_numeral)
  next
    case num
    then show ?thesis using pnum_split [OF num(1)] pnum_ok [OF num(1)] s jtext_elems_text_members_text.Num by (intro exI [of _ l]) simp
  qed
qed

lemma pval_text:
  "pval k s = Some (v, r) \<Longrightarrow> \<exists>x. skip_ws s = x @ r \<and> jtext v x"
  "pelems k s = Some (vs, r) \<Longrightarrow> \<exists>x. s = x @ r \<and> elems_text vs x"
  "pmembers k s = Some (ms, r) \<Longrightarrow> \<exists>x. s = x @ r \<and> members_text ms x"
proof (induction k s and k s and k s arbitrary: v r and vs r and ms r rule: pval_pelems_pmembers.induct)
  case (2 k s)
  obtain c s' where s: "skip_ws s = c # s'" using "2.prems" by (cases "skip_ws s") (auto simp: pval.simps)
  obtain w where w: "white w" "s' = w @ skip_ws s'" using white_split by blast
  consider "c = CHR ''[''" "take 1 (skip_ws s') = '']''" | "c = CHR ''[''" "take 1 (skip_ws s') \<noteq> '']''"
    | "c = CHR ''{''" "take 1 (skip_ws s') = ''}''" | "c = CHR ''{''" "take 1 (skip_ws s') \<noteq> ''}''"
    | "c \<noteq> CHR ''[''" "c \<noteq> CHR ''{''" by blast
  then show ?case
  proof cases
    case 1
    then have "v = JArr [] \<and> skip_ws s = (CHR ''['' # w @ '']'') @ r"
      using "2.prems" s w by (cases "skip_ws s'") (auto simp: pval.simps)
    then show ?thesis using jtext_elems_text_members_text.Arr0 [OF w(1)] by blast
  next
    case b: 2
    then obtain vs where "pelems k s' = Some (vs, r)" "v = JArr vs" using "2.prems" s by (auto simp: pval.simps)
    then obtain x where "s' = x @ r" "elems_text vs x" "v = JArr vs" using 2(1) [OF s] b by auto
    then show ?thesis using s b jtext_elems_text_members_text.Arr by (intro exI [of _ "CHR ''['' # x"]) simp
  next
    case 3
    then have "v = JObj [] \<and> skip_ws s = (CHR ''{'' # w @ ''}'') @ r"
      using "2.prems" s w by (cases "skip_ws s'") (auto simp: pval.simps)
    then show ?thesis using jtext_elems_text_members_text.Obj0 [OF w(1)] by blast
  next
    case 4
    then obtain ms where "pmembers k s' = Some (ms, r)" "v = JObj ms" using "2.prems" s by (auto simp: pval.simps)
    then obtain x where "s' = x @ r" "members_text ms x" "v = JObj ms" using 2(2) [OF s] 4 by auto
    then show ?thesis using s 4 jtext_elems_text_members_text.Obj by (intro exI [of _ "CHR ''{'' # x"]) simp
  next
    case 5
    then show ?thesis using pval_scalar_text [OF s "2.prems"] by blast
  qed
next
  case (4 k s)
  obtain v1 r1 where 1: "pval k s = Some (v1, r1)" using "4.prems" by (auto simp: pelems.simps split: option.splits)
  obtain c r2 where 2: "skip_ws r1 = c # r2" using "4.prems" 1 by (auto simp: pelems.simps split: list.splits)
  obtain x where x: "skip_ws s = x @ r1" "jtext v1 x" using 4(1) [OF 1] by blast
  obtain w1 w2 where w: "white w1" "s = w1 @ x @ r1" "white w2" "r1 = w2 @ c # r2" using white_split [of s] white_split [of r1] x(1) 2 by auto
  consider vs' where "c = CHR '',''" "pelems k r2 = Some (vs', r)" "vs = v1 # vs'" | "c = CHR '']''" "vs = [v1]" "r = r2"
    using "4.prems" 1 2 by (auto simp: pelems.simps split: if_splits)
  then show ?case
  proof cases
    case 1
    then obtain y where "r2 = y @ r" "elems_text vs' y" using 4(2) [OF \<open>pval k s = Some (v1, r1)\<close> refl 2] by blast
    then show ?thesis using jtext_elems_text_members_text.Elems [OF w(1) x(2) w(3)] 1 w(2,4) by (intro exI [of _ "w1 @ x @ w2 @ CHR '','' # y"]) simp
  next
    case 2
    then show ?thesis using jtext_elems_text_members_text.Elem [OF w(1) x(2) w(3)] w(2,4) by (intro exI [of _ "w1 @ x @ w2 @ '']''"]) simp
  qed
next
  case (6 k s)
  obtain q r0 where 1: "skip_ws s = q # r0" using "6.prems" by (auto simp: pmembers.simps split: list.splits)
  have q: "\<not> q \<noteq> CHR 0x22" using "6.prems" 1 by (auto simp: pmembers.simps split: if_splits)
  obtain key r1 where 2: "pchars r0 = Some (key, r1)" using "6.prems" 1 q by (auto simp: pmembers.simps split: option.splits)
  obtain c r2 where 3: "skip_ws r1 = c # r2" using "6.prems" 1 q 2 by (auto simp: pmembers.simps split: list.splits)
  have c: "\<not> c \<noteq> CHR '':''" using "6.prems" 1 q 2 3 by (auto simp: pmembers.simps split: if_splits)
  obtain v r3 where 4: "pval k r2 = Some (v, r3)" using "6.prems" 1 q 2 3 c by (auto simp: pmembers.simps split: option.splits)
  obtain d r4 where 5: "skip_ws r3 = d # r4" using "6.prems" 1 q 2 3 c 4 by (auto simp: pmembers.simps split: list.splits)
  obtain x where x: "skip_ws r2 = x @ r3" "jtext v x" using 6(1) [OF 1 q 2 refl 3 c 4] by blast
  obtain u where u: "r0 = u @ r1" "str_text key u" using pchars_text [OF 2] by blast
  obtain w1 w2 w3 w4 where w: "white w1" "s = w1 @ q # r0" "white w2" "r1 = w2 @ c # r2" "white w3" "r2 = w3 @ x @ r3" "white w4" "r3 = w4 @ d # r4"
    using white_split [of s] white_split [of r1] white_split [of r2] white_split [of r3] x(1) 1 3 5 by auto
  consider ms' where "d = CHR '',''" "pmembers k r4 = Some (ms', r)" "ms = (key, v) # ms'" | "d = CHR ''}''" "ms = [(key, v)]" "r = r4"
    using "6.prems" 1 q 2 3 c 4 5 by (auto simp: pmembers.simps split: if_splits)
  then show ?case
  proof cases
    case m: 1
    then obtain y where "r4 = y @ r" "members_text ms' y" using 6(2) [OF 1 q 2 refl 3 c 4 refl 5] by blast
    then show ?thesis
      using jtext_elems_text_members_text.Members [OF w(1) u(2) w(3,5) x(2) w(7)] m w(2,4,6,8) u(1) q c
      by (intro exI [of _ "w1 @ CHR 0x22 # u @ w2 @ CHR '':'' # w3 @ x @ w4 @ CHR '','' # y"]) simp
  next
    case m: 2
    then show ?thesis
      using jtext_elems_text_members_text.Member [OF w(1) u(2) w(3,5) x(2) w(7)] w(2,4,6,8) u(1) q c
      by (intro exI [of _ "w1 @ CHR 0x22 # u @ w2 @ CHR '':'' # w3 @ x @ w4 @ ''}''"]) simp
  qed
qed (simp_all add: pval.simps pelems.simps pmembers.simps)

text \<open>The parser decides the grammar.\<close>

theorem parse_json_grammar: "parse_json s = Some v \<longleftrightarrow> (\<exists>w x w'. s = w @ x @ w' \<and> white w \<and> white w' \<and> jtext v x)"
proof
  assume "parse_json s = Some v"
  then obtain r where r: "pval (2 * length s + 2) s = Some (v, r)" "skip_ws r = []" by (auto simp: parse_json_def split: option.splits if_splits)
  from pval_text(1) [OF r(1)] obtain x where x: "skip_ws s = x @ r" "jtext v x" by blast
  obtain w where "white w" "s = w @ x @ r" using white_split [of s] x(1) by auto
  moreover have "white r" using r(2) by (simp add: list_all_iff)
  ultimately show "\<exists>w x w'. s = w @ x @ w' \<and> white w \<and> white w' \<and> jtext v x" using x(2) by blast
next
  assume "\<exists>w x w'. s = w @ x @ w' \<and> white w \<and> white w' \<and> jtext v x"
  then obtain w x w' where s: "s = w @ x @ w'" "white w" "white w'" "jtext v x" by blast
  have "delim w'" using delim_white [OF s(3), of "[]"] by (simp add: delim_def)
  then have "pval (2 * length s + 2) s = Some (v, w')" using jtext_reads(1) [OF s(4)] s pval_white by simp
  moreover have "skip_ws w' = []" using s(3) by (simp add: list_all_iff)
  ultimately show "parse_json s = Some v" by (simp add: parse_json_def)
qed

section \<open>Laying out keeps the document\<close>

lemma white_nl: "white (nl_ind d)"
  by (auto simp: nl_ind_def json_ws_def list_all_iff)

lemma ind_white [simp]: "white w \<Longrightarrow> ind d need Out (w @ t) = ind d need Out t"
  by (induction w) auto

lemma ind_close [simp]:
  "ind d True Out (CHR '']'' # t) = CHR '']'' # ind d False Out t" "ind d True Out (CHR ''}'' # t) = CHR ''}'' # ind d False Out t"
  "ind (Suc d) False Out (CHR '']'' # t) = nl_ind d @ CHR '']'' # ind d False Out t"
  "ind (Suc d) False Out (CHR ''}'' # t) = nl_ind d @ CHR ''}'' # ind d False Out t"
  by simp_all

text \<open>After an opening bracket, the first thing that is no closing one starts a deeper line.\<close>

lemma ind_need: "take 1 (skip_ws s) \<noteq> '']'' \<Longrightarrow> take 1 (skip_ws s) \<noteq> ''}'' \<Longrightarrow> skip_ws s \<noteq> [] \<Longrightarrow>
    ind d True Out s = nl_ind (Suc d) @ ind (Suc d) False Out s"
proof (induction s)
  case (Cons c s)
  then show ?case by (cases "json_ws c") auto
qed simp

lemma ind_word: "(\<forall>c \<in> set x. \<not> json_ws c \<and> c \<notin> {CHR ''['', CHR '']'', CHR ''{'', CHR ''}'', CHR '','', CHR '':'', CHR 0x22}) \<Longrightarrow>
    ind d False Out (x @ t) = x @ ind d False Out t"
  by (induction x) auto

lemma num_chars:
  assumes "num_ok l" and "c \<in> set l"
  shows "\<not> json_ws c \<and> c \<notin> {CHR ''['', CHR '']'', CHR ''{'', CHR ''}'', CHR '','', CHR '':'', CHR 0x22}"
proof -
  have d: "x \<in> set (takeWhile is_digit s) \<Longrightarrow> is_digit x" for x s by (rule set_takeWhileD [THEN conjunct2])
  obtain i r f r' e r'' where p: "pint l = Some (i, r)" "pfrac r = Some (f, r')" "pexp r' = Some (e, r'')" "l = i @ f @ e"
    using assms(1) by (auto simp: num_ok_def pnum_def split: option.splits)
  have "x \<in> set i \<Longrightarrow> is_digit x \<or> x = CHR ''-''" for x
    using p(1) d by (auto simp: pint_def Let_def split: if_split_asm list.splits)
  moreover have "x \<in> set f \<Longrightarrow> is_digit x \<or> x = CHR ''.''" for x
    using p(2) d by (auto simp: pfrac_def Let_def split: if_split_asm list.splits)
  moreover have "x \<in> set e \<Longrightarrow> is_digit x \<or> x \<in> {CHR ''e'', CHR ''E'', CHR ''+'', CHR ''-''}" for x
    using p(3) d by (auto simp: pexp_def Let_def split: if_split_asm list.splits)
  ultimately have "is_digit c \<or> c \<in> {CHR ''e'', CHR ''E'', CHR ''+'', CHR ''-'', CHR ''.''}" using assms(2) p(4) by auto
  then show ?thesis by (auto simp: is_digit_def json_ws_def)
qed

lemma elems_text_white: "white w \<Longrightarrow> elems_text vs x \<Longrightarrow> elems_text vs (w @ x)"
  by (erule elems_text.cases) (use jtext_elems_text_members_text.Elem [of "w @ _"] jtext_elems_text_members_text.Elems [of "w @ _"] in auto)

lemma members_text_white: "white w \<Longrightarrow> members_text kvs x \<Longrightarrow> members_text kvs (w @ x)"
  by (erule members_text.cases) (use jtext_elems_text_members_text.Member [of "w @ _"] jtext_elems_text_members_text.Members [of "w @ _"] in auto)

lemma elems_open: "elems_text vs x \<Longrightarrow> ind d True Out (x @ t) = nl_ind (Suc d) @ ind (Suc d) False Out (x @ t)"
  by (rule ind_need; erule elems_text.cases; force dest: jtext_hd)

lemma members_open: "members_text kvs x \<Longrightarrow> ind d True Out (x @ t) = nl_ind (Suc d) @ ind (Suc d) False Out (x @ t)"
  by (rule ind_need; erule members_text.cases; force)

lemma str_ind: "str_text b u \<Longrightarrow> ind d False Out (CHR 0x22 # u @ t) = CHR 0x22 # u @ ind d False Out t"
  by (simp add: str_text_def)

lemma ind_punct [simp]:
  "ind d False Out (CHR '','' # t) = CHR '','' # nl_ind d @ ind d False Out t"
  "ind d False Out (CHR '':'' # t) = CHR '':'' # CHR '' '' # ind d False Out t"
  "ind d False Out (CHR ''['' # t) = CHR ''['' # ind d True Out t"
  "ind d False Out (CHR ''{'' # t) = CHR ''{'' # ind d True Out t"
  by simp_all

declare ind.simps(4) [simp del]

lemma ind_text:
  "jtext v x \<Longrightarrow> \<forall>d. \<exists>y. jtext v y \<and> (\<forall>t. ind d False Out (x @ t) = y @ ind d False Out t)"
  "elems_text vs x \<Longrightarrow> \<forall>d. \<exists>y. elems_text vs y \<and> (\<forall>t. ind (Suc d) False Out (x @ t) = y @ ind d False Out t)"
  "members_text kvs x \<Longrightarrow> \<forall>d. \<exists>y. members_text kvs y \<and> (\<forall>t. ind (Suc d) False Out (x @ t) = y @ ind d False Out t)"
proof (induction rule: jtext_elems_text_members_text.inducts)
  case Null
  show ?case using ind_word [of "''null''"] jtext_elems_text_members_text.Null by (intro allI exI [of _ "''null''"]) (simp add: json_ws_def)
next
  case TrueT
  show ?case using ind_word [of "''true''"] jtext_elems_text_members_text.TrueT by (intro allI exI [of _ "''true''"]) (simp add: json_ws_def)
next
  case FalseT
  show ?case using ind_word [of "''false''"] jtext_elems_text_members_text.FalseT by (intro allI exI [of _ "''false''"]) (simp add: json_ws_def)
next
  case (Num l)
  then show ?case using ind_word [of l] num_chars [OF Num] jtext_elems_text_members_text.Num by (intro allI exI [of _ l]) auto
next
  case (Str b u)
  then show ?case using str_ind [OF Str] jtext_elems_text_members_text.Str by (intro allI exI [of _ "CHR 0x22 # u"]) simp
next
  case (Arr0 w)
  then show ?case using jtext_elems_text_members_text.Arr0 [of "[]"] by (intro allI exI [of _ "''[]''"]) simp
next
  case (Obj0 w)
  then show ?case using jtext_elems_text_members_text.Obj0 [of "[]"] by (intro allI exI [of _ "''{}''"]) simp
next
  case (Arr vs x)
  show ?case
  proof
    fix d
    obtain y where y: "elems_text vs y" "\<forall>t. ind (Suc d) False Out (x @ t) = y @ ind d False Out t" using Arr.IH by blast
    have "jtext (JArr vs) (CHR ''['' # nl_ind (Suc d) @ y)" by (intro jtext_elems_text_members_text.Arr elems_text_white white_nl y(1))
    then show "\<exists>y. jtext (JArr vs) y \<and> (\<forall>t. ind d False Out ((CHR ''['' # x) @ t) = y @ ind d False Out t)"
      using elems_open [OF Arr.hyps(1)] y(2) by (intro exI [of _ "CHR ''['' # nl_ind (Suc d) @ y"]) simp
  qed
next
  case (Obj kvs x)
  show ?case
  proof
    fix d
    obtain y where y: "members_text kvs y" "\<forall>t. ind (Suc d) False Out (x @ t) = y @ ind d False Out t" using Obj.IH by blast
    have "jtext (JObj kvs) (CHR ''{'' # nl_ind (Suc d) @ y)" by (intro jtext_elems_text_members_text.Obj members_text_white white_nl y(1))
    then show "\<exists>y. jtext (JObj kvs) y \<and> (\<forall>t. ind d False Out ((CHR ''{'' # x) @ t) = y @ ind d False Out t)"
      using members_open [OF Obj.hyps(1)] y(2) by (intro exI [of _ "CHR ''{'' # nl_ind (Suc d) @ y"]) simp
  qed
next
  case (Elem w1 v x w2)
  show ?case
  proof
    fix d
    obtain y where y: "jtext v y" "\<forall>t. ind (Suc d) False Out (x @ t) = y @ ind (Suc d) False Out t" using Elem.IH by blast
    show "\<exists>y. elems_text [v] y \<and> (\<forall>t. ind (Suc d) False Out ((w1 @ x @ w2 @ '']'') @ t) = y @ ind d False Out t)"
      using jtext_elems_text_members_text.Elem [of "[]" v y "nl_ind d"] y white_nl Elem by (intro exI [of _ "y @ nl_ind d @ '']''"]) simp
  qed
next
  case (Elems w1 v x w2 vs z)
  show ?case
  proof
    fix d
    obtain y where y: "jtext v y" "\<forall>t. ind (Suc d) False Out (x @ t) = y @ ind (Suc d) False Out t" using Elems.IH(1) by blast
    obtain y' where y': "elems_text vs y'" "\<forall>t. ind (Suc d) False Out (z @ t) = y' @ ind d False Out t" using Elems.IH(2) by blast
    have "elems_text vs (nl_ind (Suc d) @ y')" by (intro elems_text_white white_nl y'(1))
    then show "\<exists>y. elems_text (v # vs) y \<and> (\<forall>t. ind (Suc d) False Out ((w1 @ x @ w2 @ CHR '','' # z) @ t) = y @ ind d False Out t)"
      using jtext_elems_text_members_text.Elems [of "[]" v y "[]" vs] y y' Elems
      by (intro exI [of _ "y @ CHR '','' # nl_ind (Suc d) @ y'"]) simp
  qed
next
  case (Member w1 k u w2 w3 v x w4)
  show ?case
  proof
    fix d
    obtain y where y: "jtext v y" "\<forall>t. ind (Suc d) False Out (x @ t) = y @ ind (Suc d) False Out t" using Member.IH by blast
    have sp: "white '' ''" by (simp add: json_ws_def)
    show "\<exists>y. members_text [(k, v)] y \<and> (\<forall>t. ind (Suc d) False Out ((w1 @ CHR 0x22 # u @ w2 @ CHR '':'' # w3 @ x @ w4 @ ''}'') @ t) = y @ ind d False Out t)"
      using jtext_elems_text_members_text.Member [OF _ Member.hyps(2) _ sp y(1) white_nl, of "[]" "[]" d] y(2) str_ind [OF Member.hyps(2)] Member
      by (intro exI [of _ "CHR 0x22 # u @ CHR '':'' # CHR '' '' # y @ nl_ind d @ ''}''"]) simp
  qed
next
  case (Members w1 k u w2 w3 v x w4 kvs z)
  show ?case
  proof
    fix d
    obtain y where y: "jtext v y" "\<forall>t. ind (Suc d) False Out (x @ t) = y @ ind (Suc d) False Out t" using Members.IH(1) by blast
    obtain y' where y': "members_text kvs y'" "\<forall>t. ind (Suc d) False Out (z @ t) = y' @ ind d False Out t" using Members.IH(2) by blast
    have sp: "white '' ''" by (simp add: json_ws_def)
    have "members_text kvs (nl_ind (Suc d) @ y')" by (intro members_text_white white_nl y'(1))
    then show "\<exists>y. members_text ((k, v) # kvs) y \<and>
        (\<forall>t. ind (Suc d) False Out ((w1 @ CHR 0x22 # u @ w2 @ CHR '':'' # w3 @ x @ w4 @ CHR '','' # z) @ t) = y @ ind d False Out t)"
      using jtext_elems_text_members_text.Members [OF _ Members.hyps(2) _ sp y(1), of "[]" "[]" "[]" kvs] y(2) y'(2) str_ind [OF Members.hyps(2)] Members
      by (intro exI [of _ "CHR 0x22 # u @ CHR '':'' # CHR '' '' # y @ CHR '','' # nl_ind (Suc d) @ y'"]) simp
  qed
qed

text \<open>\<open>json.Indent\<close> succeeds on every JSON text, and its result is a text of the same document.\<close>

theorem indent_keeps:
  assumes "parse_json s = Some v"
  shows "\<exists>s'. json_Indent s = Some s' \<and> parse_json s' = Some v \<and> jtext v s'"
proof -
  obtain w x w' where s: "s = w @ x @ w'" "white w" "white w'" "jtext v x" using assms parse_json_grammar by blast
  obtain y where y: "jtext v y" "\<forall>t. ind 0 False Out (x @ t) = y @ ind 0 False Out t" using ind_text(1) [OF s(4)] by blast
  have "ind 0 False Out w' = []" using ind_white [OF s(3), of 0 False "[]"] by simp
  then have i: "ind 0 False Out s = y" using s y(2) by simp
  have "parse_json y = Some v" unfolding parse_json_grammar using y(1) by (intro exI [of _ "[]"] exI [of _ y]) simp
  then show ?thesis using assms i y(1) by (simp add: json_Indent_def)
qed

end
