(* ===== verification/SetupClaude.thy ===== *)
theory SetupClaude
  imports JsonText GoPath "HOL-Library.AList"
begin

text \<open>
  The editor set-up of \<open>cmd/valetfs/setupclaude.go\<close>: the command line of \<open>setup-claude\<close>, the object that keeps the
  order of its keys, its decoder over the tokens of \<open>encoding/json\<close> and its encoder, the merge of the rules into
  somebody's settings file, and the write that replaces the file in one step. The help text is only named.
\<close>

section \<open>Rules\<close>

definition agentAllowRules :: "string list" where
  "agentAllowRules = [''Bash(valetfs exec *)'', ''Bash(valetfs ls *)'', ''Bash(valetfs status)'']"

definition agentCatRule :: string where
  "agentCatRule = ''Bash(valetfs cat *)''"

definition containsRule :: "string list \<Rightarrow> string \<Rightarrow> bool" where
  "containsRule rules r =
     (let alt = (if has_suffix r '' *)'' then take (length r - 3) r @ '':*)'' else r)
      in list_ex (\<lambda>h. h = r \<or> h = alt) rules)"

section \<open>Objects that keep the order of their keys\<close>

text \<open>The keys in the order they came in, each with the text of its value: \<open>set\<close> changes a key in place or adds it at the end.\<close>

type_synonym orderedObj = "(string \<times> string) list"

definition obj_get :: "orderedObj \<Rightarrow> string \<Rightarrow> string option" where
  "obj_get ob k = map_of ob k"

definition obj_set :: "string \<Rightarrow> string \<Rightarrow> orderedObj \<Rightarrow> orderedObj" where
  "obj_set k v ob = AList.update k v ob"

text \<open>
  One key with its value, as \<open>Token\<close> and \<open>Decode\<close> read them from a position where a key is due. The
  value is kept as its text.
\<close>

definition read_member :: "string \<Rightarrow> (string \<times> string \<times> string) option" where
  "read_member s =
     (case skip_ws s of
        [] \<Rightarrow> None
      | q # r0 \<Rightarrow>
          if q \<noteq> CHR 0x22 then None
          else case pchars r0 of
            None \<Rightarrow> None
          | Some (key, r1) \<Rightarrow>
              (case skip_ws r1 of
                 [] \<Rightarrow> None
               | c # r2 \<Rightarrow>
                   if c \<noteq> CHR '':'' then None
                   else map_option (\<lambda>(_, r3). (key, take (length (skip_ws r2) - length r3) (skip_ws r2), r3))
                          (pval (2 * length r2 + 2) r2)))"

text \<open>
  The loop over \<open>dec.More\<close>, which is false before either closing bracket, with the closing brace. \<open>start\<close> is
  the decoder's state after the opening brace, where no comma is due. Each round reads a character or
  more, so the length of the text bounds the rounds.
\<close>

fun members_loop :: "nat \<Rightarrow> bool \<Rightarrow> string \<Rightarrow> orderedObj \<Rightarrow> (orderedObj \<times> string) option" where
  "members_loop 0 start s ob = None"
| "members_loop (Suc n) start s ob =
     (case skip_ws s of
        [] \<Rightarrow> None
      | c # r \<Rightarrow>
          if c = CHR ''}'' then Some (ob, r)
          else if c = CHR '']'' \<or> (\<not> start \<and> c \<noteq> CHR '','') then None
          else case read_member (if start then c # r else r) of
            None \<Rightarrow> None
          | Some (k, raw, r') \<Rightarrow> members_loop n False r' (obj_set k raw ob))"

text \<open>The last test is \<open>dec.More\<close> again: it does not see a closing bracket.\<close>

definition decodeOrdered :: "bytes \<Rightarrow> orderedObj option" where
  "decodeOrdered b =
     (if trim_space b = [] then Some []
      else case skip_ws b of
        [] \<Rightarrow> None
      | c # r \<Rightarrow>
          if c \<noteq> CHR ''{'' then None
          else case members_loop (Suc (length b)) True r [] of
            None \<Rightarrow> None
          | Some (ob, rest) \<Rightarrow>
              (case skip_ws rest of
                 [] \<Rightarrow> Some ob
               | d # _ \<Rightarrow> if d = CHR '']'' \<or> d = CHR ''}'' then Some ob else None))"

definition compact :: "orderedObj \<Rightarrow> string" where
  "compact ob = ''{'' @ sep_with '','' (map (\<lambda>(k, raw). json_quote k @ '':'' @ raw) ob) @ ''}''"

definition encode :: "orderedObj \<Rightarrow> bytes option" where
  "encode ob = json_Indent (compact ob)"

section \<open>Merging the rules\<close>

datatype patch_error = BadRoot | PermissionsNotObject | AllowNotStrings | EncodeFailed

text \<open>\<open>json.Unmarshal\<close> into an empty slice of strings.\<close>

definition string_array :: "string \<Rightarrow> string list option" where
  "string_array raw =
     (case parse_json raw of
        Some JNull \<Rightarrow> Some []
      | Some (JArr vs) \<Rightarrow>
          if list_all (\<lambda>v. case v of JStr _ \<Rightarrow> True | JNull \<Rightarrow> True | _ \<Rightarrow> False) vs then Some (decode_strs [] vs) else None
      | _ \<Rightarrow> None)"

fun add_rules :: "string list \<Rightarrow> string list \<Rightarrow> string list \<Rightarrow> string list \<times> string list" where
  "add_rules [] allow added = (allow, added)"
| "add_rules (r # want) allow added =
     (if containsRule allow r then add_rules want allow added else add_rules want (allow @ [r]) (added @ [r]))"

definition patchClaudeSettings :: "bytes \<Rightarrow> string list \<Rightarrow> patch_error + (bytes \<times> string list)" where
  "patchClaudeSettings old want =
     (case decodeOrdered old of
        None \<Rightarrow> Inl BadRoot
      | Some root \<Rightarrow>
          (case (case obj_get root ''permissions'' of None \<Rightarrow> Some [] | Some raw \<Rightarrow> decodeOrdered raw) of
             None \<Rightarrow> Inl PermissionsNotObject
           | Some perms \<Rightarrow>
               (case (case obj_get perms ''allow'' of None \<Rightarrow> Some [] | Some raw \<Rightarrow> string_array raw) of
                  None \<Rightarrow> Inl AllowNotStrings
                | Some allow0 \<Rightarrow>
                    (case add_rules want allow0 [] of
                       (allow, added) \<Rightarrow>
                         if added = [] then Inr (old, [])
                         else case encode (obj_set ''allow'' (marshal (JArr (map JStr allow))) perms) of
                           None \<Rightarrow> Inl EncodeFailed
                         | Some permsJSON \<Rightarrow>
                             (case encode (obj_set ''permissions'' permsJSON root) of
                                None \<Rightarrow> Inl EncodeFailed
                              | Some out \<Rightarrow> Inr (out @ [CHR 0x0A], added))))))"

section \<open>The command\<close>

record setupClaudeOpts =
  printOnly :: bool
  yes :: bool
  allowCat :: bool
  set_path :: string

datatype setup_error =
    PathNeedsFile | UnknownOption string | NoHomeDir | ReadFailed | BadSettings string patch_error | NoPrompt | BackupFailed | ReplaceFailed

datatype setup_parse = SHelp | SError setup_error | SOpts setupClaudeOpts

text \<open>A value after \<open>=\<close> is used by \<open>--path\<close> and dropped by every other option.\<close>

fun setup_args :: "string list \<Rightarrow> setupClaudeOpts \<Rightarrow> setup_parse" where
  "setup_args [] opts = SOpts opts"
| "setup_args (a # as) opts =
     (let j = length (takeWhile (\<lambda>c. c \<noteq> CHR ''='') a);
          inline = 0 < j \<and> j < length a \<and> has_prefix a ''-'';
          name = (if inline then take j a else a)
      in if name = ''-h'' \<or> name = ''--help'' then SHelp
         else if name = ''--print'' \<or> name = ''--dry-run'' then setup_args as (opts\<lparr>printOnly := True\<rparr>)
         else if name = ''-y'' \<or> name = ''--yes'' then setup_args as (opts\<lparr>yes := True\<rparr>)
         else if name = ''--allow-cat'' then setup_args as (opts\<lparr>allowCat := True\<rparr>)
         else if name = ''--path'' then
           (if inline then setup_args as (opts\<lparr>set_path := drop (Suc j) a\<rparr>)
            else case as of [] \<Rightarrow> SError PathNeedsFile | p # as' \<Rightarrow> setup_args as' (opts\<lparr>set_path := p\<rparr>))
         else SError (UnknownOption a))"

definition claudeSettingsPath :: "(string \<Rightarrow> string) \<Rightarrow> string option \<Rightarrow> string option" where
  "claudeSettingsPath env home =
     (if env ''CLAUDE_CONFIG_DIR'' \<noteq> [] then Some (path_join [env ''CLAUDE_CONFIG_DIR'', ''settings.json''])
      else map_option (\<lambda>h. path_join [h, ''.claude'', ''settings.json'']) home)"

text \<open>
  Standard input: nobody, or what reading up to the end of a line gives and whether it failed. \<open>lower\<close> is
  \<open>strings.ToLower\<close> on the letters that matter.
\<close>

type_synonym answer = "(string \<times> bool) option"

definition lower :: "string \<Rightarrow> string" where
  "lower s = map (\<lambda>c. if CHR ''A'' \<le> c \<and> c \<le> CHR ''Z'' then char_of (of_char c + 32 :: nat) else c) s"

definition confirm :: "answer \<Rightarrow> setup_error + bool" where
  "confirm ans =
     (case ans of
        None \<Rightarrow> Inl NoPrompt
      | Some (line, failed) \<Rightarrow>
          if failed \<and> trim_space line = [] then Inl NoPrompt
          else Inr (lower (trim_space line) \<in> {''y'', ''yes''}))"

text \<open>
  Files by path with their content and mode, and what the system calls do on this run: each may fail, a
  write after some of its bytes; \<open>so_read\<close> is false for a reading error other than the absence of the
  file. Modes are decimal, \<open>0600\<close> is 384. \<open>tmp_name\<close> is the name \<open>os.CreateTemp\<close> chooses in the directory it is given.
\<close>

type_synonym host_files = "string \<rightharpoonup> bytes \<times> nat"

datatype wr_end = Whole | Cut nat

record setup_os =
  so_read :: "string \<Rightarrow> bool"
  so_open :: "string \<Rightarrow> bool"
  so_backup :: wr_end
  so_mkdir :: bool
  tmp_name :: "string \<Rightarrow> string option"
  so_write :: wr_end
  so_close :: bool
  so_chmod :: bool
  so_rename :: bool
  so_remove :: bool

definition drop_tmp :: "setup_os \<Rightarrow> string \<Rightarrow> host_files \<Rightarrow> host_files" where
  "drop_tmp w name fs = (if so_remove w then fs(name := None) else fs)"

definition writeFileAtomic :: "setup_os \<Rightarrow> string \<Rightarrow> bytes \<Rightarrow> nat \<Rightarrow> host_files \<Rightarrow> host_files \<times> bool" where
  "writeFileAtomic w dst d mode fs =
     (if \<not> so_mkdir w then (fs, False)
      else case tmp_name w (path_dir dst) of
        None \<Rightarrow> (fs, False)
      | Some name \<Rightarrow>
          (case so_write w of
             Cut n \<Rightarrow> (drop_tmp w name (fs(name \<mapsto> (take n d, 384))), False)
           | Whole \<Rightarrow>
               if \<not> so_close w \<or> \<not> so_chmod w then (drop_tmp w name (fs(name \<mapsto> (d, 384))), False)
               else if \<not> so_rename w then (drop_tmp w name (fs(name \<mapsto> (d, mode))), False)
               else (fs(name := None, dst \<mapsto> (d, mode)), True)))"

text \<open>\<open>os.WriteFile\<close>: the mode is used only for a file that was not there.\<close>

definition WriteFile :: "setup_os \<Rightarrow> string \<Rightarrow> bytes \<Rightarrow> nat \<Rightarrow> host_files \<Rightarrow> host_files \<times> bool" where
  "WriteFile w p d mode fs =
     (if \<not> so_open w p then (fs, False)
      else let m = (case fs p of Some (_, m) \<Rightarrow> m | None \<Rightarrow> mode)
           in (case so_backup w of Whole \<Rightarrow> (fs(p \<mapsto> (d, m)), True) | Cut n \<Rightarrow> (fs(p \<mapsto> (take n d, m)), False)))"

datatype setup_line = LHelp | LPrint bytes | LAlready string | LAdd string "string list" | LNoCat | LPrompt | LUnchanged | LWrote string

definition wanted :: "setupClaudeOpts \<Rightarrow> string list" where
  "wanted opts = agentAllowRules @ (if allowCat opts then [agentCatRule] else [])"

text \<open>From the confirmation on: the backup and the replacement.\<close>

definition write_settings :: "setup_os \<Rightarrow> string \<Rightarrow> bytes option \<Rightarrow> bytes \<Rightarrow> host_files \<Rightarrow> host_files \<times> setup_line list \<times> setup_error option" where
  "write_settings w target old patched fs =
     (case (case old of None \<Rightarrow> (fs, True) | Some b \<Rightarrow> WriteFile w (target @ ''.valetfs-backup'') b 384 fs) of
        (fs1, False) \<Rightarrow> (fs1, [], Some BackupFailed)
      | (fs1, True) \<Rightarrow>
          (case writeFileAtomic w target patched 384 fs1 of
             (fs2, False) \<Rightarrow> (fs2, [], Some ReplaceFailed)
           | (fs2, True) \<Rightarrow> (fs2, [LWrote target], None)))"

definition add_settings :: "setup_os \<Rightarrow> answer \<Rightarrow> setupClaudeOpts \<Rightarrow> string \<Rightarrow> host_files \<Rightarrow> host_files \<times> setup_line list \<times> setup_error option" where
  "add_settings w ans opts target fs =
     (if \<not> so_read w target then (fs, [], Some ReadFailed)
      else let old = map_option fst (fs target)
           in (case patchClaudeSettings (case old of Some b \<Rightarrow> b | None \<Rightarrow> []) (wanted opts) of
                 Inl e \<Rightarrow> (fs, [], Some (BadSettings target e))
               | Inr (patched, added) \<Rightarrow>
                   if added = [] then (fs, [LAlready target], None)
                   else let ls = LAdd target added # (if \<not> allowCat opts \<and> \<not> containsRule added agentCatRule then [LNoCat] else [])
                        in if yes opts then map_prod id (apfst (append ls)) (write_settings w target old patched fs)
                           else (case confirm ans of
                                   Inl e \<Rightarrow> (fs, ls @ (if ans = None then [] else [LPrompt]), Some e)
                                 | Inr False \<Rightarrow> (fs, ls @ [LPrompt, LUnchanged], None)
                                 | Inr True \<Rightarrow> map_prod id (apfst (append (ls @ [LPrompt]))) (write_settings w target old patched fs))))"

definition runSetupClaude :: "setup_os \<Rightarrow> (string \<Rightarrow> string) \<Rightarrow> string option \<Rightarrow> answer \<Rightarrow> string list \<Rightarrow> host_files \<Rightarrow>
    host_files \<times> setup_line list \<times> setup_error option" where
  "runSetupClaude w env home ans args fs =
     (case setup_args args \<lparr>printOnly = False, yes = False, allowCat = False, set_path = []\<rparr> of
        SHelp \<Rightarrow> (fs, [LHelp], None)
      | SError e \<Rightarrow> (fs, [], Some e)
      | SOpts opts \<Rightarrow>
          if printOnly opts then
            (fs, [LPrint (marshal_indent (JObj [(''permissions'', JObj [(''allow'', JArr (map JStr (wanted opts)))])]) @ [CHR 0x0A])], None)
          else (case (if set_path opts \<noteq> [] then Some (set_path opts) else claudeSettingsPath env home) of
                  None \<Rightarrow> (fs, [], Some NoHomeDir)
                | Some target \<Rightarrow> add_settings w ans opts target fs))"

section \<open>Reading an object\<close>

text \<open>The document of a text, the documents of an object, and the last value of every key at the place of the first.\<close>

definition doc :: "string \<Rightarrow> json" where
  "doc raw = the (parse_json raw)"

definition docs :: "orderedObj \<Rightarrow> (string \<times> json) list" where
  "docs ob = map (apsnd doc) ob"

definition latest :: "(string \<times> json) list \<Rightarrow> (string \<times> json) list" where
  "latest kvs = fold (\<lambda>(k, v). AList.update k v) kvs []"

definition obj_wf :: "orderedObj \<Rightarrow> bool" where
  "obj_wf ob \<longleftrightarrow> distinct (map fst ob) \<and> (\<forall>(k, raw) \<in> set ob. utf8_valid k \<and> jtext (doc raw) raw)"

lemma jtext_parse: "jtext v x \<Longrightarrow> parse_json x = Some v"
  unfolding parse_json_grammar by (intro exI [of _ "[]"] exI [of _ x]) simp

lemma jtext_doc: "jtext v x \<Longrightarrow> doc x = v"
  by (simp add: doc_def jtext_parse)

lemma docs_update [simp]: "docs (AList.update k raw ob) = AList.update k (doc raw) (docs ob)"
  by (induction ob) (auto simp: docs_def)

lemma docs_simps [simp]: "docs [] = []" "map fst (docs ob) = map fst ob"
  by (auto simp: docs_def)

lemma map_of_docs: "map_of (docs ob) k = map_option doc (map_of ob k)"
  by (induction ob) (auto simp: docs_def)

lemma set_update: "set (AList.update k v al) \<subseteq> insert (k, v) (set al)"
  by (induction al) auto

lemma obj_wf_set: "obj_wf ob \<Longrightarrow> utf8_valid k \<Longrightarrow> jtext v raw \<Longrightarrow> obj_wf (obj_set k raw ob)"
  using set_update [of k raw ob] jtext_doc [of v raw] by (fastforce simp: obj_wf_def obj_set_def AList.distinct_update)

lemma map_of_latest: "map_of (latest kvs) = map_of (rev kvs)"
proof -
  have "map_of (fold (\<lambda>(k, v). AList.update k v) kvs al) = map_of al ++ map_of (rev kvs)" for al
    by (induction kvs arbitrary: al) (auto simp: AList.update_conv' map_add_def fun_eq_iff split: option.splits)
  from this [of "[]"] show ?thesis by (simp add: latest_def)
qed

lemma update_new: "k \<notin> fst ` set al \<Longrightarrow> AList.update k v al = al @ [(k, v)]"
  by (induction al) auto

lemma latest_distinct: "distinct (map fst kvs) \<Longrightarrow> latest kvs = kvs"
proof (induction kvs rule: rev_induct)
  case (snoc kv kvs)
  obtain k v where "kv = (k, v)" by (cases kv)
  moreover have "latest (kvs @ [(k, v)]) = AList.update k v (latest kvs)" by (simp add: latest_def)
  ultimately show ?case using snoc update_new [of k kvs v] by auto
qed (simp add: latest_def)

lemma read_member_text:
  assumes "white w1" "str_text k u" "white w2" "white w3" "jtext v x" "delim t"
  shows "read_member (w1 @ CHR 0x22 # u @ w2 @ CHR '':'' # w3 @ x @ t) = Some (k, x, t)"
proof -
  have "pval n (w3 @ x @ t) = Some (v, t)" if "2 * length x \<le> n" for n using jtext_reads(1) [OF assms(5)] assms(4,6) pval_white that by simp
  then show ?thesis
    using assms str_read [OF assms(2)] jtext_skip [OF assms(5), of t] by (simp add: read_member_def)
qed

lemma read_member_split:
  assumes "read_member s = Some (k, raw, r)"
  obtains w1 u w2 w3 where "s = w1 @ CHR 0x22 # u @ w2 @ CHR '':'' # w3 @ raw @ r" "white w1" "str_text k u" "white w2" "white w3"
    "jtext (doc raw) raw" "utf8_valid k"
proof -
  obtain q r0 r1 c r2 v where 1: "skip_ws s = CHR 0x22 # r0" "pchars r0 = Some (k, r1)" "skip_ws r1 = CHR '':'' # r2"
    "pval (2 * length r2 + 2) r2 = Some (v, r)" "raw = take (length (skip_ws r2) - length r) (skip_ws r2)"
    using assms by (auto simp: read_member_def split: list.splits if_splits option.splits)
  obtain x where x: "skip_ws r2 = x @ r" "jtext v x" using pval_text(1) [OF 1(4)] by blast
  then have raw: "raw = x" using 1(5) by simp
  obtain u where u: "r0 = u @ r1" "str_text k u" using pchars_text [OF 1(2)] by blast
  obtain w1 w2 w3 where w: "white w1" "s = w1 @ CHR 0x22 # r0" "white w2" "r1 = w2 @ CHR '':'' # r2" "white w3" "r2 = w3 @ x @ r"
    using white_split [of s] white_split [of r1] white_split [of r2] x(1) 1(1,3) by auto
  show thesis
    by (rule that [of w1 u w2 w3]) (use w u x raw jtext_doc [OF x(2)] pchars_valid [OF 1(2)] in auto)
qed

text \<open>A text that the grammar accepts is read to its end.\<close>

lemma delim_obj: "white w \<Longrightarrow> delim (w @ CHR '','' # t)" "white w \<Longrightarrow> delim (w @ CHR ''}'' # t)"
  by (simp_all add: delim_white)

lemma loop_close: "white w \<Longrightarrow> members_loop (Suc n) start (w @ CHR ''}'' # t) ob = Some (ob, t)"
  by simp

lemma members_hd: "members_text kvs y \<Longrightarrow> \<exists>w z. y = w @ CHR 0x22 # z \<and> white w"
  by (erule members_text.cases) auto

lemma loop_comma:
  assumes "members_text kvs y" "white w"
  shows "members_loop (Suc n) False (w @ CHR '','' # y @ t) ob = members_loop (Suc n) True (y @ t) ob"
proof -
  obtain w' z where y: "y = w' @ CHR 0x22 # z" "white w'" using members_hd [OF assms(1)] by blast
  then have "read_member (y @ t) = read_member (CHR 0x22 # z @ t)" by (simp add: read_member_def json_ws_def)
  then show ?thesis using y assms(2) by (simp add: json_ws_def)
qed

lemma loop_member:
  assumes "white w1" "str_text k u" "white w2" "white w3" "jtext v x" "delim t"
  shows "members_loop (Suc n) True (w1 @ CHR 0x22 # u @ w2 @ CHR '':'' # w3 @ x @ t) ob = members_loop n False t (obj_set k x ob)"
  using read_member_text [OF _ assms(2-), of "[]"] assms(1) by (simp add: json_ws_def)

lemma str_text_valid: "str_text k u \<Longrightarrow> utf8_valid k"
  using pchars_valid [of "u @ []" k "[]"] str_read [of k u "[]"] by simp

lemma loop_reads:
  assumes "members_text kvs x" and "obj_wf ob" and "length x \<le> n"
  shows "\<exists>ob'. members_loop n True (x @ t) ob = Some (ob', t) \<and> obj_wf ob' \<and> docs ob' = fold (\<lambda>(k, v). AList.update k v) kvs (docs ob)"
  using assms
proof (induction kvs arbitrary: x ob n)
  case (Cons kv kvs)
  from Cons.prems(1) show ?case
  proof (cases rule: members_text.cases)
    case (Member w1 k u w2 w3 v y w4)
    obtain m where m: "n = Suc (Suc m)" using Cons.prems(3) Member by (cases n; cases "n - 1") auto
    have "members_loop n True (x @ t) ob = Some (obj_set k y ob, t)"
      using loop_member [OF Member(4-8) delim_obj(2) [OF Member(9)], of "Suc m" t ob] loop_close [OF Member(9)] Member(3) m by simp
    then show ?thesis using obj_wf_set [OF Cons.prems(2) str_text_valid [OF Member(5)] Member(8)] jtext_doc [OF Member(8)] Member(1,2)
      by (simp add: obj_set_def)
  next
    case (Members w1 k u w2 w3 v y w4 z)
    obtain m where m: "n = Suc (Suc m)" using Cons.prems(3) Members by (cases n; cases "n - 1") auto
    have "members_loop n True (x @ t) ob = members_loop (Suc m) True (z @ t) (obj_set k y ob)"
      using loop_member [OF Members(3-7) delim_obj(1) [OF Members(8)], of "Suc m" "z @ t" ob] loop_comma [OF Members(9,8)] Members(2) m by simp
    moreover have "length z \<le> Suc m" using Cons.prems(3) Members(2) m by simp
    ultimately show ?thesis
      using Cons.IH [OF Members(9) obj_wf_set [OF Cons.prems(2) str_text_valid [OF Members(4)] Members(7)], of "Suc m"] jtext_doc [OF Members(7)] Members(1)
      by (simp add: obj_set_def)
  qed
qed (auto elim: members_text.cases)

text \<open>Nothing else is read: what the loop has taken is the rest of an object.\<close>

lemma loop_text:
  assumes "members_loop n start s ob = Some (ob', r)"
  shows "(\<exists>w. s = w @ CHR ''}'' # r \<and> white w \<and> ob' = ob) \<or>
    (\<exists>w kvs x. s = (if start then x @ r else w @ CHR '','' # x @ r) \<and> white w \<and> members_text kvs x)"
  using assms
proof (induction n arbitrary: start s ob)
  case (Suc n)
  obtain c s' where s: "skip_ws s = c # s'" using Suc.prems by (cases "skip_ws s") auto
  obtain w where w: "s = w @ c # s'" "white w" using white_split [of s] s by metis
  show ?case
  proof (cases "c = CHR ''}''")
    case True
    then show ?thesis using Suc.prems s w by auto
  next
    case False
    then obtain k raw r' where m: "read_member (if start then c # s' else s') = Some (k, raw, r')" "members_loop n False r' (obj_set k raw ob) = Some (ob', r)"
      "start \<or> c = CHR '',''" using Suc.prems s by (auto split: if_splits option.splits)
    from read_member_split [OF m(1)] obtain w1 u w2 w3 where t: "(if start then c # s' else s') = w1 @ CHR 0x22 # u @ w2 @ CHR '':'' # w3 @ raw @ r'"
      "white w1" "str_text k u" "white w2" "white w3" "jtext (doc raw) raw" by metis
    obtain kvs x where x: "members_text kvs x" "(if start then c # s' else s') = x @ r"
    proof (cases "\<exists>w4. r' = w4 @ CHR ''}'' # r \<and> white w4")
      case True
      then obtain w4 where "r' = w4 @ CHR ''}'' # r" "white w4" by blast
      then show thesis using that [OF jtext_elems_text_members_text.Member [OF t(2-6)]] t(1) by simp
    next
      case False
      then obtain w4 kvs x where "r' = w4 @ CHR '','' # x @ r" "white w4" "members_text kvs x" using Suc.IH [OF m(2)] by auto
      then show thesis using that [OF jtext_elems_text_members_text.Members [OF t(2-6)]] t(1) by simp
    qed
    show ?thesis
    proof (cases start)
      case True
      then have "s = (w @ x) @ r" using w x(2) by simp
      then show ?thesis using members_text_white [OF w(2) x(1)] True w(2) by auto
    next
      case False
      then show ?thesis using w x m(3) by auto
    qed
  qed
qed simp

lemma dropWhile_keeps: "x \<in> set xs \<Longrightarrow> \<not> P x \<Longrightarrow> x \<in> set (dropWhile P xs)"
  by (induction xs) auto

lemma not_blank:
  assumes "white w" and "ord c < 128" and "\<not> ascii_space c"
  shows "trim_space (w @ c # t) \<noteq> []"
proof -
  have "runes (w @ c # t) = map (\<lambda>c. Rune [c]) w @ Rune [c] # runes t"
    using assms by (induction w) (auto simp: rune_len_ascii json_ws_def)
  then have "Rune [c] \<in> set (trim_runes (runes (w @ c # t)))"
    using assms(3) by (auto simp: trim_runes_def is_space_def intro!: dropWhile_keeps)
  then show ?thesis unfolding trim_space_def flat_def by force
qed

lemma jtext_not_blank:
  assumes "jtext v x"
  shows "trim_space x \<noteq> []"
proof -
  have "\<exists>c s. x = c # s \<and> ord c < 128 \<and> \<not> ascii_space c"
    using assms
  proof (cases rule: jtext.cases)
    case Num
    then show ?thesis using num_ok_hd [of x] by (force simp: is_digit_def ascii_space_def)
  qed (auto simp: ascii_space_def)
  then show ?thesis using not_blank [of "[]"] by auto
qed

lemma decode_members:
  assumes "white w" and x: "(\<exists>w'. x = w' @ ''}'' \<and> white w' \<and> kvs = []) \<or> members_text kvs x"
  obtains ob where "members_loop (Suc (length (w @ CHR ''{'' # x @ t))) True (x @ t) [] = Some (ob, t)" "obj_wf ob" "docs ob = latest kvs"
  using x
proof
  assume "\<exists>w'. x = w' @ ''}'' \<and> white w' \<and> kvs = []"
  then show thesis using that [of "[]"] loop_close by (auto simp: obj_wf_def latest_def)
next
  assume "members_text kvs x"
  then obtain ob where "members_loop (Suc (length (w @ CHR ''{'' # x @ t))) True (x @ t) [] = Some (ob, t)" "obj_wf ob" "docs ob = latest kvs"
    using loop_reads [of kvs x "[]" "Suc (length (w @ CHR ''{'' # x @ t))" t] by (auto simp: obj_wf_def latest_def)
  then show thesis by (rule that)
qed

text \<open>An object is read with the last value of every key, at the place of the first.\<close>

lemma decode_complete:
  assumes "parse_json b = Some (JObj kvs)"
  obtains ob where "decodeOrdered b = Some ob" "obj_wf ob" "docs ob = latest kvs"
proof -
  obtain w y w' where b: "b = w @ y @ w'" "white w" "white w'" "jtext (JObj kvs) y" using assms parse_json_grammar by blast
  obtain x where x: "y = CHR ''{'' # x" "(\<exists>w'. x = w' @ ''}'' \<and> white w' \<and> kvs = []) \<or> members_text kvs x"
    using b(4) by (cases rule: jtext.cases) auto
  obtain ob where "members_loop (Suc (length (w @ CHR ''{'' # x @ w'))) True (x @ w') [] = Some (ob, w')" "obj_wf ob" "docs ob = latest kvs"
    using decode_members [OF b(2) x(2)] by blast
  moreover have "skip_ws w' = []" using b(3) by (simp add: list_all_iff)
  ultimately show thesis
    using that [of ob] not_blank [OF b(2), of "CHR ''{''"] b x(1) by (simp add: decodeOrdered_def ascii_space_def del: members_loop.simps dropWhile_eq_Nil_conv)
qed

text \<open>Whatever is read is blank, or an object, or an object with a stray closing bracket behind it.\<close>

lemma decode_sound:
  assumes "decodeOrdered b = Some ob" and "trim_space b \<noteq> []"
  obtains t junk kvs where "b = t @ junk" "parse_json t = Some (JObj kvs)" "obj_wf ob" "docs ob = latest kvs"
    "junk = [] \<or> hd junk \<in> {CHR '']'', CHR ''}''}"
proof -
  obtain r where r: "skip_ws b = CHR ''{'' # r" using assms by (auto simp: decodeOrdered_def split: list.splits if_splits)
  obtain rest where l: "members_loop (Suc (length b)) True r [] = Some (ob, rest)" "skip_ws rest = [] \<or> hd (skip_ws rest) \<in> {CHR '']'', CHR ''}''}"
    using assms r by (auto simp: decodeOrdered_def simp del: members_loop.simps split: option.splits list.splits if_splits)
  obtain w w' where w: "b = w @ CHR ''{'' # r" "white w" "rest = w' @ skip_ws rest" "white w'" using white_split [of b] white_split [of rest] r by auto
  obtain kvs x where x: "r = x @ rest" "(\<exists>w'. x = w' @ ''}'' \<and> white w' \<and> kvs = []) \<or> members_text kvs x"
  proof -
    from loop_text [OF l(1)] consider w where "r = (w @ ''}'') @ rest" "white w" | kvs x where "r = x @ rest" "members_text kvs x" by auto
    then show thesis using that by cases blast+
  qed
  have ob: "obj_wf ob" "docs ob = latest kvs" using decode_members [OF w(2) x(2), of rest] l(1) w(1) x(1) by auto
  have "jtext (JObj kvs) (CHR ''{'' # x)" using x(2) jtext_elems_text_members_text.Obj0 jtext_elems_text_members_text.Obj by auto
  then have "parse_json (w @ (CHR ''{'' # x) @ w') = Some (JObj kvs)" using w parse_json_grammar by blast
  then show thesis using that [of "w @ (CHR ''{'' # x) @ w'" "skip_ws rest" kvs] ob l(2) w x(1) by auto
qed

section \<open>Writing an object\<close>

lemma str_text_quote: "utf8_valid k \<Longrightarrow> \<exists>u. json_quote k = CHR 0x22 # u \<and> str_text k u"
  using pchars_quote [of k "[]"] pchars_text [of "concat (map esc_rune (runes k)) @ [CHR 0x22]" "to_valid k" "[]"]
  by (auto simp: json_quote_def to_valid_id)

lemma compact_members:
  "ob \<noteq> [] \<Longrightarrow> obj_wf ob \<Longrightarrow> members_text (docs ob) (sep_with '','' (map (\<lambda>(k, raw). json_quote k @ '':'' @ raw) ob) @ ''}'')"
proof (induction ob)
  case (Cons kv ob)
  obtain k raw where kv: "kv = (k, raw)" by (cases kv)
  have wf: "utf8_valid k" "jtext (doc raw) raw" "obj_wf ob" using Cons.prems by (auto simp: obj_wf_def kv)
  obtain u where u: "json_quote k = CHR 0x22 # u" "str_text k u" using str_text_quote [OF wf(1)] by blast
  note m = jtext_elems_text_members_text.Member [of "[]" k u "[]" "[]" "doc raw" raw "[]"]
  note ms = jtext_elems_text_members_text.Members [of "[]" k u "[]" "[]" "doc raw" raw "[]" "docs ob"]
  show ?case
    using m ms Cons.IH wf u by (cases "ob = []") (auto simp: kv docs_def sep_with_Cons)
qed simp

lemma encode_ok:
  assumes "obj_wf ob"
  obtains s where "encode ob = Some s" "jtext (JObj (docs ob)) s"
proof -
  have "jtext (JObj (docs ob)) (compact ob)"
    using compact_members [OF _ assms] jtext_elems_text_members_text.Obj0 [of "[]"] jtext_elems_text_members_text.Obj [of "docs ob"]
    by (cases "ob = []") (auto simp: compact_def)
  then show thesis using that indent_keeps [OF jtext_parse] by (auto simp: encode_def)
qed

section \<open>The merge\<close>

lemma add_rules_acc: "add_rules want allow added = (allow', added') \<Longrightarrow> \<exists>n. allow' = allow @ n \<and> added' = added @ n \<and> set n \<subseteq> set want"
  by (induction want allow added rule: add_rules.induct) (fastforce split: if_splits)+

lemma containsRule_append: "containsRule xs r \<Longrightarrow> containsRule (xs @ ys) r"
  by (auto simp: containsRule_def Let_def)

lemma add_rules_contains: "add_rules want allow added = (allow', added') \<Longrightarrow> r \<in> set want \<Longrightarrow> containsRule allow' r"
proof (induction want allow added rule: add_rules.induct)
  case (2 x want allow added)
  have "containsRule (allow @ [x]) x" by (simp add: containsRule_def Let_def)
  then show ?case
    using 2 add_rules_acc [of want] containsRule_append by (fastforce split: if_splits)
qed simp

lemma add_rules_none: "(\<forall>r \<in> set want. containsRule allow r) \<Longrightarrow> add_rules want allow added = (allow, added)"
  by (induction want) auto

lemma decode_strs_id: "decode_strs old (map JStr xs) = xs"
  by (induction xs arbitrary: old) simp_all

text \<open>The rules the settings hold: the strings of the member \<open>allow\<close> of \<open>permissions\<close>.\<close>

definition rules_of :: "json option \<Rightarrow> string list" where
  "rules_of j = (case j of Some (JArr vs) \<Rightarrow> decode_strs [] vs | _ \<Rightarrow> [])"

lemma string_array_rules: "jtext v raw \<Longrightarrow> string_array raw = Some xs \<Longrightarrow> xs = rules_of (Some v)"
  by (auto simp: string_array_def jtext_parse rules_of_def split: json.splits if_splits)

lemma string_array_strs: "jtext (JArr (map JStr xs)) raw \<Longrightarrow> string_array raw = Some xs"
  by (simp add: string_array_def jtext_parse list_all_iff decode_strs_id)

lemma jtext_marshal_strs: "list_all utf8_valid xs \<Longrightarrow> \<exists>x. jtext (JArr (map JStr xs)) x \<and> marshal (JArr (map JStr xs)) = x"
proof -
  assume "list_all utf8_valid xs"
  then have "clean (JArr (map JStr xs))" by (simp add: list_all_iff)
  then have "parse_json (marshal (JArr (map JStr xs))) = Some (JArr (map JStr xs))" by (rule reparse)
  then obtain w x w' where m: "marshal (JArr (map JStr xs)) = w @ x @ w'" "white w" "white w'" "jtext (JArr (map JStr xs)) x"
    using parse_json_grammar by blast
  have "w = []" using m by (cases w) (auto simp: json_ws_def)
  moreover have "w' = []" using m by (cases w' rule: rev_cases) (auto simp: json_ws_def)
  ultimately show ?thesis using m by simp
qed

lemma decode_jtext:
  assumes "jtext v x" and "decodeOrdered x = Some ob"
  shows "\<exists>kvs. v = JObj kvs \<and> obj_wf ob \<and> docs ob = latest kvs"
proof -
  have "take 1 (skip_ws x) = ''{''" using assms(2) jtext_not_blank [OF assms(1)] by (auto simp: decodeOrdered_def split: list.splits if_splits)
  then have h: "take 1 x = ''{''" using jtext_skip [OF assms(1), of "[]"] by simp
  have "\<exists>kvs. v = JObj kvs" using assms(1)
  proof (cases rule: jtext.cases)
    case Num
    then obtain c s where "x = c # s" "c = CHR ''-'' \<or> is_digit c" using num_ok_hd by blast
    then show ?thesis using h by (auto simp: is_digit_def)
  qed (use h in auto)
  then obtain kvs where v: "v = JObj kvs" by blast
  obtain ob' where "decodeOrdered x = Some ob'" "obj_wf ob'" "docs ob' = latest kvs"
    using decode_complete [of x kvs] jtext_parse [OF assms(1)] v by blast
  then show ?thesis using v assms(2) by simp
qed

lemma decode_strs_map: "decode_strs [] vs = map (\<lambda>v. case v of JStr x \<Rightarrow> x | _ \<Rightarrow> []) vs"
  by (induction vs) simp_all

lemma utf8_valid_Nil [simp]: "utf8_valid []"
  by (simp add: utf8_valid_def)

lemma rules_valid: "clean v \<Longrightarrow> list_all utf8_valid (rules_of (Some v))"
proof (cases v)
  case (JArr vs)
  have "clean u \<Longrightarrow> utf8_valid (case u of JStr x \<Rightarrow> x | _ \<Rightarrow> [])" for u by (cases u) simp_all
  then show "clean v \<Longrightarrow> ?thesis" by (simp add: rules_of_def decode_strs_map list_all_iff JArr)
qed (simp_all add: rules_of_def)

text \<open>The settings after the merge: \<open>kvs\<close> with the rules \<open>added\<close> behind those it has.\<close>

definition merged :: "(string \<times> json) list \<Rightarrow> string list \<Rightarrow> (string \<times> json) list" where
  "merged kvs added =
     (let ps = (case map_of kvs ''permissions'' of Some (JObj qs) \<Rightarrow> latest qs | _ \<Rightarrow> [])
      in AList.update ''permissions'' (JObj (AList.update ''allow'' (JArr (map JStr (rules_of (map_of ps ''allow'') @ added))) ps)) kvs)"

lemma obj_get_doc:
  assumes "obj_wf ob" and "obj_get ob k = Some raw"
  shows "jtext (doc raw) raw" and "map_of (docs ob) k = Some (doc raw)"
proof -
  have m: "map_of ob k = Some raw" using assms(2) by (simp add: obj_get_def)
  then have "(k, raw) \<in> set ob" by (rule map_of_SomeD)
  then show "jtext (doc raw) raw" using assms(1) unfolding obj_wf_def by blast
  show "map_of (docs ob) k = Some (doc raw)" using m by (simp add: map_of_docs)
qed

text \<open>What the two objects and the rules are when nothing has failed.\<close>

lemma perms_read:
  assumes "obj_wf root" and "(case obj_get root ''permissions'' of None \<Rightarrow> Some [] | Some raw \<Rightarrow> decodeOrdered raw) = Some perms"
  shows "obj_wf perms" and "docs perms = (case map_of (docs root) ''permissions'' of Some (JObj qs) \<Rightarrow> latest qs | _ \<Rightarrow> [])"
proof -
  have "obj_wf perms \<and> docs perms = (case map_of (docs root) ''permissions'' of Some (JObj qs) \<Rightarrow> latest qs | _ \<Rightarrow> [])"
  proof (cases "obj_get root ''permissions''")
    case None
    then show ?thesis using assms(2) by (simp add: obj_wf_def map_of_docs obj_get_def)
  next
    case (Some raw)
    then obtain kvs where "doc raw = JObj kvs" "obj_wf perms" "docs perms = latest kvs"
      using obj_get_doc(1) [OF assms(1) Some] decode_jtext [of "doc raw" raw perms] assms(2) by auto
    then show ?thesis using obj_get_doc(2) [OF assms(1) Some] by simp
  qed
  then show "obj_wf perms" "docs perms = (case map_of (docs root) ''permissions'' of Some (JObj qs) \<Rightarrow> latest qs | _ \<Rightarrow> [])" by auto
qed

lemma jtext_clean: "jtext v x \<Longrightarrow> clean v"
  using jtext_parse parse_json_clean by blast

lemma allow_read:
  assumes "obj_wf perms" and "(case obj_get perms ''allow'' of None \<Rightarrow> Some [] | Some raw \<Rightarrow> string_array raw) = Some allow"
  shows "allow = rules_of (map_of (docs perms) ''allow'')" and "list_all utf8_valid allow"
proof -
  have "allow = rules_of (map_of (docs perms) ''allow'') \<and> list_all utf8_valid allow"
  proof (cases "obj_get perms ''allow''")
    case None
    then show ?thesis using assms(2) by (simp add: rules_of_def map_of_docs obj_get_def)
  next
    case (Some raw)
    then show ?thesis
      using obj_get_doc [OF assms(1) Some] string_array_rules [of "doc raw" raw allow] rules_valid [OF jtext_clean] assms(2) by auto
  qed
  then show "allow = rules_of (map_of (docs perms) ''allow'')" "list_all utf8_valid allow" by auto
qed

lemma ascii_keys: "utf8_valid ''permissions''" "utf8_valid ''allow''"
  by (simp_all add: utf8_valid_ascii)

text \<open>The two encodings of a merge succeed, and the settings read back are the merged ones.\<close>

lemma patch_writes:
  assumes "obj_wf root" "obj_wf perms" "list_all utf8_valid allow"
  obtains p out where "encode (obj_set ''allow'' (marshal (JArr (map JStr allow))) perms) = Some p" "encode (obj_set ''permissions'' p root) = Some out"
    "parse_json (out @ [CHR 0x0A]) =
       Some (JObj (AList.update ''permissions'' (JObj (AList.update ''allow'' (JArr (map JStr allow)) (docs perms))) (docs root)))"
proof -
  obtain x where x: "jtext (JArr (map JStr allow)) x" "marshal (JArr (map JStr allow)) = x" using jtext_marshal_strs [OF assms(3)] by blast
  obtain p where p: "encode (obj_set ''allow'' x perms) = Some p" "jtext (JObj (docs (obj_set ''allow'' x perms))) p"
    using encode_ok [OF obj_wf_set [OF assms(2) ascii_keys(2) x(1)]] by blast
  obtain out where out: "encode (obj_set ''permissions'' p root) = Some out" "jtext (JObj (docs (obj_set ''permissions'' p root))) out"
    using encode_ok [OF obj_wf_set [OF assms(1) ascii_keys(1) p(2)]] by blast
  have d: "docs (obj_set ''permissions'' p root) =
      AList.update ''permissions'' (JObj (AList.update ''allow'' (JArr (map JStr allow)) (docs perms))) (docs root)"
    using jtext_doc [OF p(2)] jtext_doc [OF x(1)] by (simp add: obj_set_def)
  have "white [CHR 0x0A]" by (simp add: json_ws_def)
  then have "parse_json (out @ [CHR 0x0A]) = Some (JObj (docs (obj_set ''permissions'' p root)))"
    unfolding parse_json_grammar using out(2) by (intro exI [of _ "[]"] exI [of _ out] exI [of _ "[CHR 0x0A]"]) simp
  then show thesis using that p(1) out(1) x(2) d by simp
qed

definition settings_of :: "bytes \<Rightarrow> (string \<times> json) list \<Rightarrow> bool" where
  "settings_of b kvs \<longleftrightarrow> parse_json b = Some (JObj kvs) \<or> (trim_space b = [] \<and> kvs = [])"

lemma decode_settings:
  assumes "settings_of b kvs"
  obtains ob where "decodeOrdered b = Some ob" "obj_wf ob" "docs ob = latest kvs"
proof (cases "trim_space b = []")
  case True
  have "parse_json b \<noteq> Some (JObj kvs)"
  proof
    assume "parse_json b = Some (JObj kvs)"
    then obtain w x w' where b: "b = w @ x @ w'" "white w" "jtext (JObj kvs) x" using parse_json_grammar by blast
    then obtain y where "x = CHR ''{'' # y" by (auto elim: jtext.cases)
    then show False using not_blank [OF b(2), of "CHR ''{''" "y @ w'"] b(1) True by (simp add: ascii_space_def)
  qed
  then show thesis using that [of "[]"] assms True by (simp add: settings_of_def decodeOrdered_def obj_wf_def latest_def)
next
  case False
  then show thesis using decode_complete [of b kvs] assms that by (auto simp: settings_of_def)
qed

text \<open>A merge that adds something, read on the documents.\<close>

lemma patch_merges:
  assumes "settings_of old kvs" and p: "patchClaudeSettings old want = Inr (new, added)" and "added \<noteq> []" and "list_all utf8_valid want"
  shows "parse_json new = Some (JObj (merged (latest kvs) added)) \<and> set added \<subseteq> set want \<and>
    (\<forall>r \<in> set want. containsRule (rules_of (map_of (case map_of (latest kvs) ''permissions'' of Some (JObj qs) \<Rightarrow> latest qs | _ \<Rightarrow> []) ''allow'') @ added) r)"
proof -
  obtain root where root: "decodeOrdered old = Some root" "obj_wf root" "docs root = latest kvs" using decode_settings [OF assms(1)] by blast
  obtain perms where perms: "(case obj_get root ''permissions'' of None \<Rightarrow> Some [] | Some raw \<Rightarrow> decodeOrdered raw) = Some perms"
    using p root(1) unfolding patchClaudeSettings_def by (simp split: option.split_asm)
  obtain allow where allow: "(case obj_get perms ''allow'' of None \<Rightarrow> Some [] | Some raw \<Rightarrow> string_array raw) = Some allow"
    using p root(1) perms unfolding patchClaudeSettings_def by (simp split: option.split_asm)
  obtain allow' added' where a: "add_rules want allow [] = (allow', added')" by fastforce
  note pr = perms_read [OF root(2) perms] and ar = allow_read [OF perms_read(1) [OF root(2) perms] allow]
  have n: "allow' = allow @ added'" "set added' \<subseteq> set want" using add_rules_acc [OF a] by auto
  then have v: "list_all utf8_valid allow'" using ar(2) assms(4) by (auto simp: list_all_iff)
  obtain pj out where o: "encode (obj_set ''allow'' (marshal (JArr (map JStr allow'))) perms) = Some pj" "encode (obj_set ''permissions'' pj root) = Some out"
    "parse_json (out @ [CHR 0x0A]) = Some (JObj (AList.update ''permissions'' (JObj (AList.update ''allow'' (JArr (map JStr allow')) (docs perms))) (docs root)))"
    using patch_writes [OF root(2) pr(1) v] by blast
  have e: "new = out @ [CHR 0x0A]" "added = added'"
    using p assms(3) o(1,2) unfolding patchClaudeSettings_def by (auto simp: root(1) perms allow a simp del: marshal.simps split: if_splits)
  show ?thesis using o(3) e n add_rules_contains [OF a] pr(2) ar(1) root(3) by (simp add: merged_def Let_def)
qed

text \<open>Settings that hold the rules already are left as they are.\<close>

lemma patch_nothing:
  assumes "settings_of b kvs" and "map_of (latest kvs) ''permissions'' = Some (JObj qs)" and "map_of (latest qs) ''allow'' = Some (JArr (map JStr rules))"
    and "\<forall>r \<in> set want. containsRule rules r"
  shows "patchClaudeSettings b want = Inr (b, [])"
proof -
  obtain root where root: "decodeOrdered b = Some root" "obj_wf root" "docs root = latest kvs" using decode_settings [OF assms(1)] by blast
  then obtain raw where raw: "obj_get root ''permissions'' = Some raw" "doc raw = JObj qs"
    using assms(2) by (auto simp: obj_get_def map_of_docs root(3) [symmetric])
  have "parse_json raw = Some (JObj qs)" using obj_get_doc(1) [OF root(2) raw(1)] raw(2) jtext_parse by metis
  then obtain perms where perms: "decodeOrdered raw = Some perms" "obj_wf perms" "docs perms = latest qs" using decode_complete by metis
  then obtain ar where ar: "obj_get perms ''allow'' = Some ar" "doc ar = JArr (map JStr rules)"
    using assms(3) by (auto simp: obj_get_def map_of_docs perms(3) [symmetric])
  have "string_array ar = Some rules" using obj_get_doc(1) [OF perms(2) ar(1)] ar(2) string_array_strs by metis
  then show ?thesis using root(1) raw(1) perms(1) ar(1) add_rules_none [OF assms(4)] by (simp add: patchClaudeSettings_def)
qed

lemma latest_keys: "distinct (map fst (latest kvs))"
proof -
  have "distinct (map fst al) \<Longrightarrow> distinct (map fst (fold (\<lambda>(k, v). AList.update k v) kvs al))" for al
    by (induction kvs arbitrary: al) (auto simp: AList.distinct_update)
  then show ?thesis by (simp add: latest_def)
qed

lemma latest_latest [simp]: "latest (AList.update k v (latest kvs)) = AList.update k v (latest kvs)" "latest [(k, v)] = [(k, v)]"
  by (simp_all add: latest_distinct latest_keys AList.distinct_update)

lemma map_of_alist_update [simp]: "map_of (AList.update k v al) k = Some v" "j \<noteq> k \<Longrightarrow> map_of (AList.update k v al) j = map_of al j"
  by (simp_all add: AList.update_conv')

text \<open>
  C21: adding the rules keeps the settings. When \<open>setup-claude\<close> adds rules to a settings file that holds an object, or is
  blank, what it writes is an object again: \<open>permissions.allow\<close> has the rules it had with the new
  ones behind them, every wanted rule is covered, each other key has the value it had (the last one, where the file gave
  several), in its place, and a second run finds nothing to do.
\<close>

theorem patch_keeps_settings:
  assumes "settings_of old kvs" and "patchClaudeSettings old want = Inr (new, added)" and "added \<noteq> []" and "list_all utf8_valid want"
  shows "parse_json new = Some (JObj (merged (latest kvs) added)) \<and>
    (\<forall>k. k \<noteq> ''permissions'' \<longrightarrow> map_of (merged (latest kvs) added) k = map_of (rev kvs) k) \<and>
    take (length (latest kvs)) (map fst (merged (latest kvs) added)) = map fst (latest kvs) \<and>
    set added \<subseteq> set want \<and> patchClaudeSettings new want = Inr (new, [])"
proof -
  define ps where "ps = (case map_of (latest kvs) ''permissions'' of Some (JObj qs) \<Rightarrow> latest qs | _ \<Rightarrow> [])"
  define ps' where "ps' = AList.update ''allow'' (JArr (map JStr (rules_of (map_of ps ''allow'') @ added))) ps"
  have m: "merged (latest kvs) added = AList.update ''permissions'' (JObj ps') (latest kvs)" by (simp add: merged_def ps_def ps'_def Let_def)
  have p: "parse_json new = Some (JObj (merged (latest kvs) added))" "set added \<subseteq> set want"
    "\<forall>r \<in> set want. containsRule (rules_of (map_of ps ''allow'') @ added) r" using patch_merges [OF assms] ps_def by auto
  have l: "latest ps' = ps'" unfolding ps'_def ps_def by (simp split: option.split json.split)
  have "patchClaudeSettings new want = Inr (new, [])"
    using patch_nothing [of new "merged (latest kvs) added" ps' "rules_of (map_of ps ''allow'') @ added" want] p(1,3) l by (simp add: m settings_of_def ps'_def)
  moreover have "map_of (merged (latest kvs) added) k = map_of (rev kvs) k" if "k \<noteq> ''permissions''" for k
    using that by (simp add: m map_of_latest)
  moreover have "take (length (latest kvs)) (map fst (merged (latest kvs) added)) = map fst (latest kvs)"
    unfolding m by (simp add: AList.update_keys)
  ultimately show ?thesis using p by blast
qed

text \<open>Two rules into a file with another key, a rule and a stray null: one is there in its colon form.\<close>

definition demo_settings :: bytes where
  "demo_settings =
     ''{'' @ json_quote ''a'' @ '': [1], '' @ json_quote ''permissions'' @ '':{'' @ json_quote ''allow'' @ '':['' @ json_quote ''x(l:*)'' @ '',null]}}''"

theorem patch_keeps_settings_witness:
  "\<exists>new. patchClaudeSettings demo_settings [''x(l *)'', ''e''] = Inr (new, [''e'']) \<and>
    parse_json new = Some (JObj [(''a'', JArr [JNum ''1'']), (''permissions'', JObj [(''allow'', JArr [JStr ''x(l:*)'', JStr [], JStr ''e''])])]) \<and>
    patchClaudeSettings new [''x(l *)'', ''e''] = Inr (new, [])"
proof -
  let ?kvs = "[(''a'', JArr [JNum ''1'']), (''permissions'', JObj [(''allow'', JArr [JStr ''x(l:*)'', JNull])])]"
  define new where "new = fst (projr (patchClaudeSettings demo_settings [''x(l *)'', ''e'']))"
  have "\<not> isl (patchClaudeSettings demo_settings [''x(l *)'', ''e'']) \<and> snd (projr (patchClaudeSettings demo_settings [''x(l *)'', ''e''])) = [''e'']"
    by code_simp
  then have p: "patchClaudeSettings demo_settings [''x(l *)'', ''e''] = Inr (new, [''e''])"
    by (cases "patchClaudeSettings demo_settings [''x(l *)'', ''e'']") (auto simp: new_def)
  have s: "settings_of demo_settings ?kvs" unfolding settings_of_def by (rule disjI1) code_simp
  have m: "merged (latest ?kvs) [''e''] = [(''a'', JArr [JNum ''1'']), (''permissions'', JObj [(''allow'', JArr [JStr ''x(l:*)'', JStr [], JStr ''e''])])]"
    by code_simp
  have "list_all utf8_valid [''x(l *)'', ''e'']" by (simp add: utf8_valid_ascii)
  then show ?thesis using patch_keeps_settings [OF s p] p unfolding m by blast
qed

section \<open>What the command writes\<close>

lemma atomic_effect:
  assumes "writeFileAtomic w dst d mode fs = (fs', ok)" and "\<forall>n. tmp_name w (path_dir dst) = Some n \<longrightarrow> n \<noteq> q"
  shows "fs' q = (if ok \<and> q = dst then Some (d, mode) else fs q)"
  using assms unfolding writeFileAtomic_def by (auto simp: drop_tmp_def split: if_splits option.splits wr_end.splits)

lemma write_settings_effect:
  assumes "write_settings w t old patched fs = (fs', ls, e)" and "\<forall>d n. tmp_name w d = Some n \<longrightarrow> fs n = None \<and> \<not> has_suffix n ''.valetfs-backup''"
    and "fs p \<noteq> None" and "fs' p \<noteq> fs p"
  shows "has_suffix p ''.valetfs-backup'' \<or>
    (p = t \<and> e = None \<and> fs' p = Some (patched, 384) \<and> (\<forall>b. old = Some b \<longrightarrow> (\<exists>m. fs' (p @ ''.valetfs-backup'') = Some (b, m))))"
proof (cases "has_suffix p ''.valetfs-backup''")
  case False
  obtain fs1 ok where b: "(case old of None \<Rightarrow> (fs, True) | Some b \<Rightarrow> WriteFile w (t @ ''.valetfs-backup'') b 384 fs) = (fs1, ok)" by fastforce
  have p1: "fs1 p = fs p" using b False
    by (auto simp: WriteFile_def Let_def suffix_def split: option.splits if_splits wr_end.splits)
  then have ok: "ok" using assms(1,4) b by (cases ok) (auto simp: write_settings_def)
  obtain ok2 where a: "writeFileAtomic w t patched 384 fs1 = (fs', ok2)" "e = (if ok2 then None else Some ReplaceFailed)"
    using assms(1) b ok by (auto simp: write_settings_def split: prod.splits bool.splits)
  have "fs' p = (if ok2 \<and> p = t then Some (patched, 384) else fs1 p)" using atomic_effect [OF a(1), of p] assms(2,3) by force
  then have 1: "ok2" "p = t" "fs' p = Some (patched, 384)" using p1 assms(4) by (auto split: if_splits)
  have "\<exists>m. fs' (p @ ''.valetfs-backup'') = Some (bs, m)" if "old = Some bs" for bs
  proof -
    have "\<exists>m. fs1 (t @ ''.valetfs-backup'') = Some (bs, m)"
      using b ok that by (auto simp: WriteFile_def Let_def split: if_splits wr_end.splits)
    moreover have "fs' (t @ ''.valetfs-backup'') = fs1 (t @ ''.valetfs-backup'')"
      using atomic_effect [OF a(1), of "t @ ''.valetfs-backup''"] assms(2) by (auto simp: suffix_def)
    ultimately show ?thesis using 1(2) by simp
  qed
  then show ?thesis using 1 a(2) by simp
qed simp

definition no_opts :: setupClaudeOpts where
  "no_opts = \<lparr>printOnly = False, yes = False, allowCat = False, set_path = []\<rparr>"

lemma add_settings_effect:
  assumes "add_settings w ans opts t fs = (fs', ls, e)" and "fs' \<noteq> fs"
  obtains new added ls' where "patchClaudeSettings (case map_option fst (fs t) of Some b \<Rightarrow> b | None \<Rightarrow> []) (wanted opts) = Inr (new, added)"
    "added \<noteq> []" "yes opts \<or> confirm ans = Inr True" "write_settings w t (map_option fst (fs t)) new fs = (fs', ls', e)"
  using assms unfolding add_settings_def Let_def
  by (auto split: if_split_asm sum.split_asm prod.split_asm bool.split_asm simp: map_prod_def)

text \<open>
  C22: \<open>setup-claude\<close> does not damage a file. Whatever the system calls do, when the temporary name is new, a file that was there and is
  different afterwards is a backup or was replaced as a whole: the run ended without an error and with the user's
  consent, the file holds the merged settings, and its former content is beside it under the name with
  \<open>.valetfs-backup\<close>.
\<close>

theorem setup_safe:
  assumes "runSetupClaude w env home ans args fs = (fs', ls, e)"
    and "\<forall>d n. tmp_name w d = Some n \<longrightarrow> fs n = None \<and> \<not> has_suffix n ''.valetfs-backup''"
    and "fs p = Some (b, m)" and "fs' p \<noteq> fs p"
  shows "has_suffix p ''.valetfs-backup'' \<or>
    (\<exists>opts new added. setup_args args no_opts = SOpts opts \<and> (yes opts \<or> confirm ans = Inr True) \<and> e = None \<and>
       patchClaudeSettings b (wanted opts) = Inr (new, added) \<and> fs' p = Some (new, 384) \<and>
       (\<exists>m'. fs' (p @ ''.valetfs-backup'') = Some (b, m')))"
proof -
  obtain opts t where o: "setup_args args no_opts = SOpts opts" "add_settings w ans opts t fs = (fs', ls, e)"
    using assms(1,4) unfolding runSetupClaude_def no_opts_def [symmetric]
    by (auto split: setup_parse.splits if_splits option.splits)
  have "fs' \<noteq> fs" using assms(4) by auto
  then obtain new added ls' where a: "patchClaudeSettings (case map_option fst (fs t) of Some b \<Rightarrow> b | None \<Rightarrow> []) (wanted opts) = Inr (new, added)"
    "yes opts \<or> confirm ans = Inr True" "write_settings w t (map_option fst (fs t)) new fs = (fs', ls', e)"
    using add_settings_effect [OF o(2)] by metis
  then show ?thesis using write_settings_effect [OF a(3) assms(2), of p] assms(3,4) o(1) by auto
qed

definition calm :: setup_os where
  "calm = \<lparr>so_read = (\<lambda>_. True), so_open = (\<lambda>_. True), so_backup = Whole, so_mkdir = True, tmp_name = (\<lambda>d. Some (d @ ''/.valetfs-settings-1'')),
     so_write = Whole, so_close = True, so_chmod = True, so_rename = True, so_remove = True\<rparr>"

theorem setup_safe_witness:
  "\<exists>fs' ls. runSetupClaude calm (\<lambda>_. []) None None [''--path=/s'', ''-y''] [''/s'' \<mapsto> (''{}'', 420)] = (fs', ls, None) \<and>
     fs' ''/s'' \<noteq> Some (''{}'', 420) \<and>
     (\<exists>new added. patchClaudeSettings ''{}'' agentAllowRules = Inr (new, added) \<and> fs' ''/s'' = Some (new, 384)) \<and>
     (\<exists>m. fs' ''/s.valetfs-backup'' = Some (''{}'', m))"
proof -
  let ?run = "runSetupClaude calm (\<lambda>_. []) None None [''--path=/s'', ''-y''] [''/s'' \<mapsto> (''{}'', 420)]"
  have e: "snd (snd ?run) = None \<and> fst ?run ''/s'' \<noteq> Some (''{}'', 420)" by code_simp
  then have r: "?run = (fst ?run, fst (snd ?run), None)" by (metis prod.collapse)
  have fresh: "\<forall>d n. tmp_name calm d = Some n \<longrightarrow> [''/s'' \<mapsto> (''{}'', 420)] n = None \<and> \<not> has_suffix n ''.valetfs-backup''"
    by (auto simp: calm_def suffix_def append_eq_append_conv2 Cons_eq_append_conv append_eq_Cons_conv)
  have o: "setup_args [''--path=/s'', ''-y''] no_opts = SOpts \<lparr>printOnly = False, yes = True, allowCat = False, set_path = ''/s''\<rparr>" by code_simp
  have w: "wanted \<lparr>printOnly = False, yes = True, allowCat = False, set_path = ''/s''\<rparr> = agentAllowRules" by (simp add: wanted_def)
  have "\<not> has_suffix ''/s'' ''.valetfs-backup''" by code_simp
  then show ?thesis using setup_safe [OF r fresh, of "''/s''" "''{}''" 420] e r o w by auto
qed

text \<open>Two divergences: a closing bracket behind the object is dropped, and an option with a value it does not take counts as given.\<close>

theorem stray_bracket_dropped:
  "parse_json ''{} ]lost'' = None \<and> parse_json ''{}}'' = None \<and> decodeOrdered ''{} ]lost'' = Some [] \<and> decodeOrdered ''{}}'' = Some []"
  by code_simp

theorem false_means_yes:
  "setup_args [''--yes=false'', ''--allow-cat=false''] no_opts = SOpts (no_opts\<lparr>yes := True, allowCat := True\<rparr>)"
  by code_simp
end
