(* ===== verification/AuthVaults.thy ===== *)
theory AuthVaults
  imports Session
begin

text \<open>
  The list of authorised vaults and the version 2 key file of \<open>internal/session/authorized.go\<close>.
  The file on disk is part of the state; whether the system accepts a write is an argument of
  the operations that write, and a refused write leaves the old file, which the rename would
  have replaced.
\<close>

datatype vaults_error = BadLine nat | TooLong | OpenFailed

record authEntry =
  e_pub :: bytes
  e_label :: string

record authorized_vaults =
  entries :: "authEntry list"
  vfile :: "bytes option"

text \<open>
  \<open>bufio.Scanner\<close> with its default split function: lines without their end, the last one only
  if it is not empty, and an error at a line that does not fit the buffer.
\<close>

definition max_token :: int where
  "max_token = 64 * 1024"

definition newline :: char where "newline = CHR 0x0A"

definition raw_lines :: "bytes \<Rightarrow> bytes list" where
  "raw_lines s = (let ps = split_on newline s in if last ps = [] then butlast ps else ps)"

definition drop_cr :: "bytes \<Rightarrow> bytes" where
  "drop_cr l = (if l \<noteq> [] \<and> last l = CHR 0x0D then butlast l else l)"

text \<open>\<open>OpenAuthorizedVaults\<close>: one line, then the loop.\<close>

definition parse_entry :: "string \<Rightarrow> authEntry option option" where
  "parse_entry line =
     (let text = trim_space line
      in if text = [] \<or> has_prefix text ''#'' then Some None
         else case GoText.fields text of
                [] \<Rightarrow> Some None
              | w # ws \<Rightarrow>
                  (case ParsePub w of
                     None \<Rightarrow> None
                   | Some pub \<Rightarrow> Some (Some \<lparr>e_pub = pub, e_label = join_on (CHR '' '') ws\<rparr>)))"

fun parse_entries :: "nat \<Rightarrow> bytes list \<Rightarrow> vaults_error + authEntry list" where
  "parse_entries n [] = Inr []"
| "parse_entries n (l # ls) =
     (if max_token \<le> int (length l) then Inl TooLong
      else case parse_entry (drop_cr l) of
             None \<Rightarrow> Inl (BadLine (Suc n))
           | Some None \<Rightarrow> parse_entries (Suc n) ls
           | Some (Some e) \<Rightarrow> (case parse_entries (Suc n) ls of Inl x \<Rightarrow> Inl x | Inr es \<Rightarrow> Inr (e # es)))"

definition OpenAuthorizedVaults :: "bool \<Rightarrow> bytes option \<Rightarrow> vaults_error + authorized_vaults" where
  "OpenAuthorizedVaults readable file =
     (case file of
        None \<Rightarrow> Inr \<lparr>entries = [], vfile = None\<rparr>
      | Some b \<Rightarrow>
          if \<not> readable then Inl OpenFailed
          else (case parse_entries 0 (raw_lines b) of Inl e \<Rightarrow> Inl e | Inr es \<Rightarrow> Inr \<lparr>entries = es, vfile = file\<rparr>))"

definition Keys :: "authorized_vaults \<Rightarrow> bytes list" where
  "Keys a = map e_pub (entries a)"

definition Has :: "bytes \<Rightarrow> authorized_vaults \<Rightarrow> bool" where
  "Has pub a = list_ex (\<lambda>e. subtleEqual (e_pub e) pub) (entries a)"

definition entry_line :: "authEntry \<Rightarrow> string" where
  "entry_line e = std_encode (e_pub e) @ (if e_label e \<noteq> [] then CHR '' '' # e_label e else [])"

definition header_lines :: "string list" where
  "header_lines =
     [''# ValetFS authorized vault identities.'',
      ''# One base64 X25519 public key per line, optionally followed by a label.'',
      ''# These are public keys, not secrets. Removing a line un-pins that vault.'',
      ''# An EMPTY list means trust-on-first-use: the next vault to connect is pinned.'']"

definition vaults_text :: "authEntry list \<Rightarrow> bytes" where
  "vaults_text es = concat (map (\<lambda>l. l @ [newline]) (header_lines @ map entry_line es))"

text \<open>\<open>save\<close>; \<open>ok\<close> says whether the directory, the temporary file and the rename succeed.\<close>

definition vaults_save :: "bool \<Rightarrow> authorized_vaults \<Rightarrow> authorized_vaults \<times> bool" where
  "vaults_save ok a = (if ok then (a\<lparr>vfile := Some (vaults_text (entries a))\<rparr>, True) else (a, False))"

text \<open>\<open>Add\<close> and \<open>Remove\<close> return whether there was no error; \<open>Remove\<close> also whether it removed anything.\<close>

definition vaults_Add :: "bool \<Rightarrow> bytes \<Rightarrow> string \<Rightarrow> authorized_vaults \<Rightarrow> authorized_vaults \<times> bool" where
  "vaults_Add ok pub label a =
     (if length pub \<noteq> 32 then (a, False)
      else if list_ex (\<lambda>e. subtleEqual (e_pub e) pub) (entries a) then (a, True)
      else vaults_save ok (a\<lparr>entries := entries a @ [\<lparr>e_pub = pub, e_label = label\<rparr>]\<rparr>))"

definition vaults_Remove :: "bool \<Rightarrow> bytes \<Rightarrow> authorized_vaults \<Rightarrow> authorized_vaults \<times> bool \<times> bool" where
  "vaults_Remove ok pub a =
     (let kept = filter (\<lambda>e. \<not> subtleEqual (e_pub e) pub) (entries a);
          removed = list_ex (\<lambda>e. subtleEqual (e_pub e) pub) (entries a);
          a' = a\<lparr>entries := kept\<rparr>
      in if \<not> removed then (a', False, True)
         else (let (a'', err) = vaults_save ok a' in (a'', True, err)))"

definition vaults_List :: "authorized_vaults \<Rightarrow> string list" where
  "vaults_List a = sort (map entry_line (entries a))"

definition DefaultLabel :: "string \<Rightarrow> string" where
  "DefaultLabel day = ''pinned-'' @ day"

text \<open>
  \<open>LoadOrGenerateStatic\<close>: \<open>dh\<close> is the library's scalar multiplication with the base point, \<open>gen\<close>
  the pair \<open>GenerateStatic\<close> makes, \<open>file\<close> the key file (\<open>None\<close> when it does not exist) and \<open>ok\<close>
  whether it can be written. The result has the pair, whether it was reused, and what the
  file holds afterwards.
\<close>

definition LoadOrGenerateStatic ::
  "(bytes \<Rightarrow> bytes option) \<Rightarrow> DHKey option \<Rightarrow> bool \<Rightarrow> string \<Rightarrow> bytes option \<Rightarrow> (DHKey \<times> bool \<times> bytes option) option" where
  "LoadOrGenerateStatic dh gen ok path file =
     (if path = [] then map_option (\<lambda>k. (k, False, file)) gen
      else case file of
             Some b \<Rightarrow>
               if length b \<noteq> 32 then None
               else map_option (\<lambda>p. (\<lparr>Private = b, Public = p\<rparr>, True, file)) (dh b)
           | None \<Rightarrow>
               (case gen of
                  None \<Rightarrow> None
                | Some k \<Rightarrow> if ok then Some (k, False, Some (Private k)) else None))"

section \<open>Words\<close>

text \<open>A word: not empty, of printable ASCII characters.\<close>

definition word_ok :: "string \<Rightarrow> bool" where
  "word_ok w \<longleftrightarrow> w \<noteq> [] \<and> list_all (\<lambda>c. 33 \<le> ord c \<and> ord c < 127) w"

abbreviation rune1 :: "char \<Rightarrow> rune" where
  "rune1 c \<equiv> Rune [c]"

lemma is_space_rune1: "is_space (rune1 c) \<longleftrightarrow> ascii_space c"
  by (simp add: is_space_def)

lemma word_no_space: "word_ok w \<Longrightarrow> c \<in> set w \<Longrightarrow> \<not> ascii_space c \<and> ord c < 128"
  by (auto simp: word_ok_def ascii_space_def list_all_iff)

lemma word_ascii: "word_ok w \<Longrightarrow> ascii w"
  by (auto simp: word_ok_def ascii_def list_all_iff)

lemma field_runes_word:
  "w \<noteq> [] \<Longrightarrow> (\<forall>c \<in> set w. \<not> ascii_space c) \<Longrightarrow> rs = [] \<or> is_space (hd rs) \<Longrightarrow>
     field_runes (map rune1 w @ rs) = map rune1 w # field_runes rs"
proof (induction w)
  case (Cons c w)
  then show ?case
    by (cases w; cases rs) (auto simp: is_space_rune1 split: list.splits)
qed simp

lemma ascii_join: "list_all word_ok us \<Longrightarrow> ascii (join_on (CHR '' '') us)"
proof (induction us)
  case (Cons w us)
  then show ?case using word_ascii [of w] by (simp add: join_on_Cons ascii_def)
qed simp

lemma fields_words:
  assumes "list_all word_ok ws"
  shows "GoText.fields (join_on (CHR '' '') ws) = ws"
proof -
  have runes: "runes s = map rune1 s" if "ascii s" for s
    using that by (simp add: runes_ascii ascii_def)
  have a: "list_all word_ok us \<Longrightarrow> ascii (join_on (CHR '' '') us)" for us
    by (rule ascii_join)
  have "list_all word_ok us \<Longrightarrow> field_runes (map rune1 (join_on (CHR '' '') us)) = map (map rune1) us" for us
  proof (induction us)
    case (Cons w us)
    show ?case
    proof (cases us)
      case Nil
      then show ?thesis using Cons.prems field_runes_word [of w "[]"] word_no_space [of w] by (auto simp: word_ok_def)
    next
      case (Cons v vs)
      have sp: "is_space (rune1 (CHR '' ''))" by code_simp
      then have "field_runes (map rune1 w @ rune1 (CHR '' '') # map rune1 (join_on (CHR '' '') us)) =
          map rune1 w # field_runes (map rune1 (join_on (CHR '' '') us))"
        using field_runes_word [of w "rune1 (CHR '' '') # map rune1 (join_on (CHR '' '') us)"] word_no_space [of w] Cons.prems
        by (auto simp: word_ok_def)
      then show ?thesis using Cons Cons.IH Cons.prems by (simp add: join_on_Cons)
    qed
  qed simp
  moreover have "flat (map rune1 w) = w" for w by (induction w) auto
  ultimately show ?thesis using assms runes [OF a] by (simp add: GoText.fields_def comp_def)
qed

text \<open>The ends of joined words are no spaces, so trimming changes nothing.\<close>

lemma join_words_ends:
  assumes "list_all word_ok ws" and "ws \<noteq> []"
  shows "join_on (CHR '' '') ws \<noteq> [] \<and> \<not> ascii_space (hd (join_on (CHR '' '') ws)) \<and> \<not> ascii_space (last (join_on (CHR '' '') ws))"
  using assms
proof (induction ws)
  case (Cons w ws)
  have w: "w \<noteq> []" "\<not> ascii_space (hd w)" "\<not> ascii_space (last w)"
    using Cons.prems word_no_space [of w] by (auto simp: word_ok_def)
  then show ?case using Cons.IH Cons.prems by (cases "ws = []") (auto simp: join_on_Cons)
qed simp

lemma trim_space_id:
  assumes "ascii s" and "s \<noteq> []" and "\<not> ascii_space (hd s)" and "\<not> ascii_space (last s)"
  shows "trim_space s = s"
proof -
  have r: "runes s = map rune1 s" using assms(1) by (simp add: runes_ascii ascii_def)
  have h: "dropWhile is_space (map rune1 s) = map rune1 s"
    using assms(2,3) by (cases s) (simp_all add: is_space_rune1)
  have "dropWhile is_space (rev (map rune1 s)) = rev (map rune1 s)"
    using assms(2,4) by (cases s rule: rev_cases) (simp_all add: is_space_rune1)
  then show ?thesis using r h flat_runes [of s] by (simp add: trim_space_def trim_runes_def)
qed

section \<open>Reading back what was written\<close>

text \<open>What the daemon puts into the list: whole keys, and labels of printable words.\<close>

definition entry_ok :: "authEntry \<Rightarrow> bool" where
  "entry_ok e \<longleftrightarrow> length (e_pub e) = 32 \<and> list_all word_ok (GoText.fields (e_label e)) \<and>
     join_on (CHR '' '') (GoText.fields (e_label e)) = e_label e \<and> int (length (entry_line e)) < max_token"

lemma word_ok_pub: "pub \<noteq> [] \<Longrightarrow> word_ok (std_encode pub)"
  unfolding word_ok_def std_encode_def using std_encode_chars std_encode_Nil [of pub]
  by (fastforce simp: list_all_iff std_encode_def)

lemma entry_line_words:
  assumes "entry_ok e"
  shows "entry_line e = join_on (CHR '' '') (std_encode (e_pub e) # GoText.fields (e_label e))"
    and "list_all word_ok (std_encode (e_pub e) # GoText.fields (e_label e))"
proof -
  have "e_pub e \<noteq> []" using assms by (auto simp: entry_ok_def)
  then show "list_all word_ok (std_encode (e_pub e) # GoText.fields (e_label e))"
    using assms word_ok_pub by (simp add: entry_ok_def)
  have "GoText.fields (e_label e) = [] \<longleftrightarrow> e_label e = []"
    using assms join_words_ends [of "GoText.fields (e_label e)"] by (auto simp: entry_ok_def)
  then show "entry_line e = join_on (CHR '' '') (std_encode (e_pub e) # GoText.fields (e_label e))"
    using assms by (simp add: entry_line_def join_on_Cons entry_ok_def)
qed

lemma parse_entry_line:
  assumes "entry_ok e"
  shows "parse_entry (entry_line e) = Some (Some e)"
proof -
  note l = entry_line_words [OF assms]
  have ends: "entry_line e \<noteq> []" "\<not> ascii_space (hd (entry_line e))" "\<not> ascii_space (last (entry_line e))" "ascii (entry_line e)"
    using join_words_ends [OF l(2)] ascii_join [OF l(2)] unfolding l(1) by simp_all
  have pub: "e_pub e \<noteq> []" "length (e_pub e) = 32" using assms by (auto simp: entry_ok_def)
  have "hd (std_encode (e_pub e)) \<in> set (std_encode (e_pub e))" using pub(1) by simp
  then have "ord (hd (std_encode (e_pub e))) \<noteq> 35" using std_encode_chars unfolding std_encode_def by fastforce
  then have "hd (entry_line e) \<noteq> CHR ''#''" using pub(1) by (cases "std_encode (e_pub e)") (auto simp: entry_line_def)
  then have "\<not> has_prefix (entry_line e) ''#''" using ends(1) by (cases "entry_line e") auto
  moreover have "trim_space (entry_line e) = entry_line e" using trim_space_id ends by blast
  moreover have "GoText.fields (entry_line e) = std_encode (e_pub e) # GoText.fields (e_label e)"
    using fields_words [OF l(2)] by (simp add: l(1))
  moreover have "ParsePub (std_encode (e_pub e)) = Some (e_pub e)" using ParsePub_PubB64 [OF pub(2)] by (simp add: PubB64_def)
  ultimately show ?thesis using ends(1) assms by (simp add: parse_entry_def entry_ok_def)
qed

lemma word_chars:
  assumes "list_all word_ok ws" and "c \<in> set (join_on (CHR '' '') ws)"
  shows "32 \<le> ord c"
  using assms
proof (induction ws)
  case (Cons w ws)
  then show ?case by (auto simp: join_on_Cons word_ok_def list_all_iff split: if_splits)
qed simp

lemma entry_line_plain: "entry_ok e \<Longrightarrow> newline \<notin> set (entry_line e) \<and> drop_cr (entry_line e) = entry_line e"
  using word_chars [OF entry_line_words(2), of e] last_in_set [of "entry_line e"]
  by (fastforce simp: entry_line_words(1) [of e] newline_def drop_cr_def)

lemma raw_lines_text: "\<forall>l \<in> set ls. newline \<notin> set l \<Longrightarrow> raw_lines (concat (map (\<lambda>l. l @ [newline]) ls)) = ls"
proof -
  assume "\<forall>l \<in> set ls. newline \<notin> set l"
  then have "split_on newline (concat (map (\<lambda>l. l @ [newline]) ls)) = ls @ [[]]"
    by (induction ls) (auto simp: split_on_append)
  then show ?thesis by (simp add: raw_lines_def Let_def)
qed

lemma header_lines_plain: "\<forall>l \<in> set header_lines. newline \<notin> set l \<and> length l < 100 \<and> parse_entry (drop_cr l) = Some None"
proof -
  have "list_all (\<lambda>l. newline \<notin> set l \<and> length l < 100 \<and> parse_entry (drop_cr l) = Some None) header_lines" by code_simp
  then show ?thesis by (simp add: list_all_iff)
qed

lemma parse_header: "\<exists>n'. parse_entries n (header_lines @ ls) = parse_entries n' ls"
proof -
  have skip: "\<exists>n'. parse_entries n (hs @ ls) = parse_entries n' ls"
    if "\<forall>l \<in> set hs. length l < 100 \<and> parse_entry (drop_cr l) = Some None" for hs
    using that
  proof (induction hs arbitrary: n)
    case (Cons l hs)
    have "\<not> max_token \<le> int (length l)" using Cons.prems by (auto simp: max_token_def)
    then show ?case using Cons.prems Cons.IH [of "Suc n"] by auto
  qed auto
  show ?thesis by (rule skip) (use header_lines_plain in blast)
qed

lemma parse_entry_lines: "list_all entry_ok es \<Longrightarrow> parse_entries n (map entry_line es) = Inr es"
proof (induction es arbitrary: n)
  case (Cons e es)
  have "int (length (entry_line e)) < max_token" using Cons.prems by (simp add: entry_ok_def)
  then show ?case using Cons entry_line_plain [of e] parse_entry_line [of e] by simp
qed simp

lemma read_back: "list_all entry_ok es \<Longrightarrow> parse_entries 0 (raw_lines (vaults_text es)) = Inr es"
proof -
  assume es: "list_all entry_ok es"
  have "raw_lines (vaults_text es) = header_lines @ map entry_line es"
    unfolding vaults_text_def
    by (rule raw_lines_text) (use es entry_line_plain header_lines_plain in \<open>auto simp: list_all_iff\<close>)
  then show ?thesis using parse_header [of 0 "map entry_line es"] parse_entry_lines [OF es] by auto
qed

section \<open>The list as a set of keys\<close>

datatype vault_op = OpAdd bytes string | OpRemove bytes

fun run_op :: "vault_op \<Rightarrow> authorized_vaults \<Rightarrow> authorized_vaults" where
  "run_op (OpAdd pub label) a = fst (vaults_Add True pub label a)"
| "run_op (OpRemove pub) a = fst (vaults_Remove True pub a)"

fun spec_op :: "vault_op \<Rightarrow> bytes set \<Rightarrow> bytes set" where
  "spec_op (OpAdd pub label) S = (if length pub = 32 then insert pub S else S)"
| "spec_op (OpRemove pub) S = S - {pub}"

fun op_ok :: "vault_op \<Rightarrow> bool" where
  "op_ok (OpAdd pub label) \<longleftrightarrow> (length pub = 32 \<longrightarrow> entry_ok \<lparr>e_pub = pub, e_label = label\<rparr>)"
| "op_ok (OpRemove pub) \<longleftrightarrow> True"

definition vaults_inv :: "authorized_vaults \<Rightarrow> bool" where
  "vaults_inv a \<longleftrightarrow> list_all entry_ok (entries a) \<and> distinct (Keys a) \<and>
     ((vfile a = None \<and> entries a = []) \<or> vfile a = Some (vaults_text (entries a)))"

lemma list_ex_pub: "list_ex (\<lambda>e. subtleEqual (e_pub e) pub) es \<longleftrightarrow> pub \<in> e_pub ` set es"
  by (auto simp: list_ex_iff subtleEqual_def)

lemma run_op_refines:
  assumes "vaults_inv a" and "op_ok op"
  shows "vaults_inv (run_op op a) \<and> set (Keys (run_op op a)) = spec_op op (set (Keys a))"
proof (cases op)
  case (OpAdd pub label)
  then show ?thesis
    using assms by (auto simp: vaults_Add_def vaults_save_def vaults_inv_def Keys_def list_ex_pub)
next
  case (OpRemove pub)
  let ?k = "filter (\<lambda>e. \<not> subtleEqual (e_pub e) pub) (entries a)"
  have k: "map e_pub ?k = filter (\<lambda>p. p \<noteq> pub) (map e_pub (entries a))"
    by (simp add: filter_map comp_def subtleEqual_def)
  have same: "?k = entries a" if "pub \<notin> e_pub ` set (entries a)"
    using that by (auto simp: filter_id_conv subtleEqual_def)
  have "list_all entry_ok ?k" using assms by (auto simp: vaults_inv_def list_all_iff)
  moreover have "distinct (map e_pub ?k)" using assms unfolding k by (simp add: vaults_inv_def Keys_def)
  moreover have "set (map e_pub ?k) = set (map e_pub (entries a)) - {pub}" unfolding k by auto
  ultimately show ?thesis
    using OpRemove assms same
    by (cases "pub \<in> e_pub ` set (entries a)")
      (simp_all add: vaults_Remove_def vaults_save_def vaults_inv_def Keys_def Let_def list_ex_pub)
qed

lemma run_ops_refine:
  "list_all op_ok ops \<Longrightarrow> vaults_inv a \<Longrightarrow>
     vaults_inv (fold run_op ops a) \<and> set (Keys (fold run_op ops a)) = fold spec_op ops (set (Keys a))"
  by (induction ops arbitrary: a) (auto simp: run_op_refines)


definition demo_ops :: "vault_op list" where
  "demo_ops = [OpAdd (replicate 32 (CHR ''A'')) ''my phone'', OpAdd (replicate 32 (CHR ''B'')) (DefaultLabel ''2024-01-31''),
     OpAdd (replicate 32 (CHR ''A'')) ''again'', OpRemove (replicate 32 (CHR ''B''))]"


end
