(* ===== verification/Reconnect.thy ===== *)
theory Reconnect
  imports WsConn Serve AuthVaults
begin

text \<open>
  Losing and finding the control plane: the loop that \<open>serve\<close> in \<open>cmd/valetfs/main.go\<close> runs when
  its connection closes, and the connection key of the reverse flow. An attempt to reconnect is
  given by whether it succeeded and how long it took.
\<close>

section \<open>The reconnect loop\<close>

partial_function (option) reconnect_loop :: "(nat \<Rightarrow> bool \<times> int) \<Rightarrow> time \<Rightarrow> nat \<Rightarrow> time \<Rightarrow> int \<Rightarrow> (time \<times> nat option) option" where
  "reconnect_loop attempt dl i now backoff =
     (if \<not> now < dl then Some (now, None)
      else let t = now + backoff + snd (attempt i)
           in if fst (attempt i) then Some (t, Some i)
              else reconnect_loop attempt dl (Suc i) t (if backoff < 8 * Second then backoff * 2 else backoff))"

text \<open>\<open>reconnect\<close>: when it ends, the number of the successful attempt, if any, and the daemon.\<close>

definition reconnect :: "(nat \<Rightarrow> bool \<times> int) \<Rightarrow> outside \<Rightarrow> time \<Rightarrow> daemon \<Rightarrow> (time \<times> nat option \<times> daemon) option" where
  "reconnect attempt ou now d =
     map_option (\<lambda>(t, r). (t, r, case r of Some _ \<Rightarrow> d | None \<Rightarrow> lock_daemon ou t d))
       (reconnect_loop attempt (now + 30 * Second) 0 now Second)"

lemma loop_stops: "\<not> now < dl \<Longrightarrow> reconnect_loop attempt dl i now backoff = Some (now, None)"
  by (subst reconnect_loop.simps) simp

lemma loop_attaches:
  "now < dl \<Longrightarrow> fst (attempt i) \<Longrightarrow> reconnect_loop attempt dl i now backoff = Some (now + backoff + snd (attempt i), Some i)"
  by (subst reconnect_loop.simps) simp

lemma loop_again:
  "now < dl \<Longrightarrow> \<not> fst (attempt i) \<Longrightarrow> reconnect_loop attempt dl i now backoff =
     reconnect_loop attempt dl (Suc i) (now + backoff + snd (attempt i)) (if backoff < 8 * Second then backoff * 2 else backoff)"
  by (subst reconnect_loop.simps) (simp add: Let_def)

text \<open>
  One round: the loop ends here, or goes on later and with a longer pause. \<open>P\<close> is what is to be
  shown of the result.
\<close>

lemma loop_round:
  assumes "now \<ge> dl \<Longrightarrow> P (now, None)"
    and "now < dl \<Longrightarrow> fst (attempt i) \<Longrightarrow> P (now + backoff + snd (attempt i), Some i)"
    and "now < dl \<Longrightarrow> \<not> fst (attempt i) \<Longrightarrow>
      \<exists>y. reconnect_loop attempt dl (Suc i) (now + backoff + snd (attempt i)) (if backoff < 8 * Second then backoff * 2 else backoff) = Some y \<and> P y"
  shows "\<exists>y. reconnect_loop attempt dl i now backoff = Some y \<and> P y"
proof (cases "now < dl")
  case False
  then show ?thesis using assms(1) loop_stops [of now dl] by auto
next
  case True
  then show ?thesis using assms(2,3) loop_attaches [OF True] loop_again [OF True] by (cases "fst (attempt i)") auto
qed

text \<open>The pauses are 1, 2, 4 and then 8 seconds, so that six of them pass the deadline.\<close>

definition pause :: "nat \<Rightarrow> int" where
  "pause k = (if k < 3 then 2 ^ k else 8) * Second"

lemma pause_next: "(if pause k < 8 * Second then pause k * 2 else pause k) = pause (Suc k)"
proof -
  consider "k = 0" | "k = 1" | "k = 2" | "3 \<le> k" by linarith
  then show ?thesis by cases (simp_all add: pause_def Second_def)
qed

lemma six_pauses: "sum pause {..<6} = 31 * Second"
  by (simp add: pause_def Second_def eval_nat_numeral)

definition good_end :: "(nat \<Rightarrow> bool \<times> int) \<Rightarrow> time \<Rightarrow> time \<times> nat option \<Rightarrow> bool" where
  "good_end attempt t0 y \<longleftrightarrow>
     (case snd y of
        Some i \<Rightarrow> i < 6 \<and> fst (attempt i) \<and> (\<forall>j < i. \<not> fst (attempt j))
      | None \<Rightarrow> t0 + 30 * Second \<le> fst y \<and> fst y \<le> t0 + 31 * Second + (\<Sum>j < 6. snd (attempt j)))"

lemma loop_from:
  assumes dur: "\<And>i. 0 \<le> snd (attempt i)"
  shows "k \<le> 6 \<Longrightarrow> \<forall>j < k. \<not> fst (attempt j) \<Longrightarrow> t0 + sum pause {..<k} \<le> now \<Longrightarrow>
    now \<le> t0 + sum pause {..<k} + (\<Sum>j < k. snd (attempt j)) \<Longrightarrow>
    \<exists>y. reconnect_loop attempt (t0 + 30 * Second) k now (pause k) = Some y \<and> good_end attempt t0 y"
proof (induction k arbitrary: now rule: inc_induct)
  case base
  then show ?case
    using loop_stops [of now "t0 + 30 * Second" attempt 6 "pause 6"] six_pauses by (auto simp: good_end_def Second_def)
next
  case (step k)
  have sums: "sum pause {..<k} \<le> 31 * Second" "(\<Sum>j < k. snd (attempt j)) \<le> (\<Sum>j < 6. snd (attempt j))"
  proof -
    show "sum pause {..<k} \<le> 31 * Second"
      unfolding six_pauses [symmetric] by (rule sum_mono2) (use step(2) in \<open>auto simp: pause_def Second_def\<close>)
    show "(\<Sum>j < k. snd (attempt j)) \<le> (\<Sum>j < 6. snd (attempt j))"
      by (rule sum_mono2) (use step(2) dur in auto)
  qed
  show ?case
  proof (rule loop_round)
    show "good_end attempt t0 (now, None)" if "t0 + 30 * Second \<le> now"
      using that step(6) sums by (simp add: good_end_def)
    show "good_end attempt t0 (now + pause k + snd (attempt k), Some k)" if "fst (attempt k)"
      using that step by (simp add: good_end_def)
    show "\<exists>y. reconnect_loop attempt (t0 + 30 * Second) (Suc k) (now + pause k + snd (attempt k))
          (if pause k < 8 * Second then pause k * 2 else pause k) = Some y \<and> good_end attempt t0 y"
      if "\<not> fst (attempt k)"
      unfolding pause_next using step dur [of k] that by (intro step.IH) (auto simp: less_Suc_eq)
  qed
qed



section \<open>Against a self-hosted hub\<close>

text \<open>The attempts of the loop as calls of \<open>ReconnectDaemon\<close>; \<open>net\<close> gives the hub at the time of each.\<close>

definition hub_attempts :: "net_lib \<Rightarrow> bool \<Rightarrow> string \<Rightarrow> string \<Rightarrow> string \<Rightarrow> (nat \<Rightarrow> site) \<Rightarrow> nat \<Rightarrow> bool \<times> int" where
  "hub_attempts lib allowInsecure signaling sessID tok net i =
     (case ReconnectDaemon lib allowInsecure i signaling sessID tok (net i) of (_, r) \<Rightarrow> (\<not> isl r, 0))"

text \<open>
  C38: With a self-hosted hub that can be reached the daemon never locks itself, not even when
  the hub has forgotten the session: the first attempt counts as success, the connection it
  returns is in no session, and the daemon keeps everything it holds.
\<close>

theorem forgotten_session_not_locked:
  assumes "url_laws lib" and "plain_host (s_addr s)" and "checkHubURL lib allowInsecure (site_url s) = None"
    and "map_of (sessions (s_hub s)) sessID = None"
  shows "reconnect (hub_attempts lib allowInsecure (site_url s) sessID tok (\<lambda>_. s)) ou now d = Some (now + Second, Some 0, d) \<and>
    fst (ReconnectDaemon lib allowInsecure 0 (site_url s) sessID tok s) = s"
proof -
  obtain ref where r: "ReconnectDaemon lib allowInsecure 0 (site_url s) sessID tok s = (s, Inr ref)"
    using assms(3,4) dialWS_reaches [OF assms(1,2), of 0 sessID "''daemon''" tok]
    by (simp add: ReconnectDaemon_def ws_open_def)
  then have a: "hub_attempts lib allowInsecure (site_url s) sessID tok (\<lambda>_. s) 0 = (True, 0)" by (simp add: hub_attempts_def)
  then show ?thesis
    using loop_attaches [of now "now + 30 * Second" "hub_attempts lib allowInsecure (site_url s) sessID tok (\<lambda>_. s)" 0 Second] r
    by (simp add: reconnect_def Second_def)
qed

theorem forgotten_session_not_locked_witness:
  "reconnect (hub_attempts demo_net False (site_url demo_site) ''gone'' ''tok'' (\<lambda>_. demo_site)) demo_outside 0 (host demo_served) =
     Some (Second, Some 0, host demo_served) \<and> used (dfs (host demo_served)) = 3"
proof -
  have "map_of (sessions (s_hub demo_site)) ''gone'' = None" by (simp add: demo_site_def hub_New_def)
  from forgotten_session_not_locked [OF demo_net_laws demo_site_ok this, of "''tok''" demo_outside 0 "host demo_served"]
  have "reconnect (hub_attempts demo_net False (site_url demo_site) ''gone'' ''tok'' (\<lambda>_. demo_site)) demo_outside 0 (host demo_served) =
     Some (Second, Some 0, host demo_served)" by simp
  then show ?thesis using demo_served_used by blast
qed

section \<open>The connection key\<close>

record joinKey =
  j_V :: int
  SID :: string
  Token :: string
  Signaling :: string
  VaultPub :: string
  Claim :: string

datatype join_error = JoinBase64 | JoinJson | JoinMissing

definition joinKey_of_json :: "json \<Rightarrow> joinKey option" where
  "joinKey_of_json j =
     (if obj_ok j \<and> int_ok ''v'' j \<and> str_ok ''sid'' j \<and> str_ok ''token'' j \<and> str_ok ''signaling'' j \<and> str_ok ''vault_pub'' j \<and> str_ok ''claim'' j
      then Some \<lparr>j_V = get_int ''v'' j, SID = get_str ''sid'' j, Token = get_str ''token'' j, Signaling = get_str ''signaling'' j,
                 VaultPub = get_str ''vault_pub'' j, Claim = get_str ''claim'' j\<rparr>
      else None)"

definition decodeJoinKey :: "string \<Rightarrow> join_error + joinKey" where
  "decodeJoinKey s0 =
     (let s = trim_space s0
      in (case (case rawurl_decode s of Some raw \<Rightarrow> Some raw | None \<Rightarrow> std_decode s) of
            None \<Rightarrow> Inl JoinBase64
          | Some raw \<Rightarrow>
              (case Option.bind (parse_json raw) joinKey_of_json of
                 None \<Rightarrow> Inl JoinJson
               | Some k \<Rightarrow> if SID k = [] \<or> Token k = [] then Inl JoinMissing else Inr k)))"

text \<open>The key as the struct's tags write it.\<close>

definition joinKey_json :: "joinKey \<Rightarrow> json" where
  "joinKey_json k =
     JObj ([(''v'', JNum (itoa (j_V k))), (''sid'', JStr (SID k)), (''token'', JStr (Token k)), (''signaling'', JStr (Signaling k))] @
           opt_field (VaultPub k \<noteq> []) ''vault_pub'' (JStr (VaultPub k)) @ opt_field (Claim k \<noteq> []) ''claim'' (JStr (Claim k)))"

lemma join_names [simp]:
  "fold_name ''sid'' = ''SID''" "fold_name ''token'' = ''TOKEN''" "fold_name ''signaling'' = ''SIGNALING''"
  "fold_name ''vault_pub'' = ''VAULT_PUB''" "fold_name ''claim'' = ''CLAIM''"
  by code_simp+

lemma rawurl_word:
  assumes "b \<noteq> []"
  shows "trim_space (rawurl_encode b) = rawurl_encode b"
proof (rule trim_space_id)
  have c: "43 \<le> ord c \<and> ord c < 127" if "c \<in> set (rawurl_encode b)" for c
    using that std_encode_chars [of c URLAlphabet False b] by (simp add: rawurl_encode_def)
  show "ascii (rawurl_encode b)" using c by (fastforce simp: ascii_def list_all_iff)
  show ne: "rawurl_encode b \<noteq> []"
    using assms rawurl_decode_encode [of b] by (auto simp: rawurl_decode_def)
  show "\<not> ascii_space (hd (rawurl_encode b))" "\<not> ascii_space (last (rawurl_encode b))"
    using c [OF hd_in_set [OF ne]] c [OF last_in_set [OF ne]] by (auto simp: ascii_space_def)
qed

text \<open>
  A connection key survives being copied: written as JSON in unpadded base64url, with white
  space around it or not, it is read back field by field; without a session or a token it is
  refused.
\<close>

theorem join_key_roundtrip:
  assumes "- (2 ^ 63) \<le> j_V k" and "j_V k < 2 ^ 63" and "list_all utf8_valid [SID k, Token k, Signaling k, VaultPub k, Claim k]"
    and "trim_space s = rawurl_encode (marshal (joinKey_json k))"
  shows "decodeJoinKey s = (if SID k = [] \<or> Token k = [] then Inl JoinMissing else Inr k)"
proof -
  have "clean (joinKey_json k)"
    using assms(3) by (simp add: joinKey_json_def opt_field_def num_ok_itoa utf8_valid_ascii)
  then have p: "parse_json (marshal (joinKey_json k)) = Some (joinKey_json k)" by (rule reparse)
  have "joinKey_of_json (joinKey_json k) = Some k"
    using int_of_itoa [OF assms(1,2)]
    by (cases "VaultPub k = []"; cases "Claim k = []")
       (simp_all add: joinKey_of_json_def joinKey_json_def opt_field_def field_vals_def members_def obj_ok_def int_ok_def str_ok_def get_int_def get_str_def)
  then show ?thesis using p assms(4) by (simp add: decodeJoinKey_def Let_def)
qed

definition demo_key :: joinKey where
  "demo_key = \<lparr>j_V = 1, SID = ''ab'', Token = ''cd'', Signaling = ''https://h'', VaultPub = [], Claim = ''s''\<rparr>"

theorem join_key_roundtrip_witness:
  "decodeJoinKey (rawurl_encode (marshal (joinKey_json demo_key))) = Inr demo_key"
proof -
  have "- (2 ^ 63) \<le> j_V demo_key" "j_V demo_key < 2 ^ 63"
    "list_all utf8_valid [SID demo_key, Token demo_key, Signaling demo_key, VaultPub demo_key, Claim demo_key]"
    by code_simp+
  moreover have "trim_space (rawurl_encode (marshal (joinKey_json demo_key))) = rawurl_encode (marshal (joinKey_json demo_key))"
    by (rule rawurl_word) (simp add: joinKey_json_def)
  ultimately show ?thesis using join_key_roundtrip [of demo_key] by (simp add: demo_key_def)
qed

end
