(* ===== verification/Startup.thy ===== *)
theory Startup
  imports Controller Config Reconnect
begin

text \<open>
  \<open>serve\<close> of \<open>cmd/valetfs/main.go\<close> up to the running connection, over the web socket transport: the
  daemon, its two keys and the list of authorised vaults, the session on the hub, the node and the
  dispatcher. The record \<open>machine\<close> has the files it reads and writes, \<open>start_draw\<close> the random values
  and the times it draws; a fatal log entry is a \<open>start_error\<close>. Hardening, the
  control API's socket and the signal are in \<open>Process\<close>; the drawing of the QR code is left out.
\<close>

record machine =
  m_key :: "bytes option"
  m_noise :: "bytes option"
  m_vaults :: "bytes option"

record start_draw =
  x_now :: time
  x_repo :: bytes
  x_backend :: string
  x_priv :: bytes
  x_static :: "DHKey option"
  x_claim :: bytes
  x_rid :: bytes
  x_rtok :: bytes
  x_conn :: nat

datatype start_error =
    StKey | StNoise | StVaults vaults_error | StJoin join_error | StVaultKey | StPublish hub_error | StConnect hub_error

record ('hs, 'cs) started =
  st_ep :: "('hs, 'cs) endpoint"
  st_signaling :: string
  st_sid :: string
  st_token :: string
  st_claim :: string
  st_qr :: "json option"

definition resuming :: "config \<Rightarrow> machine \<Rightarrow> bool" where
  "resuming cfg m \<longleftrightarrow> g_ResumeKeyFile cfg \<noteq> [] \<and> (case m_key m of None \<Rightarrow> False | Some b \<Rightarrow> b \<noteq> [])"

definition start_daemon :: "start_draw \<Rightarrow> config \<Rightarrow> machine \<Rightarrow> daemon" where
  "start_daemon x cfg m =
     (let d = new_daemon (x_now x) (x_repo x) (x_backend x) (daemon_part cfg) in if resuming cfg m then d else Mount d)"

definition start_pair :: "v1_crypto \<Rightarrow> start_draw \<Rightarrow> config \<Rightarrow> machine \<Rightarrow> (KeyPair \<times> machine) option" where
  "start_pair cr x cfg m =
     (if g_ResumeKeyFile cfg \<noteq> [] then
        map_option (\<lambda>(pair, _, out). (pair, case out of None \<Rightarrow> m | Some b \<Rightarrow> m\<lparr>m_key := Some b\<rparr>)) (LoadOrGenerate cr (m_key m) (x_priv x))
      else map_option (\<lambda>pair. (pair, m)) (Generate cr (x_priv x)))"

definition start_static :: "v1_crypto \<Rightarrow> start_draw \<Rightarrow> config \<Rightarrow> machine \<Rightarrow> (DHKey \<times> machine) option" where
  "start_static cr x cfg m =
     map_option (\<lambda>(key, _, file). (key, m\<lparr>m_noise := file\<rparr>))
       (LoadOrGenerateStatic (\<lambda>b. x25519 cr b (basepoint cr)) (x_static x) True
          (if g_ResumeKeyFile cfg \<noteq> [] then g_ResumeKeyFile cfg @ ''.noise'' else []) (m_noise m))"

definition qr_json :: "KeyPair \<Rightarrow> DHKey \<Rightarrow> string \<Rightarrow> string \<Rightarrow> string \<Rightarrow> json" where
  "qr_json pair key i signaling secret =
     jmap [(''v'', JNum ''1''), (''sid'', JStr i), (''signaling'', JStr signaling), (''pub'', JStr (key_PubB64 pair)),
           (''pub2'', JStr (PubB64 (Public key))), (''claim'', JStr secret)]"

text \<open>The node and its first connection; in the reverse flow the countdown runs from the start.\<close>

definition start_endpoint ::
  "('hs, 'cs) outer \<Rightarrow> start_draw \<Rightarrow> config \<Rightarrow> machine \<Rightarrow> KeyPair \<Rightarrow> DHKey \<Rightarrow> string \<Rightarrow> bytes list option \<Rightarrow> bytes list \<Rightarrow> ('hs, 'cs) endpoint" where
  "start_endpoint k x cfg m pair key i joined listed =
     (let n = serve_node (start_daemon x cfg m) (g_GraceSeconds cfg);
          ep = attach pair i key joined listed \<lparr>link = NewDual pair i key [], nd = n\<rparr>
      in if g_JoinKey cfg \<noteq> [] then ep\<lparr>nd := ArmGrace (serve_config (k_ou k) (x_now x)) (x_now x) n\<rparr> else ep)"

text \<open>The reverse flow: join the session a connection key names.\<close>

definition serve_join ::
  "('hs, 'cs) outer \<Rightarrow> start_draw \<Rightarrow> config \<Rightarrow> machine \<Rightarrow> KeyPair \<Rightarrow> DHKey \<Rightarrow> authorized_vaults \<Rightarrow> site \<Rightarrow>
     site \<times> (start_error + ('hs, 'cs) started)" where
  "serve_join k x cfg m pair key vaults s =
     (case decodeJoinKey (g_JoinKey cfg) of
        Inl e \<Rightarrow> (s, Inl (StJoin e))
      | Inr j \<Rightarrow>
          let signaling = (if Signaling j = [] then g_SignalingURL cfg else Signaling j)
          in (case (if VaultPub j = [] then Some None else map_option (\<lambda>p. Some [p]) (ParsePub (VaultPub j))) of
                None \<Rightarrow> (s, Inl StVaultKey)
              | Some joined \<Rightarrow>
                  (case PublishPub (k_net k) (k_sha k) (g_InsecureSignaling cfg) signaling (SID j) (key_PubB64 pair) (PubB64 (Public key)) s of
                     (s1, Some e) \<Rightarrow> (s1, Inl (StPublish e))
                   | (s1, None) \<Rightarrow>
                       (case JoinDaemon (k_net k) (g_InsecureSignaling cfg) (x_conn x) signaling (SID j) (Token j) s1 of
                          (s2, Inl e) \<Rightarrow> (s2, Inl (StConnect e))
                        | (s2, Inr ref) \<Rightarrow>
                            (s2, Inr \<lparr>st_ep = start_endpoint k x cfg m pair key (SID j) joined (Keys vaults), st_signaling = signaling,
                                      st_sid = SID j, st_token = Token j, st_claim = [], st_qr = None\<rparr>)))))"

definition serve_dial ::
  "('hs, 'cs) outer \<Rightarrow> start_draw \<Rightarrow> config \<Rightarrow> machine \<Rightarrow> KeyPair \<Rightarrow> DHKey \<Rightarrow> authorized_vaults \<Rightarrow> site \<Rightarrow>
     site \<times> (start_error + ('hs, 'cs) started)" where
  "serve_dial k x cfg m pair key vaults s =
     (let secret = NewClaimSecret (x_claim x)
      in (case DialDaemon (k_net k) (k_sha k) (g_InsecureSignaling cfg) (x_rid x) (x_rtok x) (x_conn x) (g_SignalingURL cfg)
                 (key_PubB64 pair) (PubB64 (Public key)) secret s of
            (s1, Inl e) \<Rightarrow> (s1, Inl (StConnect e))
          | (s1, Inr ref) \<Rightarrow>
              (s1, Inr \<lparr>st_ep = start_endpoint k x cfg m pair key (c_sid ref) None (Keys vaults), st_signaling = g_SignalingURL cfg,
                        st_sid = c_sid ref, st_token = c_token ref, st_claim = secret,
                        st_qr = Some (qr_json pair key (c_sid ref) (g_SignalingURL cfg) secret)\<rparr>)))"

definition serve_ws ::
  "('hs, 'cs) outer \<Rightarrow> start_draw \<Rightarrow> config \<Rightarrow> machine \<Rightarrow> site \<Rightarrow> site \<times> machine \<times> (start_error + ('hs, 'cs) started)" where
  "serve_ws k x cfg m s =
     (case start_pair (k_cr k) x cfg m of
        None \<Rightarrow> (s, m, Inl StKey)
      | Some (pair, m1) \<Rightarrow>
          (case start_static (k_cr k) x cfg m1 of
             None \<Rightarrow> (s, m1, Inl StNoise)
           | Some (key, m2) \<Rightarrow>
               (case OpenAuthorizedVaults True (m_vaults m2) of
                  Inl e \<Rightarrow> (s, m2, Inl (StVaults e))
                | Inr vaults \<Rightarrow>
                    (case (if g_JoinKey cfg \<noteq> [] then serve_join else serve_dial) k x cfg m pair key vaults s of
                       (s1, r) \<Rightarrow> (s1, m2, r)))))"

section \<open>A resumed daemon is locked\<close>

lemma start_endpoint_simps:
  "link (start_endpoint k x cfg m pair key i joined listed) = NewDual pair i key (case joined of None \<Rightarrow> listed | Some as \<Rightarrow> as)"
  by (simp add: start_endpoint_def attach_def Let_def)

lemma start_fs:
  "dfs (start_daemon x cfg m) = New (x_now x) (g_QuotaBytes cfg)" "mounted (start_daemon x cfg m) \<longleftrightarrow> \<not> resuming cfg m"
  by (simp_all add: start_daemon_def new_daemon_def daemon_part_def Let_def Mount_def)

lemma start_node: "g_JoinKey cfg = [] \<Longrightarrow> host (nd (start_endpoint k x cfg m pair key i joined listed)) = start_daemon x cfg m"
  by (simp add: start_endpoint_def attach_def serve_node_def new_node_def Let_def)

lemma New_empty: "file_body (New now m) = Map.empty"
proof
  fix q show "file_body (New now m) q = None" by (cases q) (simp_all add: file_body_def fs_view_def New_def new_dir_def)
qed

lemma rawurl_valid: "utf8_valid (rawurl_encode b)"
proof (rule utf8_valid_ascii)
  have "ord c < 128" if "c \<in> set (rawurl_encode b)" for c
    using that std_encode_chars [of c URLAlphabet False b] by (simp add: rawurl_encode_def)
  then show "list_all (\<lambda>c. ord c < 128) (rawurl_encode b)" by (simp add: list_all_iff)
qed

lemma start_pair_generated: "start_pair cr x cfg m = Some (pair, m1) \<Longrightarrow> \<exists>dk. Generate cr dk = Some pair"
  by (auto simp: start_pair_def LoadOrGenerate_def Generate_def split: if_splits option.splits)

section \<open>From the start of the daemon to the vault's files\<close>


section \<open>Starting again, and joining\<close>

lemma startGrace_locked:
  assumes "\<not> mounted (host n)" and "file_body (dfs (host n)) = Map.empty" and "fs_inv (dfs (host n))"
  shows "\<not> mounted (host (startGrace (serve_config ou now) now n)) \<and> file_body (dfs (host (startGrace (serve_config ou now) now n))) = Map.empty"
proof -
  have "\<not> mounted (lock_daemon ou now (host n))" using assms(1) by (simp add: lock_daemon_def Unmount_def WipeHistory_def Let_def)
  moreover have "file_body (dfs (lock_daemon ou now (host n))) = Map.empty"
    by (intro ext) (simp add: file_body_def Wipe_view)
  ultimately show ?thesis using assms by (simp add: startGrace_def Let_def run_cb_def serve_config_def)
qed

text \<open>
  A resumed daemon comes back locked and as itself: started with a key file that is there, it
  keeps the pair of that file, serves no mount and holds no file.
\<close>

theorem resumed_starts_locked:
  assumes "serve_ws k x cfg m s = (s1, m1, Inr st)" and "g_ResumeKeyFile cfg \<noteq> []" and "m_key m = Some b" and "b \<noteq> []"
  shows "Priv (v1cfg (link (st_ep st))) = b \<and> m_key m1 = Some b \<and> \<not> mounted (host (nd (st_ep st))) \<and>
    file_body (dfs (host (nd (st_ep st)))) = Map.empty"
proof -
  have r: "resuming cfg m" using assms(2-4) by (simp add: resuming_def)
  from assms(1) obtain pair m2 key m3 vaults where p: "start_pair (k_cr k) x cfg m = Some (pair, m2)"
    and q: "start_static (k_cr k) x cfg m2 = Some (key, m1)"
    and d: "(if g_JoinKey cfg \<noteq> [] then serve_join else serve_dial) k x cfg m pair key vaults s = (s1, Inr st)"
    by (auto simp: serve_ws_def split: option.splits sum.splits prod.splits)
  have pair: "Priv pair = b" "m_key m1 = Some b"
    using p q assms(2,3) by (auto simp: start_pair_def LoadOrGenerate_def start_static_def split: if_splits)
  obtain i joined where ep: "st_ep st = start_endpoint k x cfg m pair key i joined (Keys vaults)"
    using d by (auto simp: serve_join_def serve_dial_def Let_def split: if_splits sum.splits option.splits prod.splits)
  let ?n = "serve_node (start_daemon x cfg m) (g_GraceSeconds cfg)"
  have n: "\<not> mounted (host ?n)" "file_body (dfs (host ?n)) = Map.empty" "fs_inv (dfs (host ?n))"
    using r by (simp_all add: serve_node_def new_node_def start_fs New_empty fs_inv_New)
  have "nd (st_ep st) = ?n \<or> nd (st_ep st) = startGrace (serve_config (k_ou k) (x_now x)) (x_now x) ?n"
    by (simp add: ep start_endpoint_def attach_def ArmGrace_def Let_def)
  then have "\<not> mounted (host (nd (st_ep st))) \<and> file_body (dfs (host (nd (st_ep st)))) = Map.empty"
    using n startGrace_locked [OF n, of "k_ou k" "x_now x"] by auto
  then show ?thesis using pair by (simp add: ep start_endpoint_simps NewDual_def)
qed


section \<open>An example\<close>

definition demo_config :: config where
  "demo_config = (flagged (\<lambda>_. []) None [])\<lparr>g_SignalingURL := site_url demo_site\<rparr>"

definition demo_draw :: start_draw where
  "demo_draw = \<lparr>x_now = 9, x_repo = ''r'', x_backend = ''fuse'', x_priv = ''d'', x_static = Some \<lparr>Private = ''d'', Public = ''D''\<rparr>,
     x_claim = ''q'', x_rid = ''i'', x_rtok = ''t'', x_conn = 1\<rparr>"

definition demo_start :: "machine \<Rightarrow> config \<Rightarrow> site \<times> machine \<times> (start_error + (demo_hs, nat) started)" where
  "demo_start m cfg = serve_ws demo_outer demo_draw cfg m demo_site"

lemma demo_cfg: "g_JoinKey demo_config = []" "g_SignalingURL demo_config = site_url demo_site" "g_InsecureSignaling demo_config = False"
  "g_ResumeKeyFile demo_config = []"
  by (simp_all add: demo_config_def flagged_def flag_string_def flag_bool_def flag_last_def defaultEnv_def defaultEnvBool_def)

lemma demo_k: "k_net demo_outer = demo_net" "k_sha demo_outer = (\<lambda>x. x)" "k_insecure demo_outer = False" "k_cr demo_outer = demo_crypto"
  by (simp_all add: demo_outer_def)

lemma demo_serve_dial:
  assumes "g_SignalingURL cfg = site_url demo_site" "g_InsecureSignaling cfg = False"
  shows "\<exists>s1 st. serve_dial demo_outer demo_draw cfg m pair key vaults demo_site = (s1, Inr st)"
proof -
  have pub: "utf8_valid (key_PubB64 pair)" "utf8_valid (PubB64 (Public key))" "utf8_valid (NewClaimSecret ''q'')" "''t'' \<noteq> []" "''v'' \<noteq> []" "(2::nat) \<noteq> 1"
    by (simp_all add: key_PubB64_def PubB64_def NewClaimSecret_def utf8_valid_ascii [OF ascii_std_encode [unfolded ascii_def]] rawurl_valid)
  obtain s1 r where d: "DialDaemon demo_net (\<lambda>x. x) False ''i'' ''t'' 1 (site_url demo_site) (key_PubB64 pair) (PubB64 (Public key)) (NewClaimSecret ''q'') demo_site = (s1, r)"
    by (rule prod.exhaust)
  from dialled [OF demo_net_laws demo_site_ok pub d, of "[]"] have "r = Inr \<lparr>c_num = 1, c_sid = randomHex ''i'', c_token = randomHex ''t''\<rparr>" by blast
  then show ?thesis using d assms by (simp add: serve_dial_def demo_k demo_draw_def Let_def)
qed

lemma demo_started:
  assumes "g_JoinKey cfg = []" "g_SignalingURL cfg = site_url demo_site" "g_InsecureSignaling cfg = False"
    and "start_pair demo_crypto demo_draw cfg m = Some pm" and "start_static demo_crypto demo_draw cfg (snd pm) = Some km" "m_vaults (snd km) = None"
  shows "\<exists>s1 m1 st. demo_start m cfg = (s1, m1, Inr st)"
proof -
  obtain pair m1 key m2 where pk: "pm = (pair, m1)" "km = (key, m2)" by (cases pm; cases km)
  have v: "OpenAuthorizedVaults True (m_vaults m2) = Inr \<lparr>entries = [], vfile = None\<rparr>" using assms(6) pk by (simp add: OpenAuthorizedVaults_def)
  obtain s1 st where "serve_dial demo_outer demo_draw cfg m pair key \<lparr>entries = [], vfile = None\<rparr> demo_site = (s1, Inr st)"
    using demo_serve_dial [OF assms(2,3)] by blast
  then show ?thesis using assms(1,4,5) v pk by (simp add: demo_start_def serve_ws_def demo_k)
qed


theorem resumed_starts_locked_witness:
  "\<exists>s1 m1 st. demo_start \<lparr>m_key = Some (replicate 32 (CHR ''k'')), m_noise = None, m_vaults = None\<rparr> (demo_config\<lparr>g_ResumeKeyFile := ''/k''\<rparr>) = (s1, m1, Inr st) \<and>
     Priv (v1cfg (link (st_ep st))) = replicate 32 (CHR ''k'') \<and> \<not> mounted (host (nd (st_ep st)))"
proof -
  let ?b = "replicate 32 (CHR ''k'')" and ?cfg = "demo_config\<lparr>g_ResumeKeyFile := ''/k''\<rparr>"
  let ?m = "\<lparr>m_key = Some ?b, m_noise = None, m_vaults = None\<rparr>"
  have c: "g_JoinKey ?cfg = []" "g_SignalingURL ?cfg = site_url demo_site" "g_InsecureSignaling ?cfg = False" using demo_cfg by simp_all
  obtain pair where p: "start_pair demo_crypto demo_draw ?cfg ?m = Some (pair, ?m)"
    by (simp add: start_pair_def LoadOrGenerate_def demo_crypto_def)
  have q: "start_static demo_crypto demo_draw ?cfg (snd (pair, ?m)) = Some (\<lparr>Private = ''d'', Public = ''D''\<rparr>, ?m\<lparr>m_noise := Some ''d''\<rparr>)"
    by (simp add: start_static_def demo_draw_def LoadOrGenerateStatic_def)
  obtain s1 m1 st where s: "demo_start ?m ?cfg = (s1, m1, Inr st)" using demo_started [OF c p q] by auto
  have h: "g_ResumeKeyFile ?cfg \<noteq> []" "m_key ?m = Some ?b" "?b \<noteq> []" by simp_all
  from resumed_starts_locked [OF s [unfolded demo_start_def] h] s show ?thesis by auto
qed


end
