(* ===== verification/Exec.thy ===== *)
theory Exec
  imports Cli AuthVaults Vault
begin

text \<open>
  \<open>valetfs exec\<close> of \<open>cmd/valetfs/exec.go\<close>: the arguments, dotenv files, and the run of a child
  process with secrets in its environment. The temporary directory is a map from paths to
  contents that the child may change; which directories exist, what \<open>MkdirTemp\<close> returns and
  how the child ends are arguments. \<open>wiped\<close> is history: what a materialised file held when it
  was unlinked.
\<close>

section \<open>Arguments\<close>

datatype execKind = execKindEnvFile | execKindValue | execKindFile

record execBinding =
  bkind :: execKind
  bname :: string
  bpath :: string

datatype exec_error =
    NoSeparator | NoCommand | NeedsValue string | BadName string string | UnknownOption string | NoVaultPath string | NoBinding | ExecHelp
  | Request cli_error | BadEnvLine string nat | BadEnvName string nat | NoVariables string | NoTempDir | WriteFailed
  | StartFailed | WaitFailed

definition env_letter :: "char \<Rightarrow> bool" where
  "env_letter c \<longleftrightarrow> ord c \<in> {97..122} \<or> ord c \<in> {65..90} \<or> c = CHR ''_''"

definition validEnvName :: "string \<Rightarrow> bool" where
  "validEnvName s \<longleftrightarrow> s \<noteq> [] \<and> env_letter (hd s) \<and> list_all (\<lambda>c. env_letter c \<or> is_digit c) s"

definition cut_eq :: "string \<Rightarrow> (string \<times> string) option" where
  "cut_eq s = (let k = takeWhile (\<lambda>c. c \<noteq> CHR ''='') s in if k = s then None else Some (k, drop (Suc (length k)) s))"

definition split_flag :: "string \<Rightarrow> string \<times> string option" where
  "split_flag a =
     (if has_prefix a ''-'' then (case cut_eq a of Some (n, v) \<Rightarrow> (n, Some v) | None \<Rightarrow> (a, None)) else (a, None))"

definition named_binding :: "string \<Rightarrow> string \<Rightarrow> exec_error + execBinding" where
  "named_binding flag v =
     (let (name, p) = (case cut_eq v of Some (n, p) \<Rightarrow> if n = [] then (v, []) else (n, p) | None \<Rightarrow> (v, []))
      in if \<not> validEnvName name then Inl (BadName flag name)
         else Inr \<lparr>bkind = (if flag = ''--as-file'' then execKindFile else execKindValue), bname = name, bpath = p\<rparr>)"

definition env_binding :: "string \<Rightarrow> execBinding" where
  "env_binding p = \<lparr>bkind = execKindEnvFile, bname = [], bpath = p\<rparr>"

text \<open>\<open>take\<close>: a flag's value from \<open>--flag=value\<close> or the following token, and the tokens left.\<close>

definition take_value :: "string \<Rightarrow> string option \<Rightarrow> string list \<Rightarrow> exec_error + string \<times> string list" where
  "take_value flag inline opts =
     (case inline of
        Some v \<Rightarrow> Inr (v, opts)
      | None \<Rightarrow> (case opts of [] \<Rightarrow> Inl (NeedsValue flag) | v # rest \<Rightarrow> Inr (v, rest)))"

datatype opt_step = KeepNL | Bind execBinding | Positional string

definition scan_one :: "string \<Rightarrow> string list \<Rightarrow> exec_error + opt_step \<times> string list" where
  "scan_one a opts =
     (let (flag, inline) = split_flag a
      in if flag = ''-h'' \<or> flag = ''--help'' then Inl ExecHelp
         else if flag = ''--keep-newline'' then Inr (KeepNL, opts)
         else if flag = ''--env'' then map_sum id (apfst (\<lambda>v. Bind (env_binding v))) (take_value flag inline opts)
         else if flag = ''--as'' \<or> flag = ''--as-file'' then
           (case take_value flag inline opts of
              Inl e \<Rightarrow> Inl e
            | Inr (v, rest) \<Rightarrow> map_sum id (\<lambda>b. (Bind b, rest)) (named_binding flag v))
         else if has_prefix a ''-'' \<and> a \<noteq> ''-'' then Inl (UnknownOption a)
         else Inr (Positional a, opts))"

lemma take_value_shorter: "take_value flag inline opts = Inr (v, rest) \<Longrightarrow> length rest \<le> length opts"
  by (auto simp: take_value_def split: option.splits list.splits)

lemma scan_one_shorter: "scan_one a opts = Inr (st, rest) \<Longrightarrow> length rest \<le> length opts"
  unfolding scan_one_def Let_def case_prod_unfold
  by (auto dest: take_value_shorter split: if_splits sum.splits simp: map_sum_def)

function scan_opts :: "string list \<Rightarrow> execBinding list \<Rightarrow> string list \<Rightarrow> bool \<Rightarrow> exec_error + execBinding list \<times> string list \<times> bool" where
  "scan_opts [] bs pos keep = Inr (bs, pos, keep)"
| "scan_opts (a # opts) bs pos keep =
     (case scan_one a opts of
        Inl e \<Rightarrow> Inl e
      | Inr (KeepNL, rest) \<Rightarrow> scan_opts rest bs pos True
      | Inr (Bind b, rest) \<Rightarrow> scan_opts rest (bs @ [b]) pos keep
      | Inr (Positional p, rest) \<Rightarrow> scan_opts rest bs (pos @ [p]) keep)"
  by pat_completeness auto
termination
  by (relation "measure (\<lambda>(opts, _). length opts)") (auto dest: scan_one_shorter)

fun bind_paths :: "execBinding list \<Rightarrow> string list \<Rightarrow> exec_error + execBinding list \<times> string list" where
  "bind_paths [] pos = Inr ([], pos)"
| "bind_paths (b # bs) pos =
     (if bpath b \<noteq> [] then map_sum id (apfst (Cons b)) (bind_paths bs pos)
      else (case pos of
              [] \<Rightarrow> Inl (NoVaultPath (bname b))
            | p # pos' \<Rightarrow> map_sum id (apfst (Cons (b\<lparr>bpath := p\<rparr>))) (bind_paths bs pos')))"

definition parseExecArgs :: "string list \<Rightarrow> exec_error + execBinding list \<times> string list \<times> bool" where
  "parseExecArgs args =
     (let opts = takeWhile (\<lambda>a. a \<noteq> ''--'') args; argv = drop (Suc (length opts)) args
      in if opts = args then Inl NoSeparator
         else if argv = [] then Inl NoCommand
         else (case scan_opts opts [] [] False of
                 Inl e \<Rightarrow> Inl e
               | Inr (bs, pos, keep) \<Rightarrow>
                   (case bind_paths bs pos of
                      Inl e \<Rightarrow> Inl e
                    | Inr (bs', left) \<Rightarrow>
                        if bs' @ map env_binding left = [] then Inl NoBinding
                        else Inr (bs' @ map env_binding left, argv, keep))))"

section \<open>Secrets as text\<close>

definition trimSecretNewline :: "bytes \<Rightarrow> bool \<Rightarrow> string" where
  "trimSecretNewline b keep = (if keep then b else trim_suffix (trim_suffix b [CHR 0x0A]) [CHR 0x0D])"

fun replace_crlf :: "bytes \<Rightarrow> bytes" where
  "replace_crlf (a # b # s) =
     (if a = CHR 0x0D \<and> b = CHR 0x0A then CHR 0x0A # replace_crlf s else a # replace_crlf (b # s))"
| "replace_crlf s = s"

fun unescapeDoubleQuoted :: "string \<Rightarrow> string" where
  "unescapeDoubleQuoted [] = []"
| "unescapeDoubleQuoted [c] = [c]"
| "unescapeDoubleQuoted (c # d # s) =
     (if c \<noteq> CHR 0x5C then c # unescapeDoubleQuoted (d # s)
      else (if d = CHR ''n'' then [CHR 0x0A] else if d = CHR ''r'' then [CHR 0x0D] else if d = CHR ''t'' then [CHR 0x09]
            else if d = CHR 0x5C \<or> d = CHR 0x22 then [d] else [CHR 0x5C, d]) @ unescapeDoubleQuoted s)"

definition quoted_by :: "char \<Rightarrow> string \<Rightarrow> bool" where
  "quoted_by q v \<longleftrightarrow> length v \<ge> 2 \<and> hd v = q \<and> last v = q"

definition env_value :: "string \<Rightarrow> string" where
  "env_value v =
     (if quoted_by CHR 0x27 v then butlast (tl v)
      else if quoted_by CHR 0x22 v then unescapeDoubleQuoted (butlast (tl v))
      else rev (dropWhile (\<lambda>c. c = CHR '' '' \<or> c = CHR 0x09) (rev v)))"

text \<open>One line: nothing, a variable, or an error.\<close>

definition env_line :: "string \<Rightarrow> nat \<Rightarrow> string \<Rightarrow> exec_error + string option" where
  "env_line file i line =
     (let t0 = trim_space line
      in if t0 = [] \<or> has_prefix t0 ''#'' then Inr None
         else let t = trim_space (trim_prefix t0 ''export '')
              in (case cut_eq t of
                    None \<Rightarrow> Inl (BadEnvLine file i)
                  | Some (k, v) \<Rightarrow>
                      let key = trim_space k
                      in if \<not> validEnvName key then Inl (BadEnvName file i) else Inr (Some (key @ ''='' @ env_value v))))"

fun env_lines :: "string \<Rightarrow> nat \<Rightarrow> string list \<Rightarrow> exec_error + string list" where
  "env_lines file i [] = Inr []"
| "env_lines file i (l # ls) =
     (case env_line file i l of
        Inl e \<Rightarrow> Inl e
      | Inr v \<Rightarrow> map_sum id (append (case v of None \<Rightarrow> [] | Some x \<Rightarrow> [x])) (env_lines file (Suc i) ls))"

definition parseEnvFile :: "string \<Rightarrow> bytes \<Rightarrow> exec_error + string list" where
  "parseEnvFile file b = env_lines file 1 (split_on (CHR 0x0A) (replace_crlf b))"

section \<open>Running the child\<close>

record exec_world =
  xdg :: string
  dir_exists :: "string \<Rightarrow> bool"
  mkdtemp :: "string \<Rightarrow> string option"
  environ :: "string list"

definition privateTempDir :: "exec_world \<Rightarrow> (string \<times> bool) option" where
  "privateTempDir w =
     (case List.map_filter (\<lambda>p. if p = [] \<or> \<not> dir_exists w p then None else mkdtemp w p) [xdg w, ''/dev/shm''] of
        d # _ \<Rightarrow> Some (d, False)
      | [] \<Rightarrow> map_option (\<lambda>d. (d, True)) (mkdtemp w []))"

record exec_state =
  tmpDir :: "string option"
  tmpFiles :: "string list"
  xfiles :: "(string, bytes) gomap"
  wiped :: "bytes list"

definition fetchVaultFile :: "api \<Rightarrow> string \<Rightarrow> ('h, bytes) act" where
  "fetchVaultFile a p =
     andThen (fsPathIsDirWithErr a p)
       (\<lambda>isD. if isD then fail (IsDirectory p) else apiReq a ''GET'' ''/files'' [(''path'', p)] [])"

text \<open>\<open>--as-file\<close>: the file's place in its own subdirectory; \<open>O_EXCL\<close> fails where a file exists.\<close>

definition materialise :: "exec_world \<Rightarrow> string \<Rightarrow> bytes \<Rightarrow> exec_state \<Rightarrow> exec_state \<times> (exec_error + string)" where
  "materialise w p b x =
     (case (case tmpDir x of Some d \<Rightarrow> Some d | None \<Rightarrow> map_option fst (privateTempDir w)) of
        None \<Rightarrow> (x, Inl NoTempDir)
      | Some d \<Rightarrow>
          let dst = path_join [path_join [d, itoa (int (length (tmpFiles x)))], path_base p]; x1 = x\<lparr>tmpDir := Some d\<rparr>
          in if map_of (xfiles x) dst \<noteq> None then (x1, Inl WriteFailed)
             else (x1\<lparr>xfiles := AList.update dst b (xfiles x), tmpFiles := tmpFiles x @ [dst]\<rparr>, Inr dst))"

definition bind_one ::
  "'h host_os \<Rightarrow> api \<Rightarrow> exec_world \<Rightarrow> bool \<Rightarrow> execBinding \<Rightarrow> 'h cli \<times> exec_state \<Rightarrow> ('h cli \<times> exec_state) \<times> (exec_error + string list)" where
  "bind_one os a w keep b sx =
     (let (s, x) = sx
      in if isHostPath (bpath b)
         then ((s, x), Inl (Request (HostPath ''exec'' (bpath b) (looksLikeVaultPath os (chost s) (bpath b)))))
         else let p = toFSPathArg (bpath b)
              in (case fetchVaultFile a p s of
                    (s1, Inl e) \<Rightarrow> ((s1, x), Inl (Request e))
                  | (s1, Inr data) \<Rightarrow>
                      (case bkind b of
                         execKindEnvFile \<Rightarrow>
                           ((s1, x), case parseEnvFile (bpath b) data of
                              Inl e \<Rightarrow> Inl e
                            | Inr vars \<Rightarrow> if vars = [] then Inl (NoVariables (bpath b)) else Inr vars)
                       | execKindValue \<Rightarrow> ((s1, x), Inr [bname b @ ''='' @ trimSecretNewline data keep])
                       | execKindFile \<Rightarrow>
                           (case materialise w p data x of
                              (x1, r) \<Rightarrow> ((s1, x1), map_sum id (\<lambda>dst. [bname b @ ''='' @ dst]) r)))))"

fun bind_all ::
  "'h host_os \<Rightarrow> api \<Rightarrow> exec_world \<Rightarrow> bool \<Rightarrow> execBinding list \<Rightarrow> 'h cli \<times> exec_state \<Rightarrow> ('h cli \<times> exec_state) \<times> (exec_error + string list)" where
  "bind_all os a w keep [] sx = (sx, Inr [])"
| "bind_all os a w keep (b # bs) sx =
     (case bind_one os a w keep b sx of
        (sx1, Inl e) \<Rightarrow> (sx1, Inl e)
      | (sx1, Inr vs) \<Rightarrow> (case bind_all os a w keep bs sx1 of (sx2, r) \<Rightarrow> (sx2, map_sum id (append vs) r)))"

text \<open>The zero bytes \<open>wipeFile\<close> writes over a file of \<open>left\<close> bytes, in blocks of 4096.\<close>

function wipe_blocks :: "nat \<Rightarrow> bytes list" where
  "wipe_blocks left = (if left = 0 then [] else let n = min 4096 left in zeros n # wipe_blocks (left - n))"
  by pat_completeness auto
termination
  by (relation "measure id") auto

declare wipe_blocks.simps [simp del]

definition wipeFile :: "string \<Rightarrow> exec_state \<Rightarrow> exec_state" where
  "wipeFile p x =
     (case map_of (xfiles x) p of
        None \<Rightarrow> x
      | Some b \<Rightarrow> x\<lparr>xfiles := AList.delete p (xfiles x), wiped := wiped x @ [concat (wipe_blocks (length b))]\<rparr>)"

definition cleanup :: "exec_state \<Rightarrow> exec_state" where
  "cleanup x =
     (let x1 = fold wipeFile (tmpFiles x) x
      in case tmpDir x of None \<Rightarrow> x1 | Some d \<Rightarrow> x1\<lparr>xfiles := filter (\<lambda>kv. \<not> has_prefix (fst kv) (d @ ''/'')) (xfiles x1)\<rparr>)"

datatype child_end = NotStarted | Exited int | Signalled int | Lost

text \<open>The exit status \<open>runExec\<close> ends with; an error is reported by the caller.\<close>

fun exit_status :: "child_end \<Rightarrow> exec_error + int" where
  "exit_status NotStarted = Inl StartFailed"
| "exit_status (Exited c) = Inr c"
| "exit_status (Signalled n) = Inr (128 + n)"
| "exit_status Lost = Inl WaitFailed"

definition no_files :: exec_state where
  "no_files = \<lparr>tmpDir = None, tmpFiles = [], xfiles = [], wiped = []\<rparr>"

text \<open>
  \<open>runExec\<close>: \<open>child\<close> is what the process does with its environment, its arguments and the
  temporary files; the second component of the result is what it was started with.
\<close>

definition runExec ::
  "'h host_os \<Rightarrow> api \<Rightarrow> exec_world \<Rightarrow> (string list \<Rightarrow> string list \<Rightarrow> (string, bytes) gomap \<Rightarrow> child_end \<times> (string, bytes) gomap) \<Rightarrow>
   string list \<Rightarrow> 'h cli \<Rightarrow> 'h cli \<times> exec_state \<times> (string list \<times> string list) option \<times> (exec_error + int)" where
  "runExec os a w child args s =
     (case parseExecArgs args of
        Inl e \<Rightarrow> (s, no_files, None, if e = ExecHelp then Inr 0 else Inl e)
      | Inr (bs, argv, keep) \<Rightarrow>
          (case bind_all os a w keep bs (s, no_files) of
             ((s1, x), Inl e) \<Rightarrow> (s1, cleanup x, None, Inl e)
           | ((s1, x), Inr vars) \<Rightarrow>
               (case child (environ w @ vars) argv (xfiles x) of
                  (r, fs) \<Rightarrow> (s1, cleanup (x\<lparr>xfiles := fs\<rparr>), Some (environ w @ vars, argv), exit_status r))))"

section \<open>Dotenv files\<close>

text \<open>A rune is one ASCII byte, or all its bytes have the high bit set.\<close>

lemma runes_shape:
  "r \<in> set (runes s) \<Longrightarrow> (\<exists>a. ord a < 128 \<and> r = Rune [a]) \<or> (rune_raw r \<noteq> [] \<and> (\<forall>x \<in> set (rune_raw r). 128 \<le> ord x))"
proof (induction s rule: runes.induct)
  case (2 c s)
  let ?n = "rune_len (c # s)"
  have asc: "?n = 1" if "ord c < 128" using that by (rule rune_len_ascii)
  show ?case
  proof (cases "?n = 0")
    case True
    then have "128 \<le> ord c" using asc by fastforce
    then show ?thesis using 2(1,3) True by auto
  next
    case False
    then consider "r = Rune (take ?n (c # s))" | "r \<in> set (runes (drop ?n (c # s)))" using 2(3) by (auto simp: Let_def)
    then show ?thesis
    proof cases
      case 1
      show ?thesis
      proof (cases "ord c < 128")
        case True
        then show ?thesis using 1 asc by simp
      next
        case hi: False
        then show ?thesis using 1 rune_bytes_high [OF False] False by auto
      qed
    qed (use 2(2) False in auto)
  qed
qed simp

lemma runes_hd_ascii: "ord c < 128 \<Longrightarrow> runes (c # s) = Rune [c] # runes s"
  using rune_len_ascii [of c s] by simp

lemma runes_last_ascii:
  assumes "ord c < 128"
  shows "runes (s @ [c]) \<noteq> [] \<and> last (runes (s @ [c])) = Rune [c]"
proof -
  let ?rs = "runes (s @ [c])"
  have fl: "flat ?rs = s @ [c]" by (rule flat_runes)
  then have ne: "?rs \<noteq> []" by (auto simp: flat_def)
  have l: "last ?rs \<in> set ?rs" using ne by simp
  have raw: "rune_raw (last ?rs) \<noteq> []" using runes_shape [OF l] by auto
  have "flat ?rs = flat (butlast ?rs) @ rune_raw (last ?rs)"
    using append_butlast_last_id [OF ne] by (metis append_Nil2 concat.simps concat_append flat_def list.simps(8,9) map_append)
  then have "last (rune_raw (last ?rs)) = c" using fl raw by (metis last_appendR last_snoc)
  then show ?thesis using runes_shape [OF l] raw ne assms last_in_set [OF raw] by fastforce
qed

lemma trim_space_ends:
  assumes "ord c < 128" "\<not> ascii_space c" "ord d < 128" "\<not> ascii_space d"
  shows "trim_space (c # s @ [d]) = c # s @ [d]"
proof -
  have h: "hd (runes (c # s @ [d])) = Rune [c]" using runes_hd_ascii [OF assms(1)] by simp
  have l: "runes (c # s @ [d]) \<noteq> []" "last (runes (c # s @ [d])) = Rune [d]" using runes_last_ascii [OF assms(3), of "c # s"] by simp_all
  have "trim_runes (runes (c # s @ [d])) = runes (c # s @ [d])"
    by (rule trim_runes_id [OF l(1)]) (use h l(2) assms in \<open>simp_all only: is_space_rune1 not_False_eq_True simp_thms\<close>)
  then show ?thesis by (simp only: trim_space_def flat_runes)
qed

text \<open>The text the escapes are the inverse of.\<close>

definition env_esc :: "char \<Rightarrow> string" where
  "env_esc c = (if c = CHR 0x0A then [CHR 0x5C, CHR ''n''] else if c = CHR 0x0D then [CHR 0x5C, CHR ''r'']
     else if c = CHR 0x5C \<or> c = CHR 0x22 then [CHR 0x5C, c] else [c])"

definition env_entry :: "string \<times> string \<Rightarrow> string" where
  "env_entry kv = fst kv @ ''='' @ [CHR 0x22] @ concat (map env_esc (snd kv)) @ [CHR 0x22]"

definition env_text :: "(string \<times> string) list \<Rightarrow> bytes" where
  "env_text kvs = concat (map (\<lambda>kv. env_entry kv @ [CHR 0x0A]) kvs)"

lemma unescape_plain: "c \<noteq> CHR 0x5C \<Longrightarrow> unescapeDoubleQuoted (c # s) = c # unescapeDoubleQuoted s"
  by (cases s) simp_all

lemma unescape_esc: "unescapeDoubleQuoted (concat (map env_esc v)) = v"
proof (induction v)
  case (Cons c v)
  consider "c = CHR 0x0A" | "c = CHR 0x0D" | "c = CHR 0x5C" | "c = CHR 0x22" | "env_esc c = [c]" "c \<noteq> CHR 0x5C"
    unfolding env_esc_def by fastforce
  then show ?case using Cons by cases (simp_all add: env_esc_def unescape_plain)
qed simp

lemma esc_clean: "x \<in> set (concat (map env_esc v)) \<Longrightarrow> x \<noteq> CHR 0x0A \<and> x \<noteq> CHR 0x0D"
  by (auto simp: env_esc_def split: if_splits)

lemma replace_crlf_id: "CHR 0x0D \<notin> set s \<Longrightarrow> replace_crlf s = s"
  by (induction s rule: replace_crlf.induct) auto

lemma env_name_chars:
  assumes "validEnvName k" and "c \<in> set k"
  shows "ord c < 128" "\<not> ascii_space c" "c \<noteq> CHR ''=''" "c \<noteq> CHR 0x0A" "c \<noteq> CHR 0x0D" "c \<noteq> CHR '' ''" "c \<noteq> CHR ''#''"
  using assms by (auto simp: validEnvName_def list_all_iff env_letter_def is_digit_def ascii_space_def)

lemma cut_eq_append: "CHR ''='' \<notin> set k \<Longrightarrow> cut_eq (k @ CHR ''='' # v) = Some (k, v)"
proof -
  assume "CHR ''='' \<notin> set k"
  then have "takeWhile (\<lambda>c. c \<noteq> CHR ''='') (k @ CHR ''='' # v) = k" by (subst takeWhile_append2) auto
  then show ?thesis by (simp add: cut_eq_def)
qed

lemma no_eq_prefix: "has_prefix (k @ CHR ''='' # v) p \<Longrightarrow> CHR ''='' \<notin> set p \<Longrightarrow> has_prefix k p"
  by (induction k arbitrary: p) (auto simp: prefix_Cons split: list.splits)

lemma env_line_entry:
  assumes "validEnvName k"
  shows "env_line file i (env_entry (k, v)) = Inr (Some (k @ ''='' @ v))"
proof -
  let ?q = "CHR 0x22 # concat (map env_esc v) @ [CHR 0x22]"
  have e: "env_entry (k, v) = k @ CHR ''='' # ?q" by (simp add: env_entry_def)
  note ch = env_name_chars [OF assms]
  obtain c k' where k: "k = c # k'" using assms by (cases k) (simp_all add: validEnvName_def)
  have q: "ord (CHR 0x22) < 128" "\<not> ascii_space (CHR 0x22)" by (simp_all add: ascii_space_def)
  have cc: "ord c < 128" "\<not> ascii_space c" using ch(1,2) [of c] k by simp_all
  have t: "trim_space (env_entry (k, v)) = env_entry (k, v)"
    using trim_space_ends [OF cc q, of "k' @ CHR ''='' # CHR 0x22 # concat (map env_esc v)"] by (simp add: env_entry_def k)
  have "\<not> has_prefix (env_entry (k, v)) ''#''" using ch(7) [of c] by (simp add: env_entry_def k)
  moreover have "\<not> has_prefix (env_entry (k, v)) ''export ''"
  proof
    assume "has_prefix (env_entry (k, v)) ''export ''"
    then have "has_prefix k ''export ''" unfolding e by (rule no_eq_prefix) simp
    then have "CHR '' '' \<in> set k" by (auto elim!: prefixE)
    then show False using ch(6) by blast
  qed
  moreover have "cut_eq (env_entry (k, v)) = Some (k, ?q)" unfolding e using ch(3) by (intro cut_eq_append) blast
  moreover have "trim_space k = k"
  proof (rule AuthVaults.trim_space_id)
    show "ascii k" using ch(1) by (auto simp: ascii_def list_all_iff)
    show "k \<noteq> []" "\<not> ascii_space (hd k)" "\<not> ascii_space (last k)" using k ch(2) [of "hd k"] ch(2) [of "last k"] by simp_all
  qed
  moreover have "env_value ?q = v" by (simp add: env_value_def quoted_by_def unescape_esc butlast_append)
  moreover have "env_entry (k, v) \<noteq> []" by (simp add: env_entry_def)
  ultimately show ?thesis using assms by (simp add: env_line_def t trim_prefix_def)
qed

lemma env_lines_entries:
  "(\<And>k v. (k, v) \<in> set kvs \<Longrightarrow> validEnvName k) \<Longrightarrow>
     env_lines file i (map env_entry kvs @ [[]]) = Inr (map (\<lambda>(k, v). k @ ''='' @ v) kvs)"
proof (induction kvs arbitrary: i)
  case Nil
  have "trim_space [] = []" by (simp add: trim_space_def trim_runes_def flat_def)
  then show ?case by (simp add: env_line_def)
next
  case (Cons kv kvs)
  obtain k v where kv: "kv = (k, v)" by (rule prod.exhaust)
  have "env_line file i (env_entry kv) = Inr (Some (k @ ''='' @ v))" using env_line_entry [OF Cons.prems [of k v]] kv by simp
  moreover have "env_lines file (Suc i) (map env_entry kvs @ [[]]) = Inr (map (\<lambda>(k, v). k @ ''='' @ v) kvs)"
    by (rule Cons.IH) (use Cons.prems in auto)
  ultimately show ?case using kv by simp
qed

text \<open>
  A dotenv file gives back any values: writing each variable as \<open>NAME="value"\<close> with backslash
  escapes and reading the file with \<open>parseEnvFile\<close> yields exactly the variables, in order,
  whatever bytes the values hold: quotes, spaces, \<open>#\<close>, line breaks or bytes that are no UTF-8.
\<close>

theorem env_file_roundtrip:
  assumes "\<forall>kv \<in> set kvs. validEnvName (fst kv)"
  shows "parseEnvFile file (env_text kvs) = Inr (map (\<lambda>(k, v). k @ ''='' @ v) kvs)"
proof -
  have names: "\<And>k v. (k, v) \<in> set kvs \<Longrightarrow> validEnvName k" using assms by auto
  have clean: "x \<noteq> CHR 0x0A \<and> x \<noteq> CHR 0x0D" if "kv \<in> set kvs" "x \<in> set (env_entry kv)" for kv x
    using that esc_clean [of x "snd kv"] env_name_chars(4,5) [of "fst kv" x] assms unfolding env_entry_def by fastforce
  then have "CHR 0x0D \<notin> set (env_text kvs)" by (auto simp: env_text_def)
  then have r: "replace_crlf (env_text kvs) = env_text kvs" by (rule replace_crlf_id)
  have "split_on (CHR 0x0A) (concat (map (\<lambda>l. l @ [CHR 0x0A]) ls)) = ls @ [[]]" if "\<forall>l \<in> set ls. CHR 0x0A \<notin> set l" for ls
    using that by (induction ls) (simp_all add: split_on_append)
  from this [of "map env_entry kvs"] have "split_on (CHR 0x0A) (env_text kvs) = map env_entry kvs @ [[]]"
    using clean by (fastforce simp: env_text_def comp_def)
  then show ?thesis using r env_lines_entries [OF names] by (simp add: parseEnvFile_def)
qed

definition demo_secret :: string where
  "demo_secret = ''a '' @ [CHR 0x22, CHR 0x5C, CHR 0x0A, CHR 0xFF] @ '' #1''"

theorem env_file_roundtrip_witness:
  "parseEnvFile ''f'' (env_text [(''DB_PASS'', demo_secret), (''X9'', [])]) = Inr [''DB_PASS='' @ demo_secret, ''X9='']"
proof -
  have "\<forall>kv \<in> set [(''DB_PASS'', demo_secret), (''X9'', [])]. validEnvName (fst kv)"
    by (simp add: validEnvName_def env_letter_def is_digit_def)
  from env_file_roundtrip [OF this] show ?thesis by simp
qed

section \<open>What a run leaves and what the child gets\<close>

lemma wipe_blocks_zero: "all_zero (concat (wipe_blocks n)) \<and> length (concat (wipe_blocks n)) = n"
proof (induction n rule: wipe_blocks.induct)
  case (1 n)
  then show ?case by (subst (1 2) wipe_blocks.simps) (auto simp: Let_def all_zero_def list_all_iff zeros_def)
qed

lemma wipe_one:
  "map_of (xfiles (wipeFile q x)) p = (if p = q then None else map_of (xfiles x) p)" "tmpFiles (wipeFile q x) = tmpFiles x"
  "tmpDir (wipeFile q x) = tmpDir x" "list_all all_zero (wiped x) \<Longrightarrow> list_all all_zero (wiped (wipeFile q x))"
  using wipe_blocks_zero by (auto simp: wipeFile_def split: option.split)

lemma fold_wipe:
  "map_of (xfiles (fold wipeFile ps x)) p = (if p \<in> set ps then None else map_of (xfiles x) p)"
  "tmpFiles (fold wipeFile ps x) = tmpFiles x" "tmpDir (fold wipeFile ps x) = tmpDir x"
  "list_all all_zero (wiped x) \<Longrightarrow> list_all all_zero (wiped (fold wipeFile ps x))"
  by (induction ps arbitrary: x) (simp_all add: wipe_one)

lemma map_of_filter_None: "map_of m p = None \<Longrightarrow> map_of (filter P m) p = None"
  by (induction m) auto

lemma cleanup_clean:
  assumes "list_all all_zero (wiped x)"
  shows "p \<in> set (tmpFiles x) \<Longrightarrow> map_of (xfiles (cleanup x)) p = None" and "tmpFiles (cleanup x) = tmpFiles x"
    and "list_all all_zero (wiped (cleanup x))"
    and "tmpDir x = Some d \<Longrightarrow> has_prefix p (d @ ''/'') \<Longrightarrow> map_of (xfiles (cleanup x)) p = None"
    and "tmpDir (cleanup x) = tmpDir x"
proof -
  have none: "map_of (xfiles (fold wipeFile (tmpFiles x) x)) p = None" if "p \<in> set (tmpFiles x)" using that by (simp add: fold_wipe)
  then show "p \<in> set (tmpFiles x) \<Longrightarrow> map_of (xfiles (cleanup x)) p = None"
    by (auto simp: cleanup_def Let_def map_of_filter_None split: option.split)
  show "tmpFiles (cleanup x) = tmpFiles x" "list_all all_zero (wiped (cleanup x))" "tmpDir (cleanup x) = tmpDir x"
    using assms by (auto simp: cleanup_def Let_def fold_wipe split: option.split)
  have "map_of (filter (\<lambda>kv. \<not> has_prefix (fst kv) (d @ ''/'')) m) p = None" if "has_prefix p (d @ ''/'')" for m :: "(string, bytes) gomap"
    using that by (induction m) auto
  then show "map_of (xfiles (cleanup x)) p = None" if "tmpDir x = Some d" "has_prefix p (d @ ''/'')"
    using that by (simp add: cleanup_def Let_def)
qed

lemma bind_one_wiped: "wiped (snd (fst (bind_one os a w keep b sx))) = wiped (snd sx)"
  by (cases sx) (auto simp: bind_one_def materialise_def Let_def split: prod.split sum.split execKind.split option.split)

lemma bind_all_wiped: "wiped (snd (fst (bind_all os a w keep bs sx))) = wiped (snd sx)"
proof (induction bs arbitrary: sx)
  case (Cons b bs)
  obtain sx1 r where o: "bind_one os a w keep b sx = (sx1, r)" by (rule prod.exhaust)
  then have "wiped (snd sx1) = wiped (snd sx)" using bind_one_wiped [of os a w keep b sx] by simp
  then show ?case using o Cons [of sx1] by (auto split: sum.split prod.split)
qed simp


lemma apiReq_get_state: "fst (apiReq a ''GET'' ''/files'' q b s) = s"
  by (auto simp: apiReq_def control_api_def handleFiles_def Let_def split: prod.split)

lemma api_get_reads:
  assumes c: "connected a s" and g: "apiReq a ''GET'' ''/files'' [(''path'', p)] [] s = (s1, Inr b)"
  shows "s1 = s \<and> Read (cfs s) p = Inr b"
proof (cases "p = []")
  case True
  then show ?thesis
    using g c connected_auth [OF c, of "''GET''" "[(''path'', [])]" "[]"]
    by (simp add: apiReq_def control_api_def handleFiles_def qget_def connected_def reply_error_def reply_json_def)
next
  case False
  note r = files_route [OF c False, of "''GET''" "[]" "[]"]
  show ?thesis
  proof (cases "Read (cfs s) p")
    case (Inl e)
    then show ?thesis using g c r by (simp add: apiReq_def connected_def files_get_def qget_def reply_error_def reply_json_def)
  next
    case (Inr x)
    then show ?thesis using g api_read [OF c False Inr] by simp
  qed
qed

lemma fetch_reads:
  assumes "connected a s" and "fetchVaultFile a p s = (s1, r)"
  shows "s1 = s" and "r = Inr b \<Longrightarrow> Read (cfs s) p = Inr b"
proof -
  have d: "fst (fsPathIsDirWithErr a p s) = s"
    using apiReq_get_state [of a "[(''path'', p), (''meta'', ''1'')]" "[]" s]
    by (auto simp: fsPathIsDirWithErr_def andThen_def ret_def fail_def split: prod.splits sum.splits option.splits)
  obtain x where x: "fsPathIsDirWithErr a p s = (s, x)" using d by (metis prod.collapse)
  show "s1 = s"
    using assms(2) x apiReq_get_state [of a "[(''path'', p)]" "[]" s]
    by (auto simp: fetchVaultFile_def andThen_def fail_def split: sum.splits if_splits)
  show "Read (cfs s) p = Inr b" if "r = Inr b"
    using assms(2) x that api_get_reads [OF assms(1), of p s1 b]
    by (auto simp: fetchVaultFile_def andThen_def fail_def split: sum.splits if_splits)
qed

text \<open>What a binding gives the child: variables, and for a file its content at the named place.\<close>

definition binding_gives :: "memfs \<Rightarrow> bool \<Rightarrow> (string, bytes) gomap \<Rightarrow> execBinding \<Rightarrow> string list \<Rightarrow> bool" where
  "binding_gives m keep fs b vs \<longleftrightarrow>
     (\<exists>data. Read m (toFSPathArg (bpath b)) = Inr data \<and>
        (case bkind b of
           execKindEnvFile \<Rightarrow> parseEnvFile (bpath b) data = Inr vs \<and> vs \<noteq> []
         | execKindValue \<Rightarrow> vs = [bname b @ ''='' @ trimSecretNewline data keep]
         | execKindFile \<Rightarrow> (\<exists>dst. vs = [bname b @ ''='' @ dst] \<and> map_of fs dst = Some data)))"

lemma binding_gives_mono:
  "binding_gives m keep fs b vs \<Longrightarrow> map_of fs \<subseteq>\<^sub>m map_of fs' \<Longrightarrow> binding_gives m keep fs' b vs"
  unfolding binding_gives_def map_le_def by (force split: execKind.splits simp: dom_def)

lemma materialise_keeps:
  "materialise w p b x = (x1, r) \<Longrightarrow> map_of (xfiles x) \<subseteq>\<^sub>m map_of (xfiles x1)"
  "materialise w p b x = (x1, Inr dst) \<Longrightarrow> map_of (xfiles x1) dst = Some b"
  by (auto simp: materialise_def Let_def map_le_def split: option.splits if_splits)

lemma bind_one_gives:
  assumes c: "connected a s" and b: "bind_one os a w keep b (s, x) = ((s1, x1), r)"
  shows "s1 = s \<and> map_of (xfiles x) \<subseteq>\<^sub>m map_of (xfiles x1) \<and> (\<forall>vs. r = Inr vs \<longrightarrow> binding_gives (cfs s) keep (xfiles x1) b vs)"
proof -
  let ?p = "toFSPathArg (bpath b)"
  obtain s2 d where f: "fetchVaultFile a ?p s = (s2, d)" by (rule prod.exhaust)
  have s2: "s2 = s" "\<And>data. d = Inr data \<Longrightarrow> Read (cfs s) ?p = Inr data" using fetch_reads [OF c f] by blast+
  show ?thesis
  proof (cases "isHostPath (bpath b)")
    case True
    then show ?thesis using b by (auto simp: bind_one_def)
  next
    case False
    show ?thesis
    proof (cases d)
      case (Inl e)
      then show ?thesis using b f s2 False by (auto simp: bind_one_def)
    next
      case (Inr data)
      obtain y t where m: "materialise w ?p data x = (y, t)" by (rule prod.exhaust)
      note keeps = materialise_keeps(1) [OF m] and put = materialise_keeps(2) [of w ?p data x y]
      show ?thesis
        using b f s2 False Inr m keeps put
        by (cases "bkind b"; cases t) (auto simp: bind_one_def binding_gives_def split: sum.splits if_splits)
    qed
  qed
qed

lemma bind_all_gives:
  assumes c: "connected a s"
  shows "bind_all os a w keep bs (s, x) = ((s1, x1), r) \<Longrightarrow>
    s1 = s \<and> map_of (xfiles x) \<subseteq>\<^sub>m map_of (xfiles x1) \<and>
    (\<forall>vars. r = Inr vars \<longrightarrow> (\<exists>vss. vars = concat vss \<and> list_all2 (binding_gives (cfs s) keep (xfiles x1)) bs vss))"
proof (induction bs arbitrary: x r)
  case Nil
  then show ?case by (auto intro: exI [of _ "[]"])
next
  case (Cons b bs)
  obtain s2 x2 t where o: "bind_one os a w keep b (s, x) = ((s2, x2), t)" by (metis prod.collapse)
  note g = bind_one_gives [OF c o]
  show ?case
  proof (cases t)
    case (Inl e)
    then show ?thesis using Cons.prems o g by auto
  next
    case (Inr vs)
    obtain r2 where a2: "bind_all os a w keep bs (s, x2) = ((s1, x1), r2)" and r: "r = map_sum id (append vs) r2"
      using Cons.prems o Inr g by (auto split: prod.splits)
    note ih = Cons.IH [OF a2]
    have le: "map_of (xfiles x) \<subseteq>\<^sub>m map_of (xfiles x1)" using g ih by (meson map_le_trans)
    have "\<exists>vss. vars = concat vss \<and> list_all2 (binding_gives (cfs s) keep (xfiles x1)) (b # bs) vss" if v: "r = Inr vars" for vars
    proof -
      obtain vars2 where v2: "r2 = Inr vars2" "vars = vs @ vars2" using v r by (cases r2) auto
      then obtain vss where vss: "vars2 = concat vss" "list_all2 (binding_gives (cfs s) keep (xfiles x1)) bs vss" using ih by blast
      have "binding_gives (cfs s) keep (xfiles x1) b vs" using binding_gives_mono g ih Inr by blast
      then show ?thesis using v2 vss by (intro exI [of _ "vs # vss"]) simp
    qed
    then show ?thesis using ih le by blast
  qed
qed

lemma parseExecArgs_split:
  assumes "parseExecArgs args = Inr (bs, argv, keep)"
  obtains opts where "args = opts @ ''--'' # argv" and "''--'' \<notin> set opts" and "argv \<noteq> []" and "bs \<noteq> []"
proof -
  let ?o = "takeWhile (\<lambda>a. a \<noteq> ''--'') args"
  have ne: "?o \<noteq> args" and argv: "argv = drop (Suc (length ?o)) args" "argv \<noteq> []" "bs \<noteq> []"
    using assms by (auto simp: parseExecArgs_def Let_def split: if_splits sum.splits prod.splits)
  have d: "dropWhile (\<lambda>a. a \<noteq> ''--'') args \<noteq> []" using ne by (metis append_Nil2 takeWhile_dropWhile_id)
  then have "hd (dropWhile (\<lambda>a. a \<noteq> ''--'') args) = ''--''" using hd_dropWhile by blast
  then have "args = ?o @ ''--'' # tl (dropWhile (\<lambda>a. a \<noteq> ''--'') args)" using d by (metis list.collapse takeWhile_dropWhile_id)
  moreover from this have "argv = tl (dropWhile (\<lambda>a. a \<noteq> ''--'') args)" unfolding argv(1)
    by (metis append_Cons append_Nil append_assoc append_eq_conv_conj length_append_singleton)
  moreover have "''--'' \<notin> set ?o" by (auto dest: set_takeWhileD)
  ultimately show thesis using that [of ?o] argv(2,3) by metis
qed

text \<open>
  C29: What the child of \<open>exec\<close> is run with: the words after the first \<open>--\<close>, untouched, and the
  caller's environment followed by the variables of each binding, taken from what the vault
  holds; a file binding names a file with exactly the vault's bytes. The daemon and standard
  output are unchanged, and the exit status is the child's.
\<close>

theorem exec_environment:
  assumes c: "connected a s" and r: "runExec os a w child args s = (s', x, Some (envv, argv), st)"
  shows "s' = s \<and> argv \<noteq> [] \<and>
    (\<exists>opts bs keep vss fs. args = opts @ ''--'' # argv \<and> ''--'' \<notin> set opts \<and> parseExecArgs args = Inr (bs, argv, keep) \<and>
       envv = environ w @ concat vss \<and> list_all2 (binding_gives (cfs s) keep fs) bs vss \<and>
       st = exit_status (fst (child envv argv fs)))"
proof -
  obtain bs keep s1 y vars where p: "parseExecArgs args = Inr (bs, argv, keep)" "bind_all os a w keep bs (s, no_files) = ((s1, y), Inr vars)"
    and e: "envv = environ w @ vars" "s' = s1" "st = exit_status (fst (child envv argv (xfiles y)))"
    using r by (auto simp: runExec_def split: sum.splits prod.splits)
  obtain vss where vss: "vars = concat vss" "list_all2 (binding_gives (cfs s) keep (xfiles y)) bs vss" and s: "s1 = s"
    using bind_all_gives [OF c p(2)] by blast
  obtain opts where "args = opts @ ''--'' # argv" "''--'' \<notin> set opts" "argv \<noteq> []" by (rule parseExecArgs_split [OF p(1)])
  then show ?thesis using p(1) e vss s by blast
qed

definition demo_world :: exec_world where
  "demo_world = \<lparr>xdg = [], dir_exists = \<lambda>p. True, mkdtemp = \<lambda>p. Some ''/dev/shm/v'', environ = [''A=1'']\<rparr>"

definition demo_child :: "string list \<Rightarrow> string list \<Rightarrow> (string, bytes) gomap \<Rightarrow> child_end \<times> (string, bytes) gomap" where
  "demo_child e argv fs = (Exited (int (length fs)), fs)"

definition demo_filled_cli :: "(string \<rightharpoonup> bytes) cli" where
  "demo_filled_cli = fst (runCP demo_host demo_api [''./f'', ''fs:keys/f''] demo_cli)"

definition demo_exec :: "string list \<Rightarrow> (string \<rightharpoonup> bytes) cli \<times> exec_state \<times> (string list \<times> string list) option \<times> (exec_error + int)" where
  "demo_exec args = runExec demo_host demo_api demo_world demo_child args demo_filled_cli"


theorem exec_environment_witness:
  "\<exists>x. demo_exec [''--as'', ''KEY'', ''fs:keys/f'', ''--'', ''node'', ''--env''] =
     (demo_filled_cli, x, Some ([''A=1'', ''KEY=s3cret''], [''node'', ''--env'']), Inr 0)"
proof -
  let ?a = "[''--as'', ''KEY'', ''fs:keys/f'', ''--'', ''node'', ''--env'']"
  have c: "snd (snd (demo_exec ?a)) = (Some ([''A=1'', ''KEY=s3cret''], [''node'', ''--env'']), Inr 0)" by code_simp
  have conn: "connected demo_api demo_filled_cli" by code_simp
  obtain s' x where r: "demo_exec ?a = (s', x, Some ([''A=1'', ''KEY=s3cret''], [''node'', ''--env'']), Inr 0)"
    using c by (metis prod.collapse)
  from exec_environment [OF conn r [unfolded demo_exec_def]] have "s' = demo_filled_cli" by blast
  then show ?thesis using r by blast
qed

end
