(* ===== verification/Commands.thy ===== *)
theory Commands
  imports Exec GoFlag
begin

text \<open>
  The commands of \<open>cmd/valetfs/main.go\<close> as the user types them: the switch of \<open>main\<close>, the client commands of
  \<open>runCLI\<close> with the runtime file of the daemon, completion, the check for a running daemon, and
  \<open>vaults\<close>, which edits the list of authorised vaults. The texts of help and of the completion script are
  only named.
\<close>

section \<open>The switch of \<open>main\<close>\<close>

datatype start =
    DoVersion | DoServe "string list" | DoHub "string list" | DoVault "string list" | DoVaults "string list"
  | DoSetup "string list" | DoHelp | DoClient "string list" | DoUsage

definition client_commands :: "string list" where
  "client_commands =
     [''exec'', ''stop'', ''status'', ''ls'', ''cat'', ''cp'', ''rm'', ''del'', ''mkdir'', ''rmdir'', ''mv'', ''completion'', ''__complete'']"

fun main_switch :: "string list \<Rightarrow> start" where
  "main_switch [] = DoUsage"
| "main_switch (c # args) =
     (if c = ''--version'' \<or> c = ''version'' then DoVersion
      else if c = ''serve'' then DoServe args
      else if c = ''hub'' then DoHub args
      else if c = ''vault'' then DoVault args
      else if c = ''vaults'' then DoVaults args
      else if c = ''setup-claude'' then DoSetup args
      else if c = ''help'' \<or> c = ''-h'' \<or> c = ''--help'' then DoHelp
      else if c \<in> set client_commands then DoClient (c # args)
      else DoUsage)"

text \<open>The flags of \<open>serve\<close> that do not reach the configuration.\<close>

definition serve_args :: "string list \<Rightarrow> bool \<times> string list" where
  "serve_args args = (list_ex (\<lambda>a. a = ''-v'' \<or> a = ''--verbose'') args, filter (\<lambda>a. a \<noteq> ''-v'' \<and> a \<noteq> ''--verbose'') args)"

text \<open>Whether another daemon answers at the address the runtime file names.\<close>

definition detectExistingDaemon :: "api \<Rightarrow> bytes option \<Rightarrow> 'h cli \<Rightarrow> 'h cli \<times> bool" where
  "detectExistingDaemon a file s =
     (case loadRuntimeState file of
        None \<Rightarrow> (s, False)
      | Some (addr, tok) \<Rightarrow>
          (case apiReq (a\<lparr>a_addr := addr, a_token := tok\<rparr>) ''GET'' ''/status'' [] [] s of (s1, r) \<Rightarrow> (s1, \<not> isl r)))"

section \<open>Completion\<close>

definition completeHostPath :: "('h \<Rightarrow> string \<Rightarrow> (string \<times> bool) list option) \<Rightarrow> 'h \<Rightarrow> string \<Rightarrow> string list" where
  "completeHostPath readdir h cur0 =
     (let cur = (if cur0 = [] then ''./'' else cur0);
          base = (if path_dir cur = ''.'' \<and> has_prefix cur ''./'' then ''./'' else path_dir cur);
          pfx = path_base cur
      in (case readdir h base of
            None \<Rightarrow> []
          | Some es \<Rightarrow>
              map (\<lambda>(name, d). path_join [base, name] @ (if d then ''/'' else [])) (filter (\<lambda>(name, _). has_prefix name pfx) es)))"

definition complete_word :: "('h \<Rightarrow> string \<Rightarrow> (string \<times> bool) list option) \<Rightarrow> api \<Rightarrow> string list \<Rightarrow> ('h, string list) act" where
  "complete_word readdir a args s =
     (let cmd = hd args; cur = (if length args > 1 then last args else [])
      in if cmd \<in> {''ls'', ''cat'', ''del'', ''rm'', ''mkdir'', ''rmdir''} then completeFSPath a cur s
         else if cmd = ''exec'' then (if ''--'' \<notin> set (tl args) then completeFSPath a cur s else ret [] s)
         else if cmd = ''cp'' \<or> cmd = ''mv'' then
           (if isHostPath cur then ret (completeHostPath readdir (chost s) cur) s else completeFSPath a cur s)
         else ret [] s)"

definition runComplete :: "('h \<Rightarrow> string \<Rightarrow> (string \<times> bool) list option) \<Rightarrow> api \<Rightarrow> string list \<Rightarrow> ('h, unit) act" where
  "runComplete readdir a args =
     (if args = [] then ret ()
      else andThen (complete_word readdir a args) (\<lambda>ws. each (\<lambda>w. print_out (w @ nl)) (sort ws)))"

section \<open>The client commands\<close>

datatype cli_end = CliOk | CliFailed cli_error | CliNoHome | CliUsage | CliHelp | CliExec "exec_error + int" | CliScript | CliDiverges

definition cli_done :: "'h cli \<times> (cli_error + unit) \<Rightarrow> 'h cli \<times> exec_state \<times> cli_end" where
  "cli_done r = (case r of (s, Inl e) \<Rightarrow> (s, no_files, CliFailed e) | (s, Inr _) \<Rightarrow> (s, no_files, CliOk))"

definition status_cmd :: "api \<Rightarrow> ('h, unit) act" where
  "status_cmd a = andThen (apiReq a ''GET'' ''/status'' [] []) print_out"

definition stop_cmd :: "api \<Rightarrow> ('h, unit) act" where
  "stop_cmd a = andThen (apiReq a ''POST'' ''/shutdown'' [] []) (\<lambda>_. ret ())"

text \<open>What \<open>runCLI\<close> runs against: the host, the child process of \<open>exec\<close>, and fuel for \<open>mv\<close>.\<close>

record 'h client_env =
  cl_fuel :: nat
  cl_os :: "'h host_os"
  cl_readdir :: "'h \<Rightarrow> string \<Rightarrow> (string \<times> bool) list option"
  cl_world :: exec_world
  cl_child :: "string list \<Rightarrow> string list \<Rightarrow> (string, bytes) gomap \<Rightarrow> child_end \<times> (string, bytes) gomap"

definition cli_switch :: "'h client_env \<Rightarrow> api \<Rightarrow> string \<Rightarrow> string list \<Rightarrow> 'h cli \<Rightarrow> 'h cli \<times> exec_state \<times> cli_end" where
  "cli_switch c a cmd args s =
     (if cmd = ''exec'' then (case runExec (cl_os c) a (cl_world c) (cl_child c) args s of (s1, x, _, r) \<Rightarrow> (s1, x, CliExec r))
      else if cmd = ''status'' then cli_done (status_cmd a s)
      else if cmd = ''ls'' then cli_done (runLS (cl_os c) a args s)
      else if cmd = ''cat'' then cli_done (runCat (cl_os c) a args s)
      else if cmd = ''del'' \<or> cmd = ''rm'' then cli_done (runRM (cl_os c) a args s)
      else if cmd = ''mkdir'' then cli_done (runMkdir a args s)
      else if cmd = ''rmdir'' then cli_done (runRmdir a args s)
      else if cmd = ''mv'' then (case runMV (cl_fuel c) (cl_os c) a args s of None \<Rightarrow> (s, no_files, CliDiverges) | Some r \<Rightarrow> cli_done r)
      else if cmd = ''cp'' then cli_done (runCP (cl_os c) a args s)
      else if cmd = ''completion'' then (s, no_files, if args = [] \<or> hd args \<noteq> ''bash'' then CliUsage else CliScript)
      else if cmd = ''__complete'' then cli_done (runComplete (cl_readdir c) a args s)
      else if cmd = ''stop'' then cli_done (stop_cmd a s)
      else (s, no_files, CliOk))"

text \<open>\<open>file\<close> is the runtime file below the home directory, if there is a home directory.\<close>

definition runCLI :: "'h client_env \<Rightarrow> api \<Rightarrow> bytes option option \<Rightarrow> string list \<Rightarrow> 'h cli \<Rightarrow> 'h cli \<times> exec_state \<times> cli_end" where
  "runCLI c a file args0 s =
     (case parseGlobalCLIOptions args0 of
        (_, _, []) \<Rightarrow> (s, no_files, CliUsage)
      | (_, daemonAddr, cmd # args) \<Rightarrow>
          if wantsHelp args then (s, no_files, CliHelp)
          else (case file of
                  None \<Rightarrow> (s, no_files, CliNoHome)
                | Some f \<Rightarrow>
                    (case loadRuntimeState f of
                       None \<Rightarrow> (s, no_files, CliFailed NoDaemon)
                     | Some (addr, tok) \<Rightarrow>
                         cli_switch c (a\<lparr>a_addr := (if daemonAddr \<noteq> [] then daemonAddr else addr), a_token := tok\<rparr>) cmd args s)))"

section \<open>The list of authorised vaults\<close>

datatype vaults_end = VsOk "string list" | VsFlag flag_error | VsUsage | VsOpen vaults_error | VsBadKey | VsWrite | VsNotPinned | VsUnknown string | VsPanic

definition defaultAuthorizedVaultsPath :: "(string \<Rightarrow> string) \<Rightarrow> string option \<Rightarrow> string" where
  "defaultAuthorizedVaultsPath env home =
     (if env ''VALETFS_AUTHORIZED_VAULTS'' \<noteq> [] then env ''VALETFS_AUTHORIZED_VAULTS''
      else case home of Some h \<Rightarrow> path_join [h, ''.valetfs'', ''authorized_vaults''] | None \<Rightarrow> ''/tmp/valetfs-authorized_vaults'')"

fun forget_lines :: "bool \<Rightarrow> string list \<Rightarrow> authorized_vaults \<Rightarrow> authorized_vaults \<times> vaults_end option" where
  "forget_lines ok [] a = (a, None)"
| "forget_lines ok (l # ls) a =
     (case GoText.fields l of
        [] \<Rightarrow> (a, Some VsPanic)
      | w # _ \<Rightarrow>
          (case ParsePub w of
             None \<Rightarrow> (a, Some VsBadKey)
           | Some pub \<Rightarrow>
               (case vaults_Remove ok pub a of
                  (a1, _, good) \<Rightarrow> if \<not> good then (a1, Some VsWrite) else forget_lines ok ls a1)))"

definition vaults_cmd :: "bool \<Rightarrow> string list \<Rightarrow> authorized_vaults \<Rightarrow> authorized_vaults \<times> vaults_end" where
  "vaults_cmd ok rest a =
     (if rest = [] then (a, VsUsage)
      else if hd rest = ''list'' then (a, VsOk (vaults_List a))
      else if hd rest = ''forget'' then
        (case tl rest of
           [] \<Rightarrow> (a, VsUsage)
         | k # _ \<Rightarrow>
             (case ParsePub k of
                None \<Rightarrow> (a, VsBadKey)
              | Some pub \<Rightarrow>
                  (case vaults_Remove ok pub a of
                     (a1, removed, good) \<Rightarrow> (a1, if \<not> good then VsWrite else if \<not> removed then VsNotPinned else VsOk []))))
      else if hd rest = ''forget-all'' then (case forget_lines ok (vaults_List a) a of (a1, None) \<Rightarrow> (a1, VsOk []) | (a1, Some e) \<Rightarrow> (a1, e))
      else (a, VsUnknown (hd rest)))"

text \<open>\<open>runVaults\<close> over the files of the host; \<open>ok\<close> says whether the list can be written.\<close>

definition runVaults ::
  "(string \<Rightarrow> string) \<Rightarrow> string option \<Rightarrow> bool \<Rightarrow> string list \<Rightarrow> (string \<rightharpoonup> bytes) \<Rightarrow> (string \<rightharpoonup> bytes) \<times> vaults_end" where
  "runVaults env home ok args fm =
     (case flag_parse [(''authorized-vaults'', FString)] [] args of
        Inl e \<Rightarrow> (fm, VsFlag e)
      | Inr (vals, rest) \<Rightarrow>
          let p = flag_string ''authorized-vaults'' (defaultAuthorizedVaultsPath env home) vals
          in if rest = [] then (fm, VsUsage)
             else (case OpenAuthorizedVaults True (fm p) of
                     Inl e \<Rightarrow> (fm, VsOpen e)
                   | Inr a \<Rightarrow> (case vaults_cmd ok rest a of (a1, r) \<Rightarrow> (fm(p := vfile a1), r))))"

section \<open>Every command is handled\<close>

text \<open>
  The last line of \<open>runCLI\<close>, which ignores what it does not know, is not reached from \<open>main\<close>: \<open>cli_switch\<close> has a branch for
  every command \<open>main\<close> passes on, so none of them is dropped silently.
\<close>

lemma client_commands_handled:
  assumes "main_switch (cmd # args) = DoClient as"
  shows "as = cmd # args \<and> cmd \<in> {''exec'', ''status'', ''ls'', ''cat'', ''del'', ''rm'', ''mkdir'', ''rmdir'', ''mv'', ''cp'', ''completion'', ''__complete'', ''stop''}"
  using assms by (auto simp: client_commands_def split: if_splits)

section \<open>The running daemon is found\<close>

lemma status_answers:
  assumes "connected a s"
  shows "\<exists>b. apiReq a ''GET'' ''/status'' [] [] s = (s, Inr b)"
proof -
  have au: "auth \<lparr>rmethod = ''GET'', rquery = [], rtoken = a_token a, rbody = []\<rparr> (cdaemon s)" by (rule connected_auth [OF assms])
  have addr: "a_addr a = devAddr (cdaemon s)" using assms by (simp add: connected_def)
  have "\<exists>b. control_api (a_hmac a) (a_env a) (a_outside a) (a_now a) ''/status'' \<lparr>rmethod = ''GET'', rquery = [], rtoken = a_token a, rbody = []\<rparr> (cdaemon s) =
      (cdaemon s, \<lparr>code = 200, rbody_out = b\<rparr>)"
    using au by (simp add: control_api_def handleStatus_def reply_json_def Let_def)
  then obtain b where b: "control_api (a_hmac a) (a_env a) (a_outside a) (a_now a) ''/status'' \<lparr>rmethod = ''GET'', rquery = [], rtoken = a_token a, rbody = []\<rparr> (cdaemon s) =
      (cdaemon s, \<lparr>code = 200, rbody_out = b\<rparr>)" by blast
  show ?thesis using addr by (simp add: apiReq_def b)
qed

text \<open>A daemon that listens and has a token, both valid UTF-8, as the configuration makes them.\<close>

definition announced :: "daemon \<Rightarrow> bool" where
  "announced d \<longleftrightarrow> devAddr d \<noteq> [] \<and> utf8_valid (devAddr d) \<and> ControlToken (dcfg d) \<noteq> [] \<and> utf8_valid (ControlToken (dcfg d))"

lemma announced_loads: "announced d \<Longrightarrow> loadRuntimeState (Some (writeRuntimeState d)) = Some (devAddr d, ControlToken (dcfg d))"
  by (simp add: runtime_loads announced_def to_valid_id)

lemma status_refused:
  assumes "ControlToken (dcfg (cdaemon s)) \<noteq> a_token a"
  shows "\<exists>e. apiReq a ''GET'' ''/status'' [] [] s = (s, Inl e)"
proof -
  have "\<not> auth \<lparr>rmethod = ''GET'', rquery = [], rtoken = a_token a, rbody = []\<rparr> (cdaemon s)"
    using assms by (auto simp: auth_def qget_def Let_def)
  then have "control_api (a_hmac a) (a_env a) (a_outside a) (a_now a) ''/status'' \<lparr>rmethod = ''GET'', rquery = [], rtoken = a_token a, rbody = []\<rparr> (cdaemon s) =
      (cdaemon s, unauthorized)" by (simp add: control_api_def handleStatus_def)
  then show ?thesis by (simp add: apiReq_def unauthorized_def reply_error_def reply_json_def)
qed

text \<open>
  \<open>serve\<close> finds a running daemon exactly when the runtime file is that daemon's: with the file of another, whose
  address or token differs, or with none, it goes on, and looking changes nothing.
\<close>

theorem running_daemon_found:
  assumes "announced d" and "announced (cdaemon s)"
  shows "detectExistingDaemon a (Some (writeRuntimeState d)) s =
      (s, devAddr d = devAddr (cdaemon s) \<and> ControlToken (dcfg d) = ControlToken (dcfg (cdaemon s))) \<and>
    detectExistingDaemon a None s = (s, False)"
proof -
  let ?a = "a\<lparr>a_addr := devAddr d, a_token := ControlToken (dcfg d)\<rparr>"
  have e: "detectExistingDaemon a (Some (writeRuntimeState d)) s = (case apiReq ?a ''GET'' ''/status'' [] [] s of (s1, r) \<Rightarrow> (s1, \<not> isl r))"
    using announced_loads [OF assms(1)] by (simp add: detectExistingDaemon_def)
  consider "devAddr d \<noteq> devAddr (cdaemon s)" | "ControlToken (dcfg (cdaemon s)) \<noteq> a_token ?a"
    | "devAddr d = devAddr (cdaemon s)" "ControlToken (dcfg (cdaemon s)) = a_token ?a" by blast
  then have "detectExistingDaemon a (Some (writeRuntimeState d)) s =
      (s, devAddr d = devAddr (cdaemon s) \<and> ControlToken (dcfg d) = ControlToken (dcfg (cdaemon s)))"
  proof cases
    case 1
    then show ?thesis by (simp add: e apiReq_def)
  next
    case 2
    then obtain x where "apiReq ?a ''GET'' ''/status'' [] [] s = (s, Inl x)" using status_refused by blast
    then show ?thesis using 2 by (simp add: e)
  next
    case 3
    then have "connected ?a s" using assms(1) by (simp add: connected_def announced_def)
    then obtain b where "apiReq ?a ''GET'' ''/status'' [] [] s = (s, Inr b)" using status_answers by blast
    then show ?thesis using 3 by (simp add: e)
  qed
  then show ?thesis by (simp add: detectExistingDaemon_def loadRuntimeState_def)
qed

text \<open>
  \<open>valetfs stop\<close> against a running daemon leaves nothing behind: it reports success, and the daemon is unmounted, its file system
  empty and its history gone.
\<close>

theorem stop_wipes:
  assumes d: "announced (cdaemon s)"
  shows "\<exists>s'. runCLI c a (Some (Some (writeRuntimeState (cdaemon s)))) [''stop''] s = (s', no_files, CliOk) \<and>
    fs_view (cfs s') = [[] \<mapsto> EDir] \<and> used (cfs s') = 0 \<and> history (drepo (cdaemon s')) = [] \<and> \<not> mounted (cdaemon s')"
proof -
  let ?a = "a\<lparr>a_addr := devAddr (cdaemon s), a_token := ControlToken (dcfg (cdaemon s))\<rparr>"
  let ?d = "Shutdown (o_ferr (a_outside a)) (o_werr (a_outside a)) (o_key (a_outside a)) (a_now a) (cdaemon s)"
  have c: "connected ?a s" using d by (simp add: connected_def announced_def)
  then have "auth \<lparr>rmethod = ''POST'', rquery = [], rtoken = a_token ?a, rbody = []\<rparr> (cdaemon s)" by (rule connected_auth)
  then have "stop_cmd ?a s = (s\<lparr>cdaemon := ?d\<rparr>, Inr ())"
    by (simp add: stop_cmd_def andThen_def ret_def apiReq_def control_api_def handleShutdown_def reply_ok_def reply_json_def Let_def)
  then have r: "runCLI c a (Some (Some (writeRuntimeState (cdaemon s)))) [''stop''] s = (s\<lparr>cdaemon := ?d\<rparr>, no_files, CliOk)"
    using announced_loads [OF d] by (simp add: runCLI_def parseGlobalCLIOptions_def cli_switch_def cli_done_def)
  have u: "dfs (fst (Unmount f w x)) = dfs x" "\<not> mounted (fst (Unmount f w x))" for f w x
    by (auto simp: Unmount_def Let_def split: option.split)
  have "fs_view (dfs ?d) = [[] \<mapsto> EDir]" "used (dfs ?d) = 0" "history (drepo ?d) = []" "\<not> mounted ?d"
    using Wipe_view [of "a_now a" "dfs (cdaemon s)"] u by (simp_all add: Shutdown_def WipeHistory_def repo_Wipe_def Wipe_def Let_def)
  then show ?thesis using r by auto
qed

section \<open>Forgetting a vault\<close>

lemma first_word: "entry_ok e \<Longrightarrow> GoText.fields (entry_line e) = std_encode (e_pub e) # GoText.fields (e_label e)"
  using fields_words [OF entry_line_words(2)] by (simp add: entry_line_words(1))

lemma entry_pub: "entry_ok e \<Longrightarrow> ParsePub (std_encode (e_pub e)) = Some (e_pub e)"
  by (simp add: entry_ok_def ParsePub_def)

lemma forget_lines_removes:
  "list_all entry_ok es \<Longrightarrow> vaults_inv a \<Longrightarrow>
     \<exists>a'. forget_lines True (map entry_line es) a = (a', None) \<and> vaults_inv a' \<and> set (Keys a') = set (Keys a) - e_pub ` set es"
proof (induction es arbitrary: a)
  case (Cons e es)
  obtain a1 removed good where r: "vaults_Remove True (e_pub e) a = (a1, removed, good)" by (metis prod.exhaust)
  have a1: "vaults_inv a1" "set (Keys a1) = set (Keys a) - {e_pub e}"
    using run_op_refines [OF Cons.prems(2), of "OpRemove (e_pub e)"] r by simp_all
  have good: "good" using r by (auto simp: vaults_Remove_def vaults_save_def Let_def split: if_splits)
  have e: "entry_ok e" and es: "list_all entry_ok es" using Cons.prems(1) by simp_all
  obtain a' where a': "forget_lines True (map entry_line es) a1 = (a', None)" "vaults_inv a'" "set (Keys a') = set (Keys a1) - e_pub ` set es"
    using Cons.IH [OF es a1(1)] by blast
  have "forget_lines True (map entry_line (e # es)) a = (a', None)"
    using a'(1) r good first_word [OF e] entry_pub [OF e] by simp
  moreover have "set (Keys a') = set (Keys a) - e_pub ` set (e # es)" using a'(3) a1(2) by auto
  ultimately show ?case using a'(2) by blast
qed auto

lemma vaults_open:
  assumes "list_all entry_ok es" and "distinct (map e_pub es)"
  shows "\<exists>a. OpenAuthorizedVaults True (Some (vaults_text es)) = Inr a \<and> entries a = es \<and> vaults_inv a"
  using assms read_back [OF assms(1)] by (simp add: OpenAuthorizedVaults_def vaults_inv_def Keys_def)

lemma vaults_reopen: "vaults_inv a \<Longrightarrow> \<exists>a'. OpenAuthorizedVaults True (vfile a) = Inr a' \<and> entries a' = entries a"
  using read_back [of "entries a"] by (auto simp: vaults_inv_def OpenAuthorizedVaults_def)

lemma flag_path: "flag_parse [(''authorized-vaults'', FString)] [] [''--authorized-vaults'', p, w] = flag_parse [(''authorized-vaults'', FString)] [(''authorized-vaults'', p)] [w]"
proof -
  have d: "drop 2 ''--authorized-vaults'' = ''authorized-vaults''" by simp
  show ?thesis using flag_parse_pair [of "''--authorized-vaults''" "[(''authorized-vaults'', FString)]" FString p "[]" "[w]"]
    unfolding d by (simp add: value_ok_def)
qed

text \<open>
  \<open>vaults forget-all\<close> empties the list: the next daemon that starts reads no key, so that
  the next vault to connect is the one it trusts; no other file is touched.
\<close>

theorem forget_all_empties:
  assumes es: "list_all entry_ok es" "distinct (map e_pub es)" and f: "fm p = Some (vaults_text es)"
  shows "\<exists>fm' a'. runVaults env home True [''--authorized-vaults'', p, ''forget-all''] fm = (fm', VsOk []) \<and>
    OpenAuthorizedVaults True (fm' p) = Inr a' \<and> Keys a' = [] \<and> (\<forall>x. x \<noteq> p \<longrightarrow> fm' x = fm x)"
proof -
  obtain a where a: "OpenAuthorizedVaults True (Some (vaults_text es)) = Inr a" "entries a = es" "vaults_inv a"
    using vaults_open [OF es] by blast
  let ?xs = "sort_key entry_line es"
  have xs: "vaults_List a = map entry_line ?xs" unfolding vaults_List_def a(2) by (rule properties_for_sort) simp_all
  have ok: "list_all entry_ok ?xs" using es(1) by (simp add: list_all_iff)
  obtain a1 where r: "forget_lines True (vaults_List a) a = (a1, None)" "vaults_inv a1" "set (Keys a1) = set (Keys a) - e_pub ` set ?xs"
    using forget_lines_removes [OF ok a(3)] xs by auto
  have k: "Keys a1 = []" using r(3) a(2) by (simp add: Keys_def)
  obtain a' where o: "OpenAuthorizedVaults True (vfile a1) = Inr a'" "entries a' = entries a1" using vaults_reopen [OF r(2)] by blast
  have fp: "flag_parse [(''authorized-vaults'', FString)] [] [''--authorized-vaults'', p, ''forget-all''] = Inr ([(''authorized-vaults'', p)], [''forget-all''])"
    unfolding flag_path by (rule flag_parse_stops) simp
  have "runVaults env home True [''--authorized-vaults'', p, ''forget-all''] fm = (fm(p := vfile a1), VsOk [])"
    using fp f a(1) r(1) by (simp add: runVaults_def flag_string_def flag_last_def vaults_cmd_def)
  then show ?thesis using o k by (auto simp: Keys_def)
qed

end
