(* ===== verification/Process.thy ===== *)
theory Process
  imports Startup Commands "HOL-Library.Word"
begin

text \<open>
  \<open>serve\<close> of \<open>cmd/valetfs/main.go\<close> as a process: the configuration, the check for another daemon, the hardening of
  \<open>internal/hardening\<close>, the control API's socket and its runtime file, the choice of the transport, and the signal
  that ends it; the \<open>hub\<close> command; and the repository of \<open>internal/sync\<close> on disk.
\<close>

section \<open>Hardening\<close>

text \<open>The limit on locked memory, if it can be read, and whether the three system calls succeed.\<close>

record kernel =
  kn_memlock :: "64 word option"
  kn_mlockall :: bool
  kn_rlimit :: bool
  kn_prctl :: bool

text \<open>What is in force for the process.\<close>

record guard =
  pg_locked :: bool
  pg_nocore :: bool
  pg_nodump :: bool

datatype hard_note = LimitUnread | LimitLow "64 word" | LockFailed | CoreLimitFailed | DumpableFailed | OnlyLinux

record Report =
  MemoryLocked :: bool
  DumpsDisabled :: bool
  Notes :: "hard_note list"

definition memlockHeadroom :: "64 word option \<Rightarrow> hard_note option" where
  "memlockHeadroom lim =
     (case lim of
        None \<Rightarrow> Some LimitUnread
      | Some cur \<Rightarrow>
          if cur = - 1 then None
          else if cur < push_bit 20 512 then Some (LimitLow (drop_bit 20 cur))
          else None)"

definition Apply :: "kernel \<Rightarrow> guard \<Rightarrow> guard \<times> Report" where
  "Apply kn g =
     (let (g1, r1) =
        (case memlockHeadroom (kn_memlock kn) of
           Some why \<Rightarrow> (g, \<lparr>MemoryLocked = False, DumpsDisabled = False, Notes = [why]\<rparr>)
         | None \<Rightarrow>
             if kn_mlockall kn then (g\<lparr>pg_locked := True\<rparr>, \<lparr>MemoryLocked = True, DumpsDisabled = False, Notes = []\<rparr>)
             else (g, \<lparr>MemoryLocked = False, DumpsDisabled = False, Notes = [LockFailed]\<rparr>));
          (g2, r2) = (if kn_rlimit kn then (g1\<lparr>pg_nocore := True\<rparr>, r1) else (g1, r1\<lparr>Notes := Notes r1 @ [CoreLimitFailed]\<rparr>))
      in if kn_prctl kn then (g2\<lparr>pg_nodump := True\<rparr>, r2\<lparr>DumpsDisabled := True\<rparr>)
         else (g2, r2\<lparr>Notes := Notes r2 @ [DumpableFailed]\<rparr>))"

definition Apply_other :: "guard \<Rightarrow> guard \<times> Report" where
  "Apply_other g = (g, \<lparr>MemoryLocked = False, DumpsDisabled = False, Notes = [OnlyLinux]\<rparr>)"

section \<open>The repository on disk\<close>

text \<open>
  \<open>Open\<close>: the outcome of creating the directory, what go-git finds there, the outcome of initialising, and the key
  drawn, if randomness is available. A repository that is found keeps its history and work tree; the key is always new.
\<close>

datatype repo_error = DirFailed | InitFailed | KeyFailed | RemoveFailed

definition repo_Open :: "bool \<Rightarrow> repo option \<Rightarrow> bool \<Rightarrow> bytes option \<Rightarrow> repo_error + repo" where
  "repo_Open dir_ok found init_ok key =
     (if \<not> dir_ok then Inl DirFailed
      else case (case found of Some r \<Rightarrow> Some r | None \<Rightarrow> if init_ok then Some \<lparr>rkey = [], manifest_txt = None, history = []\<rparr> else None) of
        None \<Rightarrow> Inl InitFailed
      | Some r \<Rightarrow> (case key of None \<Rightarrow> Inl KeyFailed | Some kb \<Rightarrow> Inr (r\<lparr>rkey := kb\<rparr>)))"

text \<open>\<open>Wipe\<close> with the failures of its calls. \<open>left\<close> is what a failing removal has left of the directory.\<close>

definition repo_Wipe_calls :: "(string option \<times> (string \<times> string) list) option \<Rightarrow> bool \<Rightarrow> bool \<Rightarrow> bytes option \<Rightarrow> repo \<Rightarrow> repo \<times> repo_error option" where
  "repo_Wipe_calls left dir_ok init_ok key r =
     (case left of
        Some (txt, old) \<Rightarrow> (r\<lparr>manifest_txt := txt, history := old\<rparr>, Some RemoveFailed)
      | None \<Rightarrow>
          let r1 = r\<lparr>manifest_txt := None, history := []\<rparr>
          in if \<not> dir_ok then (r1, Some DirFailed)
             else if \<not> init_ok then (r1, Some InitFailed)
             else (case key of None \<Rightarrow> (r1, Some KeyFailed) | Some kb \<Rightarrow> (r1\<lparr>rkey := kb\<rparr>, None)))"

section \<open>The process\<close>

text \<open>\<open>StartDevAPI\<close>: the address the socket is bound to, and the runtime file where one is written.\<close>

definition StartDevAPI :: "bool \<Rightarrow> string + string \<Rightarrow> daemon \<Rightarrow> string + (daemon \<times> bytes option)" where
  "StartDevAPI record_state ln d =
     (case ln of
        Inl e \<Rightarrow> Inl e
      | Inr addr \<Rightarrow> let d1 = d\<lparr>devAddr := addr\<rparr> in Inr (d1, if record_state then Some (writeRuntimeState d1) else None))"

record serve_world =
  sw_getenv :: "string \<Rightarrow> string"
  sw_home :: "string option"
  sw_token :: bytes
  sw_kernel :: kernel
  sw_runtime :: "bytes option"
  sw_dir :: bool
  sw_init :: bool
  sw_peer :: bool
  sw_listen :: "string + string"

datatype ('hs, 'cs) serve_end =
    SvConfig config_error | SvRunning | SvInit repo_error | SvApi string | SvNoPeer | SvDev daemon | SvPeer daemon | SvFatal start_error | SvLink "('hs, 'cs) started"

text \<open>The endpoint over the daemon whose control API has been bound.\<close>

definition bound_at :: "string \<Rightarrow> ('hs, 'cs) started \<Rightarrow> ('hs, 'cs) started" where
  "bound_at addr st = st\<lparr>st_ep := (st_ep st)\<lparr>nd := (nd (st_ep st))\<lparr>host := (host (nd (st_ep st)))\<lparr>devAddr := addr\<rparr>\<rparr>\<rparr>\<rparr>"

text \<open>
  \<open>serve\<close> until it waits for a signal: the web socket service, the files of the machine, the guards
  and the runtime file afterwards, and how far it came. The repository's directory holds no history of an
  earlier daemon; over the older transport the peer, if one can be made, pairs beside the daemon from there on. \<open>c\<close> has the daemon that the check for another one reaches.
\<close>

definition serve ::
  "serve_world \<Rightarrow> api \<Rightarrow> ('hs, 'cs) outer \<Rightarrow> start_draw \<Rightarrow> string list \<Rightarrow> 'h cli \<Rightarrow> machine \<Rightarrow> site \<Rightarrow> guard \<Rightarrow>
     site \<times> machine \<times> guard \<times> bytes option \<times> ('hs, 'cs) serve_end" where
  "serve w a k x args c m s g =
     (case Load (sw_getenv w) (sw_home w) (sw_token w) (snd (serve_args args)) of
        Inl e \<Rightarrow> (s, m, g, sw_runtime w, SvConfig e)
      | Inr cfg \<Rightarrow>
          if g_RecordRuntimeState cfg \<and> snd (detectExistingDaemon a (sw_runtime w) c) then (s, m, g, sw_runtime w, SvRunning)
          else
            let g1 = fst (Apply (sw_kernel w) g); d0 = new_daemon (x_now x) (x_repo x) (x_backend x) (daemon_part cfg)
            in (case repo_Open (sw_dir w) None (sw_init w) (Some (x_repo x)) of
                  Inl e \<Rightarrow> (s, m, g1, sw_runtime w, SvInit e)
                | Inr _ \<Rightarrow>
                (case StartDevAPI (g_RecordRuntimeState cfg) (sw_listen w) d0 of
                  Inl e \<Rightarrow> (s, m, g1, sw_runtime w, SvApi e)
                | Inr (d1, file) \<Rightarrow>
                    let rt = (case file of None \<Rightarrow> sw_runtime w | Some b \<Rightarrow> Some b); d = (if resuming cfg m then d1 else Mount d1)
                    in if g_Dev cfg then (s, m, g1, rt, SvDev d)
                       else if g_Transport cfg = ''ws'' then
                         (case serve_ws k x cfg m s of
                            (s1, m1, Inl e) \<Rightarrow> (s1, m1, g1, rt, SvFatal e)
                          | (s1, m1, Inr st) \<Rightarrow> (s1, m1, g1, rt, SvLink (bound_at (devAddr d) st)))
                       else if sw_peer w then (s, m, g1, rt, SvPeer d)
                       else (s, m, g1, rt, SvNoPeer))))"

text \<open>The daemon of a process that runs, and the signal.\<close>

fun serve_daemon :: "('hs, 'cs) serve_end \<Rightarrow> daemon option" where
  "serve_daemon (SvDev d) = Some d"
| "serve_daemon (SvPeer d) = Some d"
| "serve_daemon (SvLink st) = Some (host (nd (st_ep st)))"
| "serve_daemon _ = None"

definition interrupted :: "outside \<Rightarrow> time \<Rightarrow> daemon \<Rightarrow> daemon" where
  "interrupted ou now d = Shutdown (o_ferr ou) (o_werr ou) (o_key ou) now d"

text \<open>\<open>hub\<close>: the address and the empty hub it serves.\<close>

definition runHub :: "string list \<Rightarrow> flag_error + (string \<times> hub)" where
  "runHub args =
     (case flag_parse [(''addr'', FString)] [] args of
        Inl e \<Rightarrow> Inl e
      | Inr (vals, _) \<Rightarrow> Inr (flag_string ''addr'' ''127.0.0.1:8799'' vals, hub_New))"

section \<open>What is reported and what is in force\<close>

text \<open>
  The report of the hardening is true: it says that memory is locked and dumps are disabled exactly when they are, it has no notes exactly
  when all three measures are in force, and memory is only locked when the limit leaves the heap 512 MiB.
\<close>

theorem hardening_reported:
  assumes "Apply kn \<lparr>pg_locked = False, pg_nocore = False, pg_nodump = False\<rparr> = (g, r)"
  shows "MemoryLocked r = pg_locked g \<and> DumpsDisabled r = pg_nodump g \<and>
    (Notes r = [] \<longleftrightarrow> pg_locked g \<and> pg_nocore g \<and> pg_nodump g) \<and>
    (pg_locked g \<longrightarrow> (\<exists>cur. kn_memlock kn = Some cur \<and> 2 ^ 29 \<le> unat cur))"
proof -
  have "\<exists>cur. kn_memlock kn = Some cur \<and> 2 ^ 29 \<le> unat cur" if h: "memlockHeadroom (kn_memlock kn) = None"
  proof -
    obtain cur where "kn_memlock kn = Some cur" "cur = - 1 \<or> \<not> cur < push_bit 20 512"
      using h by (auto simp: memlockHeadroom_def split: option.splits if_splits)
    moreover have "2 ^ 29 \<le> unat (- 1 :: 64 word)" by (simp add: unsigned_minus_1_eq_mask mask_eq_exp_minus_1)
    moreover have "unat (push_bit 20 512 :: 64 word) = 2 ^ 29" by simp
    ultimately show ?thesis by (auto simp: word_less_nat_alt)
  qed
  then show ?thesis using assms unfolding Apply_def by (auto simp: Let_def split: option.splits if_splits)
qed

text \<open>
  A wipe that reports no error is the one the daemon's steps assume, and only a failing removal leaves history behind: after any other
  failure the history is gone, and a repository opened later at the same place starts with none.
\<close>

theorem wipe_calls:
  assumes "repo_Wipe_calls left dir_ok init_ok key r = (r', e)"
  shows "(e = None \<longrightarrow> (\<exists>kb. key = Some kb \<and> r' = repo_Wipe kb r)) \<and>
    (e \<noteq> Some RemoveFailed \<longrightarrow> history r' = [] \<and> manifest_txt r' = None \<and>
      (\<forall>d i kb q. repo_Open d (Some r') i kb = Inr q \<longrightarrow> history q = [] \<and> kb = Some (rkey q)))"
  using assms by (auto simp: repo_Wipe_calls_def repo_Open_def repo_Wipe_def Let_def split: option.splits prod.splits if_splits)

section \<open>The life of the process\<close>

text \<open>A second daemon with the same runtime file does not start: nothing is bound, dialled or changed.\<close>

theorem second_daemon_refused:
  assumes "announced (cdaemon c)" and "sw_runtime w = Some (writeRuntimeState (cdaemon c))"
    and "Load (sw_getenv w) (sw_home w) (sw_token w) (snd (serve_args args)) = Inr cfg" and "g_RecordRuntimeState cfg"
  shows "serve w a k x args c m s g = (s, m, g, sw_runtime w, SvRunning)"
  using running_daemon_found [OF assms(1,1)] assms(2-4) by (simp add: serve_def)

lemma link_daemon:
  assumes "serve_ws k x cfg m s = (s1, m1, Inr st)"
  shows "file_body (dfs (host (nd (st_ep st)))) = Map.empty"
proof -
  obtain pair key i joined vaults where ep: "st_ep st = start_endpoint k x cfg m pair key i joined (Keys vaults)"
    using assms by (auto simp: serve_ws_def serve_join_def serve_dial_def Let_def split: if_splits sum.splits option.splits prod.splits)
  let ?n = "serve_node (start_daemon x cfg m) (g_GraceSeconds cfg)"
  have n: "file_body (dfs (host ?n)) = Map.empty" by (simp add: serve_node_def new_node_def start_fs New_empty)
  have l: "file_body (dfs (lock_daemon ou now d)) = Map.empty" for ou now d by (intro ext) (simp add: file_body_def Wipe_view)
  have "nd (st_ep st) = ?n \<or> nd (st_ep st) = startGrace (serve_config (k_ou k) (x_now x)) (x_now x) ?n"
    by (simp add: ep start_endpoint_def attach_def ArmGrace_def Let_def)
  then show ?thesis using n l by (auto simp: startGrace_def Let_def run_cb_def serve_config_def)
qed

text \<open>
  A process that runs has been hardened before its daemon was made, holds no file yet and has its control
  API at the bound address, which the runtime file announces; whatever it has come to hold, an interrupt leaves an
  empty file system, no history and no mount.
\<close>

theorem serve_lifecycle:
  assumes "serve w a k x args c m s g = (s', m', g', rt, e)" and "serve_daemon e = Some d"
  shows "g' = fst (Apply (sw_kernel w) g) \<and> sw_listen w = Inr (devAddr d) \<and> file_body (dfs d) = Map.empty \<and>
    (fs_view (dfs (interrupted ou now d')) = [[] \<mapsto> EDir] \<and> history (drepo (interrupted ou now d')) = [] \<and> \<not> mounted (interrupted ou now d'))"
proof -
  have u: "dfs (fst (Unmount f v y)) = dfs y" "\<not> mounted (fst (Unmount f v y))" for f v y
    by (auto simp: Unmount_def Let_def split: option.split)
  have i: "fs_view (dfs (interrupted ou now d')) = [[] \<mapsto> EDir] \<and> history (drepo (interrupted ou now d')) = [] \<and> \<not> mounted (interrupted ou now d')"
    using Wipe_view [of now "dfs d'"] u by (simp add: interrupted_def Shutdown_def WipeHistory_def repo_Wipe_def Let_def)
  have fb: "file_body (dfs (Mount d1)) = file_body (dfs d1)" "devAddr (Mount d1) = devAddr d1" for d1 by (simp_all add: Mount_def)
  show ?thesis
    using assms i link_daemon New_empty
    by (auto simp: serve_def Let_def StartDevAPI_def bound_at_def new_daemon_def fb split: sum.splits if_splits prod.splits option.splits)
qed

end
