(* ===== verification/Spec2Isabelle.thy ===== *)
theory Spec2Isabelle
  imports VaultCmd Mounts Peer SetupClaude Process
begin

text \<open>
  \<^bold>\<open>ValetFS\<close>. A daemon keeps secrets in a file system in memory and shows them over FUSE or WebDAV and
  a local control API; a vault on another machine or a phone keeps them encrypted and pushes them
  over a hub that neither side trusts. When the vault goes away, or on command, the daemon unmounts
  and wipes. This development models the Go program under \<open>src/\<close>.

  \<^bold>\<open>Parts and theories.\<close> The order is that of the imports; each theory names its source file.

  \<^item> Language and standard library: \<open>Prelude\<close> (maps as association lists, 64-bit wrap-around, prefixes),
    \<open>GoText\<close> (UTF-8, \<open>strings\<close>, decimal and hexadecimal), \<open>GoPath\<close> (\<open>path.Clean\<close>, \<open>Join\<close>, \<open>Dir\<close>), \<open>GoJson\<close> and
    \<open>JsonIndent\<close> (\<open>encoding/json\<close> from bytes to trees and back, \<open>float64\<close>, struct fields by folded
    name), \<open>JsonText\<close> (the grammar that the parser decides, \<open>json.Indent\<close>), \<open>Base64\<close>, \<open>GoFlag\<close> (package \<open>flag\<close>).
  \<^item> File system: \<open>FileStore\<close> is the interface of a file store as a locale; \<open>MemFS\<close> (\<open>internal/vfs/memfs.go\<close>)
    models every method on the tree and interprets the locale; \<open>Splice\<close>, \<open>Fuse\<close> (\<open>mount_linux.go\<close>) and \<open>WebDav\<close>
    (\<open>webdav.go\<close>) are the front ends over it; \<open>Mounts\<close> (\<open>mount_*.go\<close>) serves them: the WebDAV server with its credentials, the
    choice between FUSE and WebDAV, mounting and unmounting.
  \<^item> Control plane of the daemon: \<open>Rpc\<close> (\<open>internal/rpc\<close>: messages, dispatcher, client, versions), \<open>Node\<close>
    (\<open>internal/node\<close>: handlers, presence, grace timer), \<open>Daemon\<close> (\<open>internal/daemon\<close>, \<open>internal/sync\<close>: mounts,
    control API, history), \<open>Serve\<close> (the callbacks of \<open>serve\<close> in \<open>cmd/valetfs/main.go\<close>).
  \<^item> Sessions: \<open>Frame\<close>, \<open>E2ee\<close> (\<open>internal/e2ee\<close>, version 1), \<open>Session\<close> (\<open>internal/session/session.go\<close>, version 2),
    \<open>Dual\<close> (\<open>dual.go\<close>, the choice between them), \<open>AuthVaults\<close> (\<open>authorized.go\<close>), \<open>Endpoint\<close> (\<open>attach\<close>: dispatcher and
    node as one).
  \<^item> Network: \<open>Hub\<close> (\<open>internal/hub\<close>), \<open>WsConn\<close> (\<open>internal/transport/ws\<close>: dialling and the connection), \<open>Legacy\<close>
    (\<open>internal/webrtc/rpc.go\<close> and the data channel handler of \<open>serve\<close>), \<open>Peer\<close> (\<open>internal/webrtc/peer.go\<close>: pairing over the
    signalling service), \<open>Reconnect\<close> (the reconnect loop and the
    connection key of \<open>main.go\<close>).
  \<^item> Vault: \<open>Vault\<close> (\<open>internal/vault/vault.go\<close>), \<open>Pairings\<close> (\<open>internal/vault/session.go\<close>), \<open>Controller\<close>
    (\<open>cmd/valetfs/vault_ws.go\<close>), \<open>VaultCmd\<close> (\<open>cmd/valetfs/vault.go\<close>).
  \<^item> Commands: \<open>Config\<close> (\<open>internal/config\<close>), \<open>Startup\<close> (\<open>serve\<close> up to the running connection), \<open>Cli\<close> (file commands of
    \<open>main.go\<close>), \<open>Exec\<close> (\<open>cmd/valetfs/exec.go\<close>), \<open>Commands\<close> (the switch of \<open>main\<close>, the client commands, completion, \<open>vaults\<close>),
    \<open>SetupClaude\<close> (\<open>cmd/valetfs/setupclaude.go\<close>), \<open>Process\<close> (\<open>internal/hardening\<close>, \<open>hub.go\<close>, the repository on disk, and \<open>serve\<close> as a
    process).

  \<^bold>\<open>How state and operations correspond.\<close> A Go struct is a record, a method a function from its state to
  the new state and its results, an error a value of a sum or option type. A mutex is the
  atomicity of the method that holds it. Callbacks are fields of a configuration record; what a
  goroutine or a timer does is an event of its own, so that interleavings are sequences of steps
  (\<open>serve_step\<close>, \<open>client_step\<close>, \<open>dual_reach\<close>, \<open>hub_run\<close>, \<open>ws_step\<close>, \<open>dav_reach\<close>, \<open>mount_cycles\<close>). Time, random bytes and the outcome of system calls
  are arguments. Frames are byte lists down to the JSON text. The record \<open>world\<close> of \<open>Controller\<close> puts hub,
  daemon and network together: a command of the controller runs against the models of both.

  \<^bold>\<open>Interfaces.\<close> \<open>file_store\<close> (what a write, a read and a removal promise, interpreted by \<open>MemFS\<close> as \<open>mem\<close>),
  \<open>rpc_service\<close> and \<open>node_host\<close> (what the dispatcher needs of handlers and the node of its host, interpreted by
  the daemon as \<open>served\<close>), and \<open>control_link\<close> (a frame that is sent is served and answered, interpreted by
  the sealed connection through the hub as \<open>sealed\<close>) state what one component relies on in another;
  their lemmas are proved once and used through the interpretations.

  \<^bold>\<open>What the lemmas show.\<close> File system: exact accounting and quota, point updates, manifest, removal, what
  failing calls leave; the front ends refine positional and chunked access, and WebDAV is closed without
  its token. Daemon: the control API is
  closed without its token, recursive removal ends and is exact, every run keeps the file system
  consistent, the loss of the vault locks, a push is what a pull returns. Sessions: only authorised
  vaults are heard under version 2, handshakes complete and deliver, a connection settles once, what
  can move the node at all. Hub and transport: admission by token, relay within a session, dialling
  pairs exactly two ends, the order of a connection's callbacks, half-open sockets are given up,
  reconnecting ends with a connection or a locked daemon, pairing over the older transport ends and
  keeps its order. Vault: a map on disk that survives reopening
  and a change of passphrase; pairings are found again. Commands: copy and print, exec and its secret
  files, configuration, a merge into a settings file that keeps everything else and is written whole, the
  life of the process from its hardening to the signal, and the composition from \<open>serve\<close> to a synchronised vault. Lemmas that show
  behaviour the code does not intend say so in the text before them.

  \<^bold>\<open>Assumptions.\<close> Code outside the repository is a parameter with named laws: \<open>crypto_laws\<close> (X25519, HKDF,
  ChaCha20-Poly1305), the record \<open>noise\<close> with its laws, \<open>vault_laws\<close>, \<open>gcm_auth\<close> and \<open>no_collision\<close> (Argon2id, AES-GCM,
  SHA-256, text of times), \<open>url_laws\<close> (\<open>net/url\<close> on plain addresses), \<open>clock_laws\<close> (time does not run backwards and a pause lasts), the environment record \<open>env\<close> (time
  formats, out-of-range float conversion). Each is satisfied by a concrete instance in the examples
  of its theory.

  \<^bold>\<open>Bounds and fuel.\<close> The JSON parser runs on fuel \<open>2 * length + 2\<close>, and a lemma shows that more fuel never
  changes the result; \<open>removeRecursive\<close> and the other recursions over the tree get its depth, which is
  shown to be enough; \<open>fsCopy\<close> of the command line returns \<open>None\<close> when its fuel runs out, because the code
  may not end there; the reconnect loop and the loops of pairing are partial functions shown to be defined; the
  decoder of settings gets the length of the text as its rounds, which is shown to be enough. Integers of Go are
  \<open>int\<close> with \<open>wrap64\<close> written out where they can overflow, file modes 32-bit words.

  \<^bold>\<open>Not modelled.\<close> Texts: help, the completion script, the drawing of QR codes, logging and the statistics of a
  peer connection. Third-party code behind its parameters: \<open>pion/webrtc\<close>, the Noise library, \<open>cgofuse\<close>, the WebDAV handler, the
  web socket library, \<open>net/http\<close>. The commands run for a leftover mount and for a drive letter, whose outcome the code ignores. What
  \<open>go-git\<close> stores of a history. The listening socket of the \<open>hub\<close> command.
\<close>

end
